(* ===== verification/Prelude.thy ===== *)
theory Prelude
  imports Main "HOL-Library.Word"
begin

text \<open>
  Shared vocabulary of the development: the machine integers of the reader, the error values
  of \<^verbatim>\<open>core/src/lib.rs\<close>, the byte source (\<^verbatim>\<open>Read + Seek\<close>), the pieces of the Rust standard
  library the sources use (slicing, checked and saturating arithmetic, \<^verbatim>\<open>Ordering\<close>,
  \<^verbatim>\<open>Iterator::position\<close>), and the generic facts on lists, words and results that the
  component theories rely on.

  Conventions. \<open>usize\<close> is \<open>nat\<close> (the crate targets 64-bit hosts and bounds every sum it
  forms from on-disk fields); \<open>u8\<close> to \<open>u64\<close> are words. A fallible operation returns
  \<open>apfs_error + 'a\<close> with \<open>Inl\<close> the error, so that every \<^verbatim>\<open>?\<close> and early return of the source
  is a branch.
\<close>

unbundle bit_operations_syntax

subsection \<open>Named collections\<close>

named_theorems layout_defs \<open>offsets, masks and other constants of the on-disk format\<close>
named_theorems res_simps \<open>simplification of result-valued (sum-typed) code\<close>

subsection \<open>Machine integers and buffers\<close>

type_synonym u8 = "8 word"
type_synonym u16 = "16 word"
type_synonym u32 = "32 word"
type_synonym u64 = "64 word"
type_synonym bytes = "u8 list"

text \<open>A Rust \<^verbatim>\<open>String\<close> is its UTF-8 byte sequence.\<close>

type_synonym rust_string = "u8 list"

definition u64_max :: u64 where
  "u64_max = - 1"

definition checked_mul_u64 :: "u64 \<Rightarrow> u64 \<Rightarrow> u64 option" where
  "checked_mul_u64 a b = (if unat a * unat b < 2 ^ 64 then Some (a * b) else None)"

definition saturating_mul_u64 :: "u64 \<Rightarrow> u64 \<Rightarrow> u64" where
  "saturating_mul_u64 a b = (if unat a * unat b < 2 ^ 64 then a * b else u64_max)"

definition saturating_add_u64 :: "u64 \<Rightarrow> u64 \<Rightarrow> u64" where
  "saturating_add_u64 a b = (if unat a + unat b < 2 ^ 64 then a + b else u64_max)"

text \<open>An unchecked \<^verbatim>\<open>a + b\<close> on \<open>u64\<close>: overflow is a panic (\<open>None\<close>).\<close>

definition add_u64 :: "u64 \<Rightarrow> u64 \<Rightarrow> u64 option" where
  "add_u64 a b = (if unat a + unat b < 2 ^ 64 then Some (a + b) else None)"

text \<open>\<^verbatim>\<open>std::cmp::Ordering\<close>, and \<^verbatim>\<open>cmp\<close> on pairs of integers (lexicographic).\<close>

datatype ordering = Less | Equal | Greater

definition cmp_u64_pair :: "u64 \<times> u64 \<Rightarrow> u64 \<times> u64 \<Rightarrow> ordering" where
  "cmp_u64_pair a b =
     (if fst a < fst b \<or> fst a = fst b \<and> snd a < snd b then Less
      else if a = b then Equal else Greater)"

subsection \<open>Errors\<close>

text \<open>
  \<^verbatim>\<open>ApfsError\<close>. The last constructor is no variant of the Rust enum: it stands for the
  unwinding of an arithmetic-overflow panic, which no \<^verbatim>\<open>Result\<close> carries, so that a panic is
  a visible outcome of the model.
\<close>

datatype io_error = UnexpectedEof | OtherIo nat

datatype apfs_error =
    Io io_error
  | NoValidSuperblock nat u32
  | ChecksumMismatch u64 u64 u64
  | OmapUnresolved u64 u64
  | UnexpectedObjectType string u32 u32
  | UnsupportedFusion
  | UnsupportedSpacemanCab u64
  | FieldOutOfRange string string u64 u64
  | CycleGuard nat
  | CheckpointTreeUnsupported string
  | SnapshotNotFound u64
  | Decmpfs string
  | Panic string

type_synonym 'a res = "apfs_error + 'a"

subsection \<open>Slices\<close>

text \<open>\<^verbatim>\<open>data.get(a..b)\<close>: \<open>None\<close> unless \<open>a \<le> b \<le> data.len()\<close>.\<close>

definition get_range :: "'a list \<Rightarrow> nat \<Rightarrow> nat \<Rightarrow> 'a list option" where
  "get_range xs a b = (if a \<le> b \<and> b \<le> length xs then Some (take (b - a) (drop a xs)) else None)"

text \<open>\<^verbatim>\<open>data.get(i)\<close>.\<close>

definition get_at :: "'a list \<Rightarrow> nat \<Rightarrow> 'a option" where
  "get_at xs i = (if i < length xs then Some (xs ! i) else None)"

text \<open>\<^verbatim>\<open>data.iter().position(|&b| b == 0).unwrap_or(data.len())\<close>, then \<^verbatim>\<open>&data[..end]\<close>.\<close>

definition until_nul :: "bytes \<Rightarrow> bytes" where
  "until_nul data = takeWhile (\<lambda>b. b \<noteq> 0) data"

lemma get_range_eq_Some [res_simps]:
  "get_range xs a b = Some ys \<longleftrightarrow> a \<le> b \<and> b \<le> length xs \<and> ys = take (b - a) (drop a xs)"
  by (auto simp: get_range_def)

lemma get_range_eq_None [res_simps]:
  "get_range xs a b = None \<longleftrightarrow> \<not> (a \<le> b \<and> b \<le> length xs)"
  by (auto simp: get_range_def)

lemma get_range_length: "get_range xs a b = Some ys \<Longrightarrow> length ys = b - a"
  by (auto simp: get_range_def split: if_splits)

lemma get_range_append:
  "a \<le> b \<Longrightarrow> b \<le> length xs \<Longrightarrow> get_range (xs @ ys) a b = get_range xs a b"
  by (auto simp: get_range_def)

lemma get_range_mid:
  "length xs = a \<Longrightarrow> length ys = n \<Longrightarrow> b = a + n \<Longrightarrow> get_range (xs @ ys @ zs) a b = Some ys"
  by (auto simp: get_range_def)

lemma get_at_eq_Some [res_simps]: "get_at xs i = Some x \<longleftrightarrow> i < length xs \<and> xs ! i = x"
  by (auto simp: get_at_def)

lemma get_at_eq_None [res_simps]: "get_at xs i = None \<longleftrightarrow> length xs \<le> i"
  by (auto simp: get_at_def)

lemma until_nul_no_nul: "b \<in> set (until_nul bs) \<Longrightarrow> b \<noteq> 0"
  by (auto simp: until_nul_def dest: set_takeWhileD)

lemma until_nul_append_nul:
  "0 \<notin> set bs \<Longrightarrow> until_nul (bs @ 0 # rest) = bs"
  unfolding until_nul_def by (subst takeWhile_append2) auto

subsection \<open>The byte source\<close>

text \<open>
  A \<^verbatim>\<open>Read + Seek\<close> source. The sources only ever call \<^verbatim>\<open>seek(SeekFrom::Start(off))\<close> followed
  by \<^verbatim>\<open>read_exact\<close> into a buffer of known length, so a source is the function from offset and length
  to the outcome of that pair of calls; a failure says which of the two calls failed. The
  theory \<open>Device\<close> has the source with its position, and the calls one by one. The source itself is the
  caller's, hence a parameter of every operation.
\<close>

datatype io_fault = SeekFault io_error | ReadFault io_error

type_synonym reader = "u64 \<Rightarrow> nat \<Rightarrow> io_fault + bytes"

primrec fault_error :: "io_fault \<Rightarrow> io_error" where
  "fault_error (SeekFault e) = e"
| "fault_error (ReadFault e) = e"

text \<open>\<^verbatim>\<open>reader.seek(..)?; reader.read_exact(&mut buf)?\<close>, with \<^verbatim>\<open>From<io::Error>\<close> applied.\<close>

definition read_exact_at :: "reader \<Rightarrow> u64 \<Rightarrow> nat \<Rightarrow> bytes res" where
  "read_exact_at rd off n = (case rd off n of Inl e \<Rightarrow> Inl (Io (fault_error e)) | Inr bs \<Rightarrow> Inr bs)"

text \<open>A whole block at a block address, the byte offset computed with \<^verbatim>\<open>saturating_mul\<close>.\<close>

definition read_block_sat :: "reader \<Rightarrow> u64 \<Rightarrow> nat \<Rightarrow> bytes res" where
  "read_block_sat rd paddr block_size =
     read_exact_at rd (saturating_mul_u64 paddr (of_nat block_size)) block_size"

text \<open>\<^verbatim>\<open>std::io::Cursor\<close> over an in-memory image.\<close>

definition cursor :: "bytes \<Rightarrow> reader" where
  "cursor img off n =
     (if n \<le> length img - unat off then Inr (take n (drop (unat off) img)) else Inl (ReadFault UnexpectedEof))"

text \<open>What the clients of a source rely on: \<^verbatim>\<open>read_exact\<close> fills the whole buffer or fails.\<close>

locale byte_source =
  fixes rd :: reader
  assumes rd_fills: "rd off n = Inr bs \<Longrightarrow> length bs = n"
begin

lemma read_exact_at_length: "read_exact_at rd off n = Inr bs \<Longrightarrow> length bs = n"
  by (auto simp: read_exact_at_def split: sum.splits dest: rd_fills)

lemma read_block_sat_length: "read_block_sat rd p bs = Inr buf \<Longrightarrow> length buf = bs"
  by (auto simp: read_block_sat_def dest: read_exact_at_length)

end

interpretation cursor: byte_source "cursor img" for img
  by unfold_locales (auto simp: cursor_def split: if_splits)

lemma read_exact_at_Inr [res_simps]:
  "read_exact_at rd off n = Inr bs \<longleftrightarrow> rd off n = Inr bs"
  by (auto simp: read_exact_at_def split: sum.splits)

lemma map_sum_id_eq [res_simps]:
  "map_sum id f r = Inr y \<longleftrightarrow> (\<exists>x. r = Inr x \<and> y = f x)" "map_sum id f r = Inl e \<longleftrightarrow> r = Inl e"
  by (cases r; auto)+

subsection \<open>Lists and folds\<close>

lemma fold_cong_id: "(\<And>x. x \<in> set xs \<Longrightarrow> f x s = s) \<Longrightarrow> fold f xs s = s"
  by (induction xs) auto

lemma fold_filter_skip:
  "(\<And>x s. x \<in> set xs \<Longrightarrow> \<not> P x \<Longrightarrow> f x s = s) \<Longrightarrow> fold f (filter P xs) s = fold f xs s"
  by (induction xs arbitrary: s) auto

lemma unat_of_nat_u64: "n < 2 ^ 64 \<Longrightarrow> unat (of_nat n :: u64) = n"
  by (simp add: unat_of_nat take_bit_nat_eq_self)

lemma saturating_mul_u64_exact:
  "unat a * unat b < 2 ^ 64 \<Longrightarrow> unat (saturating_mul_u64 a b) = unat a * unat b"
  by (simp add: saturating_mul_u64_def unat_mult_lem [THEN iffD1])

end
