(* ===== verification/Bytes.thy ===== *)
theory Bytes
  imports Prelude
begin

text \<open>
  \<^verbatim>\<open>core/src/bytes.rs\<close>: the bounds-checked little-endian reads every parser goes through, with
  the encoder that is their inverse. The lemmas give the value of a read on every offset, in
  range or not, and the round trips used by the parsers' own round trips.
\<close>

subsection \<open>Little-endian words\<close>

text \<open>\<^verbatim>\<open>uN::from_le_bytes\<close> on a byte array, least significant byte first.\<close>

primrec le_word :: "bytes \<Rightarrow> 'a::len word" where
  "le_word [] = 0"
| "le_word (b # bs) = ucast b + 256 * le_word bs"

text \<open>\<^verbatim>\<open>uN::to_le_bytes\<close>, the inverse.\<close>

primrec to_le :: "nat \<Rightarrow> 'a::len word \<Rightarrow> bytes" where
  "to_le 0 w = []"
| "to_le (Suc n) w = ucast w # to_le n (drop_bit 8 w)"

text \<open>The integer a little-endian byte string denotes.\<close>

primrec le_int :: "bytes \<Rightarrow> int" where
  "le_int [] = 0"
| "le_int (b # bs) = uint b + 256 * le_int bs"

subsection \<open>Bounds-checked reads\<close>

definition arr :: "nat \<Rightarrow> bytes \<Rightarrow> nat \<Rightarrow> bytes" where
  "arr n data offset =
     (case get_range data offset (offset + n) of Some s \<Rightarrow> s | None \<Rightarrow> replicate n 0)"

definition le_u16 :: "bytes \<Rightarrow> nat \<Rightarrow> u16" where
  "le_u16 data offset = le_word (arr 2 data offset)"

definition le_u32 :: "bytes \<Rightarrow> nat \<Rightarrow> u32" where
  "le_u32 data offset = le_word (arr 4 data offset)"

definition le_u64 :: "bytes \<Rightarrow> nat \<Rightarrow> u64" where
  "le_u64 data offset = le_word (arr 8 data offset)"

subsection \<open>Facts\<close>

lemma length_arr [simp]: "length (arr n data off) = n"
  by (auto simp: arr_def get_range_def)

lemma length_to_le [simp]: "length (to_le n w) = n"
  by (induction n arbitrary: w) auto

lemma le_word_zeros [simp]: "le_word (replicate n 0) = 0"
  by (induction n) auto

lemma le_int_zeros [simp]: "le_int (replicate n 0) = 0"
  by (induction n) auto

lemma arr_in_range: "off + n \<le> length data \<Longrightarrow> arr n data off = take n (drop off data)"
  by (simp add: arr_def get_range_def)

lemma arr_out_of_range: "length data < off + n \<Longrightarrow> arr n data off = replicate n 0"
  by (simp add: arr_def get_range_def)

lemma le_reads_out_of_range:
  "length data < off + 2 \<Longrightarrow> le_u16 data off = 0"
  "length data < off + 4 \<Longrightarrow> le_u32 data off = 0"
  "length data < off + 8 \<Longrightarrow> le_u64 data off = 0"
  by (simp_all add: le_u16_def le_u32_def le_u64_def arr_out_of_range)

lemma arr_mid: "length xs = off \<Longrightarrow> length ys = n \<Longrightarrow> arr n (xs @ ys @ zs) off = ys"
  by (simp add: arr_def get_range_mid)

lemma arr_append: "off + n \<le> length xs \<Longrightarrow> arr n (xs @ ys) off = arr n xs off"
  by (simp add: arr_in_range)

lemma arr_drop: "length xs \<le> off \<Longrightarrow> arr n (xs @ ys) off = arr n ys (off - length xs)"
  by (auto simp: arr_def get_range_def)

lemma arr_full: "length xs = n \<Longrightarrow> arr n xs 0 = xs"
  by (simp add: arr_in_range)

text \<open>Reads of a structure written as a concatenation of fields, at literal offsets.\<close>

lemmas arr_fields = arr_drop arr_append arr_full

lemma le_int_nonneg [simp]: "0 \<le> le_int bs"
  by (induction bs) auto

lemma le_int_bound: "le_int bs < 2 ^ (8 * length bs)"
proof (induction bs)
  case (Cons b bs)
  have "uint b < 256" using uint_lt2p [of b] by simp
  then show ?case using Cons by (simp add: power_add)
qed simp

lemma le_word_eq_of_int: "le_word bs = (word_of_int (le_int bs) :: 'a::len word)"
proof (induction bs)
  case (Cons b bs)
  have "(ucast b :: 'a word) = word_of_int (uint b)"
    by (simp add: unsigned_of_int)
  with Cons show ?case by simp
qed simp

lemma uint_le_word:
  assumes "8 * length bs \<le> LENGTH('a::len)"
  shows "uint (le_word bs :: 'a word) = le_int bs"
proof -
  have "le_int bs < 2 ^ LENGTH('a)"
    using le_int_bound [of bs] assms
    by (meson one_le_numeral order_less_le_trans power_increasing)
  then show ?thesis
    by (simp add: le_word_eq_of_int uint_word_of_int)
qed

lemma unat_le_word:
  "8 * length bs \<le> LENGTH('a::len) \<Longrightarrow> unat (le_word bs :: 'a word) = nat (le_int bs)"
  by (simp add: uint_le_word flip: nat_uint_eq)

lemma ucast_ucast_u8:
  "8 \<le> LENGTH('a::len) \<Longrightarrow> (ucast (ucast (w :: 'a word) :: u8) :: 'a word) = take_bit 8 w"
  by (rule bit_word_eqI) (auto simp: bit_simps)

lemma take_bit_split8:
  "take_bit 8 (w :: 'a::len word) + 256 * take_bit n (drop_bit 8 w) = take_bit (8 + n) w"
proof -
  have "256 * take_bit n (drop_bit 8 w) = push_bit 8 (take_bit n (drop_bit 8 w))"
    by (simp add: push_bit_eq_mult mult.commute)
  moreover have "take_bit 8 w + push_bit 8 (take_bit n (drop_bit 8 w))
      = take_bit 8 w OR push_bit 8 (take_bit n (drop_bit 8 w))"
    by (rule disjunctive_add_eq_or) (rule bit_word_eqI, auto simp: bit_simps)
  moreover have "\<dots> = take_bit (8 + n) w"
    by (rule bit_word_eqI) (auto simp: bit_simps)
  ultimately show ?thesis by simp
qed

lemma le_word_to_le:
  "8 * n \<le> LENGTH('a::len) \<Longrightarrow> le_word (to_le n w) = take_bit (8 * n) (w :: 'a word)"
proof (induction n arbitrary: w)
  case (Suc n)
  then show ?case
    using take_bit_split8 [of w "8 * n"] by (simp add: ucast_ucast_u8)
qed simp

lemma le_word_to_le_u16 [simp]: "le_word (to_le 2 w) = (w :: u16)"
  by (subst le_word_to_le) (simp_all add: take_bit_word_eq_self)

lemma le_word_to_le_u32 [simp]: "le_word (to_le 4 w) = (w :: u32)"
  by (subst le_word_to_le) (simp_all add: take_bit_word_eq_self)

lemma le_word_to_le_u64 [simp]: "le_word (to_le 8 w) = (w :: u64)"
  by (subst le_word_to_le) (simp_all add: take_bit_word_eq_self)

lemma le_int_inj: "length bs = length cs \<Longrightarrow> le_int bs = le_int cs \<Longrightarrow> bs = cs"
proof (induction bs cs rule: list_induct2)
  case (Cons b bs c cs)
  have "uint b < 256" "uint c < 256" "0 \<le> uint b" "0 \<le> uint c"
    using uint_lt2p [of b] uint_lt2p [of c] by simp_all
  then have "uint b = (uint b + 256 * le_int bs) mod 256" "uint c = (uint c + 256 * le_int cs) mod 256"
    by simp_all
  moreover have "uint b + 256 * le_int bs = uint c + 256 * le_int cs" using Cons.prems by simp
  ultimately have "uint b = uint c" by metis
  moreover from this have "le_int bs = le_int cs" using Cons.prems by simp
  ultimately have "uint b = uint c" "le_int bs = le_int cs" .
  with Cons show ?case by (simp add: unsigned_word_eqI)
qed simp

lemma le_word_inj:
  "length bs = length cs \<Longrightarrow> 8 * length bs \<le> LENGTH('a::len) \<Longrightarrow>
   (le_word bs :: 'a word) = le_word cs \<Longrightarrow> bs = cs"
  by (metis le_int_inj uint_le_word)

text \<open>Field reads in a structure laid out as a prefix, the encoded field and a rest.\<close>

lemma le_u16_field: "length xs = off \<Longrightarrow> le_u16 (xs @ to_le 2 w @ zs) off = w"
  by (simp add: le_u16_def arr_mid)

lemma le_u32_field: "length xs = off \<Longrightarrow> le_u32 (xs @ to_le 4 w @ zs) off = w"
  by (simp add: le_u32_def arr_mid)

lemma le_u64_field: "length xs = off \<Longrightarrow> le_u64 (xs @ to_le 8 w @ zs) off = w"
  by (simp add: le_u64_def arr_mid)

lemma le_u64_append: "off + 8 \<le> length xs \<Longrightarrow> le_u64 (xs @ ys) off = le_u64 xs off"
  by (simp add: le_u64_def arr_append)

lemma le_u32_append: "off + 4 \<le> length xs \<Longrightarrow> le_u32 (xs @ ys) off = le_u32 xs off"
  by (simp add: le_u32_def arr_append)

lemma le_u16_append: "off + 2 \<le> length xs \<Longrightarrow> le_u16 (xs @ ys) off = le_u16 xs off"
  by (simp add: le_u16_def arr_append)

lemmas le_reads_append = le_u16_append le_u32_append le_u64_append

subsection \<open>Reading inside concatenations\<close>

lemma length_concat_chunks: "(\<And>x. x \<in> set xs \<Longrightarrow> length (f x) = L) \<Longrightarrow> length (concat (map f xs)) = length xs * L"
  by (induction xs) auto

lemma concat_split_nth:
  "i < length xss \<Longrightarrow> concat xss = concat (take i xss) @ xss ! i @ concat (drop (Suc i) xss)"
  by (metis concat.simps(2) concat_append id_take_nth_drop)

lemma arr_concat_chunk:
  assumes "\<And>x. x \<in> set xs \<Longrightarrow> length (f x) = L" "i < length xs" "j + n \<le> L" "off = length pre + i * L + j"
  shows "arr n (pre @ concat (map f xs) @ post) off = arr n (f (xs ! i)) j"
proof -
  have "concat (map f xs) = concat (map f (take i xs)) @ f (xs ! i) @ concat (map f (drop (Suc i) xs))"
    using concat_split_nth [of i "map f xs"] assms(2) by (simp add: take_map drop_map)
  moreover have "length (concat (map f (take i xs))) = i * L"
    using assms(1,2) by (subst length_concat_chunks [of _ f L]) (auto dest: in_set_takeD)
  moreover have "length (f (xs ! i)) = L" using assms by simp
  ultimately show ?thesis
    using assms(3,4) by (simp add: arr_drop arr_append)
qed

lemma get_range_concat:
  assumes "i < length xss" "a = length pre + length (concat (take i xss))" "b = a + length (xss ! i)"
  shows "get_range (pre @ concat xss @ post) a b = Some (xss ! i)"
proof -
  have "pre @ concat xss @ post
      = (pre @ concat (take i xss)) @ xss ! i @ (concat (drop (Suc i) xss) @ post)"
    using concat_split_nth [OF assms(1)] by simp
  then show ?thesis by (simp only:) (rule get_range_mid, use assms(2,3) in auto)
qed

text \<open>A read at any offset of any buffer returns the little-endian integer of the bytes
  there, and 0 when the field would run past the end: no offset makes it fail.\<close>

lemma le_u64_total:
  "uint (le_u64 data off) =
     (if off + 8 \<le> length data then le_int (take 8 (drop off data)) else 0)"
  by (simp add: le_u64_def uint_le_word arr_in_range arr_out_of_range)

end
