(* ===== verification/Object.thy ===== *)
theory Object
  imports Bytes
begin

text \<open>
  \<^verbatim>\<open>core/src/object.rs\<close>: the object header and the Fletcher-64 checksum that gates every
  block the reader trusts. The checksum is the code's 64-bit word loop; the lemmas relate it
  to the two integer sums it stands for, show that two blocks have the same checksum exactly
  when both sums agree modulo \<open>2\<^sup>3\<^sup>2 - 1\<close>, and derive what it detects.
\<close>

subsection \<open>Object header\<close>

definition OBJ_PHYS_LEN :: nat where [layout_defs]: "OBJ_PHYS_LEN = 32"

record obj_phys =
  o_cksum :: u64
  o_oid :: u64
  o_xid :: u64
  o_type_raw :: u32
  o_subtype :: u32

definition obj_phys_parse :: "bytes \<Rightarrow> obj_phys option" where
  "obj_phys_parse block =
     (if length block < OBJ_PHYS_LEN then None
      else Some \<lparr> o_cksum = le_u64 block 0, o_oid = le_u64 block 8, o_xid = le_u64 block 16,
                  o_type_raw = le_u32 block 24, o_subtype = le_u32 block 28 \<rparr>)"

definition obj_type :: "obj_phys \<Rightarrow> u16" where
  "obj_type o' = ucast (o_type_raw o' AND 0x0000ffff)"

subsection \<open>Fletcher-64\<close>

definition fletcher64_stored :: "bytes \<Rightarrow> u64" where
  "fletcher64_stored block = le_u64 block 0"

definition FLETCHER_MOD :: u64 where
  "FLETCHER_MOD = 0xffffffff"

text \<open>\<^verbatim>\<open>chunks_exact(4)\<close>: the whole 4-byte words, a trailing partial word dropped.\<close>

fun chunks_exact4 :: "bytes \<Rightarrow> bytes list" where
  "chunks_exact4 (a # b # c # d # rest) = [a, b, c, d] # chunks_exact4 rest"
| "chunks_exact4 _ = []"

definition fletcher_value :: "nat \<Rightarrow> bytes \<Rightarrow> u64" where
  "fletcher_value i w = (if i < 2 then 0 else ucast (le_word w :: u32))"

primrec fletcher_loop :: "bytes list \<Rightarrow> nat \<Rightarrow> u64 \<Rightarrow> u64 \<Rightarrow> u64 \<times> u64" where
  "fletcher_loop [] i sum_lo sum_hi = (sum_lo, sum_hi)"
| "fletcher_loop (w # ws) i sum_lo sum_hi =
     (let lo = (sum_lo + fletcher_value i w) mod FLETCHER_MOD;
          hi = (sum_hi + lo) mod FLETCHER_MOD
      in fletcher_loop ws (Suc i) lo hi)"

definition fletcher64_checksum :: "bytes \<Rightarrow> u64" where
  "fletcher64_checksum block =
     (case fletcher_loop (chunks_exact4 block) 0 0 0 of (sum_lo, sum_hi) \<Rightarrow>
        let check_lo = FLETCHER_MOD - ((sum_lo + sum_hi) mod FLETCHER_MOD);
            check_hi = FLETCHER_MOD - ((sum_lo + check_lo) mod FLETCHER_MOD)
        in (push_bit 32 check_hi) OR check_lo)"

subsection \<open>The integer sums\<close>

abbreviation fmod :: int where
  "fmod \<equiv> 4294967295"

text \<open>The words a checksum runs over, the two words of \<open>o_cksum\<close> read as zero.\<close>

definition fletcher_words :: "bytes \<Rightarrow> int list" where
  "fletcher_words block =
     (case chunks_exact4 block of
        a # b # ws \<Rightarrow> 0 # 0 # map le_int ws
      | ws \<Rightarrow> map (\<lambda>_. 0) ws)"

text \<open>The plain sum and the sum of prefix sums, before any reduction.\<close>

primrec plain_sums :: "int list \<Rightarrow> int \<Rightarrow> int \<Rightarrow> int \<times> int" where
  "plain_sums [] lo hi = (lo, hi)"
| "plain_sums (w # ws) lo hi = plain_sums ws (lo + w) (hi + (lo + w))"

primrec weighted_sum :: "int list \<Rightarrow> int" where
  "weighted_sum [] = 0"
| "weighted_sum (w # ws) = int (Suc (length ws)) * w + weighted_sum ws"

lemma plain_sums_closed:
  "plain_sums ws lo hi = (lo + sum_list ws, hi + int (length ws) * lo + weighted_sum ws)"
  by (induction ws arbitrary: lo hi) (auto simp: algebra_simps)

definition fletcher_lo :: "bytes \<Rightarrow> int" where
  "fletcher_lo block = sum_list (fletcher_words block) mod fmod"

definition fletcher_hi :: "bytes \<Rightarrow> int" where
  "fletcher_hi block = weighted_sum (fletcher_words block) mod fmod"


subsection \<open>The loop computes the sums\<close>

lemma le_int_words: "length w = 4 \<Longrightarrow> le_int w < 4294967296"
  using le_int_bound [of w] by simp

lemma chunks_exact4_length: "w \<in> set (chunks_exact4 bs) \<Longrightarrow> length w = 4"
  by (induction bs rule: chunks_exact4.induct) auto

lemma uint_fletcher_value:
  "length w = 4 \<Longrightarrow> uint (fletcher_value i w) = (if i < 2 then 0 else le_int w)"
  using le_int_words [of w]
  by (simp add: fletcher_value_def uint_le_word unsigned_ucast_eq take_bit_int_eq_self)

lemma uint_mod_fmod: "uint (x mod FLETCHER_MOD) = uint x mod fmod"
  by (simp add: FLETCHER_MOD_def uint_mod)

lemma uint_add_small:
  "uint (a :: u64) + uint b < 18446744073709551616 \<Longrightarrow> uint (a + b) = uint a + uint b"
  by (simp add: uint_add_lem [THEN iffD1])

lemma fletcher_step:
  assumes "uint lo < fmod" "uint v < 4294967296"
  shows "uint ((lo + v) mod FLETCHER_MOD) = (uint lo + uint v) mod fmod"
  using assms by (simp add: uint_mod_fmod uint_add_small)

text \<open>The word the loop adds at position \<open>i\<close>.\<close>

primrec numbered_words :: "nat \<Rightarrow> bytes list \<Rightarrow> int list" where
  "numbered_words i [] = []"
| "numbered_words i (w # ws) = (if i < 2 then 0 else le_int w) # numbered_words (Suc i) ws"

lemma numbered_words_ge2: "2 \<le> i \<Longrightarrow> numbered_words i ws = map le_int ws"
  by (induction ws arbitrary: i) auto

lemma fletcher_words_numbered: "fletcher_words b = numbered_words 0 (chunks_exact4 b)"
  by (auto simp: fletcher_words_def numbered_words_ge2 split: list.splits)

lemma fletcher_loop_sums:
  assumes "\<And>w. w \<in> set ws \<Longrightarrow> length w = 4" "uint lo < fmod" "uint hi < fmod"
    and "fletcher_loop ws i lo hi = (lo', hi')"
  shows "uint lo' = (uint lo + sum_list (numbered_words i ws)) mod fmod \<and>
         uint hi' = (uint hi + int (length ws) * uint lo + weighted_sum (numbered_words i ws)) mod fmod"
  using assms
proof (induction ws arbitrary: i lo hi)
  case (Cons w ws)
  define v where "v = uint (fletcher_value i w)"
  define lo1 where "lo1 = (lo + fletcher_value i w) mod FLETCHER_MOD"
  define hi1 where "hi1 = (hi + lo1) mod FLETCHER_MOD"
  have w4: "length w = 4" using Cons.prems by simp
  have v: "v = (if i < 2 then 0 else le_int w)"
    unfolding v_def using w4 by (rule uint_fletcher_value)
  have "v < 4294967296" using le_int_words [OF w4] v by simp
  then have lo1: "uint lo1 = (uint lo + v) mod fmod"
    using fletcher_step [of lo "fletcher_value i w"] Cons.prems by (simp add: v_def lo1_def)
  then have lo1b: "uint lo1 < fmod" by simp
  then have hi1: "uint hi1 = (uint hi + uint lo1) mod fmod"
    using fletcher_step [of hi lo1] Cons.prems by (simp add: hi1_def)
  have len: "length (numbered_words j ws) = length ws" for j
    by (induction ws arbitrary: j) auto
  define W where "W = weighted_sum (numbered_words (Suc i) ws)"
  have ih: "uint lo' = (uint lo1 + sum_list (numbered_words (Suc i) ws)) mod fmod \<and>
        uint hi' = (uint hi1 + int (length ws) * uint lo1 + W) mod fmod"
    unfolding W_def using Cons.prems lo1b hi1
    by (intro Cons.IH) (simp_all add: lo1_def hi1_def Let_def)
  have "uint hi' = (uint hi + (uint lo + v) + int (length ws) * (uint lo + v) + W) mod fmod"
    unfolding conjunct2 [OF ih] hi1 lo1
    by (rule mod_add_cong [OF mod_add_cong [OF _ mod_mult_cong] refl]) (simp_all add: mod_simps)
  moreover have "uint lo' = (uint lo + v + sum_list (numbered_words (Suc i) ws)) mod fmod"
    unfolding conjunct1 [OF ih] lo1 by (simp add: mod_simps)
  ultimately show ?case
    by (simp add: v [symmetric] len W_def algebra_simps)
qed auto

definition fletcher_fold :: "int \<Rightarrow> int \<Rightarrow> int" where
  "fletcher_fold lo hi =
     (let cl = fmod - (lo + hi) mod fmod; ch = fmod - (lo + cl) mod fmod in ch * 4294967296 + cl)"

lemma uint_or_halves:
  assumes "uint (h :: u64) < 4294967296" "uint l < 4294967296"
  shows "uint (push_bit 32 h OR l) = uint h * 4294967296 + uint l"
proof -
  have l: "take_bit 32 l = l"
    using assms by (simp add: take_bit_eq_mod word_uint_eq_iff uint_mod)
  have "push_bit 32 h OR l = push_bit 32 h + l"
    by (rule disjunctive_add_eq_or [symmetric], subst l [symmetric])
      (rule bit_word_eqI, auto simp: bit_simps)
  moreover have "push_bit 32 h = h * 4294967296"
    by (simp add: push_bit_eq_mult)
  moreover have p: "uint (h * 4294967296) = uint h * 4294967296"
    using assms by (simp add: uint_mult_lem [THEN iffD1])
  ultimately show ?thesis
    using assms by (simp add: uint_add_lem [THEN iffD1])
qed

lemma uint_fletcher64:
  "uint (fletcher64_checksum b) = fletcher_fold (fletcher_lo b) (fletcher_hi b)"
proof -
  obtain lo hi where lh: "fletcher_loop (chunks_exact4 b) 0 0 0 = (lo, hi)" by fastforce
  then have s: "uint lo = fletcher_lo b \<and> uint hi = fletcher_hi b"
    using fletcher_loop_sums [of "chunks_exact4 b" 0 0 0 lo hi] chunks_exact4_length
    by (simp add: fletcher_lo_def fletcher_hi_def fletcher_words_numbered)
  define cl where "cl = FLETCHER_MOD - ((lo + hi) mod FLETCHER_MOD)"
  define ch where "ch = FLETCHER_MOD - ((lo + cl) mod FLETCHER_MOD)"
  have b: "uint lo < fmod" "uint hi < fmod" using s by (auto simp: fletcher_lo_def fletcher_hi_def)
  have sub: "uint (FLETCHER_MOD - x mod FLETCHER_MOD) = fmod - uint x mod fmod" for x :: u64
  proof -
    have "uint (x mod FLETCHER_MOD) \<le> uint FLETCHER_MOD"
      unfolding uint_mod_fmod by (simp add: FLETCHER_MOD_def less_imp_le)
    then have "uint (FLETCHER_MOD - x mod FLETCHER_MOD)
        = uint FLETCHER_MOD - uint (x mod FLETCHER_MOD)"
      by (simp add: uint_sub_lem)
    then show ?thesis unfolding uint_mod_fmod by (simp add: FLETCHER_MOD_def)
  qed
  have cl: "uint cl = fmod - (uint lo + uint hi) mod fmod"
    unfolding cl_def sub using b by (simp add: uint_add_small)
  have clb: "uint cl \<le> fmod" unfolding cl by simp
  have ch: "uint ch = fmod - (uint lo + uint cl) mod fmod"
    unfolding ch_def sub using b clb by (simp add: uint_add_small)
  have "uint ch \<le> fmod" unfolding ch by simp
  moreover have "fletcher64_checksum b = push_bit 32 ch OR cl"
    by (simp add: fletcher64_checksum_def lh cl_def ch_def Let_def)
  ultimately show ?thesis
    using clb uint_or_halves [of ch cl] s cl ch by (simp add: fletcher_fold_def Let_def)
qed


subsection \<open>What the checksum tells apart\<close>

lemma mod_add_right_cancel:
  assumes "(a + c) mod fmod = (b + c) mod fmod"
  shows "a mod fmod = b mod fmod"
proof -
  have "x mod fmod = ((x + c) mod fmod - c) mod fmod" for x :: int
    by (simp add: mod_diff_left_eq)
  from this [of a] this [of b] assms show ?thesis by (simp only:)
qed

lemma fletcher_fold_inj:
  assumes "0 \<le> lo" "lo < fmod" "0 \<le> hi" "hi < fmod" "0 \<le> lo'" "lo' < fmod" "0 \<le> hi'" "hi' < fmod"
  shows "fletcher_fold lo hi = fletcher_fold lo' hi' \<longleftrightarrow> lo = lo' \<and> hi = hi'"
proof
  define cl where "cl = fmod - (lo + hi) mod fmod"
  define cl' where "cl' = fmod - (lo' + hi') mod fmod"
  define ch where "ch = fmod - (lo + cl) mod fmod"
  define ch' where "ch' = fmod - (lo' + cl') mod fmod"
  note defs = cl_def cl'_def ch_def ch'_def
  have rng: "0 < cl" "cl \<le> fmod" "0 < cl'" "cl' \<le> fmod" "0 < ch" "ch \<le> fmod" "0 < ch'" "ch' \<le> fmod"
    by (simp_all add: defs)
  assume "fletcher_fold lo hi = fletcher_fold lo' hi'"
  then have "ch * 4294967296 + cl = ch' * 4294967296 + cl'"
    by (simp add: fletcher_fold_def defs Let_def)
  moreover have "cl = (ch * 4294967296 + cl) mod 4294967296"
      "cl' = (ch' * 4294967296 + cl') mod 4294967296"
    using rng by simp_all
  ultimately have eq_cl: "cl = cl'" by (simp only:)
  with \<open>ch * 4294967296 + cl = ch' * 4294967296 + cl'\<close> have eq: "ch = ch'" "cl = cl'" by simp_all
  have "(lo + cl) mod fmod = (lo' + cl) mod fmod" using eq by (simp add: ch_def ch'_def)
  then have "lo mod fmod = lo' mod fmod" by (rule mod_add_right_cancel)
  with assms have lo: "lo = lo'" by simp
  have "(hi + lo) mod fmod = (hi' + lo) mod fmod"
    using eq lo by (simp add: cl_def cl'_def add.commute)
  then have "hi mod fmod = hi' mod fmod" by (rule mod_add_right_cancel)
  with assms lo show "lo = lo' \<and> hi = hi'" by simp
qed simp

lemma fletcher64_eq_iff:
  "fletcher64_checksum b = fletcher64_checksum c \<longleftrightarrow>
     fletcher_lo b = fletcher_lo c \<and> fletcher_hi b = fletcher_hi c"
proof -
  have "fletcher64_checksum b = fletcher64_checksum c \<longleftrightarrow>
      uint (fletcher64_checksum b) = uint (fletcher64_checksum c)"
    by (simp add: word_uint_eq_iff)
  then show ?thesis
    unfolding uint_fletcher64
    by (simp add: fletcher_fold_inj fletcher_lo_def fletcher_hi_def)
qed

lemma fletcher64_checksum_nonzero: "fletcher64_checksum b \<noteq> 0"
proof -
  define cl where "cl = fmod - (fletcher_lo b + fletcher_hi b) mod fmod"
  have "0 < cl" "0 < fmod - (fletcher_lo b + cl) mod fmod" by (simp_all add: cl_def)
  then have "0 < uint (fletcher64_checksum b)"
    unfolding uint_fletcher64 fletcher_fold_def Let_def cl_def [symmetric] by simp
  then show ?thesis by auto
qed

lemma chunks_exact4_append:
  "length xs mod 4 = 0 \<Longrightarrow> chunks_exact4 (xs @ ys) = chunks_exact4 xs @ chunks_exact4 ys"
  by (induction xs rule: chunks_exact4.induct) auto

lemma length_chunks_exact4: "length (chunks_exact4 bs) = length bs div 4"
  by (induction bs rule: chunks_exact4.induct) auto

lemma length_four: "length w = 4 \<Longrightarrow> \<exists>a b c d. w = [a, b, c, d]"
  by (auto simp: numeral_eq_Suc length_Suc_conv)

lemma chunks_exact4_word: "length w = 4 \<Longrightarrow> chunks_exact4 w = [w]"
  using length_four [of w] by auto

lemma fletcher_words_append:
  assumes "length xs mod 4 = 0" "8 \<le> length xs"
  shows "fletcher_words (xs @ ys) = fletcher_words xs @ map le_int (chunks_exact4 ys)"
proof -
  have "2 \<le> length (chunks_exact4 xs)" using assms by (simp add: length_chunks_exact4)
  then obtain a b ws where "chunks_exact4 xs = a # b # ws"
    by (metis Suc_le_length_iff numeral_2_eq_2)
  then show ?thesis using assms by (simp add: fletcher_words_def chunks_exact4_append)
qed

lemma weighted_sum_append:
  "weighted_sum (xs @ ys) = weighted_sum xs + int (length ys) * sum_list xs + weighted_sum ys"
  by (induction xs) (auto simp: algebra_simps)


lemma replicate_four: "replicate 4 x = [x, x, x, x]"
  by (simp add: numeral_eq_Suc)

lemma le_int_ones: "le_int (replicate 4 0xff) = fmod"
  by (simp add: replicate_four)

lemma le_int_mod_fmod_eq:
  assumes "length w = 4" "length v = 4" "le_int w mod fmod = le_int v mod fmod"
  shows "w = v \<or> {w, v} = {replicate 4 0, replicate 4 0xff}"
proof -
  have r: "0 \<le> le_int w" "le_int w \<le> fmod" "0 \<le> le_int v" "le_int v \<le> fmod"
    using le_int_words [OF assms(1)] le_int_words [OF assms(2)] by simp_all
  have m: "x mod fmod = (if x = fmod then 0 else x)" if "0 \<le> x" "x \<le> fmod" for x :: int
    using that by simp
  note full = le_int_ones
  consider "le_int w = le_int v" | "le_int w = 0" "le_int v = fmod" | "le_int w = fmod" "le_int v = 0"
    using assms(3) unfolding m [OF r(1,2)] m [OF r(3,4)] by (auto split: if_splits)
  then show ?thesis
  proof cases
    case 1
    then show ?thesis using le_int_inj assms by metis
  next
    case 2
    then have "w = replicate 4 0" "v = replicate 4 0xff"
      using le_int_inj [of w "replicate 4 0"] le_int_inj [of v "replicate 4 0xff"] full assms
      by simp_all
    then show ?thesis by simp
  next
    case 3
    then have "v = replicate 4 0" "w = replicate 4 0xff"
      using le_int_inj [of v "replicate 4 0"] le_int_inj [of w "replicate 4 0xff"] full assms
      by simp_all
    then show ?thesis by auto
  qed
qed

lemma fletcher_words_mid:
  assumes "length pre mod 4 = 0" "8 \<le> length pre" "length w = 4"
  shows "fletcher_words (pre @ w @ post)
    = fletcher_words pre @ le_int w # map le_int (chunks_exact4 post)"
  using assms by (simp add: fletcher_words_append chunks_exact4_append chunks_exact4_word)

lemma fletcher64_word_change:
  assumes "length pre mod 4 = 0" "8 \<le> length pre" "length w = 4" "length v = 4"
  shows "fletcher64_checksum (pre @ w @ post) = fletcher64_checksum (pre @ v @ post) \<longleftrightarrow>
    w = v \<or> {w, v} = {replicate 4 0, replicate 4 0xff}"
proof -
  define a where "a = sum_list (fletcher_words pre) + sum_list (map le_int (chunks_exact4 post))"
  define k where "k = int (Suc (length (chunks_exact4 post)))"
  define c where "c = weighted_sum (fletcher_words pre) + k * sum_list (fletcher_words pre)
    + weighted_sum (map le_int (chunks_exact4 post))"
  have "sum_list (fletcher_words (pre @ x @ post)) = le_int x + a" if "length x = 4" for x
    unfolding fletcher_words_mid [OF assms(1,2) that] by (simp add: a_def)
  then have lo: "fletcher_lo (pre @ x @ post) = (le_int x + a) mod fmod" if "length x = 4" for x
    unfolding fletcher_lo_def using that by (simp only:)
  have "weighted_sum (fletcher_words (pre @ x @ post)) = k * le_int x + c" if "length x = 4" for x
    unfolding fletcher_words_mid [OF assms(1,2) that]
    by (simp add: weighted_sum_append c_def k_def algebra_simps)
  then have hi: "fletcher_hi (pre @ x @ post) = (k * le_int x + c) mod fmod" if "length x = 4" for x
    unfolding fletcher_hi_def using that by (simp only:)
  show ?thesis
  proof
    assume "fletcher64_checksum (pre @ w @ post) = fletcher64_checksum (pre @ v @ post)"
    then have "(le_int w + a) mod fmod = (le_int v + a) mod fmod"
      using lo [OF assms(3)] lo [OF assms(4)] by (simp only: fletcher64_eq_iff)
    then show "w = v \<or> {w, v} = {replicate 4 0, replicate 4 0xff}"
      by (rule le_int_mod_fmod_eq [OF assms(3,4) mod_add_right_cancel])
  next
    note full = le_int_ones
    assume "w = v \<or> {w, v} = {replicate 4 0, replicate 4 0xff}"
    then have eq: "le_int w mod fmod = le_int v mod fmod"
      using le_int_ones by (auto simp: doubleton_eq_iff)
    then have "(le_int w + a) mod fmod = (le_int v + a) mod fmod"
      by (rule mod_add_cong [OF _ refl])
    moreover from eq have "(k * le_int w + c) mod fmod = (k * le_int v + c) mod fmod"
      by (rule mod_add_cong [OF mod_mult_cong [OF refl] refl])
    ultimately show "fletcher64_checksum (pre @ w @ post) = fletcher64_checksum (pre @ v @ post)"
      unfolding fletcher64_eq_iff lo [OF assms(3)] lo [OF assms(4)] hi [OF assms(3)] hi [OF assms(4)]
      by (rule conjI)
  qed
qed

text \<open>
  C28. A change confined to one 32-bit word outside the checksum field leaves the Fletcher-64
  checksum of a block unchanged only if it changes nothing, or turns a word of all zeros into
  a word of all ones (or back): every other single-word corruption is detected.
\<close>

theorem fletcher64_detects_word:
  assumes "length pre mod 4 = 0" "8 \<le> length pre" "length w = 4" "length v = 4"
  shows "fletcher64_checksum (pre @ w @ post) = fletcher64_checksum (pre @ v @ post) \<longleftrightarrow>
    w = v \<or> {w, v} = {replicate 4 0, replicate 4 0xff}"
  using assms by (rule fletcher64_word_change)

theorem fletcher64_detects_word_witness:
  "fletcher64_checksum (replicate 8 0 @ [1, 2, 3, 4] @ [5, 6, 7, 8])
     \<noteq> fletcher64_checksum (replicate 8 0 @ [1, 2, 3, 5] @ [5, 6, 7, 8])"
proof -
  have "{[1, 2, 3, 4], [1, 2, 3, 5]} \<noteq> {replicate 4 (0 :: u8), replicate 4 0xff}"
    by (simp add: replicate_four doubleton_eq_iff)
  then show ?thesis
    using fletcher64_detects_word [of "replicate 8 0" "[1, 2, 3, 4]" "[1, 2, 3, 5]" "[5, 6, 7, 8]"]
    by simp
qed

subsection \<open>Sealed blocks\<close>

text \<open>A block body with its checksum field filled in.\<close>

definition seal_block :: "bytes \<Rightarrow> bytes" where
  "seal_block body = to_le 8 (fletcher64_checksum (replicate 8 0 @ body)) @ body"

lemma fletcher64_field_ignored:
  assumes p8: "length p = 8"
  shows "fletcher64_checksum (p @ body) = fletcher64_checksum (replicate 8 0 @ body)"
proof -
  have "fletcher_words (q @ body) = 0 # 0 # map le_int (chunks_exact4 body)" if "length q = 8" for q :: bytes
  proof -
    have "length (chunks_exact4 q) = 2" using that by (simp add: length_chunks_exact4)
    then have "fletcher_words q = [0, 0]"
      by (auto simp: fletcher_words_def numeral_eq_Suc length_Suc_conv split: list.splits)
    then show ?thesis using that by (simp add: fletcher_words_append)
  qed
  from this [OF p8] this [of "replicate 8 0"] show ?thesis
    by (simp add: fletcher64_eq_iff fletcher_lo_def fletcher_hi_def)
qed

lemma seal_block_verifies [simp]:
  "fletcher64_checksum (seal_block body) = fletcher64_stored (seal_block body)"
  using fletcher64_field_ignored [of "to_le 8 (fletcher64_checksum (replicate 8 0 @ body))" body]
    le_u64_field [of "[]" 0 "fletcher64_checksum (replicate 8 0 @ body)" body]
  by (simp add: seal_block_def fletcher64_stored_def)

lemma length_seal_block [simp]: "length (seal_block body) = length body + 8"
  by (simp add: seal_block_def)

lemma arr_seal_block: "8 \<le> off \<Longrightarrow> arr n (seal_block body) off = arr n body (off - 8)"
  by (simp add: seal_block_def arr_drop)

lemma reads_seal_block:
  "8 \<le> off \<Longrightarrow> le_u16 (seal_block body) off = le_u16 body (off - 8)"
  "8 \<le> off \<Longrightarrow> le_u32 (seal_block body) off = le_u32 body (off - 8)"
  "8 \<le> off \<Longrightarrow> le_u64 (seal_block body) off = le_u64 body (off - 8)"
  by (simp_all add: le_u16_def le_u32_def le_u64_def arr_seal_block)

text \<open>
  The computed checksum is never 0, so a wiped (all-zero) block, whose stored checksum
  reads 0, never passes verification, whatever its length.
\<close>

lemma zero_block_never_verifies:
  "fletcher64_checksum (replicate n 0) \<noteq> fletcher64_stored (replicate n 0)"
proof -
  have "arr 8 (replicate n 0) 0 = replicate 8 0"
    by (cases "8 \<le> n") (simp_all add: arr_in_range arr_out_of_range min_def)
  then have "fletcher64_stored (replicate n 0) = 0"
    by (simp add: fletcher64_stored_def le_u64_def)
  then show ?thesis by (simp add: fletcher64_checksum_nonzero)
qed

end
