(* ===== verification/Container.thy ===== *)
theory Container
  imports Object
begin

text \<open>
  \<^verbatim>\<open>core/src/container.rs\<close> and \<^verbatim>\<open>core/src/fusion.rs\<close>: the container superblock, its magic and
  checksum gates, and Fusion detection. The lemmas characterise when a block is accepted, and
  give the round trip through an encoder of the documented field layout.
\<close>

subsection \<open>Constants\<close>

definition NX_MAGIC :: u32 where [layout_defs]: "NX_MAGIC = 0x4253584E"
definition NX_INCOMPAT_FUSION :: u64 where [layout_defs]: "NX_INCOMPAT_FUSION = 0x100"
definition NX_MINIMUM_BLOCK_SIZE :: u32 where [layout_defs]: "NX_MINIMUM_BLOCK_SIZE = 4096"
definition NX_MAXIMUM_BLOCK_SIZE :: u32 where [layout_defs]: "NX_MAXIMUM_BLOCK_SIZE = 65536"
definition NX_MAX_FILE_SYSTEMS :: u32 where [layout_defs]: "NX_MAX_FILE_SYSTEMS = 100"
definition XP_BLOCKS_TREE_FLAG :: u32 where [layout_defs]: "XP_BLOCKS_TREE_FLAG = 0x80000000"
definition OFF_MAGIC :: nat where [layout_defs]: "OFF_MAGIC = 32"
definition OFF_BLOCK_SIZE :: nat where [layout_defs]: "OFF_BLOCK_SIZE = 36"
definition OFF_BLOCK_COUNT :: nat where [layout_defs]: "OFF_BLOCK_COUNT = 40"
definition OFF_INCOMPAT_FEATURES :: nat where [layout_defs]: "OFF_INCOMPAT_FEATURES = 64"
definition OFF_UUID :: nat where [layout_defs]: "OFF_UUID = 72"
definition OFF_SPACEMAN_OID :: nat where [layout_defs]: "OFF_SPACEMAN_OID = 152"
definition OFF_REAPER_OID :: nat where [layout_defs]: "OFF_REAPER_OID = 168"
definition OFF_XP_DESC_BLOCKS :: nat where [layout_defs]: "OFF_XP_DESC_BLOCKS = 104"
definition OFF_XP_DATA_BLOCKS :: nat where [layout_defs]: "OFF_XP_DATA_BLOCKS = 108"
definition OFF_XP_DESC_BASE :: nat where [layout_defs]: "OFF_XP_DESC_BASE = 112"
definition OFF_XP_DATA_BASE :: nat where [layout_defs]: "OFF_XP_DATA_BASE = 120"
definition OFF_OMAP_OID :: nat where [layout_defs]: "OFF_OMAP_OID = 160"
definition OFF_MAX_FILE_SYSTEMS :: nat where [layout_defs]: "OFF_MAX_FILE_SYSTEMS = 180"
definition OFF_FS_OID :: nat where [layout_defs]: "OFF_FS_OID = 184"

subsection \<open>The superblock\<close>

record nx_superblock =
  nx_xid :: u64
  nx_uuid :: bytes
  nx_block_size :: u32
  nx_block_count :: u64
  nx_incompatible_features :: u64
  nx_xp_desc_base :: u64
  nx_xp_desc_blocks :: u32
  nx_xp_data_base :: u64
  nx_xp_data_blocks :: u32
  nx_omap_oid :: u64
  nx_spaceman_oid :: u64
  nx_reaper_oid :: u64
  nx_fs_oids :: "u64 list"
  nx_desc_is_tree :: bool
  nx_data_is_tree :: bool

text \<open>The loop over \<open>nx_fs_oid[]\<close>, zero entries skipped.\<close>

definition read_fs_oids :: "bytes \<Rightarrow> nat \<Rightarrow> u64 list" where
  "read_fs_oids block max_fs =
     filter (\<lambda>oid. oid \<noteq> 0) (map (\<lambda>i. le_u64 block (OFF_FS_OID + i * 8)) [0..<max_fs])"

definition nx_superblock_parse :: "bytes \<Rightarrow> nx_superblock res" where
  "nx_superblock_parse block =
     (if length block < OFF_MAGIC + 4 then Inl (NoValidSuperblock 1 0)
      else let magic = le_u32 block OFF_MAGIC in
        if magic \<noteq> NX_MAGIC then Inl (NoValidSuperblock 1 magic)
        else let stored = fletcher64_stored block; computed = fletcher64_checksum block in
          if stored \<noteq> computed then Inl (ChecksumMismatch (le_u64 block 8) stored computed)
          else
            let desc_blocks_raw = le_u32 block OFF_XP_DESC_BLOCKS;
                data_blocks_raw = le_u32 block OFF_XP_DATA_BLOCKS;
                max_fs = min (le_u32 block OFF_MAX_FILE_SYSTEMS) NX_MAX_FILE_SYSTEMS
            in Inr \<lparr> nx_xid = le_u64 block 16,
                     nx_uuid = arr 16 block OFF_UUID,
                     nx_block_size = le_u32 block OFF_BLOCK_SIZE,
                     nx_block_count = le_u64 block OFF_BLOCK_COUNT,
                     nx_incompatible_features = le_u64 block OFF_INCOMPAT_FEATURES,
                     nx_xp_desc_base = le_u64 block OFF_XP_DESC_BASE,
                     nx_xp_desc_blocks = desc_blocks_raw AND NOT XP_BLOCKS_TREE_FLAG,
                     nx_xp_data_base = le_u64 block OFF_XP_DATA_BASE,
                     nx_xp_data_blocks = data_blocks_raw AND NOT XP_BLOCKS_TREE_FLAG,
                     nx_omap_oid = le_u64 block OFF_OMAP_OID,
                     nx_spaceman_oid = le_u64 block OFF_SPACEMAN_OID,
                     nx_reaper_oid = le_u64 block OFF_REAPER_OID,
                     nx_fs_oids = read_fs_oids block (unat max_fs),
                     nx_desc_is_tree = (desc_blocks_raw AND XP_BLOCKS_TREE_FLAG \<noteq> 0),
                     nx_data_is_tree = (data_blocks_raw AND XP_BLOCKS_TREE_FLAG \<noteq> 0) \<rparr>)"

definition xp_desc_is_tree :: "nx_superblock \<Rightarrow> bool" where
  "xp_desc_is_tree sb = nx_desc_is_tree sb"

definition xp_data_is_tree :: "nx_superblock \<Rightarrow> bool" where
  "xp_data_is_tree sb = nx_data_is_tree sb"

text \<open>\<^verbatim>\<open>(NX_MINIMUM_BLOCK_SIZE..=NX_MAXIMUM_BLOCK_SIZE).contains(&block_size)\<close>.\<close>

definition block_size_in_range :: "u32 \<Rightarrow> bool" where
  "block_size_in_range n \<longleftrightarrow> NX_MINIMUM_BLOCK_SIZE \<le> n \<and> n \<le> NX_MAXIMUM_BLOCK_SIZE"

subsection \<open>Fusion\<close>

definition is_fusion :: "nx_superblock \<Rightarrow> bool" where
  "is_fusion sb \<longleftrightarrow> nx_incompatible_features sb AND NX_INCOMPAT_FUSION \<noteq> 0"

definition FUSION_TIER2_DEVICE_BYTE_ADDR :: u64 where
  "FUSION_TIER2_DEVICE_BYTE_ADDR = 0x4000000000000000"

definition translate_address :: "u64 \<Rightarrow> u64 res" where
  "translate_address paddr = Inl UnsupportedFusion"

subsection \<open>The acceptance gates\<close>

text \<open>What must hold of a block before any geometry field of it is used.\<close>

definition nx_block_valid :: "bytes \<Rightarrow> bool" where
  "nx_block_valid block \<longleftrightarrow>
     OFF_MAGIC + 4 \<le> length block \<and> le_u32 block OFF_MAGIC = NX_MAGIC
     \<and> fletcher64_stored block = fletcher64_checksum block"

lemma nx_superblock_parse_Inr_iff:
  "(\<exists>sb. nx_superblock_parse block = Inr sb) \<longleftrightarrow> nx_block_valid block"
  by (auto simp: nx_superblock_parse_def nx_block_valid_def Let_def)

lemma nx_superblock_parse_xid:
  "nx_superblock_parse block = Inr sb \<Longrightarrow> nx_xid sb = le_u64 block 16"
  by (auto simp: nx_superblock_parse_def Let_def split: if_splits)

lemma bit_tree_flag: "bit XP_BLOCKS_TREE_FLAG n \<longleftrightarrow> n = 31"
proof -
  have flag: "XP_BLOCKS_TREE_FLAG = 2 ^ 31" by (simp add: XP_BLOCKS_TREE_FLAG_def)
  show ?thesis unfolding flag bit_exp_iff by auto
qed

lemma and_not_flag_bound: "unat (w AND NOT XP_BLOCKS_TREE_FLAG) < 2 ^ 31"
proof -
  have "w AND NOT XP_BLOCKS_TREE_FLAG = take_bit 31 w"
    by (rule bit_word_eqI) (auto simp: bit_simps bit_tree_flag)
  then show ?thesis using take_bit_nat_less_exp [of 31 "unat w"] by (simp add: unsigned_take_bit_eq)
qed


text \<open>
  C36. A block is accepted as a container superblock exactly when it carries the magic and its
  checksum verifies, and an accepted superblock is bounded whatever its fields say: at most
  100 volume ids, none zero, and descriptor and data areas of fewer than \<open>2\<^sup>3\<^sup>1\<close> blocks.
\<close>

theorem nx_superblock_parse_gates:
  "case nx_superblock_parse block of
     Inr sb \<Rightarrow> nx_block_valid block \<and> length (nx_fs_oids sb) \<le> 100 \<and> 0 \<notin> set (nx_fs_oids sb)
       \<and> unat (nx_xp_desc_blocks sb) < 2 ^ 31 \<and> unat (nx_xp_data_blocks sb) < 2 ^ 31
   | Inl e \<Rightarrow> \<not> nx_block_valid block \<and>
       (\<exists>m stored computed. e = NoValidSuperblock 1 m \<or> e = ChecksumMismatch (le_u64 block 8) stored computed)"
proof (cases "nx_superblock_parse block")
  case (Inl e)
  then show ?thesis
    by (auto simp: nx_superblock_parse_def nx_block_valid_def Let_def split: if_splits)
next
  case (Inr sb)
  have "unat (min (le_u32 block OFF_MAX_FILE_SYSTEMS) NX_MAX_FILE_SYSTEMS) \<le> unat NX_MAX_FILE_SYSTEMS"
    by (simp add: word_le_nat_alt [symmetric])
  then have "length (read_fs_oids block (unat (min (le_u32 block OFF_MAX_FILE_SYSTEMS) NX_MAX_FILE_SYSTEMS))) \<le> 100"
    unfolding read_fs_oids_def
    by (intro order_trans [OF length_filter_le]) (simp add: NX_MAX_FILE_SYSTEMS_def)
  moreover have "0 \<notin> set (read_fs_oids block n)" for n by (auto simp: read_fs_oids_def)
  ultimately show ?thesis using Inr and_not_flag_bound
    by (auto simp: nx_superblock_parse_def nx_block_valid_def Let_def split: if_splits)
qed

subsection \<open>Round trip\<close>

text \<open>A writer of \<open>nx_superblock_t\<close>; the fields the reader does not look at are arbitrary.\<close>

record nx_rest =
  nxr_oid :: u64
  nxr_type :: u32
  nxr_subtype :: u32
  nxr_features :: bytes
  nxr_next :: bytes
  nxr_indexes :: bytes
  nxr_test_type :: u32
  nxr_tail :: bytes

definition enc_nx_header :: "nx_superblock \<Rightarrow> nx_rest \<Rightarrow> bytes" where
  "enc_nx_header sb r =
     to_le 8 (nxr_oid r) @ to_le 8 (nx_xid sb) @ to_le 4 (nxr_type r) @ to_le 4 (nxr_subtype r)
     @ to_le 4 NX_MAGIC @ to_le 4 (nx_block_size sb) @ to_le 8 (nx_block_count sb)
     @ nxr_features r @ to_le 8 (nx_incompatible_features sb) @ nx_uuid sb @ nxr_next r
     @ to_le 4 (nx_xp_desc_blocks sb OR (if nx_desc_is_tree sb then XP_BLOCKS_TREE_FLAG else 0))
     @ to_le 4 (nx_xp_data_blocks sb OR (if nx_data_is_tree sb then XP_BLOCKS_TREE_FLAG else 0))
     @ to_le 8 (nx_xp_desc_base sb) @ to_le 8 (nx_xp_data_base sb) @ nxr_indexes r
     @ to_le 8 (nx_spaceman_oid sb) @ to_le 8 (nx_omap_oid sb) @ to_le 8 (nx_reaper_oid sb)
     @ to_le 4 (nxr_test_type r) @ to_le 4 (of_nat (length (nx_fs_oids sb)) :: u32)"

definition enc_nx :: "nx_superblock \<Rightarrow> nx_rest \<Rightarrow> bytes" where
  "enc_nx sb r = seal_block (enc_nx_header sb r @ concat (map (to_le 8) (nx_fs_oids sb)) @ nxr_tail r)"

definition nx_encodable :: "nx_superblock \<Rightarrow> nx_rest \<Rightarrow> bool" where
  "nx_encodable sb r \<longleftrightarrow>
     length (nx_uuid sb) = 16 \<and> length (nxr_features r) = 16 \<and> length (nxr_next r) = 16
     \<and> length (nxr_indexes r) = 24
     \<and> nx_xp_desc_blocks sb AND XP_BLOCKS_TREE_FLAG = 0
     \<and> nx_xp_data_blocks sb AND XP_BLOCKS_TREE_FLAG = 0
     \<and> length (nx_fs_oids sb) \<le> 100 \<and> 0 \<notin> set (nx_fs_oids sb)"

lemma arr_concat_to_le8:
  assumes "i < length xs" "off = length pre + i * 8"
  shows "arr 8 (pre @ concat (map (to_le 8) xs) @ post) off = to_le 8 (xs ! i)"
proof -
  have "concat (map (to_le 8) xs)
      = concat (map (to_le 8) (take i xs)) @ to_le 8 (xs ! i) @ concat (map (to_le 8) (drop (Suc i) xs))"
    using assms(1) by (metis concat.simps(2) concat_append id_take_nth_drop list.simps(9) map_append)
  moreover have "length (concat (map (to_le 8) (take i xs))) = i * 8"
    using assms(1) by (simp add: length_concat comp_def sum_list_triv)
  ultimately show ?thesis using assms(2) by (simp add: arr_drop arr_append arr_full)
qed

lemma flag_or_simps:
  fixes w :: u32
  assumes "w AND XP_BLOCKS_TREE_FLAG = 0"
  shows "(w OR (if b then XP_BLOCKS_TREE_FLAG else 0)) AND NOT XP_BLOCKS_TREE_FLAG = w"
    and "(w OR (if b then XP_BLOCKS_TREE_FLAG else 0)) AND XP_BLOCKS_TREE_FLAG \<noteq> 0 \<longleftrightarrow> b"
proof -
  have "\<not> bit (w AND XP_BLOCKS_TREE_FLAG) 31" using assms by simp
  then have "\<not> bit w 31" by (simp add: bit_simps bit_tree_flag)
  then show "(w OR (if b then XP_BLOCKS_TREE_FLAG else 0)) AND NOT XP_BLOCKS_TREE_FLAG = w"
    by (intro bit_word_eqI) (auto simp: bit_simps bit_tree_flag)
  show "(w OR (if b then XP_BLOCKS_TREE_FLAG else 0)) AND XP_BLOCKS_TREE_FLAG \<noteq> 0 \<longleftrightarrow> b"
    using assms by (auto simp: bit.conj_disj_distrib2 XP_BLOCKS_TREE_FLAG_def)
qed


lemma length_enc_nx_header: "nx_encodable sb r \<Longrightarrow> length (enc_nx_header sb r) = 176"
  by (simp add: nx_encodable_def enc_nx_header_def)

lemma enc_nx_header_reads:
  assumes "nx_encodable sb r"
  shows "le_u64 (enc_nx_header sb r @ t) 8 = nx_xid sb"
    and "le_u32 (enc_nx_header sb r @ t) 24 = NX_MAGIC"
    and "le_u32 (enc_nx_header sb r @ t) 28 = nx_block_size sb"
    and "le_u64 (enc_nx_header sb r @ t) 32 = nx_block_count sb"
    and "le_u64 (enc_nx_header sb r @ t) 56 = nx_incompatible_features sb"
    and "arr 16 (enc_nx_header sb r @ t) 64 = nx_uuid sb"
    and "le_u32 (enc_nx_header sb r @ t) 96 = nx_xp_desc_blocks sb OR (if nx_desc_is_tree sb then XP_BLOCKS_TREE_FLAG else 0)"
    and "le_u32 (enc_nx_header sb r @ t) 100 = nx_xp_data_blocks sb OR (if nx_data_is_tree sb then XP_BLOCKS_TREE_FLAG else 0)"
    and "le_u64 (enc_nx_header sb r @ t) 104 = nx_xp_desc_base sb"
    and "le_u64 (enc_nx_header sb r @ t) 112 = nx_xp_data_base sb"
    and "le_u64 (enc_nx_header sb r @ t) 144 = nx_spaceman_oid sb"
    and "le_u64 (enc_nx_header sb r @ t) 152 = nx_omap_oid sb"
    and "le_u64 (enc_nx_header sb r @ t) 160 = nx_reaper_oid sb"
    and "le_u32 (enc_nx_header sb r @ t) 172 = of_nat (length (nx_fs_oids sb))"
  using assms
  by (simp_all add: nx_encodable_def enc_nx_header_def le_u64_def le_u32_def arr_drop arr_append arr_full)

lemma read_fs_oids_enc:
  assumes "nx_encodable sb r"
  shows "read_fs_oids (enc_nx sb r) (length (nx_fs_oids sb)) = nx_fs_oids sb"
proof -
  let ?xs = "nx_fs_oids sb"
  have "map (\<lambda>i. le_u64 (enc_nx sb r) (OFF_FS_OID + i * 8)) [0..<length ?xs] = map (\<lambda>i. ?xs ! i) [0..<length ?xs]"
  proof (rule map_cong [OF refl])
    fix i assume "i \<in> set [0..<length ?xs]"
    then have "arr 8 (enc_nx_header sb r @ concat (map (to_le 8) ?xs) @ nxr_tail r) (176 + i * 8) = to_le 8 (?xs ! i)"
      using length_enc_nx_header [OF assms] by (intro arr_concat_to_le8) auto
    then show "le_u64 (enc_nx sb r) (OFF_FS_OID + i * 8) = ?xs ! i"
      by (simp add: enc_nx_def reads_seal_block OFF_FS_OID_def le_u64_def arr_seal_block)
  qed
  then have "read_fs_oids (enc_nx sb r) (length ?xs) = filter (\<lambda>x. x \<noteq> 0) ?xs"
    by (simp add: read_fs_oids_def map_nth)
  also have "\<dots> = ?xs" using assms by (auto simp: nx_encodable_def filter_id_conv)
  finally show ?thesis .
qed

lemma nx_superblock_parse_enc:
  assumes "nx_encodable sb r"
  shows "nx_superblock_parse (enc_nx sb r) = Inr sb"
proof -
  have n: "unat (of_nat (length (nx_fs_oids sb)) :: u32) = length (nx_fs_oids sb)"
    using assms by (simp add: nx_encodable_def unat_of_nat take_bit_nat_eq_self)
  then have "unat (min (of_nat (length (nx_fs_oids sb))) NX_MAX_FILE_SYSTEMS) = length (nx_fs_oids sb)"
    using assms by (simp add: min_def word_le_nat_alt NX_MAX_FILE_SYSTEMS_def nx_encodable_def)
  moreover have "\<not> length (enc_nx sb r) < OFF_MAGIC + 4"
    using length_enc_nx_header [OF assms] by (simp add: enc_nx_def OFF_MAGIC_def)
  moreover have "fletcher64_checksum (enc_nx sb r) = fletcher64_stored (enc_nx sb r)"
    by (simp add: enc_nx_def)
  moreover have "nx_xp_desc_blocks sb AND XP_BLOCKS_TREE_FLAG = 0" "nx_xp_data_blocks sb AND XP_BLOCKS_TREE_FLAG = 0"
    using assms by (simp_all add: nx_encodable_def)
  ultimately show ?thesis
    using enc_nx_header_reads [OF assms] read_fs_oids_enc [OF assms]
    unfolding nx_superblock_parse_def Let_def
    by (simp add: enc_nx_def reads_seal_block arr_seal_block flag_or_simps
        OFF_MAGIC_def OFF_XP_DESC_BLOCKS_def OFF_XP_DATA_BLOCKS_def OFF_MAX_FILE_SYSTEMS_def OFF_UUID_def
        OFF_BLOCK_SIZE_def OFF_BLOCK_COUNT_def OFF_INCOMPAT_FEATURES_def OFF_XP_DESC_BASE_def
        OFF_XP_DATA_BASE_def OFF_OMAP_OID_def OFF_SPACEMAN_OID_def OFF_REAPER_OID_def)
qed

subsection \<open>A superblock\<close>

definition demo_nx :: "u64 \<Rightarrow> nx_superblock" where
  "demo_nx x = \<lparr> nx_xid = x, nx_uuid = replicate 16 0xab, nx_block_size = 4096, nx_block_count = 8,
     nx_incompatible_features = 2, nx_xp_desc_base = 1, nx_xp_desc_blocks = 3, nx_xp_data_base = 4,
     nx_xp_data_blocks = 1, nx_omap_oid = 5, nx_spaceman_oid = 0x400, nx_reaper_oid = 0x401,
     nx_fs_oids = [0x402], nx_desc_is_tree = False, nx_data_is_tree = False \<rparr>"

definition demo_nx_rest :: nx_rest where
  "demo_nx_rest = \<lparr> nxr_oid = 1, nxr_type = 0x80000001, nxr_subtype = 0, nxr_features = replicate 16 0,
     nxr_next = replicate 16 0, nxr_indexes = replicate 24 0, nxr_test_type = 0,
     nxr_tail = replicate 3904 0 \<rparr>"

lemma demo_nx_encodable [simp]: "nx_encodable (demo_nx x) demo_nx_rest"
  by (simp add: nx_encodable_def demo_nx_def demo_nx_rest_def XP_BLOCKS_TREE_FLAG_def)

lemma length_demo_nx [simp]: "length (enc_nx (demo_nx x) demo_nx_rest) = 4096"
  using length_enc_nx_header [OF demo_nx_encodable [of x]]
  by (simp add: enc_nx_def) (simp add: demo_nx_def demo_nx_rest_def)

end
