(* ===== verification/Checkpoint.thy ===== *)
theory Checkpoint
  imports Container
begin

text \<open>
  \<^verbatim>\<open>core/src/checkpoint.rs\<close>: the scan of the checkpoint descriptor ring for the live container
  superblock, and the collection of the ephemeral-object mappings of that checkpoint. The
  lemmas show that the chosen superblock is a verified one with the largest transaction id in
  the ring, that the mappings come from verified map blocks of the same transaction only, and
  that a ring without a verified superblock is reported as an error.
\<close>

subsection \<open>Data\<close>

definition OBJECT_TYPE_NX_SUPERBLOCK :: u16 where [layout_defs]: "OBJECT_TYPE_NX_SUPERBLOCK = 0x1"
definition OBJECT_TYPE_CHECKPOINT_MAP :: u16 where [layout_defs]: "OBJECT_TYPE_CHECKPOINT_MAP = 0xc"
definition CPM_COUNT_OFF :: nat where [layout_defs]: "CPM_COUNT_OFF = 36"
definition CPM_MAP_OFF :: nat where [layout_defs]: "CPM_MAP_OFF = 40"
definition CHECKPOINT_MAPPING_LEN :: nat where [layout_defs]: "CHECKPOINT_MAPPING_LEN = 40"
definition MAX_CPM_COUNT :: u32 where [layout_defs]: "MAX_CPM_COUNT = 4096"

record checkpoint_mapping =
  cm_oid :: u64
  cm_paddr :: u64
  cm_obj_type :: u32
  cm_subtype :: u32

record live_checkpoint =
  lc_superblock_paddr :: u64
  lc_xid :: u64
  lc_mappings :: "checkpoint_mapping list"

subsection \<open>Reading the ring\<close>

text \<open>\<open>read_block\<close>: \<open>Inr None\<close> is the source's \<^verbatim>\<open>Ok(false)\<close>.\<close>

definition cp_read_block :: "reader \<Rightarrow> u64 \<Rightarrow> nat \<Rightarrow> bytes option res" where
  "cp_read_block rd paddr block_size =
     (case checked_mul_u64 paddr (of_nat block_size) of
        None \<Rightarrow> Inr None
      | Some offset \<Rightarrow>
          (case rd offset block_size of
             Inr buf \<Rightarrow> Inr (Some buf)
           | Inl (ReadFault UnexpectedEof) \<Rightarrow> Inr None
           | Inl e \<Rightarrow> Inl (Io (fault_error e))))"

text \<open>
  The two loops over the descriptor area: block \<open>desc_base + i\<close> for each \<open>i\<close>, a missing block
  skipped. The unchecked addition is a panic when it overflows.
\<close>

primrec ring_loop :: "reader \<Rightarrow> nat \<Rightarrow> u64 \<Rightarrow> (u64 \<Rightarrow> bytes \<Rightarrow> 's \<Rightarrow> 's) \<Rightarrow> nat \<Rightarrow> nat \<Rightarrow> 's \<Rightarrow> 's res" where
  "ring_loop rd block_size desc_base step i 0 s = Inr s"
| "ring_loop rd block_size desc_base step i (Suc n) s =
     (case add_u64 desc_base (of_nat i) of
        None \<Rightarrow> Inl (Panic ''attempt to add with overflow'')
      | Some paddr \<Rightarrow>
          (case cp_read_block rd paddr block_size of
             Inl e \<Rightarrow> Inl e
           | Inr None \<Rightarrow> ring_loop rd block_size desc_base step (Suc i) n s
           | Inr (Some buf) \<Rightarrow> ring_loop rd block_size desc_base step (Suc i) n (step paddr buf s)))"

text \<open>State of the first loop: the best (xid, paddr), \<open>checked\<close> and \<open>last_magic\<close>.\<close>

type_synonym desc_state = "(u64 \<times> u64) option \<times> nat \<times> u32"

fun desc_step :: "u64 \<Rightarrow> bytes \<Rightarrow> desc_state \<Rightarrow> desc_state" where
  "desc_step paddr buf (best, checked, last_magic) =
     (case obj_phys_parse buf of
        None \<Rightarrow> (best, checked + 1, last_magic)
      | Some hdr \<Rightarrow>
          if obj_type hdr \<noteq> OBJECT_TYPE_NX_SUPERBLOCK then (best, checked + 1, last_magic)
          else let magic = le_u32 buf 32
               in if magic \<noteq> NX_MAGIC then (best, checked + 1, magic)
                  else if fletcher64_stored buf \<noteq> fletcher64_checksum buf then (best, checked + 1, magic)
                  else ((case best of
                           None \<Rightarrow> Some (o_xid hdr, paddr)
                         | Some (bx, _) \<Rightarrow> if o_xid hdr > bx then Some (o_xid hdr, paddr) else best),
                        checked + 1, magic))"

definition read_mapping :: "bytes \<Rightarrow> nat \<Rightarrow> checkpoint_mapping" where
  "read_mapping buf m =
     (let off = CPM_MAP_OFF + m * CHECKPOINT_MAPPING_LEN
      in \<lparr> cm_oid = le_u64 buf (off + 24), cm_paddr = le_u64 buf (off + 32),
           cm_obj_type = le_u32 buf off, cm_subtype = le_u32 buf (off + 4) \<rparr>)"

definition map_step :: "u64 \<Rightarrow> u64 \<Rightarrow> bytes \<Rightarrow> checkpoint_mapping list \<Rightarrow> checkpoint_mapping list" where
  "map_step live_xid paddr buf mappings =
     (case obj_phys_parse buf of
        None \<Rightarrow> mappings
      | Some hdr \<Rightarrow>
          if obj_type hdr \<noteq> OBJECT_TYPE_CHECKPOINT_MAP \<or> o_xid hdr \<noteq> live_xid then mappings
          else if fletcher64_stored buf \<noteq> fletcher64_checksum buf then mappings
          else mappings @ map (read_mapping buf) [0..<unat (min (le_u32 buf CPM_COUNT_OFF) MAX_CPM_COUNT)])"

definition resolve_live_checkpoint :: "reader \<Rightarrow> nx_superblock \<Rightarrow> live_checkpoint res" where
  "resolve_live_checkpoint rd bootstrap =
     (if xp_desc_is_tree bootstrap then Inl (CheckpointTreeUnsupported ''descriptor'')
      else if \<not> block_size_in_range (nx_block_size bootstrap)
      then Inl (FieldOutOfRange ''nx_superblock'' ''nx_block_size''
                  (ucast (nx_block_size bootstrap)) (ucast NX_MAXIMUM_BLOCK_SIZE))
      else
        let block_size = unat (nx_block_size bootstrap);
            desc_base = nx_xp_desc_base bootstrap;
            n = unat (nx_xp_desc_blocks bootstrap)
        in case ring_loop rd block_size desc_base desc_step 0 n (None, 0, 0) of
             Inl e \<Rightarrow> Inl e
           | Inr (None, checked, last_magic) \<Rightarrow> Inl (NoValidSuperblock checked last_magic)
           | Inr (Some (live_xid, superblock_paddr), _, _) \<Rightarrow>
               (case ring_loop rd block_size desc_base (map_step live_xid) 0 n [] of
                  Inl e \<Rightarrow> Inl e
                | Inr mappings \<Rightarrow>
                    Inr \<lparr> lc_superblock_paddr = superblock_paddr, lc_xid = live_xid,
                          lc_mappings = mappings \<rparr>))"

subsection \<open>The ring as a list of blocks\<close>

text \<open>The readable blocks of the ring, with their addresses.\<close>

definition ring_blocks :: "reader \<Rightarrow> nat \<Rightarrow> u64 \<Rightarrow> nat \<Rightarrow> nat \<Rightarrow> (u64 \<times> bytes) list" where
  "ring_blocks rd block_size desc_base i n =
     concat (map (\<lambda>j. case cp_read_block rd (desc_base + of_nat j) block_size of
                        Inr (Some buf) \<Rightarrow> [(desc_base + of_nat j, buf)] | _ \<Rightarrow> []) [i..<i + n])"

lemma ring_blocks_Suc:
  "ring_blocks rd block_size desc_base i (Suc n) =
     (case cp_read_block rd (desc_base + of_nat i) block_size of
        Inr (Some buf) \<Rightarrow> [(desc_base + of_nat i, buf)] | _ \<Rightarrow> [])
     @ ring_blocks rd block_size desc_base (Suc i) n"
  unfolding ring_blocks_def by (subst upt_conv_Cons) auto

lemma ring_loop_Inr:
  "ring_loop rd block_size desc_base step i n s = Inr s' \<Longrightarrow>
     s' = fold (\<lambda>(p, b). step p b) (ring_blocks rd block_size desc_base i n) s"
proof (induction n arbitrary: i s)
  case (Suc n)
  then show ?case
    by (auto simp: ring_blocks_Suc add_u64_def split: option.splits sum.splits if_splits)
qed (simp add: ring_blocks_def)

text \<open>The loop cannot fail when the ring lies below \<open>2\<^sup>6\<^sup>4\<close> and every read ends or hits the end.\<close>

lemma ring_loop_total:
  assumes "unat desc_base + (i + n) \<le> 2 ^ 64"
    and "\<And>p e. cp_read_block rd p block_size \<noteq> Inl e"
  shows "ring_loop rd block_size desc_base step i n s
    = Inr (fold (\<lambda>(p, b). step p b) (ring_blocks rd block_size desc_base i n) s)"
  using assms(1)
proof (induction n arbitrary: i s)
  case (Suc n)
  have "unat (of_nat i :: u64) = i" using Suc.prems by (intro unat_of_nat_u64) simp
  then have "add_u64 desc_base (of_nat i) = Some (desc_base + of_nat i)"
    using Suc.prems by (simp add: add_u64_def)
  then show ?case using Suc assms(2) [of "desc_base + of_nat i"]
    by (auto simp: ring_blocks_Suc split: sum.splits option.splits)
qed (simp add: ring_blocks_def)


subsection \<open>What the two loops compute\<close>

text \<open>A ring block that counts as a superblock, and one that is a map of a checkpoint.\<close>

definition ring_superblock :: "bytes \<Rightarrow> bool" where
  "ring_superblock buf \<longleftrightarrow>
     (case obj_phys_parse buf of None \<Rightarrow> False | Some hdr \<Rightarrow> obj_type hdr = OBJECT_TYPE_NX_SUPERBLOCK)
     \<and> le_u32 buf 32 = NX_MAGIC \<and> fletcher64_stored buf = fletcher64_checksum buf"

definition ring_map :: "u64 \<Rightarrow> bytes \<Rightarrow> bool" where
  "ring_map x buf \<longleftrightarrow>
     (case obj_phys_parse buf of None \<Rightarrow> False
      | Some hdr \<Rightarrow> obj_type hdr = OBJECT_TYPE_CHECKPOINT_MAP \<and> o_xid hdr = x)
     \<and> fletcher64_stored buf = fletcher64_checksum buf"

definition block_mappings :: "bytes \<Rightarrow> checkpoint_mapping list" where
  "block_mappings buf = map (read_mapping buf) [0..<unat (min (le_u32 buf CPM_COUNT_OFF) MAX_CPM_COUNT)]"

abbreviation block_xid :: "bytes \<Rightarrow> u64" where
  "block_xid buf \<equiv> le_u64 buf 16"

lemma obj_phys_parse_xid: "obj_phys_parse buf = Some hdr \<Longrightarrow> o_xid hdr = block_xid buf"
  by (auto simp: obj_phys_parse_def split: if_splits)

lemma desc_step_best:
  "fst (desc_step p b st) =
     (if ring_superblock b
      then (case fst st of None \<Rightarrow> Some (block_xid b, p)
            | Some (bx, _) \<Rightarrow> if bx < block_xid b then Some (block_xid b, p) else fst st)
      else fst st)"
  by (cases st) (auto simp: ring_superblock_def Let_def obj_phys_parse_xid split: option.splits)

lemma desc_step_checked: "fst (snd (desc_step p b st)) = fst (snd st) + 1"
  by (cases st) (auto simp: Let_def split: option.splits)

abbreviation desc_fold :: "(u64 \<times> bytes) list \<Rightarrow> desc_state \<Rightarrow> desc_state" where
  "desc_fold ring st \<equiv> fold (\<lambda>(p, b). desc_step p b) ring st"

lemma desc_fold_best:
  "case fst (desc_fold ring st) of
     None \<Rightarrow> fst st = None \<and> (\<forall>(p, b)\<in>set ring. \<not> ring_superblock b)
   | Some (x, p) \<Rightarrow> (fst st = Some (x, p) \<or> (\<exists>b. (p, b) \<in> set ring \<and> ring_superblock b \<and> block_xid b = x))
       \<and> (\<forall>(p, b)\<in>set ring. ring_superblock b \<longrightarrow> block_xid b \<le> x)
       \<and> (\<forall>y q. fst st = Some (y, q) \<longrightarrow> y \<le> x)"
proof (induction ring arbitrary: st)
  case Nil
  then show ?case by (auto split: option.splits)
next
  case (Cons a ring)
  obtain p b where a: "a = (p, b)" by (cases a)
  from Cons [of "desc_step p b st"] show ?case
    unfolding a by (auto simp: desc_step_best split: option.splits if_splits intro: order_trans less_imp_le)
qed

lemma desc_fold_checked: "fst (snd (desc_fold ring st)) = fst (snd st) + length ring"
  by (induction ring arbitrary: st) (auto simp: desc_step_checked case_prod_unfold simp del: desc_step.simps)

lemma map_step_eq:
  "map_step x p b ms = (if ring_map x b then ms @ block_mappings b else ms)"
  by (auto simp: map_step_def ring_map_def block_mappings_def split: option.splits)

lemma map_fold:
  "fold (\<lambda>(p, b). map_step x p b) ring ms
    = ms @ concat (map (\<lambda>(p, b). block_mappings b) (filter (\<lambda>(p, b). ring_map x b) ring))"
  by (induction ring arbitrary: ms) (auto simp: map_step_eq)

abbreviation bootstrap_ring :: "reader \<Rightarrow> nx_superblock \<Rightarrow> (u64 \<times> bytes) list" where
  "bootstrap_ring rd sb \<equiv> ring_blocks rd (unat (nx_block_size sb)) (nx_xp_desc_base sb) 0 (unat (nx_xp_desc_blocks sb))"

text \<open>What a successful scan returns.\<close>

lemma resolve_live_checkpoint_live:
  assumes "resolve_live_checkpoint rd sb = Inr live"
  shows "\<exists>buf. (lc_superblock_paddr live, buf) \<in> set (bootstrap_ring rd sb)
      \<and> ring_superblock buf \<and> block_xid buf = lc_xid live"
    and "(p, b) \<in> set (bootstrap_ring rd sb) \<Longrightarrow> ring_superblock b \<Longrightarrow> block_xid b \<le> lc_xid live"
    and "lc_mappings live = concat (map (\<lambda>(p, b). block_mappings b)
           (filter (\<lambda>(p, b). ring_map (lc_xid live) b) (bootstrap_ring rd sb)))"
    and "block_size_in_range (nx_block_size sb)"
proof -
  let ?bs = "unat (nx_block_size sb)" and ?base = "nx_xp_desc_base sb" and ?n = "unat (nx_xp_desc_blocks sb)"
  obtain x p c m ms where loops: "ring_loop rd ?bs ?base desc_step 0 ?n (None, 0, 0) = Inr (Some (x, p), c, m)"
      "ring_loop rd ?bs ?base (map_step x) 0 ?n [] = Inr ms"
    and live: "live = \<lparr> lc_superblock_paddr = p, lc_xid = x, lc_mappings = ms \<rparr>"
    and rng: "block_size_in_range (nx_block_size sb)"
    using assms by (auto simp: resolve_live_checkpoint_def Let_def split: if_splits sum.splits option.splits)
  show "block_size_in_range (nx_block_size sb)" by (rule rng)
  from ring_loop_Inr [OF loops(1)] have best: "fst (desc_fold (bootstrap_ring rd sb) (None, 0, 0)) = Some (x, p)"
    by (metis fst_conv)
  note d = desc_fold_best [where ring = "bootstrap_ring rd sb" and st = "(None, 0, 0)", unfolded best]
  show "\<exists>buf. (lc_superblock_paddr live, buf) \<in> set (bootstrap_ring rd sb)
      \<and> ring_superblock buf \<and> block_xid buf = lc_xid live"
    using d live by auto
  show "(p, b) \<in> set (bootstrap_ring rd sb) \<Longrightarrow> ring_superblock b \<Longrightarrow> block_xid b \<le> lc_xid live" for p b
    using d live by auto
  show "lc_mappings live = concat (map (\<lambda>(p, b). block_mappings b)
      (filter (\<lambda>(p, b). ring_map (lc_xid live) b) (bootstrap_ring rd sb)))"
    using ring_loop_Inr [OF loops(2)] live by (simp add: map_fold)
qed


text \<open>
  C6. A successful scan of the descriptor ring returns the address of a ring block that
  verifies as a container superblock and whose transaction id is the largest among all such
  blocks; the mappings returned are, in ring order, exactly those of the verified map blocks
  of that same transaction.
\<close>

theorem live_checkpoint_is_newest:
  assumes "resolve_live_checkpoint rd sb = Inr live"
  shows "(\<exists>buf. (lc_superblock_paddr live, buf) \<in> set (bootstrap_ring rd sb)
        \<and> ring_superblock buf \<and> block_xid buf = lc_xid live)
      \<and> (\<forall>(p, b)\<in>set (bootstrap_ring rd sb). ring_superblock b \<longrightarrow> block_xid b \<le> lc_xid live)
      \<and> lc_mappings live = concat (map (\<lambda>(p, b). block_mappings b)
           (filter (\<lambda>(p, b). ring_map (lc_xid live) b) (bootstrap_ring rd sb)))"
  using resolve_live_checkpoint_live [OF assms] by blast

text \<open>
  C30. On a contiguous ring that the source can address, the scan fails only when no block of
  the ring verifies as a superblock, and then with the error that says so and counts the
  blocks it examined; if one verifies, it succeeds.
\<close>

theorem live_checkpoint_total:
  assumes "\<not> xp_desc_is_tree sb" "block_size_in_range (nx_block_size sb)"
    and "unat (nx_xp_desc_base sb) + unat (nx_xp_desc_blocks sb) \<le> 2 ^ 64"
    and "\<And>p e. cp_read_block rd p (unat (nx_block_size sb)) \<noteq> Inl e"
  shows "case resolve_live_checkpoint rd sb of
      Inr live \<Rightarrow> (\<exists>(p, b)\<in>set (bootstrap_ring rd sb). ring_superblock b)
    | Inl e \<Rightarrow> (\<forall>(p, b)\<in>set (bootstrap_ring rd sb). \<not> ring_superblock b)
        \<and> (\<exists>m. e = NoValidSuperblock (length (bootstrap_ring rd sb)) m)"
proof -
  let ?ring = "bootstrap_ring rd sb"
  have l2: "ring_loop rd (unat (nx_block_size sb)) (nx_xp_desc_base sb) (map_step x) 0 (unat (nx_xp_desc_blocks sb)) []
      = Inr (fold (\<lambda>(p, b). map_step x p b) ?ring [])" for x
    using assms by (intro ring_loop_total) auto
  obtain best c m where st: "desc_fold ?ring (None, 0, 0) = (best, c, m)" by (cases "desc_fold ?ring (None, 0, 0)")
  have l1: "ring_loop rd (unat (nx_block_size sb)) (nx_xp_desc_base sb) desc_step 0 (unat (nx_xp_desc_blocks sb)) (None, 0, 0)
      = Inr (best, c, m)"
    unfolding st [symmetric] using assms by (intro ring_loop_total) auto
  note d = desc_fold_best [where ring = ?ring and st = "(None, 0, 0)"]
    and ch = desc_fold_checked [where ring = ?ring and st = "(None, 0, 0)"]
  show ?thesis
  proof (cases best)
    case None
    then show ?thesis
      unfolding resolve_live_checkpoint_def Let_def l1 using assms(1,2) d ch st by simp
  next
    case (Some xp)
    obtain x p where "xp = (x, p)" by (cases xp)
    then show ?thesis
      unfolding resolve_live_checkpoint_def Let_def l1 using assms(1,2) d st Some by (auto simp: l2)
  qed
qed

end
