(* ===== verification/Tree_Walk.thy ===== *)
theory Tree_Walk
  imports Bytes
begin

text \<open>
  The contract shared by the three B-tree descents of the reader: the physical descent of
  \<^verbatim>\<open>btree.rs\<close>, the virtual descent of \<^verbatim>\<open>dir.rs\<close> and the snapshot-tree descent of
  \<^verbatim>\<open>snapshot.rs\<close>. Each loads a node by an identifier, rejects an identifier it has met before
  and a depth at its cap, folds a visitor over a leaf and descends the (selected) children of
  an index node from left to right.

  The abstract side is a finite tree with node identifiers. The locale \<open>tree_walk\<close> proves, for
  anything that satisfies the descent's unfolding law, that a walk succeeds exactly when the
  store shows such a tree, of bounded height and with pairwise distinct identifiers, and that
  it then visits the entries of that tree in order, each once.
\<close>

subsection \<open>Nodes and abstract trees\<close>

type_synonym entry = "bytes \<times> bytes"

text \<open>A loaded node: the entries of a leaf, or the separators and child identifiers.\<close>

datatype node = LeafNode "entry list" | IndexNode "(bytes \<times> u64) list"

datatype tree = Leaf u64 "entry list" | Index u64 "(bytes \<times> tree) list"

primrec root_id :: "tree \<Rightarrow> u64" where
  "root_id (Leaf p es) = p"
| "root_id (Index p kts) = p"

fun ids :: "tree \<Rightarrow> u64 list" where
  "ids (Leaf p es) = [p]"
| "ids (Index p kts) = p # concat (map (\<lambda>(k, t). ids t) kts)"

fun entries :: "tree \<Rightarrow> entry list" where
  "entries (Leaf p es) = es"
| "entries (Index p kts) = concat (map (\<lambda>(k, t). entries t) kts)"

fun height :: "tree \<Rightarrow> nat" where
  "height (Leaf p es) = 1"
| "height (Index p kts) = Suc (fold max (map (\<lambda>(k, t). height t) kts) 0)"

text \<open>The children an index node's walk descends: a selection that looks at the separators only.\<close>

definition picked :: "(bytes list \<Rightarrow> bool list) \<Rightarrow> (bytes \<times> 'a) list \<Rightarrow> (bytes \<times> 'a) list" where
  "picked pick kcs = map snd (filter fst (zip (pick (map fst kcs)) kcs))"

definition pick_all :: "bytes list \<Rightarrow> bool list" where
  "pick_all ks = map (\<lambda>_. True) ks"

text \<open>The store shows tree \<open>t\<close> (as far as \<open>pick\<close> looks) when its nodes load as \<open>t\<close>'s nodes.\<close>

fun shown :: "(nat \<Rightarrow> u64 \<Rightarrow> node res) \<Rightarrow> (bytes list \<Rightarrow> bool list) \<Rightarrow> nat \<Rightarrow> tree \<Rightarrow> bool" where
  "shown load pick d (Leaf p es) \<longleftrightarrow> load d p = Inr (LeafNode es)"
| "shown load pick d (Index p kts) \<longleftrightarrow>
     (case load d p of
        Inr (IndexNode kcs) \<Rightarrow>
          picked pick kcs = map (\<lambda>(k, t). (k, root_id t)) kts
          \<and> list_all (\<lambda>(k, t). shown load pick (Suc d) t) kts
      | _ \<Rightarrow> False)"

text \<open>What is left of a tree when only picked children are kept, at every level.\<close>

fun prune :: "(bytes list \<Rightarrow> bool list) \<Rightarrow> tree \<Rightarrow> tree" where
  "prune pick (Leaf p es) = Leaf p es"
| "prune pick (Index p kts) =
     Index p (picked pick (map (\<lambda>(k, t). (k, prune pick t)) kts))"

subsection \<open>Facts on trees\<close>

lemma root_id_prune [simp]: "root_id (prune pick t) = root_id t"
  by (cases t) auto

lemma picked_all [simp]: "picked pick_all kcs = kcs"
  unfolding picked_def pick_all_def by (induction kcs) auto

lemma set_picked: "x \<in> set (picked pick kcs) \<Longrightarrow> x \<in> set kcs"
  by (auto simp: picked_def dest: set_zip_rightD)

lemma picked_map:
  assumes "\<And>k c. fst (f (k, c)) = k"
  shows "picked pick (map f kcs) = map f (picked pick kcs)"
proof -
  have "fst (f x) = fst x" for x using assms [of "fst x" "snd x"] by simp
  then have eq: "map fst (map f kcs) = map fst kcs" by simp
  have "filter fst (zip bs (map f xs)) = map (\<lambda>(b, x). (b, f x)) (filter fst (zip bs xs))" for bs xs
  proof (induction xs arbitrary: bs)
    case (Cons x xs)
    then show ?case by (cases bs) auto
  qed simp
  then show ?thesis unfolding picked_def eq by (simp add: case_prod_unfold comp_def)
qed

lemma height_pos: "0 < height t"
  by (cases t) auto

lemma fold_max_le_iff: "fold max xs (m :: nat) \<le> n \<longleftrightarrow> m \<le> n \<and> (\<forall>x\<in>set xs. x \<le> n)"
  by (induction xs arbitrary: m) auto

lemma height_Index_le:
  "height (Index p kts) + d \<le> cap \<longleftrightarrow> d < cap \<and> (\<forall>(k, t)\<in>set kts. height t + Suc d \<le> cap)"
proof -
  have "height (Index p kts) + d \<le> cap \<longleftrightarrow>
      d < cap \<and> fold max (map (\<lambda>(k, t). height t) kts) 0 \<le> cap - Suc d" by auto
  then show ?thesis by (auto simp: fold_max_le_iff)
qed

lemma root_id_in_ids: "root_id t \<in> set (ids t)"
  by (cases t) auto

lemma shown_prune:
  "shown load pick_all d t \<Longrightarrow> shown load pick d (prune pick t)"
proof (induction t arbitrary: d rule: prune.induct)
  case (2 pick p kts)
  obtain kcs where l: "load d p = Inr (IndexNode kcs)"
    and k: "kcs = map (\<lambda>(k, t). (k, root_id t)) kts"
    and ts: "list_all (\<lambda>(k, t). shown load pick_all (Suc d) t) kts"
    using 2 by (auto split: sum.splits node.splits)
  have "picked pick kcs = map (\<lambda>(k, t). (k, root_id t)) (picked pick kts)"
    unfolding k by (rule picked_map) auto
  moreover have "picked pick (map (\<lambda>(k, t). (k, prune pick t)) kts)
      = map (\<lambda>(k, t). (k, prune pick t)) (picked pick kts)"
    by (rule picked_map) auto
  moreover have "list_all (\<lambda>(k, t). shown load pick (Suc d) (prune pick t)) (picked pick kts)"
    using ts 2 by (fastforce simp: list_all_iff dest: set_picked)
  ultimately show ?case using l by (auto simp: list_all_iff case_prod_unfold)
qed simp


subsection \<open>The walk contract\<close>

locale tree_walk =
  fixes load :: "nat \<Rightarrow> u64 \<Rightarrow> node res"
    and pick :: "bytes list \<Rightarrow> bool list"
    and visit :: "entry \<Rightarrow> 's \<Rightarrow> 's"
    and cap :: nat
    and walk :: "nat \<Rightarrow> u64 set \<Rightarrow> u64 \<Rightarrow> 's \<Rightarrow> (u64 set \<times> 's) res"
    and walk_all :: "nat \<Rightarrow> u64 set \<Rightarrow> u64 list \<Rightarrow> 's \<Rightarrow> (u64 set \<times> 's) res"
  assumes walk_unfold:
      "walk d visited p s =
         (if cap \<le> d then Inl (CycleGuard cap)
          else if p \<in> visited then Inl (CycleGuard cap)
          else case load d p of
                 Inl e \<Rightarrow> Inl e
               | Inr (LeafNode es) \<Rightarrow> Inr (insert p visited, fold visit es s)
               | Inr (IndexNode kcs) \<Rightarrow>
                   walk_all (Suc d) (insert p visited) (map snd (picked pick kcs)) s)"
    and walk_all_Nil: "walk_all (Suc d) visited [] s = Inr (visited, s)"
    and walk_all_Cons:
      "walk_all (Suc d) visited (c # cs) s =
         (case walk (Suc d) visited c s of Inl e \<Rightarrow> Inl e | Inr (v, s') \<Rightarrow> walk_all (Suc d) v cs s')"
begin

text \<open>A stored tree within the cap is walked completely, in order.\<close>

lemma walk_all_list:
  assumes "\<And>t visited s. t \<in> set ts \<Longrightarrow> distinct (ids t) \<Longrightarrow> set (ids t) \<inter> visited = {} \<Longrightarrow>
      walk (Suc d) visited (root_id t) s = Inr (visited \<union> set (ids t), fold visit (entries t) s)"
    and "distinct (concat (map ids ts))" "set (concat (map ids ts)) \<inter> visited = {}"
  shows "walk_all (Suc d) visited (map root_id ts) s
    = Inr (visited \<union> set (concat (map ids ts)), fold visit (concat (map entries ts)) s)"
  using assms
proof (induction ts arbitrary: visited s)
  case (Cons t ts)
  have "walk (Suc d) visited (root_id t) s = Inr (visited \<union> set (ids t), fold visit (entries t) s)"
    using Cons.prems by (intro Cons.prems(1)) auto
  moreover have "walk_all (Suc d) (visited \<union> set (ids t)) (map root_id ts) (fold visit (entries t) s)
      = Inr ((visited \<union> set (ids t)) \<union> set (concat (map ids ts)),
             fold visit (concat (map entries ts)) (fold visit (entries t) s))"
    using Cons.prems by (intro Cons.IH) auto
  ultimately show ?case by (simp add: walk_all_Cons Un_assoc)
qed (simp add: walk_all_Nil)

lemma walk_shown:
  assumes "shown load pick d t" "height t + d \<le> cap" "distinct (ids t)" "set (ids t) \<inter> visited = {}"
  shows "walk d visited (root_id t) s = Inr (visited \<union> set (ids t), fold visit (entries t) s)"
  using assms
proof (induction t arbitrary: d visited s rule: ids.induct)
  case (1 p es)
  then show ?case by (subst walk_unfold) auto
next
  case (2 p kts)
  define ts where "ts = map snd kts"
  have kt: "map (\<lambda>(k, t). f t) kts = map f ts" for f :: "tree \<Rightarrow> 'b" by (simp add: ts_def case_prod_unfold)
  obtain kcs where l: "load d p = Inr (IndexNode kcs)"
    and k: "picked pick kcs = map (\<lambda>(k, t). (k, root_id t)) kts"
    and sh: "list_all (\<lambda>(k, t). shown load pick (Suc d) t) kts"
    using "2.prems"(1) by (auto split: sum.splits node.splits)
  have h: "d < cap" "\<forall>(k, t)\<in>set kts. height t + Suc d \<le> cap"
    using "2.prems"(2) unfolding height_Index_le by auto
  have dis: "distinct (concat (map ids ts))" "p \<notin> set (concat (map ids ts))" "p \<notin> visited"
      "set (concat (map ids ts)) \<inter> visited = {}"
    using "2.prems"(3,4) by (auto simp: kt)
  have "walk_all (Suc d) (insert p visited) (map root_id ts) s
      = Inr (insert p visited \<union> set (concat (map ids ts)), fold visit (concat (map entries ts)) s)"
  proof (rule walk_all_list)
    fix t v and s' :: 's
    assume t: "t \<in> set ts" "distinct (ids t)" "set (ids t) \<inter> v = {}"
    then obtain k where "(k, t) \<in> set kts" by (auto simp: ts_def)
    with t sh h show "walk (Suc d) v (root_id t) s' = Inr (v \<union> set (ids t), fold visit (entries t) s')"
      by (intro "2.IH" [of "(k, t)" k t]) (auto simp: list_all_iff)
  qed (use dis in auto)
  moreover have "map snd (picked pick kcs) = map root_id ts"
    by (simp add: k ts_def case_prod_unfold)
  ultimately show ?case
    using h(1) dis(3) l by (subst walk_unfold) (simp add: kt)
qed

text \<open>Conversely, a walk that succeeds has met a tree that the store shows.\<close>

lemma walk_all_sound:
  assumes one: "\<And>visited c s v' s'. walk (Suc d) visited c s = Inr (v', s') \<Longrightarrow>
      \<exists>t. root_id t = c \<and> shown load pick (Suc d) t \<and> height t + Suc d \<le> cap \<and> distinct (ids t)
        \<and> set (ids t) \<inter> visited = {} \<and> v' = visited \<union> set (ids t) \<and> s' = fold visit (entries t) s"
  shows "walk_all (Suc d) visited cs s = Inr (v', s') \<Longrightarrow>
    \<exists>ts. map root_id ts = cs \<and> (\<forall>t\<in>set ts. shown load pick (Suc d) t \<and> height t + Suc d \<le> cap)
      \<and> distinct (concat (map ids ts)) \<and> set (concat (map ids ts)) \<inter> visited = {}
      \<and> v' = visited \<union> set (concat (map ids ts)) \<and> s' = fold visit (concat (map entries ts)) s"
proof (induction cs arbitrary: visited s)
  case Nil
  then show ?case by (auto simp: walk_all_Nil)
next
  case (Cons c cs)
  then obtain v1 s1 where w: "walk (Suc d) visited c s = Inr (v1, s1)" "walk_all (Suc d) v1 cs s1 = Inr (v', s')"
    by (auto simp: walk_all_Cons split: sum.splits)
  from one [OF w(1)] obtain t where t: "root_id t = c" "shown load pick (Suc d) t" "height t + Suc d \<le> cap"
      "distinct (ids t)" "set (ids t) \<inter> visited = {}" "v1 = visited \<union> set (ids t)"
      "s1 = fold visit (entries t) s" by blast
  from Cons.IH [OF w(2)] obtain ts where "map root_id ts = cs"
      "\<forall>t\<in>set ts. shown load pick (Suc d) t \<and> height t + Suc d \<le> cap"
      "distinct (concat (map ids ts))" "set (concat (map ids ts)) \<inter> v1 = {}"
      "v' = v1 \<union> set (concat (map ids ts))" "s' = fold visit (concat (map entries ts)) s1" by blast
  with t show ?case by (intro exI [of _ "t # ts"]) auto
qed

lemma walk_sound:
  "walk d visited p s = Inr (v', s') \<Longrightarrow>
    \<exists>t. root_id t = p \<and> shown load pick d t \<and> height t + d \<le> cap \<and> distinct (ids t)
      \<and> set (ids t) \<inter> visited = {} \<and> v' = visited \<union> set (ids t) \<and> s' = fold visit (entries t) s"
proof (induction "cap - d" arbitrary: d visited p s v' s')
  case 0
  then show ?case by (subst (asm) walk_unfold) simp
next
  case (Suc n)
  have d: "d < cap" and p: "p \<notin> visited"
    using Suc.prems by (auto simp: walk_unfold [of d] split: if_splits)
  show ?case
  proof (cases "load d p")
    case (Inl e)
    then show ?thesis using Suc.prems d p by (subst (asm) walk_unfold) simp
  next
    case (Inr nd)
    show ?thesis
    proof (cases nd)
      case (LeafNode es)
      then show ?thesis using Suc.prems Inr d p
        by (subst (asm) walk_unfold) (auto intro!: exI [of _ "Leaf p es"])
    next
      case (IndexNode kcs)
      have wa: "walk_all (Suc d) (insert p visited) (map snd (picked pick kcs)) s = Inr (v', s')"
        using Suc.prems Inr IndexNode d p by (subst (asm) walk_unfold) simp
      have "n = cap - Suc d" using Suc.hyps(2) by simp
      from walk_all_sound [OF Suc.hyps(1) [OF this] wa] obtain ts
        where ts: "map root_id ts = map snd (picked pick kcs)"
          "\<forall>t\<in>set ts. shown load pick (Suc d) t \<and> height t + Suc d \<le> cap"
          "distinct (concat (map ids ts))" "set (concat (map ids ts)) \<inter> insert p visited = {}"
          "v' = insert p visited \<union> set (concat (map ids ts))"
          "s' = fold visit (concat (map entries ts)) s" by blast
      define kts where "kts = zip (map fst (picked pick kcs)) ts"
      have len: "length ts = length (picked pick kcs)" using ts(1) by (metis length_map)
      have snds: "map snd kts = ts" using len by (simp add: kts_def)
      have kt: "map (\<lambda>(k, t). f t) kts = map f ts" for f :: "tree \<Rightarrow> 'b"
        by (simp add: snds [symmetric] case_prod_unfold)
      have "map (\<lambda>(k, t). (k, root_id t)) kts = zip (map fst (picked pick kcs)) (map root_id ts)"
        by (simp add: kts_def zip_map2 case_prod_unfold)
      also have "\<dots> = picked pick kcs" by (simp add: ts(1) zip_map_fst_snd)
      finally have "picked pick kcs = map (\<lambda>(k, t). (k, root_id t)) kts" ..
      moreover have sub: "t \<in> set ts" if "(k, t) \<in> set kts" for k t
        using that by (auto simp: kts_def dest: set_zip_rightD)
      ultimately have "shown load pick d (Index p kts)"
        using Inr IndexNode ts(2) by (auto simp: list_all_iff)
      moreover have "height (Index p kts) + d \<le> cap"
        unfolding height_Index_le using d ts(2) sub by auto
      ultimately show ?thesis
        using ts p by (intro exI [of _ "Index p kts"]) (auto simp: kt)
    qed
  qed
qed

text \<open>The walk succeeds exactly on a bounded tree with distinct identifiers.\<close>

lemma walk_iff:
  "walk d visited p s = Inr (v', s') \<longleftrightarrow>
    (\<exists>t. root_id t = p \<and> shown load pick d t \<and> height t + d \<le> cap \<and> distinct (ids t)
      \<and> set (ids t) \<inter> visited = {} \<and> v' = visited \<union> set (ids t) \<and> s' = fold visit (entries t) s)"
  using walk_sound walk_shown by blast

text \<open>Children are walked one after the other, and what was visited stays visited.\<close>

lemma walk_all_append:
  "walk_all (Suc d) visited (xs @ ys) s =
     (case walk_all (Suc d) visited xs s of Inl e \<Rightarrow> Inl e | Inr (v, s') \<Rightarrow> walk_all (Suc d) v ys s')"
  by (induction xs arbitrary: visited s) (auto simp: walk_all_Nil walk_all_Cons split: sum.split)

lemma walk_all_visited: "walk_all (Suc d) visited cs s = Inr (v', s') \<Longrightarrow> visited \<subseteq> v'"
  using walk_all_sound [OF walk_sound] by blast

lemma walk_visited_twice: "p \<in> visited \<Longrightarrow> walk d visited p s = Inl (CycleGuard cap)"
  by (simp add: walk_unfold [of d])

text \<open>What every visit keeps, the whole walk keeps.\<close>

lemma walk_keeps:
  assumes "walk d visited p s = Inr (v', s')" "I s" "\<And>e s. I s \<Longrightarrow> I (visit e s)"
  shows "I s'"
  using walk_sound [OF assms(1)] fold_invariant [of _ "\<lambda>_. True" I s visit] assms(2,3) by blast

text \<open>The only errors are the guard's and those met while loading a node.\<close>

lemma walk_error:
  "(walk d visited p s = Inl e \<longrightarrow> e = CycleGuard cap \<or> (\<exists>d' p'. load d' p' = Inl e))"
proof (induction "cap - d" arbitrary: d visited p s)
  case 0
  then show ?case by (subst walk_unfold) simp
next
  case (Suc n)
  have "walk_all (Suc d) v cs s' = Inl e \<longrightarrow> e = CycleGuard cap \<or> (\<exists>d' p'. load d' p' = Inl e)" for v cs s'
  proof (induction cs arbitrary: v s')
    case Nil
    then show ?case by (simp add: walk_all_Nil)
  next
    case (Cons c cs)
    have "walk (Suc d) v c s' = Inl e \<longrightarrow> e = CycleGuard cap \<or> (\<exists>d' p'. load d' p' = Inl e)"
      using Suc.hyps(1) [of "Suc d" v c s'] Suc.hyps(2) by simp
    with Cons show ?case by (auto simp: walk_all_Cons split: sum.splits)
  qed
  then show ?case by (subst walk_unfold) (auto split: sum.splits node.splits)
qed

end

end
