(* ===== verification/Tree_Search.thy ===== *)
theory Tree_Search
  imports Tree_Walk
begin

text \<open>
  Keyed lookup in an ordered B-tree, at the level of the abstract trees of \<open>Tree_Walk\<close>: the
  child a point lookup follows, the leaf it lands on, and why that leaf suffices. In a tree
  whose separators are the smallest keys of their children's subtrees, the entries at or below
  the target that the landing leaf holds are a non-empty tail of all such entries, so the
  floor of the target is among them.
\<close>

subsection \<open>Following separators\<close>

text \<open>
  The child loop of \<^verbatim>\<open>find_leaf\<close>: start from a default and take every child up to the first
  separator that compares greater than the target.
\<close>

fun last_le :: "(bytes \<Rightarrow> ordering) \<Rightarrow> 'a \<Rightarrow> (bytes \<times> 'a) list \<Rightarrow> 'a" where
  "last_le cmp c [] = c"
| "last_le cmp c ((k, x) # kxs) = (if cmp k = Greater then c else last_le cmp x kxs)"

lemma last_le_in: "last_le cmp c kxs \<in> insert c (snd ` set kxs)"
  by (induction cmp c kxs rule: last_le.induct) auto

lemma last_le_map: "last_le cmp (f c) (map (\<lambda>(k, x). (k, f x)) kxs) = f (last_le cmp c kxs)"
  by (induction cmp c kxs rule: last_le.induct) auto

lemma last_le_split:
  "(kxs = [] \<or> cmp (fst (hd kxs)) = Greater) \<and> last_le cmp c kxs = c \<or>
   (\<exists>ys k zs. kxs = ys @ (k, last_le cmp c kxs) # zs \<and> cmp k \<noteq> Greater
      \<and> (zs = [] \<or> cmp (fst (hd zs)) = Greater))"
proof (induction cmp c kxs rule: last_le.induct)
  case (2 cmp c k x kxs)
  show ?case
  proof (cases "cmp k = Greater")
    case False
    from 2 [OF this] show ?thesis
    proof
      assume "(kxs = [] \<or> cmp (fst (hd kxs)) = Greater) \<and> last_le cmp x kxs = x"
      with False show ?thesis
        by (intro disjI2 exI [of _ "[]"] exI [of _ k] exI [of _ kxs]) auto
    next
      assume "\<exists>ys k zs. kxs = ys @ (k, last_le cmp x kxs) # zs \<and> cmp k \<noteq> Greater
        \<and> (zs = [] \<or> cmp (fst (hd zs)) = Greater)"
      then obtain ys k' zs where "kxs = ys @ (k', last_le cmp x kxs) # zs" "cmp k' \<noteq> Greater"
          "zs = [] \<or> cmp (fst (hd zs)) = Greater" by blast
      with False show ?thesis
        by (intro disjI2 exI [of _ "(k, x) # ys"] exI [of _ k'] exI [of _ zs]) auto
    qed
  qed simp
qed simp

subsection \<open>The landing leaf\<close>

lemma size_subtree: "(k, t) \<in> set kts \<Longrightarrow> size t < size (Index p kts)"
proof (induction kts)
  case (Cons a kts)
  then show ?case by (cases a) auto
qed simp

function search_leaf :: "(bytes \<Rightarrow> ordering) \<Rightarrow> tree \<Rightarrow> entry list" where
  "search_leaf cmp (Leaf p es) = es"
| "search_leaf cmp (Index p []) = []"
| "search_leaf cmp (Index p ((k, t) # kts)) = search_leaf cmp (last_le cmp t ((k, t) # kts))"
  by pat_completeness auto
termination
proof (relation "measure (\<lambda>(cmp, t). size t)", goal_cases)
  case (2 cmp p k t kts)
  define r where "r = last_le cmp t ((k, t) # kts)"
  have "r \<in> insert t (snd ` set ((k, t) # kts))" unfolding r_def by (rule last_le_in)
  then have "r \<in> snd ` set ((k, t) # kts)" by auto
  then obtain k' where "(k', r) \<in> set ((k, t) # kts)" by (metis imageE prod.collapse)
  then show ?case unfolding r_def [symmetric] using size_subtree [of k' r "(k, t) # kts" p] by simp
qed simp

text \<open>
  Ordered trees: leaves sorted, each separator the smallest key of its child's subtree, and
  every key of a child below the later separators.
\<close>

fun ordered :: "(bytes \<Rightarrow> 'k::linorder) \<Rightarrow> tree \<Rightarrow> bool" where
  "ordered f (Leaf p es) \<longleftrightarrow> sorted (map (\<lambda>e. f (fst e)) es)"
| "ordered f (Index p kts) \<longleftrightarrow>
     list_all (\<lambda>(k, t). ordered f t \<and> entries t \<noteq> [] \<and> f (fst (hd (entries t))) = f k) kts
     \<and> sorted_wrt (\<lambda>a b. \<forall>e\<in>set (entries (snd a)). f (fst e) < f (fst b)) kts"

abbreviation keys_of :: "(bytes \<Rightarrow> 'k) \<Rightarrow> tree \<Rightarrow> 'k list" where
  "keys_of f t \<equiv> map (\<lambda>e. f (fst e)) (entries t)"

lemma sorted_hd_le: "sorted (map g xs) \<Longrightarrow> x \<in> set xs \<Longrightarrow> g (hd xs) \<le> g x"
  by (cases xs) auto

lemma sorted_children:
  assumes "list_all (\<lambda>(k, t). sorted (keys_of f t) \<and> entries t \<noteq> [] \<and> f (fst (hd (entries t))) = f k) kts"
    and "sorted_wrt (\<lambda>a b. \<forall>e\<in>set (entries (snd a)). f (fst e) < f (fst b)) kts"
  shows "sorted (map (\<lambda>e. f (fst e)) (concat (map (\<lambda>(k, t). entries t) kts)))"
    and "\<And>k t e. (k, t) \<in> set kts \<Longrightarrow> e \<in> set (entries t) \<Longrightarrow> f k \<le> f (fst e)"
proof -
  have ge: "f k \<le> f (fst e)" if "(k, t) \<in> set kts" "e \<in> set (entries t)" for k t e
    using assms(1) that sorted_hd_le [of "\<lambda>e. f (fst e)" "entries t" e] by (fastforce simp: list_all_iff)
  then show "\<And>k t e. (k, t) \<in> set kts \<Longrightarrow> e \<in> set (entries t) \<Longrightarrow> f k \<le> f (fst e)" .
  show "sorted (map (\<lambda>e. f (fst e)) (concat (map (\<lambda>(k, t). entries t) kts)))"
    using assms ge
  proof (induction kts)
    case (Cons a kts)
    obtain k t where a: "a = (k, t)" by (cases a)
    have "sorted (map (\<lambda>e. f (fst e)) (concat (map (\<lambda>(k, t). entries t) kts)))"
      using Cons.prems by (intro Cons.IH) auto
    moreover have "f (fst e) \<le> f (fst e')"
      if "e \<in> set (entries t)" "(k', t') \<in> set kts" "e' \<in> set (entries t')" for e k' t' e'
    proof -
      have "f (fst e) < f k'" using Cons.prems(2) that a by auto
      moreover have "f k' \<le> f (fst e')" using Cons.prems(3) [of k' t' e'] that by simp
      ultimately show ?thesis by simp
    qed
    ultimately show ?case using Cons.prems(1) a by (auto simp: sorted_append)
  qed simp
qed

lemma ordered_sorted: "ordered f t \<Longrightarrow> sorted (keys_of f t)"
proof (induction f t rule: ordered.induct)
  case (2 f p kts)
  then have "list_all (\<lambda>(k, t). sorted (keys_of f t) \<and> entries t \<noteq> [] \<and> f (fst (hd (entries t))) = f k) kts"
    by (fastforce simp: list_all_iff)
  from sorted_children(1) [OF this] 2 show ?case by simp
qed simp


lemma ordered_child:
  assumes "ordered f (Index p kts)" "(k, t) \<in> set kts"
  shows "ordered f t" "entries t \<noteq> []" "f (fst (hd (entries t))) = f k"
    and "e \<in> set (entries t) \<Longrightarrow> f k \<le> f (fst e)"
proof -
  show "ordered f t" "entries t \<noteq> []" and k: "f (fst (hd (entries t))) = f k"
    using assms by (auto simp: list_all_iff)
  then show "e \<in> set (entries t) \<Longrightarrow> f k \<le> f (fst e)"
    using sorted_hd_le [OF ordered_sorted, of f t e] by simp
qed

text \<open>Children from a separator above the target on hold nothing at or below it.\<close>

lemma above_target:
  assumes "ordered f (Index p (ys @ zs))" "zs = [] \<or> x < f (fst (hd zs))"
    and "(k, t) \<in> set zs" "e \<in> set (entries t)"
  shows "x < f (fst e)"
proof -
  obtain k1 t1 zs' where zs: "zs = (k1, t1) # zs'" using assms(3) by (cases zs) auto
  have x: "x < f k1" using assms(2) zs by simp
  have e: "f k \<le> f (fst e)" using assms ordered_child(4) [OF assms(1), of k t e] by simp
  have "f k1 \<le> f k"
  proof (cases "(k, t) = (k1, t1)")
    case False
    then have "(k, t) \<in> set zs'" using assms(3) zs by auto
    moreover have "entries t1 \<noteq> []" and "f (fst (hd (entries t1))) = f k1"
      using ordered_child [OF assms(1), of k1 t1] zs by auto
    moreover have "\<forall>b\<in>set zs'. \<forall>e\<in>set (entries t1). f (fst e) < f (fst b)"
      using assms(1) zs by (simp add: sorted_wrt_append)
    then have "\<forall>e\<in>set (entries t1). f (fst e) < f k"
      using \<open>(k, t) \<in> set zs'\<close> by fastforce
    ultimately show ?thesis by (metis hd_in_set less_imp_le)
  qed simp
  with x e show ?thesis by simp
qed

lemma last_le_child:
  "\<exists>ys k' zs. (k, t) # kts = ys @ (k', last_le cmp t ((k, t) # kts)) # zs
     \<and> (cmp k' \<noteq> Greater \<or> ys = [] \<and> cmp k' = Greater)
     \<and> (zs = [] \<or> cmp (fst (hd zs)) = Greater \<or> cmp k' = Greater)"
  using last_le_split [of "(k, t) # kts" cmp t]
proof (elim disjE conjE exE, goal_cases)
  case 2
  then show ?case by (intro exI [of _ "[]"] exI [of _ k] exI [of _ kts]) simp
qed (blast | simp)+

lemma search_leaf_floor:
  assumes "ordered f t" and "\<And>k. cmp k = Greater \<longleftrightarrow> x < f k"
  shows "\<exists>pre. filter (\<lambda>e. f (fst e) \<le> x) (entries t)
        = pre @ filter (\<lambda>e. f (fst e) \<le> x) (search_leaf cmp t)
      \<and> (pre \<noteq> [] \<longrightarrow> filter (\<lambda>e. f (fst e) \<le> x) (search_leaf cmp t) \<noteq> [])
      \<and> (\<forall>a\<in>set pre. \<forall>b\<in>set (search_leaf cmp t). f (fst a) < f (fst b))
      \<and> set (search_leaf cmp t) \<subseteq> set (entries t)"
  using assms
proof (induction cmp t rule: search_leaf.induct)
  case (3 cmp p k t kts)
  let ?le = "\<lambda>e. f (fst e) \<le> x"
  define r where "r = last_le cmp t ((k, t) # kts)"
  have sr: "search_leaf cmp (Index p ((k, t) # kts)) = search_leaf cmp r" by (simp add: r_def)
  obtain ys k' zs where kts: "(k, t) # kts = ys @ (k', r) # zs"
    and c: "cmp k' \<noteq> Greater \<or> ys = [] \<and> cmp k' = Greater"
    and z: "zs = [] \<or> cmp (fst (hd zs)) = Greater \<or> cmp k' = Greater"
    using last_le_child [of k t kts cmp] unfolding r_def by blast
  have ord: "ordered f (Index p (ys @ (k', r) # zs))" using "3.prems"(1) kts by simp
  note child = ordered_child [OF ord, of k' r, simplified]
  obtain pre where pre: "filter ?le (entries r) = pre @ filter ?le (search_leaf cmp r)"
      "pre \<noteq> [] \<longrightarrow> filter ?le (search_leaf cmp r) \<noteq> []"
      "\<forall>a\<in>set pre. \<forall>b\<in>set (search_leaf cmp r). f (fst a) < f (fst b)"
      "set (search_leaf cmp r) \<subseteq> set (entries r)"
    using "3.IH" [folded r_def, OF child(1) "3.prems"(2)] by auto
  define B where "B = concat (map (\<lambda>(k, t). entries t) ys)"
  define A where "A = concat (map (\<lambda>(k, t). entries t) zs)"
  have ent: "entries (Index p ((k, t) # kts)) = B @ entries r @ A"
    unfolding kts by (simp add: A_def B_def)
  show ?case
  proof (cases "cmp k' = Greater")
    case True
    then have "ys = []" "x < f k'" using c "3.prems"(2) by auto
    then have gt: "x < f (fst e)" if "(k1, t1) \<in> set ((k', r) # zs)" "e \<in> set (entries t1)" for k1 t1 e
      using above_target [of f p "[]" "(k', r) # zs" x k1 t1 e] ord that by simp
    have "filter ?le A = []" using gt by (fastforce simp: A_def filter_empty_conv not_le)
    moreover have "filter ?le (entries r) = []"
      using gt [of k' r] by (auto simp: filter_empty_conv not_le)
    ultimately show ?thesis
      using pre sr ent \<open>ys = []\<close> by (intro exI [of _ "[]"]) (auto simp: B_def)
  next
    case False
    then have x: "f k' \<le> x" using "3.prems"(2) [of k'] by simp
    have "x < f (fst e)" if "(k1, t1) \<in> set zs" "e \<in> set (entries t1)" for k1 t1 e
      using above_target [of f p "ys @ [(k', r)]" zs x k1 t1 e] ord z False that "3.prems"(2) by auto
    then have "filter ?le A = []" by (fastforce simp: A_def filter_empty_conv not_le)
    moreover have lt: "f (fst a) < f (fst b)" if "a \<in> set B" "b \<in> set (entries r)" for a b
    proof -
      have "f (fst a) < f k'" using ord that by (auto simp: B_def sorted_wrt_append)
      with child(4) [OF that(2)] show ?thesis by simp
    qed
    moreover have "filter ?le (entries r) \<noteq> []"
      using child(2,3) x by (auto simp: filter_empty_conv intro!: bexI [of _ "hd (entries r)"])
    ultimately show ?thesis
      using pre sr ent by (intro exI [of _ "filter ?le B @ pre"]) auto
  qed
qed auto

end
