(* ===== verification/Btree.thy ===== *)
theory Btree
  imports Object Tree_Search "HOL-Library.Sublist"
begin

text \<open>
  \<^verbatim>\<open>core/src/btree.rs\<close>: node headers, the table-of-contents walk of a single node, the
  checksum-verified node read, the full descent \<open>for_each_leaf_entry\<close> and the point lookup
  \<open>find_leaf\<close>. Both descents are proved against the abstract trees: the full one is an
  instance of the walk contract, the point lookup visits the landing leaf.
\<close>

subsection \<open>Constants and headers\<close>

definition BTNODE_FIXED_KV_SIZE :: u16 where [layout_defs]: "BTNODE_FIXED_KV_SIZE = 0x4"
definition BTNODE_ROOT :: u16 where [layout_defs]: "BTNODE_ROOT = 0x1"
definition BTNODE_LEAF :: u16 where [layout_defs]: "BTNODE_LEAF = 0x2"
definition OFF_BTN_FLAGS :: nat where [layout_defs]: "OFF_BTN_FLAGS = 32"
definition OFF_BTN_LEVEL :: nat where [layout_defs]: "OFF_BTN_LEVEL = 34"
definition OFF_BTN_NKEYS :: nat where [layout_defs]: "OFF_BTN_NKEYS = 36"
definition OFF_BTN_TABLE_SPACE :: nat where [layout_defs]: "OFF_BTN_TABLE_SPACE = 40"
definition BTN_DATA_OFF :: nat where [layout_defs]: "BTN_DATA_OFF = 56"
definition BTREE_NODE_MIN_LEN :: nat where [layout_defs]: "BTREE_NODE_MIN_LEN = BTN_DATA_OFF"
definition BTREE_INFO_LEN :: nat where [layout_defs]: "BTREE_INFO_LEN = 40"
definition TOC_FIXED_LEN :: nat where [layout_defs]: "TOC_FIXED_LEN = 4"
definition TOC_VAR_LEN :: nat where [layout_defs]: "TOC_VAR_LEN = 8"
definition MAX_BTN_NKEYS :: u32 where [layout_defs]: "MAX_BTN_NKEYS = 1048576"
definition MAX_BTREE_DEPTH :: nat where [layout_defs]: "MAX_BTREE_DEPTH = 64"

datatype btree_subtype = Omap | FsTree

primrec fixed_key_len :: "btree_subtype \<Rightarrow> nat" where
  "fixed_key_len Omap = 16"
| "fixed_key_len FsTree = 0"

primrec fixed_leaf_val_len :: "btree_subtype \<Rightarrow> nat" where
  "fixed_leaf_val_len Omap = 16"
| "fixed_leaf_val_len FsTree = 0"

primrec fixed_branch_val_len :: "btree_subtype \<Rightarrow> nat" where
  "fixed_branch_val_len Omap = 8"
| "fixed_branch_val_len FsTree = 8"

record btree_node_header =
  btn_flags :: u16
  btn_level :: u16
  btn_nkeys :: u32

definition is_leaf :: "btree_node_header \<Rightarrow> bool" where
  "is_leaf h \<longleftrightarrow> btn_flags h AND BTNODE_LEAF \<noteq> 0 \<or> btn_level h = 0"

definition is_root :: "btree_node_header \<Rightarrow> bool" where
  "is_root h \<longleftrightarrow> btn_flags h AND BTNODE_ROOT \<noteq> 0"

definition is_fixed_kv :: "btree_node_header \<Rightarrow> bool" where
  "is_fixed_kv h \<longleftrightarrow> btn_flags h AND BTNODE_FIXED_KV_SIZE \<noteq> 0"

definition parse_node_header :: "bytes \<Rightarrow> btree_node_header option" where
  "parse_node_header block =
     (if length block < BTREE_NODE_MIN_LEN then None
      else Some \<lparr> btn_flags = le_u16 block OFF_BTN_FLAGS, btn_level = le_u16 block OFF_BTN_LEVEL,
                  btn_nkeys = le_u32 block OFF_BTN_NKEYS \<rparr>)"

subsection \<open>The entries of one node\<close>

text \<open>The fixed quantities of a node that every TOC entry is decoded against.\<close>

record toc_geometry =
  toc_fixed :: bool
  toc_start :: nat
  key_area :: nat
  val_base :: nat
  entry_len :: nat
  toc_key_len :: nat
  toc_val_len :: nat

definition toc_geometry_of :: "bytes \<Rightarrow> btree_node_header \<Rightarrow> btree_subtype \<Rightarrow> toc_geometry" where
  "toc_geometry_of block hdr subtype =
     (let toc_off = unat (le_u16 block OFF_BTN_TABLE_SPACE);
          toc_len = unat (le_u16 block (OFF_BTN_TABLE_SPACE + 2));
          start = BTN_DATA_OFF + toc_off
      in \<lparr> toc_fixed = is_fixed_kv hdr, toc_start = start, key_area = start + toc_len,
           val_base = (if is_root hdr then length block - BTREE_INFO_LEN else length block),
           entry_len = (if is_fixed_kv hdr then TOC_FIXED_LEN else TOC_VAR_LEN),
           toc_key_len = fixed_key_len subtype,
           toc_val_len = (if is_leaf hdr then fixed_leaf_val_len subtype
                          else fixed_branch_val_len subtype) \<rparr>)"

text \<open>
  One TOC entry at offset \<open>e\<close>: \<open>None\<close> is the \<^verbatim>\<open>continue\<close> on a reversed value offset beyond
  \<open>val_base\<close> or a slice past the node.
\<close>

definition toc_entry :: "bytes \<Rightarrow> toc_geometry \<Rightarrow> nat \<Rightarrow> entry option" where
  "toc_entry block g e =
     (let koff = unat (le_u16 block e);
          (voff, this_key_len, this_val_len) =
            (if toc_fixed g then (unat (le_u16 block (e + 2)), toc_key_len g, toc_val_len g)
             else (unat (le_u16 block (e + 4)), unat (le_u16 block (e + 2)), unat (le_u16 block (e + 6))));
          kstart = key_area g + koff;
          kend = kstart + this_key_len
      in if val_base g < voff then None
         else let vstart = val_base g - voff; vend = vstart + this_val_len
              in case (get_range block kstart kend, get_range block vstart vend) of
                   (Some key, Some value) \<Rightarrow> Some (key, value)
                 | _ \<Rightarrow> None)"

text \<open>The loop \<^verbatim>\<open>for i in 0..nkeys\<close>, with \<open>n\<close> iterations left.\<close>

primrec toc_loop :: "bytes \<Rightarrow> toc_geometry \<Rightarrow> nat \<Rightarrow> nat \<Rightarrow> entry list" where
  "toc_loop block g i 0 = []"
| "toc_loop block g i (Suc n) =
     (let e = toc_start g + i * entry_len g
      in if e + entry_len g > key_area g \<or> e + entry_len g > length block then []
         else case toc_entry block g e of
                None \<Rightarrow> toc_loop block g (Suc i) n
              | Some kv \<Rightarrow> kv # toc_loop block g (Suc i) n)"

definition node_entries :: "bytes \<Rightarrow> btree_subtype \<Rightarrow> entry list" where
  "node_entries block subtype =
     (case parse_node_header block of
        None \<Rightarrow> []
      | Some hdr \<Rightarrow>
          let nkeys = unat (min (btn_nkeys hdr) MAX_BTN_NKEYS)
          in if nkeys = 0 then [] else toc_loop block (toc_geometry_of block hdr subtype) 0 nkeys)"

subsection \<open>Verified node reads\<close>

definition read_verified_node :: "reader \<Rightarrow> u64 \<Rightarrow> nat \<Rightarrow> bytes option res" where
  "read_verified_node rd paddr block_size =
     (case checked_mul_u64 paddr (of_nat block_size) of
        None \<Rightarrow> Inr None
      | Some offset \<Rightarrow>
          (case read_exact_at rd offset block_size of
             Inl e \<Rightarrow> Inl e
           | Inr buf \<Rightarrow>
               let stored = fletcher64_stored buf; computed = fletcher64_checksum buf
               in if stored \<noteq> computed
                  then Inl (ChecksumMismatch
                         (case obj_phys_parse buf of None \<Rightarrow> paddr | Some h \<Rightarrow> o_oid h) stored computed)
                  else Inr (Some buf)))"

subsection \<open>The full descent\<close>

function descend :: "reader \<Rightarrow> nat \<Rightarrow> btree_subtype \<Rightarrow> (bytes \<Rightarrow> bytes \<Rightarrow> 's \<Rightarrow> 's) \<Rightarrow>
    nat \<Rightarrow> u64 set \<Rightarrow> u64 \<Rightarrow> 's \<Rightarrow> (u64 set \<times> 's) res"
  and descend_children :: "reader \<Rightarrow> nat \<Rightarrow> btree_subtype \<Rightarrow> (bytes \<Rightarrow> bytes \<Rightarrow> 's \<Rightarrow> 's) \<Rightarrow>
    nat \<Rightarrow> u64 set \<Rightarrow> u64 list \<Rightarrow> 's \<Rightarrow> (u64 set \<times> 's) res" where
  "descend rd block_size subtype visit depth visited paddr s =
     (if depth \<ge> MAX_BTREE_DEPTH then Inl (CycleGuard MAX_BTREE_DEPTH)
      else if paddr \<in> visited then Inl (CycleGuard MAX_BTREE_DEPTH)
      else case read_verified_node rd paddr block_size of
             Inl e \<Rightarrow> Inl e
           | Inr None \<Rightarrow> Inr (insert paddr visited, s)
           | Inr (Some buf) \<Rightarrow>
               (case parse_node_header buf of
                  None \<Rightarrow> Inr (insert paddr visited, s)
                | Some hdr \<Rightarrow>
                    if is_leaf hdr
                    then Inr (insert paddr visited,
                              fold (\<lambda>(k, v). visit k v) (node_entries buf subtype) s)
                    else descend_children rd block_size subtype visit (depth + 1)
                           (insert paddr visited)
                           (map (\<lambda>(k, v). le_u64 v 0) (node_entries buf subtype)) s))"
| "descend_children rd block_size subtype visit depth visited [] s = Inr (visited, s)"
| "descend_children rd block_size subtype visit depth visited (child # children) s =
     (case descend rd block_size subtype visit depth visited child s of
        Inl e \<Rightarrow> Inl e
      | Inr (visited', s') \<Rightarrow>
          descend_children rd block_size subtype visit depth visited' children s')"
  by pat_completeness auto
termination
  by (relation "measures [case_sum (\<lambda>(_, _, _, _, d, _). MAX_BTREE_DEPTH - d)
                                   (\<lambda>(_, _, _, _, d, _). MAX_BTREE_DEPTH - d),
                          case_sum (\<lambda>_. 0) (\<lambda>(_, _, _, _, _, _, cs, _). Suc (length cs))]")
    auto

declare descend.simps [simp del]

definition for_each_leaf_entry :: "reader \<Rightarrow> u64 \<Rightarrow> nat \<Rightarrow> btree_subtype \<Rightarrow>
    (bytes \<Rightarrow> bytes \<Rightarrow> 's \<Rightarrow> 's) \<Rightarrow> 's \<Rightarrow> 's res" where
  "for_each_leaf_entry rd root_paddr block_size subtype visit s =
     (case descend rd block_size subtype visit 0 {} root_paddr s of
        Inl e \<Rightarrow> Inl e | Inr (_, s') \<Rightarrow> Inr s')"

subsection \<open>The point lookup\<close>

text \<open>The bounded loop of \<open>find_leaf\<close>, with \<open>n\<close> iterations left.\<close>

primrec find_leaf_loop :: "nat \<Rightarrow> reader \<Rightarrow> nat \<Rightarrow> btree_subtype \<Rightarrow> (bytes \<Rightarrow> ordering) \<Rightarrow>
    (bytes \<Rightarrow> bytes \<Rightarrow> 's \<Rightarrow> 's) \<Rightarrow> u64 set \<Rightarrow> u64 \<Rightarrow> 's \<Rightarrow> 's res" where
  "find_leaf_loop 0 rd block_size subtype cmp visit visited paddr s = Inl (CycleGuard MAX_BTREE_DEPTH)"
| "find_leaf_loop (Suc n) rd block_size subtype cmp visit visited paddr s =
     (if paddr \<in> visited then Inl (CycleGuard MAX_BTREE_DEPTH)
      else case read_verified_node rd paddr block_size of
             Inl e \<Rightarrow> Inl e
           | Inr None \<Rightarrow> Inr s
           | Inr (Some buf) \<Rightarrow>
               (case parse_node_header buf of
                  None \<Rightarrow> Inr s
                | Some hdr \<Rightarrow>
                    if is_leaf hdr then Inr (fold (\<lambda>(k, v). visit k v) (node_entries buf subtype) s)
                    else let kcs = map (\<lambda>(k, v). (k, le_u64 v 0)) (node_entries buf subtype)
                         in case kcs of
                              [] \<Rightarrow> Inr s
                            | (_, c) # _ \<Rightarrow>
                                find_leaf_loop n rd block_size subtype cmp visit
                                  (insert paddr visited) (last_le cmp c kcs) s))"

definition find_leaf :: "reader \<Rightarrow> u64 \<Rightarrow> nat \<Rightarrow> btree_subtype \<Rightarrow> (bytes \<Rightarrow> ordering) \<Rightarrow>
    (bytes \<Rightarrow> bytes \<Rightarrow> 's \<Rightarrow> 's) \<Rightarrow> 's \<Rightarrow> 's res" where
  "find_leaf rd root_paddr block_size subtype cmp visit s =
     find_leaf_loop MAX_BTREE_DEPTH rd block_size subtype cmp visit {} root_paddr s"


subsection \<open>Bounds of the entry walk\<close>

lemma get_range_sublist: "get_range xs a b = Some ys \<Longrightarrow> sublist ys xs"
  by (auto simp: get_range_def split: if_splits intro: sublist_order.order_trans)

lemma toc_entry_sublist:
  "toc_entry block g e = Some (k, v) \<Longrightarrow> sublist k block \<and> sublist v block"
  by (auto simp: toc_entry_def Let_def split: if_splits option.splits dest: get_range_sublist)

lemma toc_loop_sublist:
  "(k, v) \<in> set (toc_loop block g i n) \<Longrightarrow> sublist k block \<and> sublist v block"
proof (induction n arbitrary: i)
  case (Suc n)
  then show ?case
    by (auto simp: Let_def split: if_splits option.splits dest: toc_entry_sublist)
qed simp

lemma toc_loop_count:
  assumes "0 < entry_len g"
  shows "(i + length (toc_loop block g i n)) * entry_len g \<le> max (i * entry_len g) (length block)"
proof (induction n arbitrary: i)
  case (Suc n)
  from Suc [of "Suc i"] show ?case
    by (auto simp: Let_def max_def split: if_splits option.splits)
qed simp

lemma toc_loop_length: "length (toc_loop block g i n) \<le> n"
proof (induction n arbitrary: i)
  case (Suc n)
  from Suc [of "Suc i"] show ?case by (auto simp: Let_def split: option.splits)
qed simp

text \<open>
  C38. Whatever a node block contains, the entries taken from it lie inside it and their
  number is bounded: by \<open>btn_nkeys\<close>, by the allocation cap and by the table of contents that
  fits the block. No header value makes the walk read past the block.
\<close>

theorem node_entries_bounded:
  "length (node_entries block st) \<le> unat (le_u32 block OFF_BTN_NKEYS)
   \<and> length (node_entries block st) \<le> 2 ^ 20
   \<and> 4 * length (node_entries block st) \<le> length block
   \<and> (\<forall>e. e \<in> set (node_entries block st) \<longrightarrow> sublist (fst e) block \<and> sublist (snd e) block)"
proof (cases "parse_node_header block")
  case (Some hdr)
  define g where "g = toc_geometry_of block hdr st"
  define n where "n = unat (min (btn_nkeys hdr) MAX_BTN_NKEYS)"
  have hdr: "btn_nkeys hdr = le_u32 block OFF_BTN_NKEYS"
    using Some by (auto simp: parse_node_header_def split: if_splits)
  have "unat (min (btn_nkeys hdr) MAX_BTN_NKEYS) \<le> unat (btn_nkeys hdr)"
    and "unat (min (btn_nkeys hdr) MAX_BTN_NKEYS) \<le> unat MAX_BTN_NKEYS"
    by (simp_all add: word_le_nat_alt [symmetric])
  then have n: "n \<le> unat (le_u32 block OFF_BTN_NKEYS)" "n \<le> 2 ^ 20"
    by (simp_all add: n_def hdr MAX_BTN_NKEYS_def)
  have "4 \<le> entry_len g"
    by (auto simp: g_def toc_geometry_of_def Let_def TOC_FIXED_LEN_def TOC_VAR_LEN_def)
  then have "4 * length (toc_loop block g 0 n) \<le> length (toc_loop block g 0 n) * entry_len g" by simp
  also have "\<dots> \<le> length block"
    using toc_loop_count [of g 0 block n] \<open>4 \<le> entry_len g\<close> by simp
  finally have "4 * length (toc_loop block g 0 n) \<le> length block" .
  with n show ?thesis
    using toc_loop_length [of block g 0 n] toc_loop_sublist [of _ _ block g 0 n] Some
    by (auto simp: node_entries_def Let_def g_def [symmetric] n_def [symmetric])
qed (simp add: node_entries_def)

theorem node_entries_bounded_witness:
  "length (node_entries (replicate 56 0xff) Omap) \<le> 2 ^ 20"
  using node_entries_bounded [of "replicate 56 0xff" Omap] by simp

subsection \<open>Descents and the walk contract\<close>

text \<open>What a physical node loads as; an unreadable address or short block shows nothing.\<close>

definition load_physical :: "reader \<Rightarrow> nat \<Rightarrow> btree_subtype \<Rightarrow> u64 \<Rightarrow> node res" where
  "load_physical rd block_size subtype paddr =
     (case read_verified_node rd paddr block_size of
        Inl e \<Rightarrow> Inl e
      | Inr None \<Rightarrow> Inr (LeafNode [])
      | Inr (Some buf) \<Rightarrow>
          (case parse_node_header buf of
             None \<Rightarrow> Inr (LeafNode [])
           | Some hdr \<Rightarrow>
               if is_leaf hdr then Inr (LeafNode (node_entries buf subtype))
               else Inr (IndexNode (map (\<lambda>(k, v). (k, le_u64 v 0)) (node_entries buf subtype)))))"

interpretation phys: tree_walk
  "\<lambda>_. load_physical rd block_size subtype" pick_all "\<lambda>(k, v). visit k v" MAX_BTREE_DEPTH
  "descend rd block_size subtype visit" "descend_children rd block_size subtype visit"
  for rd block_size subtype visit
proof (unfold_locales, goal_cases)
  case (1 d visited p s)
  show ?case
    by (subst descend.simps)
      (auto simp: load_physical_def comp_def case_prod_unfold split: sum.splits option.splits)
qed simp_all

lemma for_each_leaf_entry_shown:
  assumes "shown (\<lambda>_. load_physical rd block_size subtype) pick_all 0 t"
    and "height t \<le> MAX_BTREE_DEPTH" "distinct (ids t)"
  shows "for_each_leaf_entry rd (root_id t) block_size subtype visit s
    = Inr (fold (\<lambda>(k, v). visit k v) (entries t) s)"
  using phys.walk_shown [of rd block_size subtype 0 t "{}" visit s] assms
  by (simp add: for_each_leaf_entry_def)

lemma find_leaf_loop_unfold:
  "find_leaf_loop (Suc n) rd block_size subtype cmp visit visited paddr s =
     (if paddr \<in> visited then Inl (CycleGuard MAX_BTREE_DEPTH)
      else case load_physical rd block_size subtype paddr of
             Inl e \<Rightarrow> Inl e
           | Inr (LeafNode es) \<Rightarrow> Inr (fold (\<lambda>(k, v). visit k v) es s)
           | Inr (IndexNode []) \<Rightarrow> Inr s
           | Inr (IndexNode ((k, c) # kcs)) \<Rightarrow>
               find_leaf_loop n rd block_size subtype cmp visit (insert paddr visited)
                 (last_le cmp c ((k, c) # kcs)) s)"
  by (auto simp: load_physical_def Let_def split: sum.splits option.splits list.splits prod.splits)


lemma find_leaf_loop_shown:
  assumes "shown (\<lambda>_. load_physical rd block_size subtype) pick_all d t"
    and "height t \<le> n" "distinct (ids t)" "set (ids t) \<inter> visited = {}"
  shows "find_leaf_loop n rd block_size subtype cmp visit visited (root_id t) s
    = Inr (fold (\<lambda>(k, v). visit k v) (search_leaf cmp t) s)"
  using assms
proof (induction cmp t arbitrary: d n visited rule: search_leaf.induct)
  case (1 cmp p es)
  then obtain m where "n = Suc m" by (cases n) auto
  then show ?case using 1 by (simp add: find_leaf_loop_unfold del: find_leaf_loop.simps)
next
  case (2 cmp p)
  then obtain m where "n = Suc m" by (cases n) auto
  then show ?case using 2
    by (auto simp: find_leaf_loop_unfold simp del: find_leaf_loop.simps split: sum.splits node.splits)
next
  case (3 cmp p k t kts)
  then obtain m where n: "n = Suc m" by (cases n) auto
  define r where "r = last_le cmp t ((k, t) # kts)"
  have "r \<in> snd ` set ((k, t) # kts)"
    using last_le_in [of cmp t "(k, t) # kts"] by (auto simp: r_def)
  then obtain k' where r: "(k', r) \<in> set ((k, t) # kts)" by (metis imageE prod.collapse)
  have l: "load_physical rd block_size subtype p
      = Inr (IndexNode (map (\<lambda>(k, t). (k, root_id t)) ((k, t) # kts)))"
    and sh: "list_all (\<lambda>(k, t). shown (\<lambda>_. load_physical rd block_size subtype) pick_all (Suc d) t) ((k, t) # kts)"
    using "3.prems"(1) by (auto split: sum.splits node.splits)
  have "last_le cmp (root_id t) (map (\<lambda>(k, t). (k, root_id t)) ((k, t) # kts)) = root_id r"
    unfolding r_def by (rule last_le_map)
  then have "find_leaf_loop n rd block_size subtype cmp visit visited p s
      = find_leaf_loop m rd block_size subtype cmp visit (insert p visited) (root_id r) s"
    using "3.prems"(4) n l by (simp add: find_leaf_loop_unfold del: find_leaf_loop.simps)
  also have "\<dots> = Inr (fold (\<lambda>(k, v). visit k v) (search_leaf cmp r) s)"
  proof (rule "3.IH" [folded r_def])
    show "shown (\<lambda>_. load_physical rd block_size subtype) pick_all (Suc d) r"
      using sh r by (fastforce simp: list_all_iff)
    show "height r \<le> m"
      using "3.prems"(2) height_Index_le [of p "(k, t) # kts" 0 n] r n by auto
    obtain xs ys where sp: "(k, t) # kts = xs @ (k', r) # ys" using r by (meson split_list)
    show "distinct (ids r)" "set (ids r) \<inter> insert p visited = {}"
      using "3.prems"(3,4) unfolding sp by auto
  qed
  finally show ?case by (simp add: r_def)
qed

lemma find_leaf_shown:
  assumes "shown (\<lambda>_. load_physical rd block_size subtype) pick_all 0 t"
    and "height t \<le> MAX_BTREE_DEPTH" "distinct (ids t)"
  shows "find_leaf rd (root_id t) block_size subtype cmp visit s
    = Inr (fold (\<lambda>(k, v). visit k v) (search_leaf cmp t) s)"
  by (simp add: find_leaf_def find_leaf_loop_shown [OF assms])


text \<open>
  C20. The full B-tree walk succeeds exactly when the image stores, from the root block on, a
  finite tree of verified nodes of height at most 64 in which no block occurs twice, and then
  it has visited precisely the leaf entries of that tree, from left to right. Every other
  image, cyclic ones included, makes the walk stop with an error.
\<close>

theorem for_each_leaf_entry_iff:
  "for_each_leaf_entry rd root_paddr block_size subtype visit s = Inr s' \<longleftrightarrow>
    (\<exists>t. root_id t = root_paddr \<and> shown (\<lambda>_. load_physical rd block_size subtype) pick_all 0 t
      \<and> height t \<le> 64 \<and> distinct (ids t) \<and> s' = fold (\<lambda>(k, v). visit k v) (entries t) s)"
proof -
  have "for_each_leaf_entry rd root_paddr block_size subtype visit s = Inr s' \<longleftrightarrow>
      (\<exists>v'. descend rd block_size subtype visit 0 {} root_paddr s = Inr (v', s'))"
    by (auto simp: for_each_leaf_entry_def split: sum.splits)
  then show ?thesis by (auto simp: phys.walk_iff MAX_BTREE_DEPTH_def)
qed

lemma load_physical_error:
  "load_physical rd block_size subtype p = Inl e \<longleftrightarrow> read_verified_node rd p block_size = Inl e"
  by (auto simp: load_physical_def split: sum.splits option.splits if_splits)

text \<open>
  The only errors of the full walk are the cycle guard and the errors of a node read (I/O
  or checksum); in particular it never returns normally past a node it could not verify.
\<close>

lemma for_each_leaf_entry_errors:
  "for_each_leaf_entry rd root_paddr block_size subtype visit s = Inl e \<Longrightarrow>
     e = CycleGuard 64 \<or> (\<exists>p. read_verified_node rd p block_size = Inl e)"
  using phys.walk_error [of rd block_size subtype visit 0 "{}" root_paddr s e]
  by (auto simp: for_each_leaf_entry_def load_physical_error MAX_BTREE_DEPTH_def split: sum.splits)

lemma for_each_leaf_entry_errors_at_sample:
  "\<exists>p. read_verified_node (cursor []) p 64 = Inl (Io UnexpectedEof)"
proof -
  have "for_each_leaf_entry (cursor []) 1 64 Omap (\<lambda>_ _ s. s) () = Inl (Io UnexpectedEof)"
    by (simp add: for_each_leaf_entry_def descend.simps MAX_BTREE_DEPTH_def read_verified_node_def
        checked_mul_u64_def read_exact_at_def cursor_def)
  from for_each_leaf_entry_errors [OF this] show ?thesis by simp
qed

end
