(* ===== verification/Node_Encoding.thy ===== *)
theory Node_Encoding
  imports Btree
begin

text \<open>
  A writer for B-tree nodes in the layout the header of \<^verbatim>\<open>core/src/btree.rs\<close> documents (table
  of contents, keys growing upward, values growing downward from the footer or the end of the
  node), and the round trip: the reader's entry walk returns exactly the entries written, for
  fixed-size and variable-size nodes, root or not.
\<close>

subsection \<open>Layout of a node\<close>

definition enc_toc :: "bool \<Rightarrow> entry list \<Rightarrow> nat \<Rightarrow> bytes" where
  "enc_toc fixed es i =
     (let koff = of_nat (length (concat (map fst (take i es)))) :: u16;
          voff = of_nat (length (concat (map snd (take (Suc i) es)))) :: u16
      in if fixed then to_le 2 koff @ to_le 2 voff
         else to_le 2 koff @ to_le 2 (of_nat (length (fst (es ! i))) :: u16)
              @ to_le 2 voff @ to_le 2 (of_nat (length (snd (es ! i))) :: u16))"

definition enc_toc_len :: "bool \<Rightarrow> nat" where
  "enc_toc_len fixed = (if fixed then TOC_FIXED_LEN else TOC_VAR_LEN)"

definition enc_node_fields :: "u16 \<Rightarrow> u16 \<Rightarrow> entry list \<Rightarrow> bytes" where
  "enc_node_fields flags level es =
     to_le 2 flags @ to_le 2 level @ to_le 4 (of_nat (length es) :: u32)
     @ to_le 2 (0 :: u16)
     @ to_le 2 (of_nat (enc_toc_len (flags AND BTNODE_FIXED_KV_SIZE \<noteq> 0) * length es) :: u16)
     @ replicate 12 0"

text \<open>\<open>hdr\<close> is the object header after its checksum field (24 bytes), \<open>free\<close> the unused middle.\<close>

definition enc_node :: "bytes \<Rightarrow> u16 \<Rightarrow> u16 \<Rightarrow> entry list \<Rightarrow> bytes \<Rightarrow> bytes \<Rightarrow> bytes" where
  "enc_node hdr flags level es free footer =
     seal_block (hdr @ enc_node_fields flags level es
       @ concat (map (enc_toc (flags AND BTNODE_FIXED_KV_SIZE \<noteq> 0) es) [0..<length es])
       @ concat (map fst es) @ free @ concat (rev (map snd es)) @ footer)"

text \<open>What the layout demands of the entries: offsets fit 16 bits, fixed sizes are respected.\<close>

definition enc_ok :: "btree_subtype \<Rightarrow> bytes \<Rightarrow> u16 \<Rightarrow> u16 \<Rightarrow> entry list \<Rightarrow> bytes \<Rightarrow> bool" where
  "enc_ok st hdr flags level es footer \<longleftrightarrow>
     length hdr = 24
     \<and> length (concat (map fst es)) < 2 ^ 16 \<and> length (concat (map snd es)) < 2 ^ 16
     \<and> 8 * length es < 2 ^ 16
     \<and> length footer = (if flags AND BTNODE_ROOT \<noteq> 0 then BTREE_INFO_LEN else 0)
     \<and> (flags AND BTNODE_FIXED_KV_SIZE \<noteq> 0 \<longrightarrow>
          list_all (\<lambda>(k, v). length k = fixed_key_len st \<and>
            length v = (if flags AND BTNODE_LEAF \<noteq> 0 \<or> level = 0 then fixed_leaf_val_len st
                        else fixed_branch_val_len st)) es)"

subsection \<open>Positions from the end\<close>

lemma length_concat_take_rev:
  assumes "i < length xss"
  shows "length (concat (take (length xss - Suc i) (rev xss))) + length (concat (take (Suc i) xss))
    = length (concat (rev xss))"
proof -
  have "take (length xss - Suc i) (rev xss) = rev (drop (Suc i) xss)"
    using assms by (simp add: take_rev)
  then have "length (concat (take (length xss - Suc i) (rev xss))) = length (concat (drop (Suc i) xss))"
    by (simp add: length_concat rev_map [symmetric])
  moreover have "length (concat (take (Suc i) xss)) + length (concat (drop (Suc i) xss)) = length (concat xss)"
    by (metis append_take_drop_id concat_append length_append)
  ultimately show ?thesis by (simp add: length_concat rev_map [symmetric])
qed

subsection \<open>The entry loop on a full table of contents\<close>

lemma toc_loop_all:
  assumes "\<And>i. i < length es \<Longrightarrow>
      toc_start g + i * entry_len g + entry_len g \<le> key_area g
      \<and> toc_start g + i * entry_len g + entry_len g \<le> length block
      \<and> toc_entry block g (toc_start g + i * entry_len g) = Some (es ! i)"
    and "i + n = length es"
  shows "toc_loop block g i n = drop i es"
  using assms(2)
proof (induction n arbitrary: i)
  case (Suc n)
  then have "i < length es" by simp
  with assms(1) [OF this] Suc show ?case
    by (simp add: Let_def Cons_nth_drop_Suc add.commute add.left_commute)
qed simp


subsection \<open>Round trip\<close>

lemma length_enc_node_fields [simp]: "length (enc_node_fields flags level es) = 24"
  by (simp add: enc_node_fields_def)

lemma length_enc_toc [simp]: "length (enc_toc fixed es i) = enc_toc_len fixed"
  by (simp add: enc_toc_def enc_toc_len_def Let_def layout_defs)

lemma enc_node_fields_reads:
  "le_u16 (enc_node_fields flags level es @ r) 0 = flags"
  "le_u16 (enc_node_fields flags level es @ r) 2 = level"
  "le_u32 (enc_node_fields flags level es @ r) 4 = of_nat (length es)"
  "le_u16 (enc_node_fields flags level es @ r) 8 = 0"
  "le_u16 (enc_node_fields flags level es @ r) 10
     = of_nat (enc_toc_len (flags AND BTNODE_FIXED_KV_SIZE \<noteq> 0) * length es)"
  by (simp_all add: enc_node_fields_def le_u16_def le_u32_def arr_fields)

lemma parse_enc_node:
  assumes "length hdr = 24"
  shows "parse_node_header (enc_node hdr flags level es free footer)
    = Some \<lparr> btn_flags = flags, btn_level = level, btn_nkeys = of_nat (length es) \<rparr>"
  using assms enc_node_fields_reads
  by (simp add: parse_node_header_def enc_node_def arr_seal_block layout_defs
      le_u16_def le_u32_def arr_drop)

lemma unat_of_nat_u16: "n < 2 ^ 16 \<Longrightarrow> unat (of_nat n :: u16) = n"
  by (simp add: unat_of_nat take_bit_nat_eq_self)

lemma le_length_concat:
  "length (concat (map g (take i es))) \<le> length (concat (map g es))"
  "i < length es \<Longrightarrow> length (g (es ! i)) \<le> length (concat (map g es))"
proof -
  show "length (concat (map g (take i es))) \<le> length (concat (map g es))"
    by (metis append_take_drop_id concat_append le_add1 length_append map_append)
  show "i < length es \<Longrightarrow> length (g (es ! i)) \<le> length (concat (map g es))"
    by (simp add: length_concat comp_def member_le_sum_list)
qed

text \<open>The fields of the \<open>i\<close>-th TOC entry, read back.\<close>

lemma enc_toc_reads:
  assumes "length (concat (map fst es)) < 2 ^ 16" "length (concat (map snd es)) < 2 ^ 16" "i < length es"
  shows "unat (le_u16 (enc_toc fixed es i) 0) = length (concat (map fst (take i es)))"
    and "fixed \<Longrightarrow> unat (le_u16 (enc_toc fixed es i) 2) = length (concat (map snd (take (Suc i) es)))"
    and "\<not> fixed \<Longrightarrow> unat (le_u16 (enc_toc fixed es i) 2) = length (fst (es ! i))"
    and "\<not> fixed \<Longrightarrow> unat (le_u16 (enc_toc fixed es i) 4) = length (concat (map snd (take (Suc i) es)))"
    and "\<not> fixed \<Longrightarrow> unat (le_u16 (enc_toc fixed es i) 6) = length (snd (es ! i))"
proof -
  have k: "length (concat (map fst (take i es))) < 2 ^ 16" "length (fst (es ! i)) < 2 ^ 16"
    using le_length_concat(1) [of fst i es] le_length_concat(2) [of i es fst] assms by auto
  have v: "length (concat (map snd (take (Suc i) es))) < 2 ^ 16" "length (snd (es ! i)) < 2 ^ 16"
    using le_length_concat(1) [of snd "Suc i" es] le_length_concat(2) [of i es snd] assms by auto
  note r = enc_toc_def Let_def le_u16_def arr_fields
  show "unat (le_u16 (enc_toc fixed es i) 0) = length (concat (map fst (take i es)))"
    using unat_of_nat_u16 [OF k(1)] by (simp add: r)
  show "fixed \<Longrightarrow> unat (le_u16 (enc_toc fixed es i) 2) = length (concat (map snd (take (Suc i) es)))"
    using unat_of_nat_u16 [OF v(1)] by (simp add: r)
  show "\<not> fixed \<Longrightarrow> unat (le_u16 (enc_toc fixed es i) 2) = length (fst (es ! i))"
    using unat_of_nat_u16 [OF k(2)] by (simp add: r)
  show "\<not> fixed \<Longrightarrow> unat (le_u16 (enc_toc fixed es i) 4) = length (concat (map snd (take (Suc i) es)))"
    using unat_of_nat_u16 [OF v(1)] by (simp add: r)
  show "\<not> fixed \<Longrightarrow> unat (le_u16 (enc_toc fixed es i) 6) = length (snd (es ! i))"
    using unat_of_nat_u16 [OF v(2)] by (simp add: r)
qed


text \<open>
  A node in parts: \<open>pre\<close> is everything before the table of contents. The geometry record holds
  what the header says about it.
\<close>

lemma toc_entry_encoded:
  assumes ok: "length (concat (map fst es)) < 2 ^ 16" "length (concat (map snd es)) < 2 ^ 16"
    and i: "i < length es"
    and block: "block = pre @ concat (map (enc_toc fixed es) [0..<length es])
        @ concat (map fst es) @ free @ concat (rev (map snd es)) @ footer"
    and g: "toc_start g = length pre" "toc_fixed g = fixed" "entry_len g = enc_toc_len fixed"
      "key_area g = length pre + enc_toc_len fixed * length es"
      "val_base g = length block - length footer"
    and lens: "fixed \<Longrightarrow> length (fst (es ! i)) = toc_key_len g \<and> length (snd (es ! i)) = toc_val_len g"
  shows "toc_entry block g (toc_start g + i * entry_len g) = Some (es ! i)"
proof -
  define toc where "toc = concat (map (enc_toc fixed es) [0..<length es])"
  define ks where "ks = map fst es"
  define vs where "vs = map snd es"
  have blk: "block = pre @ toc @ concat ks @ free @ concat (rev vs) @ footer"
    by (simp add: block toc_def ks_def vs_def)
  have rd: "le_u16 block (toc_start g + i * entry_len g + j) = le_u16 (enc_toc fixed es i) j"
    if "j + 2 \<le> enc_toc_len fixed" for j
    unfolding le_u16_def block
    using arr_concat_chunk [of "[0..<length es]" "enc_toc fixed es" "enc_toc_len fixed" i j 2] that i g
    by simp
  note rd0 = rd [of 0, simplified] and ent = enc_toc_reads [OF ok i, of fixed]
  have tl: "length toc = enc_toc_len fixed * length es"
    unfolding toc_def by (subst length_concat_chunks [of _ _ "enc_toc_len fixed"]) simp_all
  have key: "get_range block (key_area g + length (concat (map fst (take i es))))
      (key_area g + length (concat (map fst (take i es))) + length (fst (es ! i))) = Some (fst (es ! i))"
  proof -
    have "get_range ((pre @ toc) @ concat ks @ (free @ concat (rev vs) @ footer))
        (key_area g + length (concat (map fst (take i es))))
        (key_area g + length (concat (map fst (take i es))) + length (fst (es ! i))) = Some (ks ! i)"
      by (rule get_range_concat) (use i tl g(4) in \<open>simp_all add: ks_def take_map\<close>)
    then show ?thesis using i by (simp add: blk) (simp add: ks_def)
  qed
  define vo where "vo = length (concat (map snd (take (Suc i) es)))"
  have sum: "length (concat (take (length vs - Suc i) (rev vs))) + vo = length (concat (rev vs))"
    using length_concat_take_rev [of i vs] i by (simp add: vs_def take_map vo_def)
  have vb: "val_base g = length (pre @ toc @ concat ks @ free) + length (concat (rev vs))"
    by (simp add: g(5) blk)
  have rn: "rev vs ! (length vs - Suc i) = snd (es ! i)" using i by (simp add: vs_def rev_nth)
  have "val_base g - vo = length (pre @ toc @ concat ks @ free)
      + length (concat (take (length vs - Suc i) (rev vs)))"
    using vb sum by linarith
  then have val: "get_range block (val_base g - vo) (val_base g - vo + length (snd (es ! i))) = Some (snd (es ! i))"
  proof -
    assume a: "val_base g - vo = length (pre @ toc @ concat ks @ free)
        + length (concat (take (length vs - Suc i) (rev vs)))"
    have "get_range ((pre @ toc @ concat ks @ free) @ concat (rev vs) @ footer) (val_base g - vo)
        (val_base g - vo + length (snd (es ! i))) = Some (rev vs ! (length vs - Suc i))"
      by (rule get_range_concat) (use i in \<open>simp_all only: a rn\<close>, simp_all add: vs_def)
    then show ?thesis by (simp add: blk rn)
  qed
  have vle: "\<not> val_base g < vo" using vb sum by linarith
  have tlen: "enc_toc_len True = 4" "enc_toc_len False = 8"
    by (simp_all add: enc_toc_len_def layout_defs)
  show ?thesis
  proof (cases fixed)
    case True
    then have "unat (le_u16 block (toc_start g + i * entry_len g)) = length (concat (map fst (take i es)))"
        "unat (le_u16 block (toc_start g + i * entry_len g + 2)) = vo"
      using rd0 rd [of 2] ent(1,2) tlen by (simp_all add: vo_def)
    then show ?thesis
      using True g(2) lens key val vle by (simp add: toc_entry_def)
  next
    case False
    then have "unat (le_u16 block (toc_start g + i * entry_len g)) = length (concat (map fst (take i es)))"
        "unat (le_u16 block (toc_start g + i * entry_len g + 2)) = length (fst (es ! i))"
        "unat (le_u16 block (toc_start g + i * entry_len g + 4)) = vo"
        "unat (le_u16 block (toc_start g + i * entry_len g + 6)) = length (snd (es ! i))"
      using rd0 rd [of 2] rd [of 4] rd [of 6] ent(1,3-5) tlen by (simp_all add: vo_def)
    then show ?thesis
      using False g(2) key val vle by (simp add: toc_entry_def)
  qed
qed


lemma enc_node_geometry:
  fixes es :: "entry list" and level :: u16 and free :: bytes
  assumes "length hdr = 24" "8 * length es < 2 ^ 16"
    and "length footer = (if flags AND BTNODE_ROOT \<noteq> 0 then BTREE_INFO_LEN else 0)"
  defines "block \<equiv> enc_node hdr flags level es free footer"
    and "fixed \<equiv> flags AND BTNODE_FIXED_KV_SIZE \<noteq> 0"
  shows "toc_geometry_of block \<lparr> btn_flags = flags, btn_level = level, btn_nkeys = of_nat (length es) \<rparr> st
    = \<lparr> toc_fixed = fixed, toc_start = 56, key_area = 56 + enc_toc_len fixed * length es,
        val_base = length block - length footer, entry_len = enc_toc_len fixed,
        toc_key_len = fixed_key_len st,
        toc_val_len = (if flags AND BTNODE_LEAF \<noteq> 0 \<or> level = 0 then fixed_leaf_val_len st
                       else fixed_branch_val_len st) \<rparr>"
proof -
  have "enc_toc_len fixed * length es < 2 ^ 16"
    using assms(2) by (auto simp: enc_toc_len_def layout_defs)
  from unat_of_nat_u16 [OF this]
  have toc: "unat (le_u16 block (OFF_BTN_TABLE_SPACE + 2)) = enc_toc_len fixed * length es"
    unfolding block_def using assms(1) enc_node_fields_reads(5) [of flags level es]
    by (simp add: enc_node_def OFF_BTN_TABLE_SPACE_def le_u16_def arr_seal_block arr_drop fixed_def)
  have "le_u16 block OFF_BTN_TABLE_SPACE = 0"
    unfolding block_def using assms(1) enc_node_fields_reads(4) [of flags level es]
    by (simp add: enc_node_def OFF_BTN_TABLE_SPACE_def le_u16_def arr_seal_block arr_drop)
  with toc show ?thesis
    using assms(3)
    by (simp add: toc_geometry_of_def is_fixed_kv_def is_root_def is_leaf_def fixed_def
        enc_toc_len_def BTN_DATA_OFF_def)
qed

lemma node_entries_enc_node:
  assumes "enc_ok st hdr flags level es footer"
  shows "node_entries (enc_node hdr flags level es free footer) st = es"
proof -
  define block where "block = enc_node hdr flags level es free footer"
  define fixed where "fixed = (flags AND BTNODE_FIXED_KV_SIZE \<noteq> 0)"
  define h where "h = \<lparr> btn_flags = flags, btn_level = level, btn_nkeys = of_nat (length es) :: u32 \<rparr>"
  define g where "g = toc_geometry_of block h st"
  define pre where "pre = to_le 8 (fletcher64_checksum (replicate 8 0 @ drop 8 block)) @ hdr @ enc_node_fields flags level es"
  note ok = assms [unfolded enc_ok_def]
  have h: "parse_node_header block = Some h" using ok by (simp add: block_def h_def parse_enc_node)
  have g: "g = \<lparr> toc_fixed = fixed, toc_start = 56, key_area = 56 + enc_toc_len fixed * length es,
      val_base = length block - length footer, entry_len = enc_toc_len fixed,
      toc_key_len = fixed_key_len st,
      toc_val_len = (if flags AND BTNODE_LEAF \<noteq> 0 \<or> level = 0 then fixed_leaf_val_len st
                     else fixed_branch_val_len st) \<rparr>"
    unfolding g_def h_def block_def fixed_def using ok by (intro enc_node_geometry) auto
  have pre: "length pre = 56" using ok by (simp add: pre_def)
  have blk: "block = pre @ concat (map (enc_toc fixed es) [0..<length es])
      @ concat (map fst es) @ free @ concat (rev (map snd es)) @ footer"
    by (simp add: block_def enc_node_def seal_block_def pre_def fixed_def)
  have len: "length block \<ge> 56 + enc_toc_len fixed * length es"
    unfolding blk using pre length_concat_chunks [of "[0..<length es]" "enc_toc fixed es" "enc_toc_len fixed"]
    by (simp add: mult.commute)
  have "toc_loop block g 0 (length es) = drop 0 es"
  proof (rule toc_loop_all)
    fix i assume i: "i < length es"
    then have "Suc i * enc_toc_len fixed \<le> length es * enc_toc_len fixed" by (intro mult_le_mono1) simp
    then have b: "56 + i * enc_toc_len fixed + enc_toc_len fixed \<le> 56 + enc_toc_len fixed * length es"
      by (simp add: mult.commute add.commute)
    have "toc_entry block g (toc_start g + i * entry_len g) = Some (es ! i)"
      using ok i pre
      by (intro toc_entry_encoded [OF _ _ i blk]) (auto simp: g fixed_def list_all_length case_prod_unfold)
    with b len show "toc_start g + i * entry_len g + entry_len g \<le> key_area g
        \<and> toc_start g + i * entry_len g + entry_len g \<le> length block
        \<and> toc_entry block g (toc_start g + i * entry_len g) = Some (es ! i)"
      by (simp add: g)
  qed simp
  moreover have "unat (min (btn_nkeys h) MAX_BTN_NKEYS) = length es"
  proof -
    have n: "unat (of_nat (length es) :: u32) = length es"
      using ok by (simp add: unat_of_nat take_bit_nat_eq_self)
    then have "(of_nat (length es) :: u32) \<le> MAX_BTN_NKEYS"
      using ok by (simp add: word_le_nat_alt MAX_BTN_NKEYS_def)
    then show ?thesis using n by (simp add: h_def min_def)
  qed
  ultimately show ?thesis
    using h by (simp add: node_entries_def block_def [symmetric] g_def Let_def)
qed

text \<open>
  C29. Writing entries into a node (fixed or variable size, root or inner, leaf or index) and
  reading the node back gives the entries again: same entries, same order, none lost.
\<close>

theorem node_entries_round_trip:
  "enc_ok st hdr flags level es footer \<Longrightarrow> node_entries (enc_node hdr flags level es free footer) st = es"
  by (rule node_entries_enc_node)

theorem node_entries_round_trip_witness:
  "node_entries (enc_node (replicate 24 0) 6 0
     [(to_le 8 (1 :: u64) @ to_le 8 (5 :: u64), replicate 16 7), (to_le 8 (2 :: u64) @ to_le 8 (5 :: u64), replicate 16 9)]
     (replicate 100 0) []) Omap
   = [(to_le 8 (1 :: u64) @ to_le 8 (5 :: u64), replicate 16 7), (to_le 8 (2 :: u64) @ to_le 8 (5 :: u64), replicate 16 9)]"
  by (rule node_entries_round_trip) (simp add: enc_ok_def layout_defs)

lemma load_enc_node:
  assumes "enc_ok st hdr flags level es footer"
    and "rd (p * of_nat n) n = Inr (enc_node hdr flags level es free footer)"
    and "unat p * unat (of_nat n :: u64) < 2 ^ 64"
  shows "load_physical rd n st p =
    (if flags AND BTNODE_LEAF \<noteq> 0 \<or> level = 0 then Inr (LeafNode es)
     else Inr (IndexNode (map (\<lambda>(k, v). (k, le_u64 v 0)) es)))"
proof -
  have "read_verified_node rd p n = Inr (Some (enc_node hdr flags level es free footer))"
    using assms(2,3) by (simp add: read_verified_node_def checked_mul_u64_def read_exact_at_def enc_node_def)
  moreover have "length hdr = 24" using assms(1) by (simp add: enc_ok_def)
  ultimately show ?thesis
    by (simp add: load_physical_def is_leaf_def parse_enc_node node_entries_enc_node [OF assms(1)])
qed

end
