(* ===== verification/Object_Map.thy ===== *)
theory Object_Map
  imports Node_Encoding "HOL-Library.Product_Lexorder"
begin

text \<open>
  \<^verbatim>\<open>core/src/omap.rs\<close>: the object-map header and the resolution of a virtual object id at a
  transaction. The main result is that the keyed point lookup returns what a scan of every
  entry of the tree would: the entry of the object with the largest transaction at or before
  the requested one.
\<close>

subsection \<open>Header\<close>

definition OBJECT_TYPE_OMAP :: u16 where [layout_defs]: "OBJECT_TYPE_OMAP = 0xb"
definition OFF_OM_FLAGS :: nat where [layout_defs]: "OFF_OM_FLAGS = 32"
definition OFF_OM_TREE_TYPE :: nat where [layout_defs]: "OFF_OM_TREE_TYPE = 40"
definition OFF_OM_TREE_OID :: nat where [layout_defs]: "OFF_OM_TREE_OID = 48"
definition OFF_OM_SNAPSHOT_TREE_OID :: nat where [layout_defs]: "OFF_OM_SNAPSHOT_TREE_OID = 56"
definition OMAP_PHYS_MIN_LEN :: nat where [layout_defs]: "OMAP_PHYS_MIN_LEN = OFF_OM_TREE_OID + 8"

record omap_entry =
  oe_oid :: u64
  oe_xid :: u64
  oe_paddr :: u64
  oe_size :: u32
  oe_flags :: u32

definition unexpected_omap_type :: "u32 \<Rightarrow> apfs_error" where
  "unexpected_omap_type found = UnexpectedObjectType ''omap_phys'' (ucast OBJECT_TYPE_OMAP) found"

record object_map =
  om_flags :: u32
  om_tree_type :: u32
  om_tree_oid :: u64
  om_snapshot_tree_oid :: u64

definition object_map_parse :: "bytes \<Rightarrow> object_map res" where
  "object_map_parse block =
     (if length block < OMAP_PHYS_MIN_LEN then Inl (unexpected_omap_type 0)
      else case obj_phys_parse block of
             None \<Rightarrow> Inl (unexpected_omap_type 0)
           | Some hdr \<Rightarrow>
               if obj_type hdr \<noteq> OBJECT_TYPE_OMAP then Inl (unexpected_omap_type (o_type_raw hdr))
               else let stored = fletcher64_stored block; computed = fletcher64_checksum block
                    in if stored \<noteq> computed then Inl (ChecksumMismatch (o_oid hdr) stored computed)
                       else Inr \<lparr> om_flags = le_u32 block OFF_OM_FLAGS,
                                  om_tree_type = le_u32 block OFF_OM_TREE_TYPE,
                                  om_tree_oid = le_u64 block OFF_OM_TREE_OID,
                                  om_snapshot_tree_oid = le_u64 block OFF_OM_SNAPSHOT_TREE_OID \<rparr>)"

subsection \<open>Resolution\<close>

definition omap_key_of :: "bytes \<Rightarrow> u64 \<times> u64" where
  "omap_key_of key = (le_u64 key 0, le_u64 key 8)"

definition omap_cmp :: "u64 \<Rightarrow> u64 \<Rightarrow> bytes \<Rightarrow> ordering" where
  "omap_cmp oid xid key = cmp_u64_pair (omap_key_of key) (oid, xid)"

definition omap_visit :: "u64 \<Rightarrow> u64 \<Rightarrow> bytes \<Rightarrow> bytes \<Rightarrow> omap_entry option \<Rightarrow> omap_entry option" where
  "omap_visit oid xid key val best =
     (let k_oid = le_u64 key 0; k_xid = le_u64 key 8
      in if k_oid \<noteq> oid \<or> k_xid > xid then best
         else let entry = \<lparr> oe_oid = k_oid, oe_xid = k_xid, oe_paddr = le_u64 val 8,
                            oe_size = le_u32 val 4, oe_flags = le_u32 val 0 \<rparr>
              in case best of
                   None \<Rightarrow> Some entry
                 | Some b \<Rightarrow> if k_xid > oe_xid b then Some entry else best)"

definition resolve :: "object_map \<Rightarrow> reader \<Rightarrow> u64 \<Rightarrow> u64 \<Rightarrow> nat \<Rightarrow> omap_entry res" where
  "resolve om rd oid xid block_size =
     (case find_leaf rd (om_tree_oid om) block_size Omap (omap_cmp oid xid) (omap_visit oid xid) None of
        Inl e \<Rightarrow> Inl e
      | Inr None \<Rightarrow> Inl (OmapUnresolved oid xid)
      | Inr (Some best) \<Rightarrow> Inr best)"


subsection \<open>The lookup agrees with a full scan\<close>

text \<open>The entries that may answer a query, and the record an entry decodes to.\<close>

definition omap_matches :: "u64 \<Rightarrow> u64 \<Rightarrow> entry \<Rightarrow> bool" where
  "omap_matches oid xid e \<longleftrightarrow> fst (omap_key_of (fst e)) = oid \<and> snd (omap_key_of (fst e)) \<le> xid"

definition omap_decode :: "entry \<Rightarrow> omap_entry" where
  "omap_decode e = \<lparr> oe_oid = le_u64 (fst e) 0, oe_xid = le_u64 (fst e) 8, oe_paddr = le_u64 (snd e) 8,
                     oe_size = le_u32 (snd e) 4, oe_flags = le_u32 (snd e) 0 \<rparr>"

lemma omap_cmp_greater: "omap_cmp oid xid k = Greater \<longleftrightarrow> (oid, xid) < omap_key_of k"
  by (cases "omap_key_of k") (auto simp: omap_cmp_def cmp_u64_pair_def less_prod_def')

lemma omap_visit_matches:
  "omap_visit oid xid k v best =
     (if omap_matches oid xid (k, v)
      then (case best of None \<Rightarrow> Some (omap_decode (k, v))
            | Some b \<Rightarrow> if oe_xid b < le_u64 k 8 then Some (omap_decode (k, v)) else best)
      else best)"
  by (auto simp: omap_visit_def omap_matches_def omap_key_of_def omap_decode_def Let_def split: option.splits)

abbreviation omap_scan :: "u64 \<Rightarrow> u64 \<Rightarrow> entry list \<Rightarrow> omap_entry option \<Rightarrow> omap_entry option" where
  "omap_scan oid xid es best \<equiv> fold (\<lambda>(k, v). omap_visit oid xid k v) es best"

text \<open>A scan returns the matching entry with the largest transaction.\<close>

lemma omap_scan_result:
  "case omap_scan oid xid es best of
     None \<Rightarrow> best = None \<and> (\<forall>e\<in>set es. \<not> omap_matches oid xid e)
   | Some r \<Rightarrow> (best = Some r \<or> (\<exists>e\<in>set es. omap_matches oid xid e \<and> r = omap_decode e))
       \<and> (\<forall>e\<in>set es. omap_matches oid xid e \<longrightarrow> oe_xid (omap_decode e) \<le> oe_xid r)
       \<and> (\<forall>b. best = Some b \<longrightarrow> oe_xid b \<le> oe_xid r)"
proof (induction es arbitrary: best)
  case Nil
  then show ?case by (auto split: option.splits)
next
  case (Cons e es)
  obtain k v where e: "e = (k, v)" by (cases e)
  have x: "oe_xid (omap_decode (k, v)) = le_u64 k 8" by (simp add: omap_decode_def)
  from Cons [of "omap_visit oid xid k v best"] show ?case
    unfolding e omap_visit_matches using x
    by (auto split: option.splits if_splits intro: order_trans less_imp_le)
qed

lemma omap_scan_below:
  "omap_scan oid xid (filter (\<lambda>e. omap_key_of (fst e) \<le> (oid, xid)) es) best = omap_scan oid xid es best"
  by (rule fold_filter_skip)
    (auto simp: omap_visit_matches omap_matches_def less_eq_prod_def omap_key_of_def)

lemma omap_scan_restart:
  assumes "es \<noteq> []" "omap_matches oid xid (hd es)" "oe_xid b < oe_xid (omap_decode (hd es))"
  shows "omap_scan oid xid es (Some b) = omap_scan oid xid es None"
  using assms by (cases es) (auto simp: omap_visit_matches omap_decode_def)

lemma omap_scan_suffix:
  assumes "pre \<noteq> [] \<longrightarrow> es \<noteq> []"
    and "\<forall>a\<in>set pre. \<forall>b\<in>set es. omap_key_of (fst a) < omap_key_of (fst b)"
    and "\<forall>b\<in>set es. omap_key_of (fst b) \<le> (oid, xid)"
  shows "omap_scan oid xid (pre @ es) None = omap_scan oid xid es None"
proof (cases "omap_scan oid xid pre None")
  case (Some b)
  then obtain e where e: "e \<in> set pre" "omap_matches oid xid e" "b = omap_decode e"
    using omap_scan_result [where oid = oid and xid = xid and es = pre and best = None] by auto
  then have ne: "es \<noteq> []" using assms(1) by auto
  have "omap_key_of (fst e) < omap_key_of (fst (hd es))" "omap_key_of (fst (hd es)) \<le> (oid, xid)"
    using assms(2,3) e(1) ne by auto
  then have "omap_matches oid xid (hd es)" "oe_xid b < oe_xid (omap_decode (hd es))"
    using e(2,3) by (auto simp: omap_matches_def omap_key_of_def omap_decode_def less_prod_def' less_eq_prod_def)
  then show ?thesis using omap_scan_restart [OF ne] Some by simp
qed simp

lemma omap_scan_search_leaf:
  assumes "ordered omap_key_of t"
  shows "omap_scan oid xid (search_leaf (omap_cmp oid xid) t) None = omap_scan oid xid (entries t) None"
proof -
  let ?le = "\<lambda>e. omap_key_of (fst e) \<le> (oid, xid)"
  let ?l = "search_leaf (omap_cmp oid xid) t"
  obtain pre where pre: "filter ?le (entries t) = pre @ filter ?le ?l"
      "pre \<noteq> [] \<longrightarrow> filter ?le ?l \<noteq> []"
      "\<forall>a\<in>set pre. \<forall>b\<in>set ?l. omap_key_of (fst a) < omap_key_of (fst b)"
    using search_leaf_floor [OF assms omap_cmp_greater, of oid xid] by auto
  then have "omap_scan oid xid (pre @ filter ?le ?l) None = omap_scan oid xid (filter ?le ?l) None"
    by (intro omap_scan_suffix) auto
  then show ?thesis unfolding pre(1) [symmetric] by (simp add: omap_scan_below)
qed

text \<open>
  C2. On an object map stored as an ordered tree, the keyed lookup of a virtual object id
  gives the same result as visiting every leaf entry of the tree: the optimised descent
  loses no mapping.
\<close>

theorem resolve_eq_full_scan:
  assumes "shown (\<lambda>_. load_physical rd block_size Omap) pick_all 0 t"
    and "root_id t = om_tree_oid om" "height t \<le> 64" "distinct (ids t)" "ordered omap_key_of t"
  shows "resolve om rd oid xid block_size =
    (case for_each_leaf_entry rd (om_tree_oid om) block_size Omap (omap_visit oid xid) None of
       Inl e \<Rightarrow> Inl e
     | Inr None \<Rightarrow> Inl (OmapUnresolved oid xid)
     | Inr (Some best) \<Rightarrow> Inr best)"
proof -
  have h: "height t \<le> MAX_BTREE_DEPTH" using assms(3) by (simp add: MAX_BTREE_DEPTH_def)
  show ?thesis
    unfolding resolve_def assms(2) [symmetric] find_leaf_shown [OF assms(1) h assms(4)]
      for_each_leaf_entry_shown [OF assms(1) h assms(4)] omap_scan_search_leaf [OF assms(5)] ..
qed


text \<open>
  C8. On an object map stored as an ordered tree, resolving an object id at a transaction
  either returns the decoded entry of that object with the largest transaction at or before
  the requested one, or reports the object unresolved, and then no such entry exists.
\<close>

theorem resolve_floor:
  assumes "shown (\<lambda>_. load_physical rd block_size Omap) pick_all 0 t"
    and "root_id t = om_tree_oid om" "height t \<le> 64" "distinct (ids t)" "ordered omap_key_of t"
  shows "case resolve om rd oid xid block_size of
      Inr r \<Rightarrow> (\<exists>e\<in>set (entries t). omap_matches oid xid e \<and> r = omap_decode e)
        \<and> (\<forall>e\<in>set (entries t). omap_matches oid xid e \<longrightarrow> oe_xid (omap_decode e) \<le> oe_xid r)
    | Inl err \<Rightarrow> err = OmapUnresolved oid xid \<and> (\<forall>e\<in>set (entries t). \<not> omap_matches oid xid e)"
proof -
  have h: "height t \<le> MAX_BTREE_DEPTH" using assms(3) by (simp add: MAX_BTREE_DEPTH_def)
  show ?thesis
    unfolding resolve_def assms(2) [symmetric] find_leaf_shown [OF assms(1) h assms(4)]
      omap_scan_search_leaf [OF assms(5)]
    using omap_scan_result [where oid = oid and xid = xid and es = "entries t" and best = None]
    by (auto split: option.splits)
qed

subsection \<open>A stored object map\<close>

definition enc_omap_key :: "u64 \<Rightarrow> u64 \<Rightarrow> bytes" where
  "enc_omap_key oid xid = to_le 8 oid @ to_le 8 xid"

definition enc_omap_val :: "u32 \<Rightarrow> u32 \<Rightarrow> u64 \<Rightarrow> bytes" where
  "enc_omap_val flags sz paddr = to_le 4 flags @ to_le 4 sz @ to_le 8 paddr"

lemma length_enc_omap [simp]:
  "length (enc_omap_key oid xid) = 16" "length (enc_omap_val flags sz paddr) = 16"
  by (simp_all add: enc_omap_key_def enc_omap_val_def)

lemma omap_key_of_enc [simp]: "omap_key_of (enc_omap_key oid xid) = (oid, xid)"
  by (simp add: omap_key_of_def enc_omap_key_def le_u64_def arr_fields)

lemma omap_decode_enc:
  "omap_decode (enc_omap_key oid xid, enc_omap_val flags sz paddr)
    = \<lparr> oe_oid = oid, oe_xid = xid, oe_paddr = paddr, oe_size = sz, oe_flags = flags \<rparr>"
  by (simp add: omap_decode_def enc_omap_key_def enc_omap_val_def le_u64_def le_u32_def arr_fields)

text \<open>An image of three 512-byte blocks: a root index node and two leaves.\<close>

definition demo_leaf1 :: "entry list" where
  "demo_leaf1 = [(enc_omap_key 5 1, enc_omap_val 0 512 70), (enc_omap_key 5 4, enc_omap_val 0 512 71)]"

definition demo_leaf2 :: "entry list" where
  "demo_leaf2 = [(enc_omap_key 9 2, enc_omap_val 0 512 80)]"

definition demo_index :: "entry list" where
  "demo_index = [(enc_omap_key 5 1, to_le 8 (1 :: u64)), (enc_omap_key 9 2, to_le 8 (2 :: u64))]"

definition demo_omap_image :: bytes where
  "demo_omap_image =
     enc_node (replicate 24 0) 5 1 demo_index (replicate 360 0) (replicate 40 0)
     @ enc_node (replicate 24 0) 6 0 demo_leaf1 (replicate 384 0) []
     @ enc_node (replicate 24 0) 6 0 demo_leaf2 (replicate 420 0) []"

definition demo_omap_tree :: tree where
  "demo_omap_tree = Index 0 [(enc_omap_key 5 1, Leaf 1 demo_leaf1), (enc_omap_key 9 2, Leaf 2 demo_leaf2)]"

lemmas demo_omap_defs = demo_leaf1_def demo_leaf2_def demo_index_def

lemma length_enc_node:
  "length (enc_node hdr flags level es free footer) =
     8 + length hdr + 24 + enc_toc_len (flags AND BTNODE_FIXED_KV_SIZE \<noteq> 0) * length es
     + length (concat (map fst es)) + length free + length (concat (map snd es)) + length footer"
proof -
  have "length (concat (map (enc_toc f es) [0..<length es])) = length es * enc_toc_len f" for f
    by (subst length_concat_chunks [of _ _ "enc_toc_len f"]) simp_all
  then show ?thesis
    by (simp add: enc_node_def length_concat rev_map [symmetric])
qed

lemma demo_omap_reads:
  "cursor demo_omap_image 0 512
     = Inr (enc_node (replicate 24 0) 5 1 demo_index (replicate 360 0) (replicate 40 0))"
  "cursor demo_omap_image 512 512 = Inr (enc_node (replicate 24 0) 6 0 demo_leaf1 (replicate 384 0) [])"
  "cursor demo_omap_image 1024 512 = Inr (enc_node (replicate 24 0) 6 0 demo_leaf2 (replicate 420 0) [])"
  by (simp_all add: cursor_def demo_omap_image_def length_enc_node demo_omap_defs enc_toc_len_def layout_defs)

lemma demo_omap_blocks:
  "load_physical (cursor demo_omap_image) 512 Omap 0
     = Inr (IndexNode [(enc_omap_key 5 1, 1), (enc_omap_key 9 2, 2)])"
  "load_physical (cursor demo_omap_image) 512 Omap 1 = Inr (LeafNode demo_leaf1)"
  "load_physical (cursor demo_omap_image) 512 Omap 2 = Inr (LeafNode demo_leaf2)"
proof -
  have ok: "enc_ok Omap (replicate 24 0) 5 1 demo_index (replicate 40 0)"
    "enc_ok Omap (replicate 24 0) 6 0 demo_leaf1 []" "enc_ok Omap (replicate 24 0) 6 0 demo_leaf2 []"
    by (simp_all add: enc_ok_def demo_omap_defs layout_defs)
  show "load_physical (cursor demo_omap_image) 512 Omap 0
      = Inr (IndexNode [(enc_omap_key 5 1, 1), (enc_omap_key 9 2, 2)])"
    using load_enc_node [OF ok(1), of "cursor demo_omap_image" 0 512] demo_omap_reads(1)
    by (simp add: BTNODE_LEAF_def demo_index_def le_u64_def arr_fields)
  show "load_physical (cursor demo_omap_image) 512 Omap 1 = Inr (LeafNode demo_leaf1)"
    using load_enc_node [OF ok(2), of "cursor demo_omap_image" 1 512] demo_omap_reads(2) by simp
  show "load_physical (cursor demo_omap_image) 512 Omap 2 = Inr (LeafNode demo_leaf2)"
    using load_enc_node [OF ok(3), of "cursor demo_omap_image" 2 512] demo_omap_reads(3) by simp
qed

lemma demo_omap_tree_facts:
  "shown (\<lambda>_. load_physical (cursor demo_omap_image) 512 Omap) pick_all 0 demo_omap_tree"
  "root_id demo_omap_tree = 0" "height demo_omap_tree \<le> 64" "distinct (ids demo_omap_tree)"
  "ordered omap_key_of demo_omap_tree"
  by (simp_all add: demo_omap_tree_def demo_omap_blocks demo_leaf1_def demo_leaf2_def less_prod_def')

theorem resolve_eq_full_scan_witness:
  "resolve \<lparr> om_flags = 0, om_tree_type = 0, om_tree_oid = 0, om_snapshot_tree_oid = 0 \<rparr>
     (cursor demo_omap_image) 5 3 512 =
   (case for_each_leaf_entry (cursor demo_omap_image) 0 512 Omap (omap_visit 5 3) None of
      Inl e \<Rightarrow> Inl e
    | Inr None \<Rightarrow> Inl (OmapUnresolved 5 3)
    | Inr (Some best) \<Rightarrow> Inr best)"
  using resolve_eq_full_scan
      [of "cursor demo_omap_image" 512 demo_omap_tree
        "\<lparr> om_flags = 0, om_tree_type = 0, om_tree_oid = 0, om_snapshot_tree_oid = 0 \<rparr>" 5 3]
    demo_omap_tree_facts
  by simp

theorem resolve_floor_witness:
  "resolve \<lparr> om_flags = 0, om_tree_type = 0, om_tree_oid = 0, om_snapshot_tree_oid = 0 \<rparr>
     (cursor demo_omap_image) 5 3 512
   = Inr \<lparr> oe_oid = 5, oe_xid = 1, oe_paddr = 70, oe_size = 512, oe_flags = 0 \<rparr>"
  using resolve_floor
      [of "cursor demo_omap_image" 512 demo_omap_tree
        "\<lparr> om_flags = 0, om_tree_type = 0, om_tree_oid = 0, om_snapshot_tree_oid = 0 \<rparr>" 5 3]
    demo_omap_tree_facts
  by (auto simp: demo_omap_tree_def demo_leaf1_def demo_leaf2_def omap_matches_def omap_decode_enc
      split: sum.splits)

end
