(* ===== verification/Apfs_Container.thy ===== *)
theory Apfs_Container
  imports Checkpoint Object_Map
begin

text \<open>
  \<^verbatim>\<open>core/src/lib.rs\<close>: opening a container (bootstrap superblock, Fusion rejection, checkpoint
  ring, re-read of the live superblock), the resolution of ephemeral objects through the
  checkpoint map, and the enumeration of the volume superblocks through the container object
  map.
\<close>

record apfs_container =
  ac_superblock :: nx_superblock
  ac_live_superblock_paddr :: u64
  ac_checkpoint_mappings :: "checkpoint_mapping list"

definition container_open :: "reader \<Rightarrow> apfs_container res" where
  "container_open rd =
     (case rd 0 (unat NX_MINIMUM_BLOCK_SIZE) of
        Inl (ReadFault UnexpectedEof) \<Rightarrow> Inl (NoValidSuperblock 0 0)
      | Inl e \<Rightarrow> Inl (Io (fault_error e))
      | Inr block0 \<Rightarrow>
          (case nx_superblock_parse block0 of
             Inl e \<Rightarrow> Inl e
           | Inr bootstrap \<Rightarrow>
               if is_fusion bootstrap then Inl UnsupportedFusion
               else case resolve_live_checkpoint rd bootstrap of
                      Inl e \<Rightarrow> Inl e
                    | Inr live \<Rightarrow>
                        (case read_block_sat rd (lc_superblock_paddr live) (unat (nx_block_size bootstrap)) of
                           Inl e \<Rightarrow> Inl e
                         | Inr buf \<Rightarrow>
                             (case nx_superblock_parse buf of
                                Inl e \<Rightarrow> Inl e
                              | Inr superblock \<Rightarrow>
                                  Inr \<lparr> ac_superblock = superblock,
                                        ac_live_superblock_paddr = lc_superblock_paddr live,
                                        ac_checkpoint_mappings = lc_mappings live \<rparr>))))"

definition resolve_ephemeral :: "apfs_container \<Rightarrow> u64 \<Rightarrow> u64 option" where
  "resolve_ephemeral c oid =
     map_option cm_paddr (List.find (\<lambda>m. cm_oid m = oid) (ac_checkpoint_mappings c))"

definition spaceman_paddr :: "apfs_container \<Rightarrow> u64 option" where
  "spaceman_paddr c = resolve_ephemeral c (nx_spaceman_oid (ac_superblock c))"

definition reaper_paddr :: "apfs_container \<Rightarrow> u64 option" where
  "reaper_paddr c = resolve_ephemeral c (nx_reaper_oid (ac_superblock c))"

text \<open>The loop over \<open>fs_oids\<close>; the first unresolved id ends it.\<close>

primrec resolve_volumes :: "object_map \<Rightarrow> reader \<Rightarrow> u64 \<Rightarrow> nat \<Rightarrow> u64 list \<Rightarrow> u64 list res" where
  "resolve_volumes om rd live_xid block_size [] = Inr []"
| "resolve_volumes om rd live_xid block_size (fs_oid # fs_oids) =
     (case resolve om rd fs_oid live_xid block_size of
        Inl e \<Rightarrow> Inl e
      | Inr entry \<Rightarrow>
          (case resolve_volumes om rd live_xid block_size fs_oids of
             Inl e \<Rightarrow> Inl e
           | Inr addrs \<Rightarrow> Inr (oe_paddr entry # addrs)))"

definition volume_superblock_addrs :: "reader \<Rightarrow> apfs_container \<Rightarrow> u64 list res" where
  "volume_superblock_addrs rd c =
     (let sb = ac_superblock c in
      if \<not> block_size_in_range (nx_block_size sb)
      then Inl (FieldOutOfRange ''nx_superblock'' ''nx_block_size''
                  (ucast (nx_block_size sb)) (ucast NX_MAXIMUM_BLOCK_SIZE))
      else let block_size = unat (nx_block_size sb)
           in case read_block_sat rd (nx_omap_oid sb) block_size of
                Inl e \<Rightarrow> Inl e
              | Inr buf \<Rightarrow>
                  (case object_map_parse buf of
                     Inl e \<Rightarrow> Inl e
                   | Inr om \<Rightarrow> resolve_volumes om rd (nx_xid sb) block_size (nx_fs_oids sb)))"

subsection \<open>Opening\<close>

lemma cp_read_block_read_block_sat:
  "cp_read_block rd p bs = Inr (Some buf) \<Longrightarrow> read_block_sat rd p bs = Inr buf"
  by (auto simp: cp_read_block_def read_block_sat_def read_exact_at_def checked_mul_u64_def saturating_mul_u64_def
      split: if_splits sum.splits io_fault.splits io_error.splits)

lemma ring_blocks_read:
  "(p, buf) \<in> set (ring_blocks rd bs base i n) \<Longrightarrow> read_block_sat rd p bs = Inr buf"
  by (auto simp: ring_blocks_def split: sum.splits option.splits intro: cp_read_block_read_block_sat)

text \<open>
  C9. A container that opens has a bootstrap superblock that is not Fusion, and its live
  superblock is the verified block at the recorded address of the bootstrap's ring; the
  transaction of the live superblock is the largest of any verified superblock in the ring,
  and the checkpoint mappings belong to that transaction.
\<close>

theorem container_open_live:
  assumes "container_open rd = Inr c"
  shows "\<exists>block0 boot buf.
      rd 0 4096 = Inr block0 \<and> nx_superblock_parse block0 = Inr boot \<and> \<not> is_fusion boot
      \<and> (ac_live_superblock_paddr c, buf) \<in> set (bootstrap_ring rd boot)
      \<and> nx_superblock_parse buf = Inr (ac_superblock c)
      \<and> (\<forall>(p, b)\<in>set (bootstrap_ring rd boot). ring_superblock b \<longrightarrow> block_xid b \<le> nx_xid (ac_superblock c))
      \<and> ac_checkpoint_mappings c = concat (map (\<lambda>(p, b). block_mappings b)
           (filter (\<lambda>(p, b). ring_map (nx_xid (ac_superblock c)) b) (bootstrap_ring rd boot)))"
proof -
  obtain block0 boot live buf where o: "rd 0 4096 = Inr block0" "nx_superblock_parse block0 = Inr boot"
      "\<not> is_fusion boot" "resolve_live_checkpoint rd boot = Inr live"
      "read_block_sat rd (lc_superblock_paddr live) (unat (nx_block_size boot)) = Inr buf"
      "nx_superblock_parse buf = Inr (ac_superblock c)"
      "ac_live_superblock_paddr c = lc_superblock_paddr live" "ac_checkpoint_mappings c = lc_mappings live"
    using assms
    by (auto simp: container_open_def NX_MINIMUM_BLOCK_SIZE_def
        split: sum.splits io_fault.splits io_error.splits if_splits)
  note live = resolve_live_checkpoint_live [OF o(4)]
  obtain b where b: "(lc_superblock_paddr live, b) \<in> set (bootstrap_ring rd boot)"
      "ring_superblock b" "block_xid b = lc_xid live"
    using live(1) by blast
  then have "b = buf" using ring_blocks_read [OF b(1)] o(5) by simp
  moreover have "nx_xid (ac_superblock c) = block_xid buf" using nx_superblock_parse_xid [OF o(6)] .
  ultimately have "nx_xid (ac_superblock c) = lc_xid live" using b(3) by simp
  with o b \<open>b = buf\<close> live(2,3) show ?thesis by (intro exI [of _ block0] exI [of _ boot] exI [of _ buf]) auto
qed

lemma resolve_volumes_Inr:
  "resolve_volumes om rd x bs os = Inr as \<longleftrightarrow>
     list_all2 (\<lambda>fs_oid addr. \<exists>e. resolve om rd fs_oid x bs = Inr e \<and> oe_paddr e = addr) os as"
proof (induction os arbitrary: as)
  case (Cons o' os)
  then show ?case by (cases as) (auto simp: Cons.IH [symmetric] split: sum.splits)
qed auto

lemma first_split_Cons:
  "(\<exists>before x after. y # ys = before @ x # after \<and> list_all P before \<and> Q x) \<longleftrightarrow>
     Q y \<or> P y \<and> (\<exists>before x after. ys = before @ x # after \<and> list_all P before \<and> Q x)" (is "?l \<longleftrightarrow> ?r")
proof
  assume ?l
  then obtain before x after where "y # ys = before @ x # after" "list_all P before" "Q x" by blast
  then show ?r by (cases before) auto
next
  assume ?r
  then show ?l
  proof (elim disjE conjE exE)
    assume "Q y"
    then show ?l by (intro exI [of _ "[]"] exI [of _ y] exI [of _ ys]) simp
  next
    fix before x after
    assume "P y" "ys = before @ x # after" "list_all P before" "Q x"
    then show ?l by (intro exI [of _ "y # before"] exI [of _ x] exI [of _ after]) simp
  qed
qed

lemma resolve_volumes_Inl:
  "resolve_volumes om rd x bs os = Inl e \<longleftrightarrow>
     (\<exists>before fs_oid after. os = before @ fs_oid # after
        \<and> list_all (\<lambda>o'. \<exists>r. resolve om rd o' x bs = Inr r) before \<and> resolve om rd fs_oid x bs = Inl e)"
proof (induction os)
  case (Cons o' os)
  show ?case
    unfolding first_split_Cons Cons.IH [symmetric] by (auto split: sum.splits)
qed simp

text \<open>The object map of a container, and what it says of a volume id at the container's transaction.\<close>

definition container_omap :: "reader \<Rightarrow> apfs_container \<Rightarrow> object_map res" where
  "container_omap rd c =
     (case read_block_sat rd (nx_omap_oid (ac_superblock c)) (unat (nx_block_size (ac_superblock c))) of
        Inl e \<Rightarrow> Inl e | Inr buf \<Rightarrow> object_map_parse buf)"

definition volume_entry_of :: "object_map \<Rightarrow> reader \<Rightarrow> apfs_container \<Rightarrow> u64 \<Rightarrow> omap_entry res" where
  "volume_entry_of om rd c fs_oid =
     resolve om rd fs_oid (nx_xid (ac_superblock c)) (unat (nx_block_size (ac_superblock c)))"

text \<open>
  C31. Enumerating the volumes is all or nothing. It succeeds exactly when the block size is in range,
  the container object map reads and parses, and every volume id of the live superblock resolves; the
  answer then is one address per id, in order, each the address the object map gives that id at the
  container's transaction. It fails with the first failure it meets: the block size named as out of
  range, else the error of reading the object map, else that of parsing it, else the error of the first
  id that does not resolve.
\<close>

theorem volume_superblock_addrs_all:
  "(volume_superblock_addrs rd c = Inr addrs \<longleftrightarrow>
      block_size_in_range (nx_block_size (ac_superblock c))
      \<and> (\<exists>om. container_omap rd c = Inr om
           \<and> list_all2 (\<lambda>fs_oid addr. \<exists>e. volume_entry_of om rd c fs_oid = Inr e \<and> oe_paddr e = addr)
               (nx_fs_oids (ac_superblock c)) addrs))
   \<and> (volume_superblock_addrs rd c = Inl err \<longleftrightarrow>
      (if \<not> block_size_in_range (nx_block_size (ac_superblock c))
       then err = FieldOutOfRange ''nx_superblock'' ''nx_block_size''
                    (ucast (nx_block_size (ac_superblock c))) (ucast NX_MAXIMUM_BLOCK_SIZE)
       else case container_omap rd c of
              Inl e \<Rightarrow> err = e
            | Inr om \<Rightarrow> (\<exists>before fs_oid after. nx_fs_oids (ac_superblock c) = before @ fs_oid # after
                \<and> list_all (\<lambda>o'. \<exists>e. volume_entry_of om rd c o' = Inr e) before
                \<and> volume_entry_of om rd c fs_oid = Inl err)))"
  by (auto simp: volume_superblock_addrs_def container_omap_def volume_entry_of_def resolve_volumes_Inr
      resolve_volumes_Inl Let_def split: sum.splits)

subsection \<open>A small container\<close>

text \<open>
  Seven 4096-byte blocks, and whatever follows them: the bootstrap superblock, a ring of three blocks (an older
  superblock, the checkpoint map and the live superblock), an unused block, the container
  object map and its one-node tree.
\<close>

definition demo_mapping :: "u64 \<Rightarrow> u64 \<Rightarrow> bytes" where
  "demo_mapping oid paddr = to_le 4 (5 :: u32) @ to_le 4 (0 :: u32) @ replicate 16 0 @ to_le 8 oid @ to_le 8 paddr"

definition demo_map_block :: bytes where
  "demo_map_block = seal_block (to_le 8 (9 :: u64) @ to_le 8 (7 :: u64) @ to_le 4 (0x4000000c :: u32) @ to_le 4 (0 :: u32)
     @ to_le 4 (1 :: u32) @ to_le 4 (3 :: u32) @ demo_mapping 0x400 100 @ demo_mapping 0x401 8 @ demo_mapping 0x400 102
     @ replicate 3936 0)"

definition demo_omap_block :: bytes where
  "demo_omap_block = seal_block (to_le 8 (5 :: u64) @ to_le 8 (7 :: u64) @ to_le 4 (0x4000000b :: u32) @ to_le 4 (0 :: u32)
     @ to_le 4 (1 :: u32) @ to_le 4 (0 :: u32) @ to_le 4 (0x40000002 :: u32) @ to_le 4 (0 :: u32)
     @ to_le 8 (6 :: u64) @ replicate 4040 0)"

definition demo_volume_leaf :: "entry list" where
  "demo_volume_leaf = [(enc_omap_key 0x402 3, enc_omap_val 0 4096 40), (enc_omap_key 0x402 6, enc_omap_val 0 4096 7)]"

definition demo_tree_block :: bytes where
  "demo_tree_block = enc_node (replicate 24 0) 7 0 demo_volume_leaf (replicate 3928 0) (replicate 40 0)"

definition demo_nx_block :: "u64 \<Rightarrow> bytes" where
  "demo_nx_block x = enc_nx (demo_nx x) demo_nx_rest"

definition demo_container :: "bytes \<Rightarrow> bytes" where
  "demo_container tail = demo_nx_block 5 @ demo_nx_block 5 @ demo_map_block @ demo_nx_block 7
     @ replicate 4096 0 @ demo_omap_block @ demo_tree_block @ tail"

abbreviation "demo_image \<equiv> demo_container []"

lemma demo_block_lengths [simp]:
  "length (demo_nx_block x) = 4096" "length demo_map_block = 4096" "length demo_omap_block = 4096"
  "length demo_tree_block = 4096"
  by (simp_all add: demo_nx_block_def demo_map_block_def demo_omap_block_def demo_mapping_def)
    (simp add: demo_tree_block_def length_enc_node demo_volume_leaf_def enc_toc_len_def layout_defs)

lemma demo_reads:
  "cursor (demo_container tail) 0 4096 = Inr (demo_nx_block 5)"
  "cursor (demo_container tail) 4096 4096 = Inr (demo_nx_block 5)"
  "cursor (demo_container tail) 8192 4096 = Inr demo_map_block"
  "cursor (demo_container tail) 12288 4096 = Inr (demo_nx_block 7)"
  "cursor (demo_container tail) 20480 4096 = Inr demo_omap_block"
  "cursor (demo_container tail) 24576 4096 = Inr demo_tree_block"
  by (simp_all add: cursor_def demo_container_def)

lemma demo_nx_block_facts [simp]:
  "nx_superblock_parse (demo_nx_block x) = Inr (demo_nx x)"
  "block_xid (demo_nx_block x) = x" "ring_superblock (demo_nx_block x)" "\<not> ring_map y (demo_nx_block x)"
proof -
  show p: "nx_superblock_parse (demo_nx_block x) = Inr (demo_nx x)"
    by (simp add: demo_nx_block_def nx_superblock_parse_enc)
  show x: "block_xid (demo_nx_block x) = x"
    using nx_superblock_parse_xid [OF p] by (simp add: demo_nx_def)
  have "le_u32 (demo_nx_block x) 24 = 0x80000001"
    by (simp add: demo_nx_block_def enc_nx_def le_u32_def arr_seal_block enc_nx_header_def arr_fields)
      (simp add: demo_nx_rest_def)
  then have t: "obj_phys_parse (demo_nx_block x) \<noteq> None"
      "obj_phys_parse (demo_nx_block x) = Some h \<Longrightarrow> obj_type h = 1" for h
    by (auto simp: obj_phys_parse_def obj_type_def OBJ_PHYS_LEN_def)
  have v: "nx_block_valid (demo_nx_block x)" using p nx_superblock_parse_Inr_iff by blast
  then show "ring_superblock (demo_nx_block x)"
    using t by (auto simp: ring_superblock_def nx_block_valid_def OFF_MAGIC_def OBJECT_TYPE_NX_SUPERBLOCK_def split: option.splits)
  show "\<not> ring_map y (demo_nx_block x)"
    using t by (auto simp: ring_map_def OBJECT_TYPE_CHECKPOINT_MAP_def split: option.splits)
qed

lemma demo_map_block_reads:
  "le_u64 demo_map_block 16 = 7" "le_u32 demo_map_block 24 = 0x4000000c" "le_u32 demo_map_block 36 = 3"
  "read_mapping demo_map_block 0 = \<lparr> cm_oid = 0x400, cm_paddr = 100, cm_obj_type = 5, cm_subtype = 0 \<rparr>"
  "read_mapping demo_map_block 1 = \<lparr> cm_oid = 0x401, cm_paddr = 8, cm_obj_type = 5, cm_subtype = 0 \<rparr>"
  "read_mapping demo_map_block 2 = \<lparr> cm_oid = 0x400, cm_paddr = 102, cm_obj_type = 5, cm_subtype = 0 \<rparr>"
  by (simp_all add: demo_map_block_def read_mapping_def Let_def layout_defs demo_mapping_def
      le_u32_def le_u64_def arr_seal_block arr_fields)

lemma demo_map_block_facts [simp]:
  "\<not> ring_superblock demo_map_block" "ring_map 7 demo_map_block"
  "block_mappings demo_map_block =
     [\<lparr> cm_oid = 0x400, cm_paddr = 100, cm_obj_type = 5, cm_subtype = 0 \<rparr>,
      \<lparr> cm_oid = 0x401, cm_paddr = 8, cm_obj_type = 5, cm_subtype = 0 \<rparr>,
      \<lparr> cm_oid = 0x400, cm_paddr = 102, cm_obj_type = 5, cm_subtype = 0 \<rparr>]"
proof -
  have t: "obj_phys_parse demo_map_block = Some \<lparr> o_cksum = le_u64 demo_map_block 0, o_oid = le_u64 demo_map_block 8,
      o_xid = 7, o_type_raw = 0x4000000c, o_subtype = le_u32 demo_map_block 28 \<rparr>"
    by (simp add: obj_phys_parse_def OBJ_PHYS_LEN_def demo_map_block_reads)
  show "\<not> ring_superblock demo_map_block"
    by (simp add: ring_superblock_def t obj_type_def OBJECT_TYPE_NX_SUPERBLOCK_def)
  have "fletcher64_checksum demo_map_block = fletcher64_stored demo_map_block"
    by (simp add: demo_map_block_def)
  then show "ring_map 7 demo_map_block"
    by (simp add: ring_map_def t obj_type_def OBJECT_TYPE_CHECKPOINT_MAP_def)
  have up: "[0..<3] = [0, 1, 2 :: nat]" by (simp add: upt_rec)
  have n: "unat (min 3 4096 :: u32) = 3" by (simp add: min_def)
  show "block_mappings demo_map_block =
     [\<lparr> cm_oid = 0x400, cm_paddr = 100, cm_obj_type = 5, cm_subtype = 0 \<rparr>,
      \<lparr> cm_oid = 0x401, cm_paddr = 8, cm_obj_type = 5, cm_subtype = 0 \<rparr>,
      \<lparr> cm_oid = 0x400, cm_paddr = 102, cm_obj_type = 5, cm_subtype = 0 \<rparr>]"
    by (simp only: block_mappings_def CPM_COUNT_OFF_def MAX_CPM_COUNT_def demo_map_block_reads n up list.map)
qed

lemma demo_nx_fields:
  "nx_block_size (demo_nx x) = 4096" "nx_xp_desc_base (demo_nx x) = 1" "nx_xp_desc_blocks (demo_nx x) = 3"
  "\<not> nx_desc_is_tree (demo_nx x)" "\<not> is_fusion (demo_nx x)" "nx_xid (demo_nx x) = x"
  "block_size_in_range 4096" "nx_omap_oid (demo_nx x) = 5" "nx_fs_oids (demo_nx x) = [0x402]"
  by (simp_all add: demo_nx_def is_fusion_def block_size_in_range_def layout_defs)

lemma demo_ring:
  "bootstrap_ring (cursor (demo_container tail)) (demo_nx x) = [(1, demo_nx_block 5), (2, demo_map_block), (3, demo_nx_block 7)]"
proof -
  have "[0..<3] = [0, 1, 2::nat]" by (simp add: upt_rec)
  then show ?thesis
    by (simp add: ring_blocks_def demo_nx_fields cp_read_block_def checked_mul_u64_def demo_reads)
qed

lemma demo_reads_ok: "cp_read_block (cursor img) p n \<noteq> Inl e"
  by (auto simp: cp_read_block_def cursor_def split: option.splits)

lemma demo_live:
  "resolve_live_checkpoint (cursor (demo_container tail)) (demo_nx x)
     = Inr \<lparr> lc_superblock_paddr = 3, lc_xid = 7, lc_mappings = block_mappings demo_map_block \<rparr>"
proof -
  let ?rd = "cursor (demo_container tail)"
  have l: "ring_loop ?rd 4096 1 step 0 3 s
      = Inr (fold (\<lambda>(p, b). step p b) [(1, demo_nx_block 5), (2, demo_map_block), (3, demo_nx_block 7)] s)"
    for step :: "u64 \<Rightarrow> bytes \<Rightarrow> 's \<Rightarrow> 's" and s
    using ring_loop_total [of 1 0 3 ?rd 4096 step s] demo_reads_ok demo_ring [of tail x]
    by (simp add: demo_nx_fields)
  have "fst (desc_fold [(1, demo_nx_block 5), (2, demo_map_block), (3, demo_nx_block 7)] (None, 0, 0)) = Some (7, 3)"
    by (simp add: desc_step_best del: desc_step.simps)
  then obtain c m where "desc_fold [(1, demo_nx_block 5), (2, demo_map_block), (3, demo_nx_block 7)] (None, 0, 0)
      = (Some (7, 3), c, m)" by (metis prod.collapse)
  then show ?thesis
    by (simp add: resolve_live_checkpoint_def demo_nx_fields xp_desc_is_tree_def l map_step_eq
        del: desc_step.simps fold_simps demo_map_block_facts(3))
qed

lemma demo_open:
  "container_open (cursor (demo_container tail)) = Inr \<lparr> ac_superblock = demo_nx 7, ac_live_superblock_paddr = 3,
     ac_checkpoint_mappings = block_mappings demo_map_block \<rparr>"
  by (simp add: container_open_def NX_MINIMUM_BLOCK_SIZE_def demo_reads demo_nx_fields demo_live
      read_block_sat_def read_exact_at_def saturating_mul_u64_def del: demo_map_block_facts(3))


theorem live_checkpoint_is_newest_witness:
  "resolve_live_checkpoint (cursor demo_image) (demo_nx 5)
     = Inr \<lparr> lc_superblock_paddr = 3, lc_xid = 7, lc_mappings = block_mappings demo_map_block \<rparr>
   \<and> (\<exists>buf. (3, buf) \<in> set (bootstrap_ring (cursor demo_image) (demo_nx 5))
        \<and> ring_superblock buf \<and> block_xid buf = 7)"
  using live_checkpoint_is_newest [OF demo_live [of "[]" 5]] demo_live [of "[]" 5] by simp

theorem live_checkpoint_total_witness:
  "case resolve_live_checkpoint (cursor demo_image) (demo_nx 5) of
     Inr live \<Rightarrow> (\<exists>(p, b)\<in>set (bootstrap_ring (cursor demo_image) (demo_nx 5)). ring_superblock b)
   | Inl e \<Rightarrow> False"
  using live_checkpoint_total [of "demo_nx 5" "cursor demo_image"] demo_reads_ok demo_live [of "[]" 5]
  by (simp add: xp_desc_is_tree_def demo_nx_fields)

theorem container_open_live_witness:
  "\<exists>c. container_open (cursor demo_image) = Inr c \<and> ac_live_superblock_paddr c = 3
     \<and> nx_xid (ac_superblock c) = 7
     \<and> (\<exists>boot buf. (3, buf) \<in> set (bootstrap_ring (cursor demo_image) boot)
          \<and> nx_superblock_parse buf = Inr (ac_superblock c))"
  using container_open_live [OF demo_open [of "[]"]] demo_open [of "[]"] by (auto simp: demo_nx_fields)

end
