(* ===== verification/Spaceman.thy ===== *)
theory Spaceman
  imports Object
begin

text \<open>
  \<^verbatim>\<open>core/src/spaceman.rs\<close>: the allocation bitmaps behind the space manager. The \<open>u64\<close>
  quantities are read into \<open>nat\<close>; the products the source forms with \<^verbatim>\<open>saturating_mul\<close> are
  capped at \<open>2\<^sup>6\<^sup>4 - 1\<close> here too. The main results: the run extraction is exact and maximal, and
  the one-pass enumeration of free runs agrees, block by block, with the single-block query.
\<close>

subsection \<open>Layout\<close>

definition SM_BLOCKS_PER_CHUNK :: nat where [layout_defs]: "SM_BLOCKS_PER_CHUNK = 36"
definition SM_CHUNKS_PER_CIB :: nat where [layout_defs]: "SM_CHUNKS_PER_CIB = 40"
definition SM_DEV0 :: nat where [layout_defs]: "SM_DEV0 = 48"
definition DEV_BLOCK_COUNT :: nat where [layout_defs]: "DEV_BLOCK_COUNT = 0"
definition DEV_CHUNK_COUNT :: nat where [layout_defs]: "DEV_CHUNK_COUNT = 8"
definition DEV_CIB_COUNT :: nat where [layout_defs]: "DEV_CIB_COUNT = 16"
definition DEV_CAB_COUNT :: nat where [layout_defs]: "DEV_CAB_COUNT = 20"
definition DEV_ADDR_OFFSET :: nat where [layout_defs]: "DEV_ADDR_OFFSET = 32"
definition CIB_CHUNK_INFO_COUNT :: nat where [layout_defs]: "CIB_CHUNK_INFO_COUNT = 36"
definition CIB_CHUNK_INFO :: nat where [layout_defs]: "CIB_CHUNK_INFO = 40"
definition CHUNK_INFO_LEN :: nat where [layout_defs]: "CHUNK_INFO_LEN = 32"
definition CI_BITMAP_ADDR :: nat where [layout_defs]: "CI_BITMAP_ADDR = 24"

definition sat_u64 :: "nat \<Rightarrow> nat" where
  "sat_u64 n = min n (2 ^ 64 - 1)"

definition read_obj_block :: "reader \<Rightarrow> u64 \<Rightarrow> nat \<Rightarrow> bytes res" where
  "read_obj_block rd paddr block_size =
     (case read_block_sat rd paddr block_size of
        Inl e \<Rightarrow> Inl e
      | Inr buf \<Rightarrow>
          let stored = fletcher64_stored buf; computed = fletcher64_checksum buf
          in if stored \<noteq> computed then Inl (ChecksumMismatch (le_u64 buf 8) stored computed) else Inr buf)"

text \<open>The geometry fields both queries read from the space-manager block.\<close>

record sm_geometry =
  blocks_per_chunk :: nat
  chunks_per_cib :: nat
  block_count :: nat
  chunk_count :: nat
  cib_count :: nat
  cab_count :: u64
  addr_offset :: nat

definition sm_geometry_of :: "bytes \<Rightarrow> sm_geometry" where
  "sm_geometry_of sm =
     \<lparr> blocks_per_chunk = unat (le_u32 sm SM_BLOCKS_PER_CHUNK),
       chunks_per_cib = unat (le_u32 sm SM_CHUNKS_PER_CIB),
       block_count = unat (le_u64 sm (SM_DEV0 + DEV_BLOCK_COUNT)),
       chunk_count = unat (le_u64 sm (SM_DEV0 + DEV_CHUNK_COUNT)),
       cib_count = unat (le_u32 sm (SM_DEV0 + DEV_CIB_COUNT)),
       cab_count = ucast (le_u32 sm (SM_DEV0 + DEV_CAB_COUNT)),
       addr_offset = unat (le_u32 sm (SM_DEV0 + DEV_ADDR_OFFSET)) \<rparr>"

definition sm_range :: "string \<Rightarrow> nat \<Rightarrow> nat \<Rightarrow> apfs_error" where
  "sm_range field val cap = FieldOutOfRange ''spaceman_phys'' field (of_nat val) (of_nat cap)"

definition cib_paddr :: "bytes \<Rightarrow> sm_geometry \<Rightarrow> nat \<Rightarrow> u64" where
  "cib_paddr sm g cib_idx = le_u64 sm (addr_offset g + cib_idx * 8)"

definition ci_bitmap_addr :: "bytes \<Rightarrow> nat \<Rightarrow> u64" where
  "ci_bitmap_addr cib within = le_u64 cib (CIB_CHUNK_INFO + within * CHUNK_INFO_LEN + CI_BITMAP_ADDR)"

definition ci_count :: "bytes \<Rightarrow> nat" where
  "ci_count cib = unat (le_u32 cib CIB_CHUNK_INFO_COUNT)"

definition bit_of :: "u8 \<Rightarrow> nat \<Rightarrow> bool" where
  "bit_of byte i \<longleftrightarrow> byte AND push_bit i 1 \<noteq> 0"

subsection \<open>The single-block query\<close>

definition is_block_free :: "reader \<Rightarrow> u64 \<Rightarrow> u64 \<Rightarrow> nat \<Rightarrow> bool res" where
  "is_block_free rd spaceman_paddr block block_size =
     (case read_obj_block rd spaceman_paddr block_size of
        Inl e \<Rightarrow> Inl e
      | Inr sm \<Rightarrow>
          let g = sm_geometry_of sm; b = unat block
          in if blocks_per_chunk g = 0 \<or> chunks_per_cib g = 0
             then Inl (sm_range ''sm_blocks_per_chunk/sm_chunks_per_cib'' 0 1)
             else if b \<ge> block_count g then Inl (sm_range ''block'' b (block_count g))
             else if cab_count g \<noteq> 0 then Inl (UnsupportedSpacemanCab (cab_count g))
             else let chunk_index = b div blocks_per_chunk g
                  in if chunk_index \<ge> chunk_count g then Inl (sm_range ''chunk_index'' chunk_index (chunk_count g))
                     else let cib_idx = chunk_index div chunks_per_cib g;
                              within = chunk_index mod chunks_per_cib g
                          in if cib_idx \<ge> cib_count g then Inl (sm_range ''cib_index'' cib_idx (cib_count g))
                             else case read_obj_block rd (cib_paddr sm g cib_idx) block_size of
                                    Inl e \<Rightarrow> Inl e
                                  | Inr cib \<Rightarrow>
                                      if within \<ge> ci_count cib
                                      then Inl (sm_range ''chunk_info_index'' within (ci_count cib))
                                      else if ci_bitmap_addr cib within = 0 then Inr True
                                      else case read_block_sat rd (ci_bitmap_addr cib within) block_size of
                                             Inl e \<Rightarrow> Inl e
                                           | Inr bitmap \<Rightarrow>
                                               let i = b mod blocks_per_chunk g;
                                                   allocated = (case get_at bitmap (i div 8) of
                                                                  None \<Rightarrow> False
                                                                | Some byte \<Rightarrow> bit_of byte (i mod 8))
                                               in Inr (\<not> allocated))"

subsection \<open>Runs of one bitmap\<close>

definition bit_is_free :: "bytes \<Rightarrow> bool \<Rightarrow> nat \<Rightarrow> bool" where
  "bit_is_free bitmap free_bit_is_one i =
     (let allocated_fill = (if free_bit_is_one then 0x00 else 0xFF);
          byte = (case get_at bitmap (i div 8) of None \<Rightarrow> allocated_fill | Some b \<Rightarrow> b)
      in bit_of byte (i mod 8) = free_bit_is_one)"

type_synonym runs = "(nat \<times> nat) list"

primrec free_runs_loop :: "bytes \<Rightarrow> bool \<Rightarrow> nat \<Rightarrow> nat \<Rightarrow> runs \<times> nat option \<Rightarrow> runs \<times> nat option" where
  "free_runs_loop bitmap one i 0 st = st"
| "free_runs_loop bitmap one i (Suc n) st =
     free_runs_loop bitmap one (Suc i) n
       (case (bit_is_free bitmap one i, snd st) of
          (True, None) \<Rightarrow> (fst st, Some i)
        | (False, Some s) \<Rightarrow> (fst st @ [(s, i - s)], None)
        | _ \<Rightarrow> st)"

definition free_runs :: "bytes \<Rightarrow> nat \<Rightarrow> bool \<Rightarrow> runs" where
  "free_runs bitmap blocks free_bit_is_one =
     (case free_runs_loop bitmap free_bit_is_one 0 blocks ([], None) of
        (runs, None) \<Rightarrow> runs
      | (runs, Some s) \<Rightarrow> runs @ [(s, blocks - s)])"

subsection \<open>The enumeration of the device\<close>

definition push_free_run :: "runs \<Rightarrow> nat \<Rightarrow> nat \<Rightarrow> runs" where
  "push_free_run runs first len =
     (if len = 0 then runs
      else if runs \<noteq> [] \<and> sat_u64 (fst (last runs) + snd (last runs)) = first
           then butlast runs @ [(fst (last runs), sat_u64 (snd (last runs) + len))]
           else runs @ [(first, len)])"

primrec chunk_loop :: "reader \<Rightarrow> nat \<Rightarrow> sm_geometry \<Rightarrow> bytes \<Rightarrow> nat \<Rightarrow> nat \<Rightarrow> nat \<Rightarrow> runs \<Rightarrow> runs res" where
  "chunk_loop rd block_size g cib cib_idx within 0 runs = Inr runs"
| "chunk_loop rd block_size g cib cib_idx within (Suc n) runs =
     (let chunk_index = sat_u64 (cib_idx * chunks_per_cib g) + within
      in if chunk_index \<ge> chunk_count g then Inr runs
         else let chunk_base = sat_u64 (chunk_index * blocks_per_chunk g)
              in if chunk_base \<ge> block_count g then Inr runs
                 else let blocks_in_chunk = min (blocks_per_chunk g) (block_count g - chunk_base);
                          addr = ci_bitmap_addr cib within
                      in if addr = 0
                         then chunk_loop rd block_size g cib cib_idx (Suc within) n
                                (push_free_run runs chunk_base blocks_in_chunk)
                         else case read_block_sat rd addr block_size of
                                Inl e \<Rightarrow> Inl e
                              | Inr bitmap \<Rightarrow>
                                  chunk_loop rd block_size g cib cib_idx (Suc within) n
                                    (fold (\<lambda>(start, len) rs. push_free_run rs (chunk_base + start) len)
                                      (free_runs bitmap blocks_in_chunk False) runs))"

primrec cib_loop :: "reader \<Rightarrow> nat \<Rightarrow> sm_geometry \<Rightarrow> bytes \<Rightarrow> nat \<Rightarrow> nat \<Rightarrow> runs \<Rightarrow> runs res" where
  "cib_loop rd block_size g sm cib_idx 0 runs = Inr runs"
| "cib_loop rd block_size g sm cib_idx (Suc n) runs =
     (case read_obj_block rd (cib_paddr sm g cib_idx) block_size of
        Inl e \<Rightarrow> Inl e
      | Inr cib \<Rightarrow>
          (case chunk_loop rd block_size g cib cib_idx 0 (ci_count cib) runs of
             Inl e \<Rightarrow> Inl e
           | Inr runs' \<Rightarrow> cib_loop rd block_size g sm (Suc cib_idx) n runs'))"

definition free_block_runs :: "reader \<Rightarrow> u64 \<Rightarrow> nat \<Rightarrow> runs res" where
  "free_block_runs rd spaceman_paddr block_size =
     (case read_obj_block rd spaceman_paddr block_size of
        Inl e \<Rightarrow> Inl e
      | Inr sm \<Rightarrow>
          let g = sm_geometry_of sm
          in if blocks_per_chunk g = 0 \<or> chunks_per_cib g = 0
             then Inl (sm_range ''sm_blocks_per_chunk/sm_chunks_per_cib'' 0 1)
             else if cab_count g \<noteq> 0 then Inl (UnsupportedSpacemanCab (cab_count g))
             else cib_loop rd block_size g sm 0 (cib_count g) [])"

subsection \<open>Run lists\<close>

text \<open>Non-empty runs in ascending order with a gap between neighbours, hence maximal.\<close>

definition wf_runs :: "runs \<Rightarrow> bool" where
  "wf_runs rs \<longleftrightarrow> list_all (\<lambda>(s, l). 0 < l) rs \<and> sorted_wrt (\<lambda>(s, l) (s', l'). s + l < s') rs"

definition run_blocks :: "runs \<Rightarrow> nat set" where
  "run_blocks rs = (\<Union>(s, l)\<in>set rs. {s..<s + l})"

definition runs_below :: "runs \<Rightarrow> nat \<Rightarrow> bool" where
  "runs_below rs k \<longleftrightarrow> list_all (\<lambda>(s, l). s + l \<le> k) rs"

lemma runs_simps [simp]:
  "wf_runs []" "run_blocks [] = {}" "runs_below [] k"
  "run_blocks (rs @ rs') = run_blocks rs \<union> run_blocks rs'" "run_blocks [(s, l)] = {s..<s + l}"
  "run_blocks ((s, l) # rs) = {s..<s + l} \<union> run_blocks rs"
  "runs_below (rs @ rs') k \<longleftrightarrow> runs_below rs k \<and> runs_below rs' k" "runs_below [(s, l)] k \<longleftrightarrow> s + l \<le> k"
  by (auto simp: wf_runs_def run_blocks_def runs_below_def)

lemma wf_runs_snoc:
  "wf_runs (rs @ [(s, l)]) \<longleftrightarrow> wf_runs rs \<and> 0 < l \<and> list_all (\<lambda>(a, b). a + b < s) rs"
  by (auto simp: wf_runs_def sorted_wrt_append list_all_iff)

lemma runs_below_mono: "runs_below rs k \<Longrightarrow> k \<le> k' \<Longrightarrow> runs_below rs k'"
  by (auto simp: runs_below_def list_all_iff)

lemma runs_below_less: "list_all (\<lambda>(a, b). a + b < s) rs \<longleftrightarrow> (case s of 0 \<Rightarrow> rs = [] | Suc k \<Rightarrow> runs_below rs k)"
  by (cases rs) (auto simp: runs_below_def list_all_iff less_Suc_eq_le split: nat.splits)

subsection \<open>One bitmap\<close>

definition runs_inv :: "bytes \<Rightarrow> bool \<Rightarrow> nat \<Rightarrow> runs \<times> nat option \<Rightarrow> bool" where
  "runs_inv bitmap one i st \<longleftrightarrow>
     wf_runs (fst st) \<and>
     (case snd st of
        None \<Rightarrow> list_all (\<lambda>(a, b). a + b < i) (fst st) \<and> run_blocks (fst st) = {j. j < i \<and> bit_is_free bitmap one j}
      | Some s \<Rightarrow> s < i \<and> list_all (\<lambda>(a, b). a + b < s) (fst st)
          \<and> run_blocks (fst st) \<union> {s..<i} = {j. j < i \<and> bit_is_free bitmap one j})"

lemma free_runs_loop_inv:
  "runs_inv bitmap one i st \<Longrightarrow> runs_inv bitmap one (i + n) (free_runs_loop bitmap one i n st)"
proof (induction n arbitrary: i st)
  case (Suc n)
  obtain rs start where st: "st = (rs, start)" by (cases st)
  have set_Suc: "{j. j < Suc i \<and> P j} = {j. j < i \<and> P j} \<union> (if P i then {i} else {})" for P
    by (auto simp: less_Suc_eq)
  let ?st = "case (bit_is_free bitmap one i, snd st) of
      (True, None) \<Rightarrow> (fst st, Some i) | (False, Some s) \<Rightarrow> (fst st @ [(s, i - s)], None) | _ \<Rightarrow> st"
  have less: "list_all (\<lambda>(a, b). a + b < j) rs \<Longrightarrow> j \<le> k \<Longrightarrow> list_all (\<lambda>(a, b). a + b < k) rs" for j k
    by (auto simp: list_all_iff)
  have "runs_inv bitmap one (Suc i) ?st"
    using Suc.prems less [of _ "Suc i"] unfolding runs_inv_def set_Suc st
    by (cases start) (auto simp: wf_runs_snoc atLeastLessThanSuc split: if_splits)
  from Suc.IH [OF this] show ?case by simp
qed simp

text \<open>
  The run extraction of a chunk's bitmap is exact and maximal: the runs are non-empty,
  ascending and separated by at least one block, and they cover exactly the blocks whose bit
  has the free polarity, for both polarities, with blocks beyond the bitmap counted allocated.
\<close>

lemma free_runs_exact:
  "wf_runs (free_runs bitmap blocks one)"
  "run_blocks (free_runs bitmap blocks one) = {i. i < blocks \<and> bit_is_free bitmap one i}"
  "runs_below (free_runs bitmap blocks one) blocks"
proof -
  have "runs_inv bitmap one 0 ([], None)" by (simp add: runs_inv_def)
  from free_runs_loop_inv [OF this, of blocks]
  have inv: "runs_inv bitmap one blocks (free_runs_loop bitmap one 0 blocks ([], None))" by simp
  obtain rs start where loop: "free_runs_loop bitmap one 0 blocks ([], None) = (rs, start)"
    by (cases "free_runs_loop bitmap one 0 blocks ([], None)")
  have below: "runs_below rs k" if "list_all (\<lambda>(a, b). a + b < k) rs" for k
    using that by (auto simp: runs_below_def list_all_iff)
  show "wf_runs (free_runs bitmap blocks one)"
    "run_blocks (free_runs bitmap blocks one) = {i. i < blocks \<and> bit_is_free bitmap one i}"
    "runs_below (free_runs bitmap blocks one) blocks"
  proof (atomize (full), cases start)
    case None
    then show "wf_runs (free_runs bitmap blocks one)
        \<and> run_blocks (free_runs bitmap blocks one) = {i. i < blocks \<and> bit_is_free bitmap one i}
        \<and> runs_below (free_runs bitmap blocks one) blocks"
      using inv below by (simp add: free_runs_def loop runs_inv_def)
  next
    case (Some s)
    then have "free_runs bitmap blocks one = rs @ [(s, blocks - s)]" by (simp add: free_runs_def loop)
    then show "wf_runs (free_runs bitmap blocks one)
        \<and> run_blocks (free_runs bitmap blocks one) = {i. i < blocks \<and> bit_is_free bitmap one i}
        \<and> runs_below (free_runs bitmap blocks one) blocks"
      using inv Some runs_below_mono [OF below, of s blocks] by (simp add: loop runs_inv_def wf_runs_snoc)
  qed
qed

subsection \<open>The whole device\<close>

lemma push_free_run_ok:
  assumes "wf_runs rs" "runs_below rs first" "0 < len" "first + len < 2 ^ 64"
  shows "wf_runs (push_free_run rs first len)" "runs_below (push_free_run rs first len) (first + len)"
    "run_blocks (push_free_run rs first len) = run_blocks rs \<union> {first..<first + len}"
proof -
  show "wf_runs (push_free_run rs first len)" "runs_below (push_free_run rs first len) (first + len)"
    "run_blocks (push_free_run rs first len) = run_blocks rs \<union> {first..<first + len}"
  proof (atomize (full), cases rs rule: rev_cases)
    case Nil
    then show "wf_runs (push_free_run rs first len) \<and> runs_below (push_free_run rs first len) (first + len)
        \<and> run_blocks (push_free_run rs first len) = run_blocks rs \<union> {first..<first + len}"
      using assms(3) wf_runs_snoc [of "[]" first len] by (simp add: push_free_run_def)
  next
    case (snoc rs' r)
    obtain a b where r: "r = (a, b)" by (cases r)
    have le: "a + b \<le> first" "runs_below rs' first" using assms(2) snoc r by auto
    have rs': "wf_runs rs'" "0 < b" "list_all (\<lambda>(x, y). x + y < a) rs'"
      using assms(1) snoc r by (simp_all add: wf_runs_snoc)
    have sat: "sat_u64 (a + b) = a + b" "a + b = first \<longrightarrow> sat_u64 (b + len) = b + len"
      using le assms(4) by (auto simp: sat_u64_def)
    show "wf_runs (push_free_run rs first len) \<and> runs_below (push_free_run rs first len) (first + len)
        \<and> run_blocks (push_free_run rs first len) = run_blocks rs \<union> {first..<first + len}"
    proof (cases "a + b = first")
      case True
      then have "push_free_run rs first len = rs' @ [(a, b + len)]"
        using assms(3) sat snoc r by (simp add: push_free_run_def)
      then show ?thesis
        using rs' True snoc r runs_below_mono [OF le(2), of "first + len"] by (auto simp: wf_runs_snoc)
    next
      case False
      then have "push_free_run rs first len = rs @ [(first, len)]"
        using assms(3) sat snoc r by (simp add: push_free_run_def)
      moreover have "list_all (\<lambda>(x, y). x + y < first) rs"
        using False le(1) rs'(3) snoc r by (auto simp: list_all_iff)
      ultimately show ?thesis
        using assms runs_below_mono [OF assms(2), of "first + len"] by (simp add: wf_runs_snoc)
    qed
  qed
qed

lemma push_runs_ok:
  assumes "wf_runs rs" "runs_below rs base" "wf_runs new" "runs_below new n" "base + n < 2 ^ 64"
  defines "rs' \<equiv> fold (\<lambda>(start, len) rs. push_free_run rs (base + start) len) new rs"
  shows "wf_runs rs' \<and> runs_below rs' (base + n) \<and> run_blocks rs' = run_blocks rs \<union> (+) base ` run_blocks new"
proof -
  have "wf_runs rs \<Longrightarrow> runs_below rs (base + k) \<Longrightarrow> wf_runs new \<Longrightarrow> runs_below new n \<Longrightarrow> k \<le> n
      \<Longrightarrow> list_all (\<lambda>(s, l). k \<le> s) new \<Longrightarrow>
      let rs' = fold (\<lambda>(start, len) rs. push_free_run rs (base + start) len) new rs
      in wf_runs rs' \<and> runs_below rs' (base + n) \<and> run_blocks rs' = run_blocks rs \<union> (+) base ` run_blocks new"
    for k
  proof (induction new arbitrary: rs k)
    case Nil
    then show ?case using runs_below_mono [of rs "base + k" "base + n"] by simp
  next
    case (Cons r new)
    obtain s l where r: "r = (s, l)" by (cases r)
    have sl: "0 < l" "s + l \<le> n" "k \<le> s" "wf_runs new" "runs_below new n" "list_all (\<lambda>(s', l'). s + l \<le> s') new"
      using Cons.prems r by (auto simp: wf_runs_def runs_below_def list_all_iff)
    have below: "runs_below rs (base + s)" using runs_below_mono [OF Cons.prems(2)] sl(3) by simp
    note p = push_free_run_ok [OF Cons.prems(1) below sl(1)]
    have lt: "base + s + l < 2 ^ 64" using sl(2) assms(5) by simp
    have shift: "(+) base ` ({s..<s + l} \<union> B) = {base + s..<base + s + l} \<union> (+) base ` B" for B
      by (simp add: image_Un ac_simps)
    from Cons.IH [OF p(1) [OF lt] _ sl(4,5,2,6)] p(2) [OF lt] p(3) [OF lt] show ?case
      unfolding r by (simp add: Let_def shift add.assoc Un_assoc)
  qed
  from this [of 0] assms show ?thesis by (simp add: Let_def list_all_iff case_prod_unfold)
qed

definition free_in_chunk :: "reader \<Rightarrow> nat \<Rightarrow> bytes \<Rightarrow> nat \<Rightarrow> nat \<Rightarrow> bool" where
  "free_in_chunk rd block_size cib within i \<longleftrightarrow>
     ci_bitmap_addr cib within = 0
     \<or> (\<exists>bitmap. read_block_sat rd (ci_bitmap_addr cib within) block_size = Inr bitmap \<and> bit_is_free bitmap False i)"

text \<open>The free blocks of chunks \<open>w\<close> to \<open>w + n - 1\<close> of CIB \<open>c\<close>.\<close>

definition cib_free :: "reader \<Rightarrow> nat \<Rightarrow> sm_geometry \<Rightarrow> bytes \<Rightarrow> nat \<Rightarrow> nat \<Rightarrow> nat \<Rightarrow> nat set" where
  "cib_free rd block_size g cib c w n =
     {b. b < block_count g \<and> b div blocks_per_chunk g < chunk_count g
       \<and> (\<exists>v. w \<le> v \<and> v < w + n \<and> b div blocks_per_chunk g = c * chunks_per_cib g + v
            \<and> free_in_chunk rd block_size cib v (b mod blocks_per_chunk g))}"

lemma chunk_blocks:
  fixes bc :: nat
  assumes "0 < bpc" "base = ci * bpc"
  shows "{b. b < bc \<and> b div bpc = ci \<and> P (b mod bpc)} = (+) base ` {i. i < min bpc (bc - base) \<and> P i}"
proof (rule set_eqI)
  fix b
  have "b div bpc = ci \<longleftrightarrow> (\<exists>i<bpc. b = base + i)"
    using assms by (metis add.commute div_mult_mod_eq div_mult_self3 div_less add_0 mod_less_divisor less_not_refl2)
  moreover have "(base + i) mod bpc = i" if "i < bpc" for i using that assms by simp
  ultimately show "b \<in> {b. b < bc \<and> b div bpc = ci \<and> P (b mod bpc)} \<longleftrightarrow>
      b \<in> (+) base ` {i. i < min bpc (bc - base) \<and> P i}"
    by auto
qed

lemma cib_free_Suc:
  assumes "0 < blocks_per_chunk g" "c * chunks_per_cib g + w < chunk_count g"
    and "base = (c * chunks_per_cib g + w) * blocks_per_chunk g"
  shows "cib_free rd bs g cib c w (Suc n) =
    (+) base ` {i. i < min (blocks_per_chunk g) (block_count g - base) \<and> free_in_chunk rd bs cib w i}
    \<union> cib_free rd bs g cib c (Suc w) n"
proof -
  have "cib_free rd bs g cib c w (Suc n) =
    {b. b < block_count g \<and> b div blocks_per_chunk g = c * chunks_per_cib g + w
      \<and> free_in_chunk rd bs cib w (b mod blocks_per_chunk g)} \<union> cib_free rd bs g cib c (Suc w) n"
    using assms(2) by (auto simp: cib_free_def Suc_le_eq nat_less_le)
  then show ?thesis by (simp only: chunk_blocks [OF assms(1,3)])
qed

lemma cib_free_past:
  assumes "0 < blocks_per_chunk g"
    and "chunk_count g \<le> c * chunks_per_cib g + w
      \<or> block_count g \<le> (c * chunks_per_cib g + w) * blocks_per_chunk g"
  shows "cib_free rd bs g cib c w n = {}"
proof -
  have "\<not> b < block_count g"
    if "b div blocks_per_chunk g = c * chunks_per_cib g + v" "w \<le> v" "b div blocks_per_chunk g < chunk_count g" for b v
  proof -
    have "(c * chunks_per_cib g + w) * blocks_per_chunk g \<le> b div blocks_per_chunk g * blocks_per_chunk g"
      using that(1,2) by (intro mult_le_mono1) simp
    also have "\<dots> \<le> b" by simp
    finally show ?thesis using assms(2) that by auto
  qed
  then show ?thesis by (auto simp: cib_free_def)
qed

lemma chunk_step_ok:
  assumes "wf_runs rs" "runs_below rs base" "0 < n" "base + n < 2 ^ 64"
    and "rs' = (if ci_bitmap_addr cib w = 0 then push_free_run rs base n
      else fold (\<lambda>(start, len) rs. push_free_run rs (base + start) len) (free_runs bitmap n False) rs)"
    and "ci_bitmap_addr cib w \<noteq> 0 \<Longrightarrow> read_block_sat rd (ci_bitmap_addr cib w) bs = Inr bitmap"
  shows "wf_runs rs' \<and> runs_below rs' (base + n)
    \<and> run_blocks rs' = run_blocks rs \<union> (+) base ` {i. i < n \<and> free_in_chunk rd bs cib w i}"
proof (cases "ci_bitmap_addr cib w = 0")
  case True
  have "{base..<base + n} = (+) base ` {i. i < n}"
    using image_add_atLeastLessThan [of base 0 n] by (simp add: ac_simps lessThan_def atLeast0LessThan)
  then show ?thesis
    using push_free_run_ok [OF assms(1-4)] True assms(5) by (simp add: free_in_chunk_def)
next
  case False
  then show ?thesis
    using push_runs_ok [OF assms(1,2) free_runs_exact(1,3) assms(4), of bitmap False]
      assms(5,6) by (simp add: free_in_chunk_def free_runs_exact(2))
qed

lemma chunk_loop_ok:
  assumes "chunk_loop rd bs g cib c w n rs = Inr rs'"
    and g: "0 < blocks_per_chunk g" "block_count g < 2 ^ 64" "c * chunks_per_cib g < 2 ^ 64"
    and "wf_runs rs" "runs_below rs ((c * chunks_per_cib g + w) * blocks_per_chunk g)"
  shows "wf_runs rs' \<and> runs_below rs' ((c * chunks_per_cib g + w + n) * blocks_per_chunk g)
    \<and> run_blocks rs' = run_blocks rs \<union> cib_free rd bs g cib c w n"
  using assms(1,5,6)
proof (induction n arbitrary: w rs)
  case 0
  then show ?case by (auto simp: cib_free_def)
next
  case (Suc n)
  let ?ci = "c * chunks_per_cib g + w"
  let ?base = "?ci * blocks_per_chunk g"
  have sat: "sat_u64 (c * chunks_per_cib g) = c * chunks_per_cib g" using g(3) by (simp add: sat_u64_def)
  show ?case
  proof (cases "chunk_count g \<le> ?ci \<or> block_count g \<le> ?base")
    case True
    then have "chunk_count g \<le> ?ci \<or> block_count g \<le> sat_u64 ?base" using g(2) by (auto simp: sat_u64_def)
    then have "rs' = rs" using Suc.prems(1) by (auto simp: sat Let_def split: if_splits)
    moreover have "runs_below rs ((?ci + Suc n) * blocks_per_chunk g)"
      using runs_below_mono [OF Suc.prems(3)] by (simp add: add_mult_distrib)
    ultimately show ?thesis using Suc.prems(2) cib_free_past [OF g(1) True] by simp
  next
    case False
    have sb: "sat_u64 ?base = ?base" using False g(2) by (simp add: sat_u64_def)
    define m where "m = min (blocks_per_chunk g) (block_count g - ?base)"
    have m: "0 < m" "?base + m < 2 ^ 64" "?base + m \<le> Suc ?ci * blocks_per_chunk g"
      using False g by (auto simp: m_def)
    obtain rs1 bitmap where step: "rs1 = (if ci_bitmap_addr cib w = 0 then push_free_run rs ?base m
        else fold (\<lambda>(start, len) rs. push_free_run rs (?base + start) len) (free_runs bitmap m False) rs)"
        "ci_bitmap_addr cib w \<noteq> 0 \<Longrightarrow> read_block_sat rd (ci_bitmap_addr cib w) bs = Inr bitmap"
        "chunk_loop rd bs g cib c (Suc w) n rs1 = Inr rs'"
      using Suc.prems(1) False by (auto simp: sat sb Let_def m_def split: if_splits sum.splits)
    note one = chunk_step_ok [OF Suc.prems(2,3) m(1,2) step(1,2)]
    then have below: "runs_below rs1 ((c * chunks_per_cib g + Suc w) * blocks_per_chunk g)"
      using runs_below_mono [of rs1 "?base + m"] m(3) by simp
    from Suc.IH [OF step(3) _ below] one show ?thesis
      unfolding cib_free_Suc [OF g(1) _ refl, of c w] using False
      by (simp add: cib_free_Suc [OF g(1) _ refl] m_def Un_assoc)
  qed
qed

text \<open>The free blocks of CIBs \<open>c\<close> to \<open>c + n - 1\<close>.\<close>

definition dev_free :: "reader \<Rightarrow> nat \<Rightarrow> sm_geometry \<Rightarrow> bytes \<Rightarrow> nat \<Rightarrow> nat \<Rightarrow> nat set" where
  "dev_free rd block_size g sm c n =
     {b. \<exists>c' cib. c \<le> c' \<and> c' < c + n \<and> read_obj_block rd (cib_paddr sm g c') block_size = Inr cib
       \<and> b \<in> cib_free rd block_size g cib c' 0 (ci_count cib)}"

text \<open>
  The geometry is consistent when a chunk's bits fit a bitmap block and no CIB lists more
  chunks than its share.
\<close>

definition sm_consistent :: "reader \<Rightarrow> nat \<Rightarrow> bytes \<Rightarrow> bool" where
  "sm_consistent rd block_size sm \<longleftrightarrow>
     (let g = sm_geometry_of sm
      in blocks_per_chunk g \<le> 8 * block_size
         \<and> list_all (\<lambda>c. case read_obj_block rd (cib_paddr sm g c) block_size of
                            Inl e \<Rightarrow> True | Inr cib \<Rightarrow> ci_count cib \<le> chunks_per_cib g) [0..<cib_count g])"

lemma dev_free_Suc:
  "read_obj_block rd (cib_paddr sm g c) bs = Inr cib \<Longrightarrow>
    dev_free rd bs g sm c (Suc n) = cib_free rd bs g cib c 0 (ci_count cib) \<union> dev_free rd bs g sm (Suc c) n"
proof -
  assume cib: "read_obj_block rd (cib_paddr sm g c) bs = Inr cib"
  define Q where "Q b c' \<longleftrightarrow> (\<exists>cib. read_obj_block rd (cib_paddr sm g c') bs = Inr cib
      \<and> b \<in> cib_free rd bs g cib c' 0 (ci_count cib))" for b c'
  have split: "(\<exists>c'. c \<le> c' \<and> c' < c + Suc n \<and> P c') \<longleftrightarrow> P c \<or> (\<exists>c'. Suc c \<le> c' \<and> c' < Suc c + n \<and> P c')" for P
    by (auto simp: Suc_le_eq) (metis le_neq_implies_less, metis less_imp_le)
  have dev: "dev_free rd bs g sm c n = {b. \<exists>c'. c \<le> c' \<and> c' < c + n \<and> Q b c'}" for c n
    by (auto simp: dev_free_def Q_def)
  have "Q b c \<longleftrightarrow> b \<in> cib_free rd bs g cib c 0 (ci_count cib)" for b using cib by (simp add: Q_def)
  then show ?thesis unfolding dev split by auto
qed

lemma cib_loop_ok:
  assumes "cib_loop rd bs g sm c n rs = Inr rs'"
    and g: "0 < blocks_per_chunk g" "block_count g < 2 ^ 64" "(c + n) * chunks_per_cib g < 2 ^ 64"
    and ci: "\<And>c' cib. c' < c + n \<Longrightarrow> read_obj_block rd (cib_paddr sm g c') bs = Inr cib \<Longrightarrow>
      ci_count cib \<le> chunks_per_cib g"
    and "wf_runs rs" "runs_below rs (c * chunks_per_cib g * blocks_per_chunk g)"
  shows "wf_runs rs' \<and> run_blocks rs' = run_blocks rs \<union> dev_free rd bs g sm c n"
  using assms(1,4-7)
proof (induction n arbitrary: c rs)
  case 0
  then show ?case by (auto simp: dev_free_def)
next
  case (Suc n)
  obtain cib rs1 where cib: "read_obj_block rd (cib_paddr sm g c) bs = Inr cib"
      "chunk_loop rd bs g cib c 0 (ci_count cib) rs = Inr rs1" "cib_loop rd bs g sm (Suc c) n rs1 = Inr rs'"
    using Suc.prems(1) by (auto split: sum.splits)
  have lt: "c * chunks_per_cib g < 2 ^ 64"
    using Suc.prems(2) mult_le_mono1 [of c "c + Suc n" "chunks_per_cib g"] by linarith
  have one: "wf_runs rs1 \<and> runs_below rs1 ((c * chunks_per_cib g + 0 + ci_count cib) * blocks_per_chunk g)
      \<and> run_blocks rs1 = run_blocks rs \<union> cib_free rd bs g cib c 0 (ci_count cib)"
    by (rule chunk_loop_ok [OF cib(2) g(1,2) lt Suc.prems(4)]) (use Suc.prems(5) in simp)
  have "(c * chunks_per_cib g + ci_count cib) * blocks_per_chunk g \<le> Suc c * chunks_per_cib g * blocks_per_chunk g"
    using Suc.prems(3) [OF _ cib(1)] by (intro mult_le_mono1) simp
  then have "runs_below rs1 (Suc c * chunks_per_cib g * blocks_per_chunk g)"
    using one runs_below_mono by fastforce
  from Suc.IH [OF cib(3) _ _ _ this] one Suc.prems(2,3) show ?case
    by (simp add: dev_free_Suc [OF cib(1)] Un_assoc)
qed

lemma free_block_runs_ok:
  assumes "free_block_runs rd sp bs = Inr runs" "read_obj_block rd sp bs = Inr sm" "sm_consistent rd bs sm"
  shows "wf_runs runs \<and> run_blocks runs = dev_free rd bs (sm_geometry_of sm) sm 0 (cib_count (sm_geometry_of sm))
    \<and> 0 < blocks_per_chunk (sm_geometry_of sm) \<and> 0 < chunks_per_cib (sm_geometry_of sm)
    \<and> cab_count (sm_geometry_of sm) = 0"
proof -
  let ?g = "sm_geometry_of sm"
  have loop: "cib_loop rd bs ?g sm 0 (cib_count ?g) [] = Inr runs" and
    pos: "0 < blocks_per_chunk ?g" "0 < chunks_per_cib ?g" "cab_count ?g = 0"
    using assms(1,2) by (auto simp: free_block_runs_def Let_def split: if_splits)
  have "cib_count ?g \<le> 2 ^ 32 - 1" "chunks_per_cib ?g \<le> 2 ^ 32 - 1" and bc: "block_count ?g < 2 ^ 64"
    using unsigned_less [of "le_u32 sm (SM_DEV0 + DEV_CIB_COUNT)", where 'a = nat]
      unsigned_less [of "le_u32 sm SM_CHUNKS_PER_CIB", where 'a = nat]
      unsigned_less [of "le_u64 sm (SM_DEV0 + DEV_BLOCK_COUNT)", where 'a = nat]
    by (simp_all add: sm_geometry_of_def)
  then have "cib_count ?g * chunks_per_cib ?g \<le> (2 ^ 32 - 1) * (2 ^ 32 - 1)" by (intro mult_le_mono)
  then have lt: "(0 + cib_count ?g) * chunks_per_cib ?g < 2 ^ 64" by simp
  have "wf_runs runs \<and> run_blocks runs = run_blocks [] \<union> dev_free rd bs ?g sm 0 (cib_count ?g)"
    by (rule cib_loop_ok [OF loop pos(1) bc lt])
      (use assms(3) in \<open>auto simp: sm_consistent_def Let_def list_all_iff split: sum.splits\<close>)
  with pos show ?thesis by simp
qed

text \<open>The chunk and the bit of a block, and the chunk-info block that describes it.\<close>

lemma dev_free_block:
  assumes ci: "\<And>c cib. c < cib_count g \<Longrightarrow> read_obj_block rd (cib_paddr sm g c) bs = Inr cib \<Longrightarrow>
      ci_count cib \<le> chunks_per_cib g"
    and k: "k = b div blocks_per_chunk g" and m: "m = b mod blocks_per_chunk g"
  shows "b \<in> dev_free rd bs g sm 0 (cib_count g) \<longleftrightarrow>
    b < block_count g \<and> k < chunk_count g \<and> k div chunks_per_cib g < cib_count g
    \<and> (\<exists>cib. read_obj_block rd (cib_paddr sm g (k div chunks_per_cib g)) bs = Inr cib
        \<and> k mod chunks_per_cib g < ci_count cib \<and> free_in_chunk rd bs cib (k mod chunks_per_cib g) m)"
  (is "_ \<longleftrightarrow> ?rhs")
proof
  assume "b \<in> dev_free rd bs g sm 0 (cib_count g)"
  then obtain c cib v where h: "c < cib_count g" "read_obj_block rd (cib_paddr sm g c) bs = Inr cib"
      "b < block_count g" "k < chunk_count g" "v < ci_count cib" "k = c * chunks_per_cib g + v"
      "free_in_chunk rd bs cib v m"
    by (auto simp: dev_free_def cib_free_def k m)
  then have c: "c = k div chunks_per_cib g" and v: "v = k mod chunks_per_cib g"
    using ci [OF h(1,2)] by auto
  show ?rhs using h(1-5,7) unfolding c v by blast
next
  assume ?rhs
  then show "b \<in> dev_free rd bs g sm 0 (cib_count g)"
    by (auto simp: dev_free_def cib_free_def k [symmetric] m [symmetric]) (metis div_mult_mod_eq)
qed

text \<open>The two readings of a bitmap agree on every bit that the block holds.\<close>

lemma bit_is_free_in_range:
  assumes "i < 8 * length bitmap"
  shows "bit_is_free bitmap False i \<longleftrightarrow>
    \<not> (case get_at bitmap (i div 8) of None \<Rightarrow> False | Some byte \<Rightarrow> bit_of byte (i mod 8))"
proof -
  have "i div 8 < length bitmap" using assms by (intro less_mult_imp_div_less) simp
  then show ?thesis by (simp add: bit_is_free_def get_at_def Let_def)
qed

text \<open>
  C5. The one-pass enumeration of free space is the inverse of the single-block query on a
  consistent space manager: when it succeeds, its runs are ascending and maximal, and a block
  lies in one of them exactly when the single-block query answers that it is free.
\<close>

theorem free_block_runs_exact:
  assumes "free_block_runs (cursor img) sp bs = Inr runs" "read_obj_block (cursor img) sp bs = Inr sm"
    and "sm_consistent (cursor img) bs sm"
  shows "wf_runs runs \<and> (\<forall>b. unat b \<in> run_blocks runs \<longleftrightarrow> is_block_free (cursor img) sp b bs = Inr True)"
proof -
  let ?g = "sm_geometry_of sm" and ?rd = "cursor img"
  note ok = free_block_runs_ok [OF assms]
  have ci: "ci_count cib \<le> chunks_per_cib ?g"
    if "c < cib_count ?g" "read_obj_block ?rd (cib_paddr sm ?g c) bs = Inr cib" for c cib
    using assms(3) that by (auto simp: sm_consistent_def Let_def list_all_iff split: sum.splits)
  have "unat b \<in> dev_free ?rd bs ?g sm 0 (cib_count ?g) \<longleftrightarrow> is_block_free ?rd sp b bs = Inr True" for b
  proof -
    define k m where "k = unat b div blocks_per_chunk ?g" and "m = unat b mod blocks_per_chunk ?g"
    have "m < blocks_per_chunk ?g" using ok by (simp add: m_def)
    then have "m < 8 * bs" using assms(3) by (simp add: sm_consistent_def Let_def)
    then have bits: "bit_is_free bitmap False m \<longleftrightarrow>
        \<not> (case get_at bitmap (m div 8) of None \<Rightarrow> False | Some byte \<Rightarrow> bit_of byte (m mod 8))"
      if "read_block_sat ?rd a bs = Inr bitmap" for a bitmap
      using cursor.read_block_sat_length [OF that] by (intro bit_is_free_in_range) simp
    note blk = dev_free_block [where g = ?g and rd = ?rd and bs = bs and sm = sm, OF _ k_def m_def]
    show ?thesis
      by (subst blk, erule (1) ci)
        (use ok assms(2) bits in \<open>auto simp: is_block_free_def Let_def free_in_chunk_def
          k_def [symmetric] m_def [symmetric] split: sum.splits\<close>)
  qed
  with ok show ?thesis by blast
qed

subsection \<open>A small space manager\<close>

text \<open>Fourteen blocks in two chunks of eight: the first has a bitmap, the second is wholly free.\<close>

definition demo_sm :: bytes where
  "demo_sm = seal_block (replicate 28 0 @ to_le 4 (8 :: u32) @ to_le 4 (2 :: u32) @ replicate 4 0
     @ to_le 8 (14 :: u64) @ to_le 8 (2 :: u64) @ to_le 4 (1 :: u32) @ to_le 4 (0 :: u32) @ replicate 8 0
     @ to_le 4 (88 :: u32) @ replicate 4 0 @ to_le 8 (1 :: u64) @ replicate 32 0)"

definition demo_cib :: bytes where
  "demo_cib = seal_block (replicate 28 0 @ to_le 4 (2 :: u32) @ replicate 24 0 @ to_le 8 (2 :: u64)
     @ replicate 24 0 @ to_le 8 (0 :: u64) @ replicate 24 0)"

definition demo_sm_image :: bytes where
  "demo_sm_image = demo_sm @ demo_cib @ 0x0F # replicate 127 0xFF"

lemma demo_sm_reads:
  "read_obj_block (cursor demo_sm_image) 0 128 = Inr demo_sm"
  "read_obj_block (cursor demo_sm_image) 1 128 = Inr demo_cib"
  "read_block_sat (cursor demo_sm_image) 2 128 = Inr (0x0F # replicate 127 0xFF)"
  by (simp_all add: read_obj_block_def read_block_sat_def saturating_mul_u64_def read_exact_at_def cursor_def
      demo_sm_image_def demo_sm_def demo_cib_def)

lemma demo_sm_geometry:
  "sm_geometry_of demo_sm = \<lparr> blocks_per_chunk = 8, chunks_per_cib = 2, block_count = 14, chunk_count = 2,
     cib_count = 1, cab_count = 0, addr_offset = 88 \<rparr>"
  "addr_offset g = 88 \<Longrightarrow> cib_paddr demo_sm g 0 = 1"
  "ci_count demo_cib = 2" "ci_bitmap_addr demo_cib 0 = 2" "ci_bitmap_addr demo_cib 1 = 0"
  by (simp_all add: sm_geometry_of_def cib_paddr_def ci_count_def ci_bitmap_addr_def layout_defs demo_sm_def demo_cib_def
      le_u32_def le_u64_def arr_seal_block arr_fields)

lemma demo_free_runs: "free_runs (0x0F # bs) 8 False = [(4, 4)]"
proof -
  have bits: "bit_is_free (0x0F # bs) False i \<longleftrightarrow> 4 \<le> i" if "i < 8" for i
  proof -
    have "i \<in> {0, 1, 2, 3, 4, 5, 6, 7}" using that by auto
    then show ?thesis by (elim insertE emptyE) (simp_all add: bit_is_free_def get_at_def bit_of_def)
  qed
  have eight: "(8 :: nat) = Suc (Suc (Suc (Suc (Suc (Suc (Suc (Suc 0)))))))" by simp
  have "free_runs_loop (0x0F # bs) False 0 8 ([], None) = ([], Some 4)"
    unfolding eight by (simp add: bits)
  then show ?thesis by (simp add: free_runs_def)
qed

theorem free_block_runs_exact_witness:
  "free_block_runs (cursor demo_sm_image) 0 128 = Inr [(4, 10)]
   \<and> is_block_free (cursor demo_sm_image) 0 7 128 = Inr True
   \<and> is_block_free (cursor demo_sm_image) 0 3 128 \<noteq> Inr True"
proof -
  have runs: "free_block_runs (cursor demo_sm_image) 0 128 = Inr [(4, 10)]"
    by (simp add: free_block_runs_def demo_sm_reads demo_sm_geometry [unfolded numeral_2_eq_2 One_nat_def] Let_def demo_free_runs
        push_free_run_def sat_u64_def)
  have "sm_consistent (cursor demo_sm_image) 128 demo_sm"
    by (simp add: sm_consistent_def demo_sm_reads demo_sm_geometry Let_def)
  note exact = free_block_runs_exact [OF runs demo_sm_reads(1) this, THEN conjunct2, rule_format]
  show ?thesis using runs exact [of 7] exact [of 3] by simp
qed

end
