(* ===== verification/Fsrecord.thy ===== *)
theory Fsrecord
  imports Bytes
begin

text \<open>
  \<^verbatim>\<open>core/src/fsrecord.rs\<close>: file-system record keys and extended fields. Keys decode uniquely,
  and an extended-field blob written in the documented layout parses back to its fields.
\<close>

subsection \<open>Record types and keys\<close>

datatype record_type =
    SnapMetadata | Extent | Inode | Xattr | SiblingLink | DstreamId | CryptoState
  | FileExtent | DirRec | DirStats | SnapName | SiblingMap | FileInfo

definition from_u4 :: "u8 \<Rightarrow> record_type option" where
  "from_u4 v =
     (if v = 1 then Some SnapMetadata else if v = 2 then Some Extent else if v = 3 then Some Inode
      else if v = 4 then Some Xattr else if v = 5 then Some SiblingLink else if v = 6 then Some DstreamId
      else if v = 7 then Some CryptoState else if v = 8 then Some FileExtent else if v = 9 then Some DirRec
      else if v = 10 then Some DirStats else if v = 11 then Some SnapName else if v = 12 then Some SiblingMap
      else if v = 13 then Some FileInfo else None)"

definition OBJ_TYPE_SHIFT :: nat where [layout_defs]: "OBJ_TYPE_SHIFT = 60"
definition OBJ_ID_MASK :: u64 where [layout_defs]: "OBJ_ID_MASK = 0x0fffffffffffffff"

definition decode_jkey :: "u64 \<Rightarrow> u64 \<times> record_type option" where
  "decode_jkey w = (w AND OBJ_ID_MASK, from_u4 (ucast (drop_bit OBJ_TYPE_SHIFT w AND 0xf)))"

subsection \<open>Extended fields\<close>

definition OFF_XF_NUM_EXTS :: nat where [layout_defs]: "OFF_XF_NUM_EXTS = 0"
definition XF_DESC_OFF :: nat where [layout_defs]: "XF_DESC_OFF = 4"
definition XF_DESC_LEN :: nat where [layout_defs]: "XF_DESC_LEN = 4"
definition MAX_XF_NUM_EXTS :: nat where [layout_defs]: "MAX_XF_NUM_EXTS = 4096"

text \<open>The loop \<^verbatim>\<open>for i in 0..num\<close>, with \<open>n\<close> iterations left; \<open>(x + 7) & !7\<close> rounds up to 8.\<close>

primrec xfields_loop :: "bytes \<Rightarrow> nat \<Rightarrow> nat \<Rightarrow> nat \<Rightarrow> (u8 \<times> bytes) list" where
  "xfields_loop data i value_off 0 = []"
| "xfields_loop data i value_off (Suc n) =
     (let d = XF_DESC_OFF + i * XF_DESC_LEN;
          x_type = data ! d;
          x_size = unat (le_u16 data (d + 2))
      in case get_range data value_off (value_off + x_size) of
           None \<Rightarrow> []
         | Some v \<Rightarrow> (x_type, v) # xfields_loop data (Suc i) (value_off + (x_size + 7) div 8 * 8) n)"

definition parse_xfields :: "bytes \<Rightarrow> (u8 \<times> bytes) list" where
  "parse_xfields data =
     (if length data < XF_DESC_OFF then []
      else let num = min (unat (le_u16 data OFF_XF_NUM_EXTS)) MAX_XF_NUM_EXTS;
               desc_end = num * XF_DESC_LEN + XF_DESC_OFF
           in if desc_end > length data then [] else xfields_loop data 0 desc_end num)"

subsection \<open>Keys decode uniquely\<close>

definition record_code :: "record_type \<Rightarrow> u8" where
  "record_code t = (case t of SnapMetadata \<Rightarrow> 1 | Extent \<Rightarrow> 2 | Inode \<Rightarrow> 3 | Xattr \<Rightarrow> 4 | SiblingLink \<Rightarrow> 5
     | DstreamId \<Rightarrow> 6 | CryptoState \<Rightarrow> 7 | FileExtent \<Rightarrow> 8 | DirRec \<Rightarrow> 9 | DirStats \<Rightarrow> 10 | SnapName \<Rightarrow> 11
     | SiblingMap \<Rightarrow> 12 | FileInfo \<Rightarrow> 13)"

definition enc_jkey :: "u64 \<Rightarrow> record_type \<Rightarrow> u64" where
  "enc_jkey oid t = oid OR push_bit OBJ_TYPE_SHIFT (ucast (record_code t))"

lemma from_u4_record_code [simp]: "from_u4 (record_code t) = Some t"
  by (cases t) (simp_all add: record_code_def from_u4_def)

lemma obj_id_mask: "w AND OBJ_ID_MASK = take_bit 60 w"
proof -
  have "OBJ_ID_MASK = mask 60" by (simp add: OBJ_ID_MASK_def mask_eq_exp_minus_1)
  then show ?thesis by (simp add: take_bit_eq_mask)
qed

lemma record_code_lt: "record_code t < 16"
  by (cases t) (simp_all add: record_code_def)

lemma decode_jkey_enc:
  assumes "take_bit 60 oid = oid"
  shows "decode_jkey (enc_jkey oid t) = (oid, Some t)"
proof -
  let ?c = "ucast (record_code t) :: u64"
  have c4: "take_bit 4 ?c = ?c" by (cases t) (simp_all add: record_code_def)
  have hi: "\<not> bit oid (n + 60)" for n using assms by (metis bit_take_bit_iff not_add_less2)
  have "drop_bit 60 (enc_jkey oid t) AND 0xf = take_bit 4 ?c"
  proof -
    have "drop_bit 60 (enc_jkey oid t) AND 0xf = take_bit 4 (drop_bit 60 (enc_jkey oid t))"
      by (simp add: take_bit_eq_mask mask_eq_exp_minus_1)
    also have "\<dots> = take_bit 4 ?c"
      unfolding enc_jkey_def OBJ_TYPE_SHIFT_def
      by (rule bit_word_eqI) (use hi in \<open>auto simp: bit_simps add.commute\<close>)
    finally show ?thesis .
  qed
  moreover have "take_bit 60 (enc_jkey oid t) = oid"
  proof -
    have "take_bit 60 (enc_jkey oid t) = take_bit 60 oid"
      unfolding enc_jkey_def OBJ_TYPE_SHIFT_def by (rule bit_word_eqI) (auto simp: bit_simps)
    then show ?thesis using assms by simp
  qed
  moreover have "ucast ?c = record_code t" by (cases t) (simp_all add: record_code_def)
  ultimately show ?thesis using c4 by (simp add: decode_jkey_def obj_id_mask OBJ_TYPE_SHIFT_def)
qed

subsection \<open>Extended fields round trip\<close>

definition enc_xdesc :: "u8 \<times> u8 \<times> bytes \<Rightarrow> bytes" where
  "enc_xdesc f = (case f of (t, fl, v) \<Rightarrow> [t, fl] @ to_le 2 (of_nat (length v) :: u16))"

definition pad8 :: "bytes \<Rightarrow> bytes" where
  "pad8 v = v @ replicate ((length v + 7) div 8 * 8 - length v) 0"

definition enc_xfields :: "u16 \<Rightarrow> (u8 \<times> u8 \<times> bytes) list \<Rightarrow> bytes \<Rightarrow> bytes" where
  "enc_xfields used fs tail =
     to_le 2 (of_nat (length fs) :: u16) @ to_le 2 used @ concat (map enc_xdesc fs)
     @ concat (map (\<lambda>(t, fl, v). pad8 v) fs) @ tail"

lemma length_enc_xdesc [simp]: "length (enc_xdesc f) = 4"
  by (cases f) (simp add: enc_xdesc_def)

lemma length_pad8 [simp]: "length (pad8 v) = (length v + 7) div 8 * 8"
proof -
  have "length v \<le> (length v + 7) div 8 * 8" by presburger
  then show ?thesis by (simp add: pad8_def)
qed

lemma get_range_concat_prefix:
  assumes "i < length xss" "xss ! i = v @ w" "a = length pre + length (concat (take i xss))"
  shows "get_range (pre @ concat xss @ post) a (a + length v) = Some v"
proof -
  have "pre @ concat xss @ post = (pre @ concat (take i xss)) @ v @ (w @ concat (drop (Suc i) xss) @ post)"
    using concat_split_nth [OF assms(1)] assms(2) by simp
  then show ?thesis by (simp only:) (rule get_range_mid, use assms(3) in auto)
qed

lemma xfields_loop_enc:
  fixes fs :: "(u8 \<times> u8 \<times> bytes) list" and used :: u16 and tail :: bytes
  assumes "list_all (\<lambda>(t, fl, v). length v < 2 ^ 16) fs"
  defines "data \<equiv> enc_xfields used fs tail"
  shows "i + n = length fs \<Longrightarrow>
    xfields_loop data i (length fs * 4 + 4 + length (concat (map (\<lambda>(t, fl, v). pad8 v) (take i fs)))) n
      = map (\<lambda>(t, fl, v). (t, v)) (drop i fs)"
proof (induction n arbitrary: i)
  case (Suc n)
  then have i: "i < length fs" by simp
  obtain t fl v where f: "fs ! i = (t, fl, v)" by (cases "fs ! i") auto
  have v: "length v < 2 ^ 16" using assms(1) i f by (auto simp: list_all_length)
  define off where "off = length fs * 4 + 4 + length (concat (map (\<lambda>(t, fl, v). pad8 v) (take i fs)))"
  define h where "h = to_le 2 (of_nat (length fs) :: u16) @ to_le 2 used"
  define vs where "vs = concat (map (\<lambda>(t, fl, v). pad8 v) fs)"
  have dat: "data = h @ concat (map enc_xdesc fs) @ vs @ tail"
    by (simp add: data_def enc_xfields_def h_def vs_def)
  have hl: "length h = 4" by (simp add: h_def)
  have dl: "length (concat (map enc_xdesc fs)) = length fs * 4"
    by (rule length_concat_chunks) simp
  have arr4: "arr k data (4 + i * 4 + j) = arr k (enc_xdesc (fs ! i)) j" if "j + k \<le> 4" for j k
    unfolding dat using that i hl by (intro arr_concat_chunk) auto
  have len: "4 + i * 4 + 4 \<le> length data" using i dl hl by (simp add: dat)
  have ty: "data ! (4 + i * 4) = t"
    using arr4 [of 0 1] len by (simp add: f enc_xdesc_def arr_in_range take_Suc_conv_app_nth)
  have "unat (of_nat (length v) :: u16) = length v" using v by (simp add: unat_of_nat take_bit_nat_eq_self)
  then have sz: "unat (le_u16 data (4 + i * 4 + 2)) = length v"
    using arr4 [of 2 2] by (simp add: le_u16_def f enc_xdesc_def arr_in_range)
  have "get_range ((h @ concat (map enc_xdesc fs)) @ concat (map (\<lambda>(t, fl, v). pad8 v) fs) @ tail) off (off + length v) = Some v"
    using i hl dl by (intro get_range_concat_prefix [where i = i]) (auto simp: f pad8_def off_def take_map)
  then have val: "get_range data off (off + length v) = Some v" by (simp add: dat vs_def)
  have next_off: "off + (length v + 7) div 8 * 8
      = length fs * 4 + 4 + length (concat (map (\<lambda>(t, fl, v). pad8 v) (take (Suc i) fs)))"
    using i f by (simp add: off_def take_Suc_conv_app_nth)
  have "xfields_loop data i off (Suc n) = (t, v) # map (\<lambda>(t, fl, v). (t, v)) (drop (Suc i) fs)"
    using Suc.IH [of "Suc i"] Suc.prems ty sz val next_off
    by (simp add: XF_DESC_OFF_def XF_DESC_LEN_def Let_def)
  then show ?case using i f by (simp add: off_def Cons_nth_drop_Suc [symmetric])
qed simp

lemma xfields_round_trip_lemma:
  assumes "length fs \<le> 4096" "list_all (\<lambda>(t, fl, v). length v < 2 ^ 16) fs"
  shows "parse_xfields (enc_xfields used fs tail) = map (\<lambda>(t, fl, v). (t, v)) fs"
proof -
  have n: "unat (le_u16 (enc_xfields used fs tail) OFF_XF_NUM_EXTS) = length fs"
  proof -
    have "unat (of_nat (length fs) :: u16) = length fs"
      using assms(1) by (simp add: unat_of_nat take_bit_nat_eq_self)
    then show ?thesis by (simp add: enc_xfields_def OFF_XF_NUM_EXTS_def le_u16_def arr_fields)
  qed
  have "length (concat (map enc_xdesc fs)) = length fs * 4" by (rule length_concat_chunks) simp
  then have "length (enc_xfields used fs tail) \<ge> length fs * 4 + 4" by (simp add: enc_xfields_def)
  then show ?thesis
    using xfields_loop_enc [OF assms(2), of 0 "length fs" used tail] n assms(1)
    by (simp add: parse_xfields_def Let_def XF_DESC_OFF_def XF_DESC_LEN_def MAX_XF_NUM_EXTS_def min_def)
qed

text \<open>
  Extended fields written in the documented layout (descriptor table, then the values on
  8-byte boundaries) parse back to the same types and values, in order, whatever follows them.
\<close>

lemma xfields_round_trip:
  "length fs \<le> 4096 \<Longrightarrow> list_all (\<lambda>(t, fl, v). length v < 2 ^ 16) fs \<Longrightarrow>
     parse_xfields (enc_xfields used fs tail) = map (\<lambda>(t, fl, v). (t, v)) fs"
  by (rule xfields_round_trip_lemma)

lemma xfields_round_trip_at_sample:
  "parse_xfields (enc_xfields 24 [(4, 2, [0x61, 0x2e, 0x74, 0]), (8, 0x20, replicate 9 1)] [])
    = [(4, [0x61, 0x2e, 0x74, 0]), (8, replicate 9 1)]"
  using xfields_round_trip [of "[(4, 2, [0x61, 0x2e, 0x74, 0]), (8, 0x20, replicate 9 1)]" 24 "[]"] by simp

end
