(* ===== verification/Utf8.thy ===== *)
theory Utf8
  imports Prelude
begin

text \<open>
  The string decoding the parsers share: \<^verbatim>\<open>String::from_utf8_lossy\<close> of the standard library
  and the crate's \<open>decode_cstr\<close> (cut at the first NUL, then decode). Decoding always yields
  valid UTF-8, and is the identity on valid UTF-8.
\<close>

subsection \<open>One character\<close>

text \<open>The standard library's \<^verbatim>\<open>utf8_char_width\<close> table.\<close>

definition utf8_char_width :: "u8 \<Rightarrow> nat" where
  "utf8_char_width b =
     (if b < 0x80 then 1 else if b < 0xC2 then 0 else if b < 0xE0 then 2
      else if b < 0xF0 then 3 else if b < 0xF5 then 4 else 0)"

definition safe_get :: "bytes \<Rightarrow> nat \<Rightarrow> u8" where
  "safe_get bs i = (if i < length bs then bs ! i else 0)"

definition is_cont :: "u8 \<Rightarrow> bool" where
  "is_cont b \<longleftrightarrow> 0x80 \<le> b \<and> b \<le> 0xBF"

definition second_of_three :: "u8 \<Rightarrow> u8 \<Rightarrow> bool" where
  "second_of_three b c \<longleftrightarrow>
     b = 0xE0 \<and> 0xA0 \<le> c \<and> c \<le> 0xBF \<or> 0xE1 \<le> b \<and> b \<le> 0xEC \<and> is_cont c
     \<or> b = 0xED \<and> 0x80 \<le> c \<and> c \<le> 0x9F \<or> 0xEE \<le> b \<and> b \<le> 0xEF \<and> is_cont c"

definition second_of_four :: "u8 \<Rightarrow> u8 \<Rightarrow> bool" where
  "second_of_four b c \<longleftrightarrow>
     b = 0xF0 \<and> 0x90 \<le> c \<and> c \<le> 0xBF \<or> 0xF1 \<le> b \<and> b \<le> 0xF3 \<and> is_cont c
     \<or> b = 0xF4 \<and> 0x80 \<le> c \<and> c \<le> 0x8F"

text \<open>
  One turn of the decoder's loop on a non-empty rest: how many bytes it consumes and whether
  they are a character (otherwise they are one maximal invalid sequence).
\<close>

definition utf8_step :: "u8 \<Rightarrow> bytes \<Rightarrow> nat \<times> bool" where
  "utf8_step b bs =
     (if b < 0x80 then (1, True)
      else if utf8_char_width b = 2 then
        (if is_cont (safe_get bs 0) then (2, True) else (1, False))
      else if utf8_char_width b = 3 then
        (if \<not> second_of_three b (safe_get bs 0) then (1, False)
         else if is_cont (safe_get bs 1) then (3, True) else (2, False))
      else if utf8_char_width b = 4 then
        (if \<not> second_of_four b (safe_get bs 0) then (1, False)
         else if \<not> is_cont (safe_get bs 1) then (2, False)
         else if is_cont (safe_get bs 2) then (4, True) else (3, False))
      else (1, False))"

lemma utf8_step_pos: "0 < fst (utf8_step b bs)"
  by (simp add: utf8_step_def)

subsection \<open>Whole strings\<close>

definition replacement :: bytes where
  "replacement = [0xEF, 0xBF, 0xBD]"

function from_utf8_lossy :: "bytes \<Rightarrow> bytes" where
  "from_utf8_lossy [] = []"
| "from_utf8_lossy (b # bs) =
     (case utf8_step b bs of
        (n, True) \<Rightarrow> take n (b # bs) @ from_utf8_lossy (drop n (b # bs))
      | (n, False) \<Rightarrow> replacement @ from_utf8_lossy (drop n (b # bs)))"
  by pat_completeness auto
termination
proof (relation "measure length", goal_cases)
  case (2 b bs n c)
  then have "0 < n" using utf8_step_pos [of b bs] by (metis fst_conv)
  then show ?case by simp
next
  case (3 b bs n c)
  then have "0 < n" using utf8_step_pos [of b bs] by (metis fst_conv)
  then show ?case by simp
qed simp

function utf8_valid :: "bytes \<Rightarrow> bool" where
  "utf8_valid [] = True"
| "utf8_valid (b # bs) =
     (case utf8_step b bs of (n, ok) \<Rightarrow> ok \<and> n \<le> length (b # bs) \<and> utf8_valid (drop n (b # bs)))"
  by pat_completeness auto
termination
proof (relation "measure length", goal_cases)
  case (2 b bs n ok)
  then have "0 < n" using utf8_step_pos [of b bs] by (metis fst_conv)
  then show ?case by simp
qed simp

definition decode_cstr :: "bytes \<Rightarrow> rust_string" where
  "decode_cstr data = from_utf8_lossy (until_nul data)"

subsection \<open>Facts\<close>

lemma safe_get_append: "i < length xs \<Longrightarrow> safe_get (xs @ ys) i = safe_get xs i"
  by (simp add: safe_get_def nth_append)

lemma is_cont_safe_get: "is_cont (safe_get bs i) \<Longrightarrow> i < length bs"
  by (auto simp: safe_get_def is_cont_def split: if_splits)

lemma second_safe_get:
  "second_of_three b (safe_get bs i) \<Longrightarrow> i < length bs"
  "second_of_four b (safe_get bs i) \<Longrightarrow> i < length bs"
  by (auto simp: safe_get_def second_of_three_def second_of_four_def is_cont_def split: if_splits)

lemma safe_get_take: "i < n \<Longrightarrow> safe_get (take n bs @ r) i = safe_get bs i" if "n \<le> length bs"
  using that by (simp add: safe_get_def nth_append)

text \<open>A character the decoder accepts lies inside the rest and is recognised in any context.\<close>

lemma utf8_step_True:
  assumes "utf8_step b bs = (n, True)"
  shows "n \<le> Suc (length bs)" "utf8_step b (take (n - 1) bs @ r) = (n, True)"
proof -
  show n: "n \<le> Suc (length bs)"
    using assms is_cont_safe_get [of bs 0] is_cont_safe_get [of bs 1] is_cont_safe_get [of bs 2]
    by (auto simp: utf8_step_def Suc_le_eq split: if_splits)
  then have g: "i < n - 1 \<Longrightarrow> safe_get (take (n - 1) bs @ r) i = safe_get bs i" for i
    by (intro safe_get_take) auto
  show "utf8_step b (take (n - 1) bs @ r) = (n, True)"
    using assms g [of 0] g [of 1] g [of 2] by (auto simp: utf8_step_def split: if_splits)
qed

lemma utf8_valid_char:
  assumes "utf8_step b bs = (n, True)" "utf8_valid r"
  shows "utf8_valid (take n (b # bs) @ r)"
proof -
  have n: "0 < n" "n \<le> Suc (length bs)" using utf8_step_True(1) [OF assms(1)] utf8_step_pos [of b bs] assms(1) by auto
  then obtain m where m: "n = Suc m" by (cases n) auto
  then show ?thesis using utf8_step_True(2) [OF assms(1), of r] assms(2) n by simp
qed

lemma utf8_valid_replacement: "utf8_valid r \<Longrightarrow> utf8_valid (replacement @ r)"
  by (simp add: replacement_def utf8_step_def utf8_char_width_def second_of_three_def is_cont_def safe_get_def)

lemma from_utf8_lossy_valid: "utf8_valid (from_utf8_lossy bs)"
proof (induction bs rule: from_utf8_lossy.induct)
  case (2 b bs)
  obtain n ok where s: "utf8_step b bs = (n, ok)" by fastforce
  then show ?case
    using 2 [OF s [symmetric]] utf8_valid_char [of b bs n] utf8_valid_replacement
    by (cases ok) (simp_all del: utf8_valid.simps(2))
qed simp

lemma from_utf8_lossy_id: "utf8_valid bs \<Longrightarrow> from_utf8_lossy bs = bs"
  by (induction bs rule: utf8_valid.induct) (auto split: prod.splits)

text \<open>
  Decoding a name field gives a well-formed string for every input, equals the field up
  to its first NUL whenever those bytes are valid UTF-8, and decoding the result again
  changes nothing.
\<close>

lemma decode_cstr_correct:
  "utf8_valid (decode_cstr data)
   \<and> (utf8_valid (until_nul data) \<longrightarrow> decode_cstr data = until_nul data)
   \<and> from_utf8_lossy (decode_cstr data) = decode_cstr data"
  by (simp add: decode_cstr_def from_utf8_lossy_valid from_utf8_lossy_id)

lemma decode_cstr_correct_at_sample:
  "decode_cstr [0x63, 0xC3, 0xA9, 0, 0x41] = [0x63, 0xC3, 0xA9]
   \<and> decode_cstr [0x41, 0xE2, 0x82, 0x42, 0xFF] = [0x41, 0xEF, 0xBF, 0xBD, 0x42, 0xEF, 0xBF, 0xBD]"
proof -
  have "utf8_valid (until_nul [0x63, 0xC3, 0xA9, 0, 0x41])"
    by (simp add: until_nul_def utf8_step_def utf8_char_width_def is_cont_def safe_get_def)
  then have "decode_cstr [0x63, 0xC3, 0xA9, 0, 0x41] = until_nul [0x63, 0xC3, 0xA9, 0, 0x41]"
    using decode_cstr_correct [of "[0x63, 0xC3, 0xA9, 0, 0x41]"] by blast
  then show ?thesis
    by (simp add: decode_cstr_def until_nul_def utf8_step_def utf8_char_width_def is_cont_def
        safe_get_def second_of_three_def replacement_def)
qed

end
