(* ===== verification/Inodes.thy ===== *)
theory Inodes
  imports Fsrecord Utf8
begin

text \<open>
  \<^verbatim>\<open>core/src/inode.rs\<close>: the inode record value with its extended fields. The conversion of
  nanoseconds to calendar time is the \<^verbatim>\<open>chrono\<close> crate's and hence a parameter; what the code
  does before calling it is modelled.
\<close>

definition OFF_PARENT_ID :: nat where [layout_defs]: "OFF_PARENT_ID = 0"
definition OFF_PRIVATE_ID :: nat where [layout_defs]: "OFF_PRIVATE_ID = 8"
definition OFF_CREATE_TIME :: nat where [layout_defs]: "OFF_CREATE_TIME = 16"
definition OFF_MOD_TIME :: nat where [layout_defs]: "OFF_MOD_TIME = 24"
definition OFF_CHANGE_TIME :: nat where [layout_defs]: "OFF_CHANGE_TIME = 32"
definition OFF_ACCESS_TIME :: nat where [layout_defs]: "OFF_ACCESS_TIME = 40"
definition OFF_INTERNAL_FLAGS :: nat where [layout_defs]: "OFF_INTERNAL_FLAGS = 48"
definition OFF_NCHILDREN :: nat where [layout_defs]: "OFF_NCHILDREN = 56"
definition OFF_BSD_FLAGS :: nat where [layout_defs]: "OFF_BSD_FLAGS = 68"
definition OFF_OWNER :: nat where [layout_defs]: "OFF_OWNER = 72"
definition OFF_GROUP :: nat where [layout_defs]: "OFF_GROUP = 76"
definition OFF_MODE :: nat where [layout_defs]: "OFF_MODE = 80"
definition OFF_XFIELDS :: nat where [layout_defs]: "OFF_XFIELDS = 92"
definition INO_EXT_TYPE_NAME :: u8 where [layout_defs]: "INO_EXT_TYPE_NAME = 4"
definition INO_EXT_TYPE_DSTREAM :: u8 where [layout_defs]: "INO_EXT_TYPE_DSTREAM = 8"
definition NS_PER_SEC :: u64 where [layout_defs]: "NS_PER_SEC = 1000000000"

record inode =
  ino_oid :: u64
  ino_parent_id :: u64
  ino_private_id :: u64
  ino_create_time :: u64
  ino_mod_time :: u64
  ino_change_time :: u64
  ino_access_time :: u64
  ino_internal_flags :: u64
  ino_nlink_or_nchildren :: int
  ino_bsd_flags :: u32
  ino_uid :: u32
  ino_gid :: u32
  ino_mode :: u16
  ino_name :: "rust_string option"
  ino_size :: "u64 option"

text \<open>The \<^verbatim>\<open>match x_type\<close> over the extended fields: a later field overrides an earlier one.\<close>

fun xfield_step :: "u8 \<times> bytes \<Rightarrow> rust_string option \<times> u64 option \<Rightarrow> rust_string option \<times> u64 option" where
  "xfield_step (x_type, data) (name, sz) =
     (if x_type = INO_EXT_TYPE_NAME then (Some (decode_cstr data), sz)
      else if x_type = INO_EXT_TYPE_DSTREAM then (name, Some (le_u64 data 0))
      else (name, sz))"

definition inode_parse :: "u64 \<Rightarrow> bytes \<Rightarrow> inode res" where
  "inode_parse oid val =
     (let (name, sz) = (if OFF_XFIELDS < length val
                        then fold xfield_step (parse_xfields (drop OFF_XFIELDS val)) (None, None)
                        else (None, None))
      in Inr \<lparr> ino_oid = oid,
               ino_parent_id = le_u64 val OFF_PARENT_ID,
               ino_private_id = le_u64 val OFF_PRIVATE_ID,
               ino_create_time = le_u64 val OFF_CREATE_TIME,
               ino_mod_time = le_u64 val OFF_MOD_TIME,
               ino_change_time = le_u64 val OFF_CHANGE_TIME,
               ino_access_time = le_u64 val OFF_ACCESS_TIME,
               ino_internal_flags = le_u64 val OFF_INTERNAL_FLAGS,
               ino_nlink_or_nchildren = sint (le_u32 val OFF_NCHILDREN),
               ino_bsd_flags = le_u32 val OFF_BSD_FLAGS,
               ino_uid = le_u32 val OFF_OWNER,
               ino_gid = le_u32 val OFF_GROUP,
               ino_mode = le_u16 val OFF_MODE,
               ino_name = name,
               ino_size = sz \<rparr>)"

text \<open>\<open>from_timestamp\<close> stands for \<^verbatim>\<open>DateTime::from_timestamp\<close> on an \<open>i64\<close> and a \<open>u32\<close>.\<close>

definition ns_to_datetime :: "(int \<Rightarrow> u32 \<Rightarrow> 'dt option) \<Rightarrow> u64 \<Rightarrow> 'dt option" where
  "ns_to_datetime from_timestamp ns =
     from_timestamp (sint (ns div NS_PER_SEC)) (ucast (ns mod NS_PER_SEC))"

definition ino_created :: "(int \<Rightarrow> u32 \<Rightarrow> 'dt option) \<Rightarrow> inode \<Rightarrow> 'dt option" where
  "ino_created from_timestamp i = ns_to_datetime from_timestamp (ino_create_time i)"

definition ino_modified :: "(int \<Rightarrow> u32 \<Rightarrow> 'dt option) \<Rightarrow> inode \<Rightarrow> 'dt option" where
  "ino_modified from_timestamp i = ns_to_datetime from_timestamp (ino_mod_time i)"

definition ino_changed :: "(int \<Rightarrow> u32 \<Rightarrow> 'dt option) \<Rightarrow> inode \<Rightarrow> 'dt option" where
  "ino_changed from_timestamp i = ns_to_datetime from_timestamp (ino_change_time i)"

definition ino_accessed :: "(int \<Rightarrow> u32 \<Rightarrow> 'dt option) \<Rightarrow> inode \<Rightarrow> 'dt option" where
  "ino_accessed from_timestamp i = ns_to_datetime from_timestamp (ino_access_time i)"

subsection \<open>Facts\<close>

lemma inode_parse_Inr: "\<exists>i. inode_parse oid val = Inr i \<and> ino_oid i = oid"
  by (auto simp: inode_parse_def split: prod.splits)

text \<open>
  The seconds and nanoseconds handed to the calendar conversion are exact: the cast of the
  seconds to a signed integer never wraps, the nanoseconds are below one second, and together
  they are the timestamp.
\<close>

lemma ns_to_datetime_exact:
  "\<exists>secs nanos. ns_to_datetime from_timestamp ns = from_timestamp secs nanos
     \<and> 0 \<le> secs \<and> uint nanos < 1000000000 \<and> secs * 1000000000 + uint nanos = uint ns"
proof -
  define q where "q = ns div NS_PER_SEC"
  define r where "r = ns mod NS_PER_SEC"
  have q: "uint q = uint ns div 1000000000" and r: "uint r = uint ns mod 1000000000"
    by (simp_all add: q_def r_def uint_div uint_mod NS_PER_SEC_def)
  have "uint ns < 2 ^ 64" using uint_lt2p [of ns] by simp
  then have "uint q < 2 ^ 63" unfolding q by simp
  then have sq: "sint q = uint q"
    using signed_take_bit_int_eq_self_iff [of 63 "uint q"] uint_ge_0 [of q]
    by (simp add: sint_uint del: uint_ge_0)
  have rb: "uint r < 1000000000" unfolding r by simp
  then have nr: "uint (ucast r :: u32) = uint r"
    by (simp add: unsigned_ucast_eq take_bit_int_eq_self)
  have "sint q * 1000000000 + uint (ucast r :: u32) = uint ns"
    unfolding sq nr q r by simp
  moreover have "0 \<le> sint q" unfolding sq by (rule uint_ge_0)
  ultimately show ?thesis
    using rb nr unfolding ns_to_datetime_def q_def [symmetric] r_def [symmetric]
    by (intro exI [of _ "sint q"] exI [of _ "ucast r"]) simp
qed

text \<open>
  A writer of inode values: the fixed fields and two extended fields, name and data stream.
\<close>

definition enc_inode_fixed :: "inode \<Rightarrow> bytes \<Rightarrow> bytes \<Rightarrow> bytes" where
  "enc_inode_fixed i gap tail =
     to_le 8 (ino_parent_id i) @ to_le 8 (ino_private_id i) @ to_le 8 (ino_create_time i)
     @ to_le 8 (ino_mod_time i) @ to_le 8 (ino_change_time i) @ to_le 8 (ino_access_time i)
     @ to_le 8 (ino_internal_flags i) @ to_le 4 (word_of_int (ino_nlink_or_nchildren i) :: u32)
     @ gap @ to_le 4 (ino_bsd_flags i) @ to_le 4 (ino_uid i) @ to_le 4 (ino_gid i)
     @ to_le 2 (ino_mode i) @ tail"


definition enc_inode :: "inode \<Rightarrow> bytes \<Rightarrow> bytes \<Rightarrow> bytes \<Rightarrow> bytes" where
  "enc_inode i gap tail dstream_rest =
     enc_inode_fixed i gap tail
     @ enc_xfields 0 [(INO_EXT_TYPE_NAME, 0, the (ino_name i) @ [0]),
                      (INO_EXT_TYPE_DSTREAM, 0, to_le 8 (the (ino_size i)) @ dstream_rest)] []"

lemma length_enc_inode_fixed:
  "length gap = 8 \<Longrightarrow> length tail = 10 \<Longrightarrow> length (enc_inode_fixed i gap tail) = 92"
  by (simp add: enc_inode_fixed_def)

lemma enc_inode_fixed_reads:
  assumes "length gap = 8" "length tail = 10"
  shows "le_u64 (enc_inode_fixed i gap tail @ r) 0 = ino_parent_id i"
    and "le_u64 (enc_inode_fixed i gap tail @ r) 8 = ino_private_id i"
    and "le_u64 (enc_inode_fixed i gap tail @ r) 16 = ino_create_time i"
    and "le_u64 (enc_inode_fixed i gap tail @ r) 24 = ino_mod_time i"
    and "le_u64 (enc_inode_fixed i gap tail @ r) 32 = ino_change_time i"
    and "le_u64 (enc_inode_fixed i gap tail @ r) 40 = ino_access_time i"
    and "le_u64 (enc_inode_fixed i gap tail @ r) 48 = ino_internal_flags i"
    and "le_u32 (enc_inode_fixed i gap tail @ r) 56 = word_of_int (ino_nlink_or_nchildren i)"
    and "le_u32 (enc_inode_fixed i gap tail @ r) 68 = ino_bsd_flags i"
    and "le_u32 (enc_inode_fixed i gap tail @ r) 72 = ino_uid i"
    and "le_u32 (enc_inode_fixed i gap tail @ r) 76 = ino_gid i"
    and "le_u16 (enc_inode_fixed i gap tail @ r) 80 = ino_mode i"
  using assms
  by (simp_all add: enc_inode_fixed_def le_u64_def le_u32_def le_u16_def arr_fields)

lemma sint_word_of_int_i32:
  "- (2 ^ 31) \<le> k \<Longrightarrow> k < 2 ^ 31 \<Longrightarrow> sint (word_of_int k :: u32) = k"
  using signed_take_bit_int_eq_self_iff [of 31 k] by (simp add: sint_sbintrunc')

lemma decode_cstr_terminated:
  "utf8_valid n \<Longrightarrow> 0 \<notin> set n \<Longrightarrow> decode_cstr (n @ [0]) = n"
  by (simp add: decode_cstr_def until_nul_append_nul from_utf8_lossy_id)

lemma inode_parse_enc:
  assumes "length gap = 8" "length tail = 10"
    and "- (2 ^ 31) \<le> ino_nlink_or_nchildren i" "ino_nlink_or_nchildren i < 2 ^ 31"
    and "ino_name i = Some n" "utf8_valid n" "0 \<notin> set n" "length n < 2 ^ 15"
    and "ino_size i = Some sz" "length dstream_rest < 2 ^ 15"
  shows "inode_parse (ino_oid i) (enc_inode i gap tail dstream_rest) = Inr i"
proof -
  let ?v = "enc_inode i gap tail dstream_rest"
  let ?fs = "[(INO_EXT_TYPE_NAME, 0, n @ [0]), (INO_EXT_TYPE_DSTREAM, 0 :: u8, to_le 8 sz @ dstream_rest)]"
  have v: "?v = enc_inode_fixed i gap tail @ enc_xfields 0 ?fs []"
    using assms by (simp add: enc_inode_def)
  have len: "length (enc_inode_fixed i gap tail) = 92" by (rule length_enc_inode_fixed [OF assms(1,2)])
  have xf: "parse_xfields (drop 92 ?v) = [(INO_EXT_TYPE_NAME, n @ [0]), (INO_EXT_TYPE_DSTREAM, to_le 8 sz @ dstream_rest)]"
    using xfields_round_trip_lemma [of ?fs 0 "[]"] assms len by (simp add: v)
  have "92 < length ?v" using len by (simp add: v enc_xfields_def)
  then show ?thesis
    using xf assms(3-7,9) enc_inode_fixed_reads [OF assms(1,2), of i "enc_xfields 0 ?fs []", folded v]
    by (simp add: inode_parse_def layout_defs decode_cstr_terminated sint_word_of_int_i32
        le_u64_def [of "to_le 8 sz @ dstream_rest"] arr_fields)
qed

end
