(* ===== verification/Volume.thy ===== *)
theory Volume
  imports Object Utf8
begin

text \<open>
  \<^verbatim>\<open>core/src/volume.rs\<close>: the volume superblock, its type, magic and checksum gates, and the two
  updates of a parsed volume (supplying a key, grafting an object map). The round trip covers
  every field the reader keeps.
\<close>

definition APFS_MAGIC :: u32 where [layout_defs]: "APFS_MAGIC = 0x42535041"
definition OBJECT_TYPE_FS :: u16 where [layout_defs]: "OBJECT_TYPE_FS = 0xd"
definition VOL_OFF_MAGIC :: nat where [layout_defs]: "VOL_OFF_MAGIC = 32"
definition OFF_FS_INDEX :: nat where [layout_defs]: "OFF_FS_INDEX = 36"
definition OFF_FEATURES :: nat where [layout_defs]: "OFF_FEATURES = 40"
definition OFF_RO_COMPAT_FEATURES :: nat where [layout_defs]: "OFF_RO_COMPAT_FEATURES = 48"
definition VOL_OFF_INCOMPAT_FEATURES :: nat where [layout_defs]: "VOL_OFF_INCOMPAT_FEATURES = 56"
definition OFF_ROOT_TREE_TYPE :: nat where [layout_defs]: "OFF_ROOT_TREE_TYPE = 116"
definition VOL_OFF_OMAP_OID :: nat where [layout_defs]: "VOL_OFF_OMAP_OID = 128"
definition OFF_ROOT_TREE_OID :: nat where [layout_defs]: "OFF_ROOT_TREE_OID = 136"
definition OFF_EXTENTREF_TREE_OID :: nat where [layout_defs]: "OFF_EXTENTREF_TREE_OID = 144"
definition OFF_SNAP_META_TREE_OID :: nat where [layout_defs]: "OFF_SNAP_META_TREE_OID = 152"
definition OFF_VOL_UUID :: nat where [layout_defs]: "OFF_VOL_UUID = 240"
definition OFF_FS_FLAGS :: nat where [layout_defs]: "OFF_FS_FLAGS = 256"
definition OFF_VOLNAME :: nat where [layout_defs]: "OFF_VOLNAME = 704"
definition VOLNAME_LEN :: nat where [layout_defs]: "VOLNAME_LEN = 256"
definition APSB_MIN_LEN :: nat where [layout_defs]: "APSB_MIN_LEN = OFF_VOLNAME + VOLNAME_LEN"

definition apsb_bad_type :: "u32 \<Rightarrow> u32 \<Rightarrow> apfs_error" where
  "apsb_bad_type expected found = UnexpectedObjectType ''apfs_superblock'' expected found"

record apfs_volume =
  vol_oid :: u64
  vol_xid :: u64
  vol_fs_index :: u32
  vol_features :: u64
  vol_readonly_compatible_features :: u64
  vol_incompatible_features :: u64
  vol_root_tree_type :: u32
  vol_omap_oid :: u64
  vol_root_tree_oid :: u64
  vol_extentref_tree_oid :: u64
  vol_snap_meta_tree_oid :: u64
  vol_uuid :: bytes
  vol_fs_flags :: u64
  vol_name :: rust_string
  vol_vek :: "bytes option"

definition decode_volname :: "bytes \<Rightarrow> nat \<Rightarrow> nat \<Rightarrow> rust_string" where
  "decode_volname block offset len =
     (case get_range block offset (offset + len) of
        None \<Rightarrow> []
      | Some field \<Rightarrow> from_utf8_lossy (until_nul field))"

definition apfs_volume_parse :: "bytes \<Rightarrow> apfs_volume res" where
  "apfs_volume_parse block =
     (if length block < APSB_MIN_LEN then Inl (apsb_bad_type APFS_MAGIC 0)
      else case obj_phys_parse block of
             None \<Rightarrow> Inl (apsb_bad_type APFS_MAGIC 0)
           | Some hdr \<Rightarrow>
               if obj_type hdr \<noteq> OBJECT_TYPE_FS
               then Inl (apsb_bad_type (ucast OBJECT_TYPE_FS) (o_type_raw hdr))
               else let magic = le_u32 block VOL_OFF_MAGIC in
                 if magic \<noteq> APFS_MAGIC then Inl (apsb_bad_type APFS_MAGIC magic)
                 else let stored = fletcher64_stored block; computed = fletcher64_checksum block in
                   if stored \<noteq> computed then Inl (ChecksumMismatch (o_oid hdr) stored computed)
                   else Inr \<lparr> vol_oid = o_oid hdr,
                              vol_xid = o_xid hdr,
                              vol_fs_index = le_u32 block OFF_FS_INDEX,
                              vol_features = le_u64 block OFF_FEATURES,
                              vol_readonly_compatible_features = le_u64 block OFF_RO_COMPAT_FEATURES,
                              vol_incompatible_features = le_u64 block VOL_OFF_INCOMPAT_FEATURES,
                              vol_root_tree_type = le_u32 block OFF_ROOT_TREE_TYPE,
                              vol_omap_oid = le_u64 block VOL_OFF_OMAP_OID,
                              vol_root_tree_oid = le_u64 block OFF_ROOT_TREE_OID,
                              vol_extentref_tree_oid = le_u64 block OFF_EXTENTREF_TREE_OID,
                              vol_snap_meta_tree_oid = le_u64 block OFF_SNAP_META_TREE_OID,
                              vol_uuid = arr 16 block OFF_VOL_UUID,
                              vol_fs_flags = le_u64 block OFF_FS_FLAGS,
                              vol_name = decode_volname block OFF_VOLNAME VOLNAME_LEN,
                              vol_vek = None \<rparr>)"

definition set_vek :: "bytes \<Rightarrow> apfs_volume \<Rightarrow> apfs_volume" where
  "set_vek vek vol = vol\<lparr> vol_vek := Some vek \<rparr>"

definition with_omap_oid :: "u64 \<Rightarrow> apfs_volume \<Rightarrow> apfs_volume" where
  "with_omap_oid omap_oid vol = vol\<lparr> vol_omap_oid := omap_oid \<rparr>"

subsection \<open>Round trip\<close>

record apsb_rest =
  vr_type :: u32
  vr_subtype :: u32
  vr_gap1 :: bytes
  vr_gap2 :: bytes
  vr_gap3 :: bytes
  vr_gap4 :: bytes
  vr_name_tail :: bytes
  vr_tail :: bytes

text \<open>A writer of \<open>apfs_superblock_t\<close>; the gaps are the fields the reader does not keep.\<close>

definition enc_apsb_head :: "apfs_volume \<Rightarrow> apsb_rest \<Rightarrow> bytes" where
  "enc_apsb_head v r =
     to_le 8 (vol_oid v) @ to_le 8 (vol_xid v) @ to_le 4 (vr_type r)
     @ to_le 4 (vr_subtype r) @ to_le 4 APFS_MAGIC @ to_le 4 (vol_fs_index v) @ to_le 8 (vol_features v)
     @ to_le 8 (vol_readonly_compatible_features v) @ to_le 8 (vol_incompatible_features v)
     @ vr_gap1 r @ to_le 4 (vol_root_tree_type v) @ vr_gap2 r @ to_le 8 (vol_omap_oid v)
     @ to_le 8 (vol_root_tree_oid v) @ to_le 8 (vol_extentref_tree_oid v)
     @ to_le 8 (vol_snap_meta_tree_oid v) @ vr_gap3 r @ vol_uuid v @ to_le 8 (vol_fs_flags v) @ vr_gap4 r"

definition enc_apsb :: "apfs_volume \<Rightarrow> apsb_rest \<Rightarrow> bytes" where
  "enc_apsb v r = seal_block (enc_apsb_head v r @ (vol_name v @ 0 # vr_name_tail r) @ vr_tail r)"

definition apsb_encodable :: "apfs_volume \<Rightarrow> apsb_rest \<Rightarrow> bool" where
  "apsb_encodable v r \<longleftrightarrow>
     vr_type r AND 0x0000ffff = ucast OBJECT_TYPE_FS \<and> length (vr_gap1 r) = 52 \<and> length (vr_gap2 r) = 8 \<and> length (vr_gap3 r) = 80 \<and> length (vr_gap4 r) = 440
     \<and> length (vol_uuid v) = 16 \<and> length (vol_name v) + length (vr_name_tail r) = 255
     \<and> utf8_valid (vol_name v) \<and> 0 \<notin> set (vol_name v) \<and> vol_vek v = None"

lemma length_enc_apsb_head: "apsb_encodable v r \<Longrightarrow> length (enc_apsb_head v r) = 696"
  by (simp add: apsb_encodable_def enc_apsb_head_def)

lemma enc_apsb_head_reads:
  assumes "apsb_encodable v r"
  shows "le_u64 (enc_apsb_head v r @ t) 0 = vol_oid v"
    and "le_u64 (enc_apsb_head v r @ t) 8 = vol_xid v"
    and "le_u32 (enc_apsb_head v r @ t) 16 = vr_type r"
    and "le_u32 (enc_apsb_head v r @ t) 24 = APFS_MAGIC"
    and "le_u32 (enc_apsb_head v r @ t) 28 = vol_fs_index v"
    and "le_u64 (enc_apsb_head v r @ t) 32 = vol_features v"
    and "le_u64 (enc_apsb_head v r @ t) 40 = vol_readonly_compatible_features v"
    and "le_u64 (enc_apsb_head v r @ t) 48 = vol_incompatible_features v"
    and "le_u32 (enc_apsb_head v r @ t) 108 = vol_root_tree_type v"
    and "le_u64 (enc_apsb_head v r @ t) 120 = vol_omap_oid v"
    and "le_u64 (enc_apsb_head v r @ t) 128 = vol_root_tree_oid v"
    and "le_u64 (enc_apsb_head v r @ t) 136 = vol_extentref_tree_oid v"
    and "le_u64 (enc_apsb_head v r @ t) 144 = vol_snap_meta_tree_oid v"
    and "arr 16 (enc_apsb_head v r @ t) 232 = vol_uuid v"
    and "le_u64 (enc_apsb_head v r @ t) 248 = vol_fs_flags v"
  using assms
  by (simp_all add: apsb_encodable_def enc_apsb_head_def le_u64_def le_u32_def arr_fields)

lemma enc_apsb_name:
  assumes "apsb_encodable v r"
  shows "decode_volname (enc_apsb v r) 704 256 = vol_name v"
proof -
  let ?f = "vol_name v @ 0 # vr_name_tail r"
  have "get_range ((to_le 8 (fletcher64_checksum (replicate 8 0 @ enc_apsb_head v r @ ?f @ vr_tail r)) @ enc_apsb_head v r)
      @ ?f @ vr_tail r) 704 (704 + 256) = Some ?f"
    using length_enc_apsb_head [OF assms] assms by (intro get_range_mid) (auto simp: apsb_encodable_def)
  then have "get_range (enc_apsb v r) 704 (704 + 256) = Some ?f"
    by (simp add: enc_apsb_def seal_block_def)
  then show ?thesis
    using assms by (simp add: decode_volname_def apsb_encodable_def until_nul_append_nul from_utf8_lossy_id)
qed

lemma apfs_volume_parse_enc:
  assumes "apsb_encodable v r"
  shows "apfs_volume_parse (enc_apsb v r) = Inr v"
proof -
  let ?b = "enc_apsb v r"
  have len: "length ?b \<ge> 960"
    using length_enc_apsb_head [OF assms] assms by (simp add: enc_apsb_def apsb_encodable_def)
  have ck: "fletcher64_checksum ?b = fletcher64_stored ?b" by (simp add: enc_apsb_def)
  note reads = enc_apsb_head_reads [OF assms, of "(vol_name v @ 0 # vr_name_tail r) @ vr_tail r"]
  have rd: "le_u64 ?b 8 = vol_oid v" "le_u64 ?b 16 = vol_xid v" "le_u32 ?b 24 = vr_type r"
    "le_u32 ?b 32 = APFS_MAGIC" "le_u32 ?b 36 = vol_fs_index v" "le_u64 ?b 40 = vol_features v"
    "le_u64 ?b 48 = vol_readonly_compatible_features v" "le_u64 ?b 56 = vol_incompatible_features v"
    "le_u32 ?b 116 = vol_root_tree_type v" "le_u64 ?b 128 = vol_omap_oid v" "le_u64 ?b 136 = vol_root_tree_oid v"
    "le_u64 ?b 144 = vol_extentref_tree_oid v" "le_u64 ?b 152 = vol_snap_meta_tree_oid v"
    "arr 16 ?b 240 = vol_uuid v" "le_u64 ?b 256 = vol_fs_flags v"
    using reads by (simp_all add: enc_apsb_def reads_seal_block arr_seal_block)
  have t: "ucast (vr_type r AND 0x0000ffff) = OBJECT_TYPE_FS" and vek: "vol_vek v = None"
    using assms by (simp_all add: apsb_encodable_def OBJECT_TYPE_FS_def)
  show ?thesis
    using len ck rd t vek enc_apsb_name [OF assms]
    by (simp add: apfs_volume_parse_def obj_phys_parse_def obj_type_def OBJ_PHYS_LEN_def APSB_MIN_LEN_def
        VOL_OFF_MAGIC_def OFF_FS_INDEX_def OFF_FEATURES_def OFF_RO_COMPAT_FEATURES_def VOL_OFF_INCOMPAT_FEATURES_def
        OFF_ROOT_TREE_TYPE_def VOL_OFF_OMAP_OID_def OFF_ROOT_TREE_OID_def OFF_EXTENTREF_TREE_OID_def
        OFF_SNAP_META_TREE_OID_def OFF_VOL_UUID_def OFF_FS_FLAGS_def OFF_VOLNAME_def VOLNAME_LEN_def)
qed

text \<open>
  C40. A volume superblock written in the documented layout parses back to the same volume,
  with its name decoded and no key set.
\<close>

theorem apfs_volume_round_trip:
  "apsb_encodable v r \<Longrightarrow> apfs_volume_parse (enc_apsb v r) = Inr v"
  by (rule apfs_volume_parse_enc)

definition demo_volume :: "u64 \<Rightarrow> u64 \<Rightarrow> apfs_volume" where
  "demo_volume x om = \<lparr> vol_oid = 0x402, vol_xid = x, vol_fs_index = 0, vol_features = 2,
     vol_readonly_compatible_features = 0, vol_incompatible_features = 1, vol_root_tree_type = 2,
     vol_omap_oid = om, vol_root_tree_oid = 0x404, vol_extentref_tree_oid = 0, vol_snap_meta_tree_oid = 9,
     vol_uuid = replicate 16 0x11, vol_fs_flags = 1, vol_name = [0x76, 0x6f, 0x6c], vol_vek = None \<rparr>"

definition demo_apsb_rest :: "nat \<Rightarrow> apsb_rest" where
  "demo_apsb_rest n = \<lparr> vr_type = 0xd, vr_subtype = 0, vr_gap1 = replicate 52 0, vr_gap2 = replicate 8 0,
     vr_gap3 = replicate 80 0, vr_gap4 = replicate 440 0, vr_name_tail = replicate 252 0, vr_tail = replicate n 0 \<rparr>"

lemma demo_volume_encodable [simp]: "apsb_encodable (demo_volume x om) (demo_apsb_rest n)"
  by (simp add: apsb_encodable_def demo_volume_def demo_apsb_rest_def OBJECT_TYPE_FS_def utf8_step_def)

theorem apfs_volume_round_trip_witness:
  "apfs_volume_parse (enc_apsb (demo_volume 7 5) (demo_apsb_rest 64)) = Inr (demo_volume 7 5)"
  by (rule apfs_volume_round_trip) simp

lemma length_demo_apsb [simp]: "length (enc_apsb (demo_volume x om) (demo_apsb_rest n)) = 960 + n"
  using length_enc_apsb_head [OF demo_volume_encodable [of x om n]]
  by (simp add: enc_apsb_def) (simp add: demo_volume_def demo_apsb_rest_def)

lemma volume_parse_gates:
  "apfs_volume_parse block = Inr v \<Longrightarrow>
     APSB_MIN_LEN \<le> length block \<and> le_u32 block VOL_OFF_MAGIC = APFS_MAGIC
     \<and> fletcher64_stored block = fletcher64_checksum block \<and> vol_xid v = le_u64 block 16
     \<and> utf8_valid (vol_name v) \<and> vol_vek v = None"
  by (auto simp: apfs_volume_parse_def decode_volname_def obj_phys_parse_def Let_def from_utf8_lossy_valid
      split: if_splits option.splits)

end
