(* ===== verification/Encryption.thy ===== *)
theory Encryption
  imports Bytes
begin

text \<open>
  \<^verbatim>\<open>core/src/encryption.rs\<close>: keybags, the wrapped-key object in BER framing, the lookup of a
  volume's records, and the unlock chain from password to volume key. The ciphers themselves
  (AES-XTS, AES key wrap, PBKDF2) are third-party crates: they are parameters, bundled in the
  record \<open>crypto\<close>.
\<close>

subsection \<open>Ciphers used\<close>

text \<open>
  \<open>xts_area k1 k2 sector first data\<close> is \<^verbatim>\<open>Xts128::decrypt_area\<close>; \<open>kw_unwrap kek wrapped\<close> is AES key
  unwrap, \<open>None\<close> when its integrity check fails; \<open>pbkdf2 pw salt iters n\<close> is PBKDF2-HMAC-SHA256.
\<close>

record crypto =
  xts_area :: "bytes \<Rightarrow> bytes \<Rightarrow> nat \<Rightarrow> nat \<Rightarrow> bytes \<Rightarrow> bytes"
  kw_unwrap :: "bytes \<Rightarrow> bytes \<Rightarrow> bytes option"
  pbkdf2 :: "bytes \<Rightarrow> bytes \<Rightarrow> u32 \<Rightarrow> nat \<Rightarrow> bytes option"

definition OMAP_VAL_ENCRYPTED :: u32 where [layout_defs]: "OMAP_VAL_ENCRYPTED = 0x00000004"
definition APFS_CRYPTO_SECTOR :: nat where [layout_defs]: "APFS_CRYPTO_SECTOR = 0x200"

definition decrypt_volume_area :: "crypto \<Rightarrow> bytes \<Rightarrow> bytes \<Rightarrow> u64 \<Rightarrow> nat \<Rightarrow> bytes" where
  "decrypt_volume_area cr data vek tweak_block block_size =
     (if tweak_block = 0 \<or> block_size < APFS_CRYPTO_SECTOR then data
      else let sectors_per_block = of_nat (block_size div APFS_CRYPTO_SECTOR) :: u64;
               first_sector = saturating_mul_u64 tweak_block sectors_per_block
           in xts_area cr (take 16 vek) (drop 16 vek) APFS_CRYPTO_SECTOR (unat first_sector) data)"

subsection \<open>Keybags\<close>

datatype keybag_tag =
    UnknownTag | WrappingKey | VolumeKey | VolumeUnlockRecords | VolumePassphraseHint | UserPayload

definition keybag_tag_from_u16 :: "u16 \<Rightarrow> keybag_tag" where
  "keybag_tag_from_u16 tag =
     (if tag = 0x01 then WrappingKey else if tag = 0x02 then VolumeKey
      else if tag = 0x03 then VolumeUnlockRecords else if tag = 0x04 then VolumePassphraseHint
      else if tag = 0xf8 then UserPayload else UnknownTag)"

record encryption_state =
  es_encrypted :: bool
  es_tags_present :: "keybag_tag list"
  es_has_passphrase_hint :: bool
  es_unknown_tags :: "(u16 \<times> u64) list"

definition KL_NKEYS :: nat where [layout_defs]: "KL_NKEYS = 32 + 2"
definition KL_ENTRIES_OFF :: nat where [layout_defs]: "KL_ENTRIES_OFF = 32 + 16"
definition KE_TAG :: nat where [layout_defs]: "KE_TAG = 16"
definition KE_KEYLEN :: nat where [layout_defs]: "KE_KEYLEN = 18"
definition KE_HEADER_LEN :: nat where [layout_defs]: "KE_HEADER_LEN = 24"
definition MAX_KEYBAG_ENTRIES :: nat where [layout_defs]: "MAX_KEYBAG_ENTRIES = 4096"

definition keybag_nkeys :: "bytes \<Rightarrow> nat" where
  "keybag_nkeys data = min (unat (le_u16 data KL_NKEYS)) MAX_KEYBAG_ENTRIES"

text \<open>\<^verbatim>\<open>((KE_HEADER_LEN + keylen + 15) & !15).max(16)\<close>.\<close>

definition keybag_step :: "nat \<Rightarrow> nat" where
  "keybag_step keylen = max ((KE_HEADER_LEN + keylen + 15) div 16 * 16) 16"

primrec read_keybag_loop :: "bytes \<Rightarrow> nat \<Rightarrow> nat \<Rightarrow> keybag_tag list \<Rightarrow> (u16 \<times> u64) list \<Rightarrow>
    keybag_tag list \<times> (u16 \<times> u64) list" where
  "read_keybag_loop data 0 off tags unknown = (tags, unknown)"
| "read_keybag_loop data (Suc n) off tags unknown =
     (if off + KE_HEADER_LEN > length data then (tags, unknown)
      else let raw_tag = le_u16 data (off + KE_TAG);
               tag = keybag_tag_from_u16 raw_tag;
               keylen = unat (le_u16 data (off + KE_KEYLEN));
               unknown' = (if tag = UnknownTag then unknown @ [(raw_tag, of_nat off)] else unknown);
               tags' = (if tag \<in> set tags then tags else tags @ [tag])
           in read_keybag_loop data n (off + keybag_step keylen) tags' unknown')"

definition read_keybag :: "bytes \<Rightarrow> encryption_state res" where
  "read_keybag data =
     (case read_keybag_loop data (keybag_nkeys data) KL_ENTRIES_OFF [] [] of
        (tags, unknown) \<Rightarrow>
          Inr \<lparr> es_encrypted = list_ex (\<lambda>t. t = WrappingKey \<or> t = VolumeKey \<or> t = VolumeUnlockRecords) tags,
                es_tags_present = tags,
                es_has_passphrase_hint = (VolumePassphraseHint \<in> set tags),
                es_unknown_tags = unknown \<rparr>)"

subsection \<open>The wrapped-KEK object\<close>

record wrapped_kek =
  wk_wrapped_key :: bytes
  wk_iterations :: u32
  wk_salt :: bytes

definition bad_kek :: "string \<Rightarrow> u64 \<Rightarrow> u64 \<Rightarrow> apfs_error" where
  "bad_kek field v cap = FieldOutOfRange ''wrapped_kek_object'' field v cap"

text \<open>The length bytes after a tag, at \<open>off\<close>: the length and the offset of the value.\<close>

definition kek_ber_length :: "bytes \<Rightarrow> nat \<Rightarrow> (nat \<times> nat) res" where
  "kek_ber_length data off =
     (case get_at data off of
        None \<Rightarrow> Inl (bad_kek ''length'' (of_nat off) (of_nat (length data)))
      | Some first \<Rightarrow>
          if first AND 0x80 = 0 then Inr (unat first, off + 1)
          else if first = 0x81 then
            (case get_at data (off + 1) of
               None \<Rightarrow> Inl (bad_kek ''length_1byte'' (of_nat (off + 1)) (of_nat (length data)))
             | Some b \<Rightarrow> Inr (unat b, off + 2))
          else if first = 0x82 then
            (case get_at data (off + 1) of
               None \<Rightarrow> Inl (bad_kek ''length_2byte'' (of_nat (off + 1)) (of_nat (length data)))
             | Some hi \<Rightarrow>
                 (case get_at data (off + 2) of
                    None \<Rightarrow> Inl (bad_kek ''length_2byte'' (of_nat (off + 1)) (of_nat (length data)))
                  | Some lo \<Rightarrow> Inr (unat hi * 256 + unat lo, off + 3)))
          else Inl (bad_kek ''ber_length_form'' (ucast first) 0x82))"

type_synonym kek_state = "bytes option \<times> u32 option \<times> bytes option"

text \<open>Big-endian accumulation, then \<^verbatim>\<open>u32::try_from(n).unwrap_or(u32::MAX)\<close>.\<close>

definition be_u64 :: "bytes \<Rightarrow> u64" where
  "be_u64 bs = fold (\<lambda>b n. push_bit 8 n OR ucast b) bs 0"

definition iterations_of :: "bytes \<Rightarrow> u32" where
  "iterations_of bs = (if unat (be_u64 bs) < 2 ^ 32 then ucast (be_u64 bs) else - 1)"

fun kek_field :: "u8 \<Rightarrow> bytes \<Rightarrow> kek_state \<Rightarrow> kek_state res" where
  "kek_field tag val (wrapped_key, iterations, salt) =
     (if tag = 0x83 then
        (if length val \<noteq> 40 then Inl (bad_kek ''wrapped_kek_len'' (of_nat (length val)) 40)
         else Inr (Some val, iterations, salt))
      else if tag = 0x84 then
        (if val = [] \<or> 8 < length val then Inl (bad_kek ''iterations_len'' (of_nat (length val)) 8)
         else Inr (wrapped_key, Some (iterations_of val), salt))
      else if tag = 0x85 then
        (if length val \<noteq> 16 then Inl (bad_kek ''salt_len'' (of_nat (length val)) 16)
         else Inr (wrapped_key, iterations, Some val))
      else Inr (wrapped_key, iterations, salt))"

lemma kek_ber_length_advances: "kek_ber_length data off = Inr (len, off') \<Longrightarrow> off < off'"
  by (auto simp: kek_ber_length_def split: option.splits if_splits)

function kek_loop :: "bytes \<Rightarrow> nat \<Rightarrow> kek_state \<Rightarrow> kek_state res" where
  "kek_loop data off st =
     (if off < length data then
        case kek_ber_length data (off + 1) of
          Inl e \<Rightarrow> Inl e
        | Inr (len, start) \<Rightarrow>
            (case get_range data start (start + len) of
               None \<Rightarrow> Inl (bad_kek ''value_end'' (of_nat (start + len)) (of_nat (length data)))
             | Some val \<Rightarrow>
                 (case kek_field (data ! off) val st of
                    Inl e \<Rightarrow> Inl e
                  | Inr st' \<Rightarrow> kek_loop data (start + len) st'))
      else Inr st)"
  by pat_completeness auto
termination
  by (relation "measure (\<lambda>(data, off, st). length data - off)")
    (auto dest!: kek_ber_length_advances)

declare kek_loop.simps [simp del]

definition parse_wrapped_kek :: "bytes \<Rightarrow> wrapped_kek res" where
  "parse_wrapped_kek data =
     (case kek_loop data 0 (None, None, None) of
        Inl e \<Rightarrow> Inl e
      | Inr (None, _, _) \<Rightarrow> Inl (bad_kek ''wrapped_kek_tag_0x83'' 0 1)
      | Inr (Some _, None, _) \<Rightarrow> Inl (bad_kek ''iterations_tag_0x84'' 0 1)
      | Inr (Some _, Some _, None) \<Rightarrow> Inl (bad_kek ''salt_tag_0x85'' 0 1)
      | Inr (Some w, Some it, Some sl) \<Rightarrow>
          Inr \<lparr> wk_wrapped_key = w, wk_iterations = it, wk_salt = sl \<rparr>)"

subsection \<open>Key unwrapping\<close>

definition aes_key_unwrap :: "crypto \<Rightarrow> bytes \<Rightarrow> bytes \<Rightarrow> bytes res" where
  "aes_key_unwrap cr kek wrapped =
     (case kw_unwrap cr kek wrapped of
        None \<Rightarrow> Inl (FieldOutOfRange ''aes_key_wrap'' ''integrity_check'' 0 1)
      | Some k \<Rightarrow> Inr k)"

definition derive_key_from_password :: "crypto \<Rightarrow> bytes \<Rightarrow> bytes \<Rightarrow> u32 \<Rightarrow> nat \<Rightarrow> bytes" where
  "derive_key_from_password cr password salt iterations out_len =
     (case pbkdf2 cr password salt (max iterations 1) out_len of None \<Rightarrow> [] | Some k \<Rightarrow> k)"


subsection \<open>BER lookup\<close>

definition ber_length :: "bytes \<Rightarrow> nat \<Rightarrow> (nat \<times> nat) option" where
  "ber_length data off =
     (case get_at data off of
        None \<Rightarrow> None
      | Some first \<Rightarrow>
          if first AND 0x80 = 0 then Some (unat first, off + 1)
          else if first = 0x81 then map_option (\<lambda>b. (unat b, off + 2)) (get_at data (off + 1))
          else if first = 0x82 then
            (case (get_at data (off + 1), get_at data (off + 2)) of
               (Some hi, Some lo) \<Rightarrow> Some (unat hi * 256 + unat lo, off + 3)
             | _ \<Rightarrow> None)
          else None)"

lemma ber_length_advances: "ber_length data off = Some (len, off') \<Longrightarrow> off < off'"
  by (auto simp: ber_length_def split: option.splits if_splits)

function ber_find_loop :: "bytes \<Rightarrow> u8 \<Rightarrow> nat \<Rightarrow> bytes option" where
  "ber_find_loop data want_tag off =
     (if off + 2 \<le> length data then
        case ber_length data (off + 1) of
          None \<Rightarrow> None
        | Some (len, start) \<Rightarrow>
            (case get_range data start (start + len) of
               None \<Rightarrow> None
             | Some val \<Rightarrow>
                 if data ! off = want_tag then Some val else ber_find_loop data want_tag (start + len))
      else None)"
  by pat_completeness auto
termination
  by (relation "measure (\<lambda>(data, want_tag, off). length data - off)")
    (auto dest!: ber_length_advances)

declare ber_find_loop.simps [simp del]

definition ber_find :: "bytes \<Rightarrow> u8 \<Rightarrow> bytes option" where
  "ber_find data want_tag = ber_find_loop data want_tag 0"

subsection \<open>The container keybag\<close>

definition NX_BLOCK_SIZE :: nat where [layout_defs]: "NX_BLOCK_SIZE = 0x024"
definition NX_CONTAINER_UUID :: nat where [layout_defs]: "NX_CONTAINER_UUID = 0x048"
definition NX_KEYBAG_BLOCK :: nat where [layout_defs]: "NX_KEYBAG_BLOCK = 0x510"
definition NX_KEYBAG_BLOCKS :: nat where [layout_defs]: "NX_KEYBAG_BLOCKS = 0x518"
definition KEYBAG_SECTOR :: nat where [layout_defs]: "KEYBAG_SECTOR = 512"

definition xts_decrypt_area :: "crypto \<Rightarrow> bytes \<Rightarrow> bytes \<Rightarrow> nat \<Rightarrow> bytes" where
  "xts_decrypt_area cr ct uuid first_sector = xts_area cr uuid uuid KEYBAG_SECTOR first_sector ct"

definition decrypt_keybag_area :: "crypto \<Rightarrow> bytes \<Rightarrow> bytes \<Rightarrow> nat \<Rightarrow> bytes" where
  "decrypt_keybag_area cr ct uuid first_sector = xts_decrypt_area cr ct uuid first_sector"

definition bad_keylocker :: "string \<Rightarrow> u64 \<Rightarrow> u64 \<Rightarrow> apfs_error" where
  "bad_keylocker field v cap = FieldOutOfRange ''nx_keylocker'' field v cap"

text \<open>
  The extent arithmetic \<open>paddr * block_size\<close>, \<open>blocks * block_size\<close> and their sum in 64-bit
  \<open>usize\<close>, then the slice of the image: the start and the ciphertext.
\<close>

definition keybag_extent :: "(string \<Rightarrow> u64 \<Rightarrow> u64 \<Rightarrow> apfs_error) \<Rightarrow> string \<Rightarrow> string \<Rightarrow> string \<Rightarrow> string \<Rightarrow>
    bytes \<Rightarrow> u64 \<Rightarrow> u64 \<Rightarrow> nat \<Rightarrow> (nat \<times> bytes) res" where
  "keybag_extent bad off_field len_field end_field image_field img paddr blocks block_size =
     (if \<not> unat paddr * block_size < 2 ^ 64 then Inl (bad off_field paddr (of_nat block_size))
      else if \<not> unat blocks * block_size < 2 ^ 64 then Inl (bad len_field blocks (of_nat block_size))
      else let start = unat paddr * block_size; len = unat blocks * block_size
           in if \<not> start + len < 2 ^ 64 then Inl (bad end_field (of_nat start) (of_nat len))
              else case get_range img start (start + len) of
                     None \<Rightarrow> Inl (bad image_field (of_nat (start + len)) (of_nat (length img)))
                   | Some ct \<Rightarrow> Inr (start, ct))"

definition decrypt_container_keybag_with_uuid :: "crypto \<Rightarrow> bytes \<Rightarrow> bytes \<Rightarrow> bytes res" where
  "decrypt_container_keybag_with_uuid cr img uuid =
     (if get_range img 32 36 \<noteq> Some [0x4E, 0x58, 0x53, 0x42] then Inl (bad_keylocker ''magic'' 0 1)
      else let block_size = unat (le_u32 img NX_BLOCK_SIZE)
           in if block_size = 0 \<or> block_size mod KEYBAG_SECTOR \<noteq> 0
              then Inl (bad_keylocker ''block_size'' (of_nat block_size) (of_nat KEYBAG_SECTOR))
              else let paddr = le_u64 img NX_KEYBAG_BLOCK; blocks = le_u64 img NX_KEYBAG_BLOCKS
                   in if paddr = 0 \<or> blocks = 0 then Inl (bad_keylocker ''keylocker_extent'' paddr blocks)
                      else case keybag_extent bad_keylocker ''keybag_offset'' ''keybag_length'' ''keybag_end''
                                  ''keybag_past_image'' img paddr blocks block_size of
                             Inl e \<Rightarrow> Inl e
                           | Inr (start, ct) \<Rightarrow> Inr (decrypt_keybag_area cr ct uuid (start div KEYBAG_SECTOR)))"

definition decrypt_container_keybag :: "crypto \<Rightarrow> bytes \<Rightarrow> bytes res" where
  "decrypt_container_keybag cr img =
     (case get_range img NX_CONTAINER_UUID (NX_CONTAINER_UUID + 16) of
        None \<Rightarrow> Inl (FieldOutOfRange ''nx_superblock'' ''container_uuid''
                        (of_nat (length img)) (of_nat (NX_CONTAINER_UUID + 16)))
      | Some uuid \<Rightarrow> decrypt_container_keybag_with_uuid cr img uuid)"

subsection \<open>A volume's records\<close>

record volume_records =
  vr_wrapped_vek :: bytes
  vr_volume_keybag_block :: u64
  vr_volume_keybag_blocks :: u64

definition bad_container_kb :: "string \<Rightarrow> u64 \<Rightarrow> u64 \<Rightarrow> apfs_error" where
  "bad_container_kb field v cap = FieldOutOfRange ''container_keybag'' field v cap"

definition option_or :: "'a option \<Rightarrow> 'a \<Rightarrow> 'a" where
  "option_or x d = (case x of None \<Rightarrow> d | Some y \<Rightarrow> y)"

type_synonym vr_state = "bytes option \<times> (u64 \<times> u64) option"

text \<open>The body of the loop for an entry whose UUID matches.\<close>

fun volume_entry :: "keybag_tag \<Rightarrow> bytes \<Rightarrow> vr_state \<Rightarrow> vr_state res" where
  "volume_entry tag data (wrapped_vek, extent) =
     (if tag = VolumeKey then
        let seq = option_or (ber_find data 0x30) data
        in case ber_find seq 0xa3 of
             None \<Rightarrow> Inl (bad_container_kb ''volume_key_missing_0xa3'' (of_nat (length data)) 0xa3)
           | Some obj \<Rightarrow>
               (case ber_find obj 0x83 of
                  None \<Rightarrow> Inl (bad_container_kb ''volume_key_missing_0x83'' (of_nat (length obj)) 0x83)
                | Some inner \<Rightarrow>
                    if length inner \<noteq> 40
                    then Inl (bad_container_kb ''wrapped_vek_len'' (of_nat (length inner)) 40)
                    else Inr (Some inner, extent))
      else if tag = VolumeUnlockRecords then
        (if length data < 16 then Inl (bad_container_kb ''unlock_records_len'' (of_nat (length data)) 16)
         else Inr (wrapped_vek, Some (le_u64 data 0, le_u64 data 8)))
      else Inr (wrapped_vek, extent))"

primrec volume_records_loop :: "bytes \<Rightarrow> bytes \<Rightarrow> nat \<Rightarrow> nat \<Rightarrow> vr_state \<Rightarrow> vr_state res" where
  "volume_records_loop keybag volume_uuid 0 off st = Inr st"
| "volume_records_loop keybag volume_uuid (Suc n) off st =
     (if off + KE_HEADER_LEN > length keybag then Inr st
      else let entry_uuid = option_or (get_range keybag off (off + 16)) [];
               raw_tag = le_u16 keybag (off + KE_TAG);
               keylen = unat (le_u16 keybag (off + KE_KEYLEN));
               data_off = off + KE_HEADER_LEN;
               data = option_or (get_range keybag data_off (data_off + keylen)) [];
               off' = off + keybag_step keylen
           in if entry_uuid = volume_uuid
              then case volume_entry (keybag_tag_from_u16 raw_tag) data st of
                     Inl e \<Rightarrow> Inl e
                   | Inr st' \<Rightarrow> volume_records_loop keybag volume_uuid n off' st'
              else volume_records_loop keybag volume_uuid n off' st)"

definition volume_records :: "bytes \<Rightarrow> bytes \<Rightarrow> volume_records res" where
  "volume_records keybag volume_uuid =
     (case volume_records_loop keybag volume_uuid (keybag_nkeys keybag) KL_ENTRIES_OFF (None, None) of
        Inl e \<Rightarrow> Inl e
      | Inr (_, None) \<Rightarrow> Inl (bad_container_kb ''volume_unlock_records_absent'' 0 1)
      | Inr (None, Some _) \<Rightarrow> Inl (bad_container_kb ''volume_key_absent'' 0 1)
      | Inr (Some w, Some (blk, cnt)) \<Rightarrow>
          Inr \<lparr> vr_wrapped_vek = w, vr_volume_keybag_block = blk, vr_volume_keybag_blocks = cnt \<rparr>)"

subsection \<open>Unlocking\<close>

primrec find_kek_loop :: "bytes \<Rightarrow> nat \<Rightarrow> nat \<Rightarrow> bytes option" where
  "find_kek_loop keybag 0 off = None"
| "find_kek_loop keybag (Suc n) off =
     (if off + KE_HEADER_LEN > length keybag then None
      else let tag = keybag_tag_from_u16 (le_u16 keybag (off + KE_TAG));
               keylen = unat (le_u16 keybag (off + KE_KEYLEN));
               data_off = off + KE_HEADER_LEN;
               found = (if tag = WrappingKey \<or> tag = VolumeUnlockRecords
                        then (case get_range keybag data_off (data_off + keylen) of
                                None \<Rightarrow> None
                              | Some data \<Rightarrow> ber_find (option_or (ber_find data 0x30) data) 0xa3)
                        else None)
           in case found of
                Some obj \<Rightarrow> Some obj
              | None \<Rightarrow> find_kek_loop keybag n (off + keybag_step keylen))"

definition find_kek_object :: "bytes \<Rightarrow> bytes option" where
  "find_kek_object keybag = find_kek_loop keybag (keybag_nkeys keybag) KL_ENTRIES_OFF"

definition bad_vkb :: "string \<Rightarrow> u64 \<Rightarrow> u64 \<Rightarrow> apfs_error" where
  "bad_vkb field v cap = FieldOutOfRange ''unlock_with_volume_keybag'' field v cap"

definition unlock_with_volume_keybag :: "crypto \<Rightarrow> bytes \<Rightarrow> volume_records \<Rightarrow> bytes \<Rightarrow> bytes res" where
  "unlock_with_volume_keybag cr volume_keybag records password =
     (case find_kek_object volume_keybag of
        None \<Rightarrow> Inl (bad_vkb ''kek_object_absent'' (of_nat (length volume_keybag)) 1)
      | Some obj \<Rightarrow>
          (case parse_wrapped_kek obj of
             Inl e \<Rightarrow> Inl e
           | Inr info \<Rightarrow>
               let derived = derive_key_from_password cr password (wk_salt info) (wk_iterations info) 32
               in if length derived \<noteq> 32 then Inl (bad_vkb ''derived_key_len'' (of_nat (length derived)) 32)
                  else if length (wk_wrapped_key info) \<noteq> 40
                  then Inl (bad_vkb ''wrapped_kek_len'' (of_nat (length (wk_wrapped_key info))) 40)
                  else case aes_key_unwrap cr derived (wk_wrapped_key info) of
                         Inl e \<Rightarrow> Inl e
                       | Inr kek \<Rightarrow>
                           if length kek \<noteq> 32 then Inl (bad_vkb ''kek_len'' (of_nat (length kek)) 32)
                           else if length (vr_wrapped_vek records) \<noteq> 40
                           then Inl (bad_vkb ''wrapped_vek_len'' (of_nat (length (vr_wrapped_vek records))) 40)
                           else aes_key_unwrap cr kek (vr_wrapped_vek records)))"

definition bad_unlock :: "string \<Rightarrow> u64 \<Rightarrow> u64 \<Rightarrow> apfs_error" where
  "bad_unlock field v cap = FieldOutOfRange ''unlock_volume'' field v cap"

definition unlock_volume :: "crypto \<Rightarrow> bytes \<Rightarrow> bytes \<Rightarrow> bytes \<Rightarrow> bytes res" where
  "unlock_volume cr img volume_uuid password =
     (case decrypt_container_keybag cr img of
        Inl e \<Rightarrow> Inl e
      | Inr container_kb \<Rightarrow>
          (case volume_records container_kb volume_uuid of
             Inl e \<Rightarrow> Inl e
           | Inr rec \<Rightarrow>
               (case keybag_extent bad_unlock ''vkb_offset'' ''vkb_length'' ''vkb_end'' ''vkb_past_image''
                       img (vr_volume_keybag_block rec) (vr_volume_keybag_blocks rec)
                       (unat (le_u32 img NX_BLOCK_SIZE)) of
                  Inl e \<Rightarrow> Inl e
                | Inr (start, ct) \<Rightarrow>
                    unlock_with_volume_keybag cr
                      (decrypt_keybag_area cr ct volume_uuid (start div KEYBAG_SECTOR)) rec password)))"


subsection \<open>BER framing round trip\<close>

definition ber_len_bytes :: "nat \<Rightarrow> bytes" where
  "ber_len_bytes n =
     (if n < 128 then [of_nat n] else if n < 256 then [0x81, of_nat n]
      else [0x82, of_nat (n div 256), of_nat (n mod 256)])"

definition enc_tlv :: "u8 \<times> bytes \<Rightarrow> bytes" where
  "enc_tlv tv = fst tv # ber_len_bytes (length (snd tv)) @ snd tv"

definition tlv_ok :: "(u8 \<times> bytes) list \<Rightarrow> bool" where
  "tlv_ok tvs \<longleftrightarrow> list_all (\<lambda>(t, v). length v < 2 ^ 16) tvs"

lemma unat_of_nat_u8: "n < 256 \<Longrightarrow> unat (of_nat n :: u8) = n"
  by (simp add: unat_of_nat take_bit_nat_eq_self)

lemma bit_0x80: "bit (0x80 :: u8) k \<longleftrightarrow> k = 7"
proof -
  have e: "(0x80 :: u8) = 2 ^ 7" by simp
  show ?thesis unfolding e bit_exp_iff by auto
qed

lemma high_bit_clear: "n < 128 \<Longrightarrow> (of_nat n :: u8) AND 0x80 = 0"
proof -
  assume n: "n < 128"
  have t: "take_bit 7 (of_nat n :: u8) = of_nat n"
  proof -
    have "unat (take_bit 7 (of_nat n :: u8)) = take_bit 7 (unat (of_nat n :: u8))"
      by (rule unsigned_take_bit_eq)
    also have "\<dots> = unat (of_nat n :: u8)"
      using n by (simp add: unat_of_nat_u8 take_bit_nat_eq_self)
    finally show ?thesis by (rule unsigned_word_eqI)
  qed
  have "take_bit 7 (of_nat n :: u8) AND 0x80 = 0"
    by (rule bit_word_eqI) (unfold bit_and_iff bit_take_bit_iff bit_0x80, simp)
  then show ?thesis unfolding t .
qed

text \<open>Both readers of the length bytes agree and invert the writer.\<close>

lemma ber_length_enc:
  assumes "length v < 2 ^ 16"
  shows "ber_length (pre @ ber_len_bytes (length v) @ v @ rest) (length pre)
      = Some (length v, length pre + length (ber_len_bytes (length v)))"
    and "kek_ber_length (pre @ ber_len_bytes (length v) @ v @ rest) (length pre)
      = Inr (length v, length pre + length (ber_len_bytes (length v)))"
proof -
  let ?n = "length v"
  have d: "?n div 256 < 256" "?n mod 256 < 256" using assms by simp_all
  have sum: "unat (of_nat (?n div 256) :: u8) * 256 + unat (of_nat (?n mod 256) :: u8) = ?n"
    unfolding unat_of_nat_u8 [OF d(1)] unat_of_nat_u8 [OF d(2)] by simp
  show "ber_length (pre @ ber_len_bytes ?n @ v @ rest) (length pre) = Some (?n, length pre + length (ber_len_bytes ?n))"
    using sum
    by (cases "?n < 128"; cases "?n < 256")
      (simp_all add: ber_length_def ber_len_bytes_def get_at_def nth_append high_bit_clear unat_of_nat_u8)
  show "kek_ber_length (pre @ ber_len_bytes ?n @ v @ rest) (length pre) = Inr (?n, length pre + length (ber_len_bytes ?n))"
    using sum
    by (cases "?n < 128"; cases "?n < 256")
      (simp_all add: kek_ber_length_def ber_len_bytes_def get_at_def nth_append high_bit_clear unat_of_nat_u8)
qed


lemma enc_tlv_split:
  "pre @ concat (map enc_tlv ((t, v) # tvs))
    = (pre @ [t]) @ ber_len_bytes (length v) @ v @ concat (map enc_tlv tvs)"
  by (simp add: enc_tlv_def)

lemma ber_len_bytes_pos: "1 \<le> length (ber_len_bytes n)"
  by (simp add: ber_len_bytes_def)

lemma tlv_value_range:
  "get_range ((pre @ [t]) @ ber_len_bytes (length v) @ v @ rest)
     (length (pre @ [t]) + length (ber_len_bytes (length v)))
     (length (pre @ [t]) + length (ber_len_bytes (length v)) + length v) = Some v"
  using get_range_mid [of "(pre @ [t]) @ ber_len_bytes (length v)"
      "length (pre @ [t]) + length (ber_len_bytes (length v))" v "length v" _ rest] by simp

lemma ber_find_loop_enc:
  "tlv_ok tvs \<Longrightarrow> ber_find_loop (pre @ concat (map enc_tlv tvs)) tag (length pre) = map_of tvs tag"
proof (induction tvs arbitrary: pre)
  case Nil
  then show ?case by (simp add: ber_find_loop.simps)
next
  case (Cons tv tvs)
  obtain t v where tv: "tv = (t, v)" by (cases tv)
  define data where "data = (pre @ [t]) @ ber_len_bytes (length v) @ v @ concat (map enc_tlv tvs)"
  have dat: "pre @ concat (map enc_tlv (tv # tvs)) = data" unfolding data_def tv by (rule enc_tlv_split)
  have v: "length v < 2 ^ 16" using Cons.prems tv by (simp add: tlv_ok_def)
  have bl: "ber_length data (length pre + 1) = Some (length v, length pre + 1 + length (ber_len_bytes (length v)))"
    using ber_length_enc(1) [OF v, of "pre @ [t]"] by (simp add: data_def)
  have gr: "get_range data (length pre + 1 + length (ber_len_bytes (length v)))
      (length pre + 1 + length (ber_len_bytes (length v)) + length v) = Some v"
    using tlv_value_range [of pre t v] by (simp add: data_def)
  have len: "length pre + 2 \<le> length data" using ber_len_bytes_pos [of "length v"] by (simp add: data_def)
  have t: "data ! length pre = t" by (simp add: data_def nth_append)
  have "data = (pre @ enc_tlv (t, v)) @ concat (map enc_tlv tvs)" by (simp add: data_def enc_tlv_def)
  moreover have "length (pre @ enc_tlv (t, v)) = length pre + 1 + length (ber_len_bytes (length v)) + length v"
    by (simp add: enc_tlv_def)
  ultimately have "ber_find_loop data tag (length pre + 1 + length (ber_len_bytes (length v)) + length v) = map_of tvs tag"
    using Cons.IH [of "pre @ enc_tlv (t, v)"] Cons.prems by (simp add: tlv_ok_def add.assoc)
  then show ?case
    unfolding dat by (subst ber_find_loop.simps) (use bl gr len t tv in auto)
qed

text \<open>
  Looking up a tag in a sequence of tag-length-value fields, each written with the shortest
  BER length form, returns the value of the first field with that tag, and nothing when the
  tag does not occur.
\<close>

lemma ber_find_round_trip:
  "tlv_ok tvs \<Longrightarrow> ber_find (concat (map enc_tlv tvs)) tag = map_of tvs tag"
  using ber_find_loop_enc [of tvs "[]" tag] by (simp add: ber_find_def)

text \<open>The wrapped-KEK parser runs its field actions over the same sequence.\<close>

primrec kek_fields :: "(u8 \<times> bytes) list \<Rightarrow> kek_state \<Rightarrow> kek_state res" where
  "kek_fields [] st = Inr st"
| "kek_fields (tv # tvs) st =
     (case kek_field (fst tv) (snd tv) st of Inl e \<Rightarrow> Inl e | Inr st' \<Rightarrow> kek_fields tvs st')"

lemma kek_loop_enc:
  "tlv_ok tvs \<Longrightarrow> kek_loop (pre @ concat (map enc_tlv tvs)) (length pre) st = kek_fields tvs st"
proof (induction tvs arbitrary: pre st)
  case Nil
  then show ?case by (simp add: kek_loop.simps)
next
  case (Cons tv tvs)
  obtain t v where tv: "tv = (t, v)" by (cases tv)
  define data where "data = (pre @ [t]) @ ber_len_bytes (length v) @ v @ concat (map enc_tlv tvs)"
  have dat: "pre @ concat (map enc_tlv (tv # tvs)) = data" unfolding data_def tv by (rule enc_tlv_split)
  have v: "length v < 2 ^ 16" using Cons.prems tv by (simp add: tlv_ok_def)
  have bl: "kek_ber_length data (length pre + 1) = Inr (length v, length pre + 1 + length (ber_len_bytes (length v)))"
    using ber_length_enc(2) [OF v, of "pre @ [t]"] by (simp add: data_def)
  have gr: "get_range data (length pre + 1 + length (ber_len_bytes (length v)))
      (length pre + 1 + length (ber_len_bytes (length v)) + length v) = Some v"
    using tlv_value_range [of pre t v] by (simp add: data_def)
  have len: "length pre < length data" by (simp add: data_def)
  have t: "data ! length pre = t" by (simp add: data_def nth_append)
  have "data = (pre @ enc_tlv (t, v)) @ concat (map enc_tlv tvs)" by (simp add: data_def enc_tlv_def)
  moreover have "length (pre @ enc_tlv (t, v)) = length pre + 1 + length (ber_len_bytes (length v)) + length v"
    by (simp add: enc_tlv_def)
  ultimately have "kek_loop data (length pre + 1 + length (ber_len_bytes (length v)) + length v) st' = kek_fields tvs st'" for st'
    using Cons.IH [of "pre @ enc_tlv (t, v)"] Cons.prems by (simp add: tlv_ok_def add.assoc)
  then show ?case
    unfolding dat by (subst kek_loop.simps) (use bl gr len t tv in \<open>auto split: sum.splits\<close>)
qed

lemma kek_fields_skip:
  "kek_fields tvs st = kek_fields (filter (\<lambda>(t, v). t = 0x83 \<or> t = 0x84 \<or> t = 0x85) tvs) st"
proof (induction tvs arbitrary: st)
  case (Cons tv tvs)
  then show ?case by (cases tv; cases st) (auto split: sum.splits)
qed simp

text \<open>
  A wrapped-KEK object with its three fields in order, however many other fields stand
  around them, parses to exactly those fields: the wrapped key, the iteration count (saturated
  at \<open>2\<^sup>3\<^sup>2 - 1\<close>, never wrapped to a smaller one) and the salt.
\<close>

lemma parse_wrapped_kek_round_trip:
  assumes "tlv_ok tvs"
    and "filter (\<lambda>(t, v). t = 0x83 \<or> t = 0x84 \<or> t = 0x85) tvs = [(0x83, w), (0x84, it), (0x85, sl)]"
    and "length w = 40" "it \<noteq> []" "length it \<le> 8" "length sl = 16"
  shows "parse_wrapped_kek (concat (map enc_tlv tvs))
    = Inr \<lparr> wk_wrapped_key = w, wk_iterations = iterations_of it, wk_salt = sl \<rparr>"
  using kek_loop_enc [OF assms(1), of "[]" "(None, None, None)"] assms
  by (simp add: parse_wrapped_kek_def kek_fields_skip [of tvs])


subsection \<open>Sizes of key material\<close>

fun kek_state_ok :: "kek_state \<Rightarrow> bool" where
  "kek_state_ok (w, it, sl) \<longleftrightarrow> (\<forall>x. w = Some x \<longrightarrow> length x = 40) \<and> (\<forall>x. sl = Some x \<longrightarrow> length x = 16)"

lemma kek_field_ok: "kek_state_ok st \<Longrightarrow> kek_field tag val st = Inr st' \<Longrightarrow> kek_state_ok st'"
  by (cases st) (auto split: if_splits)

lemma kek_loop_ok: "kek_loop data off st = Inr st' \<Longrightarrow> kek_state_ok st \<Longrightarrow> kek_state_ok st'"
proof (induction data off st rule: kek_loop.induct)
  case (1 data off st)
  show ?case
  proof (cases "off < length data")
    case True
    with "1.prems"(1) obtain len start val st1 where
      "kek_ber_length data (off + 1) = Inr (len, start)" "get_range data start (start + len) = Some val"
      "kek_field (data ! off) val st = Inr st1" "kek_loop data (start + len) st1 = Inr st'"
      by (subst (asm) kek_loop.simps) (auto split: sum.splits option.splits)
    with "1.IH" True "1.prems"(2) show ?thesis using kek_field_ok by metis
  next
    case False
    with "1.prems" show ?thesis by (subst (asm) kek_loop.simps) simp
  qed
qed

text \<open>
  Whatever bytes the wrapped-KEK parser is given, it returns either an error or key material of
  the sizes the cipher needs.
\<close>

lemma parse_wrapped_kek_lengths:
  assumes "parse_wrapped_kek data = Inr k"
  shows "length (wk_wrapped_key k) = 40" "length (wk_salt k) = 16"
proof -
  obtain w it sl where "kek_loop data 0 (None, None, None) = Inr (Some w, Some it, Some sl)"
      "k = \<lparr> wk_wrapped_key = w, wk_iterations = it, wk_salt = sl \<rparr>"
    using assms by (auto simp: parse_wrapped_kek_def split: sum.splits option.splits)
  with kek_loop_ok [of data 0 "(None, None, None)"]
  show "length (wk_wrapped_key k) = 40" "length (wk_salt k) = 16" by auto
qed

subsection \<open>Keybag entries\<close>

text \<open>The entries a keybag walk meets: owner UUID, tag and payload.\<close>

primrec keybag_entries :: "bytes \<Rightarrow> nat \<Rightarrow> nat \<Rightarrow> (bytes \<times> keybag_tag \<times> bytes) list" where
  "keybag_entries kb 0 off = []"
| "keybag_entries kb (Suc n) off =
     (if off + KE_HEADER_LEN > length kb then []
      else let keylen = unat (le_u16 kb (off + KE_KEYLEN))
           in (option_or (get_range kb off (off + 16)) [],
               keybag_tag_from_u16 (le_u16 kb (off + KE_TAG)),
               option_or (get_range kb (off + KE_HEADER_LEN) (off + KE_HEADER_LEN + keylen)) [])
              # keybag_entries kb n (off + keybag_step keylen))"

primrec volume_entries :: "(bytes \<times> keybag_tag \<times> bytes) list \<Rightarrow> vr_state \<Rightarrow> vr_state res" where
  "volume_entries [] st = Inr st"
| "volume_entries (e # es) st =
     (case volume_entry (fst (snd e)) (snd (snd e)) st of Inl err \<Rightarrow> Inl err | Inr st' \<Rightarrow> volume_entries es st')"

lemma volume_records_loop_entries:
  "volume_records_loop kb uuid n off st
    = volume_entries (filter (\<lambda>e. fst e = uuid) (keybag_entries kb n off)) st"
proof (induction n arbitrary: off st)
  case (Suc n)
  show ?case
    by (simp add: Let_def Suc.IH split: sum.split)
qed simp

text \<open>The owner's entries of a keybag, as the walk meets them.\<close>

definition owned_entries :: "bytes \<Rightarrow> bytes \<Rightarrow> (bytes \<times> keybag_tag \<times> bytes) list" where
  "owned_entries uuid kb = filter (\<lambda>e. fst e = uuid) (keybag_entries kb (keybag_nkeys kb) KL_ENTRIES_OFF)"

text \<open>
  C32. The records found for a volume depend on the keybag entries that carry that volume's
  UUID and on nothing else: no entry of another volume, whatever it holds, can change the
  wrapped key or the keybag address handed out.
\<close>

theorem volume_records_isolated:
  "owned_entries uuid kb = owned_entries uuid kb' \<Longrightarrow> volume_records kb uuid = volume_records kb' uuid"
  unfolding volume_records_def volume_records_loop_entries owned_entries_def by simp


text \<open>A writer of keybags: object header, locker header, then 16-byte-aligned entries.\<close>

definition enc_ke :: "bytes \<times> u16 \<times> bytes \<Rightarrow> bytes" where
  "enc_ke e = (case e of (u, t, d) \<Rightarrow>
     u @ to_le 2 t @ to_le 2 (of_nat (length d) :: u16) @ replicate 4 0 @ d
     @ replicate (keybag_step (length d) - 24 - length d) 0)"

definition enc_keybag :: "(bytes \<times> u16 \<times> bytes) list \<Rightarrow> bytes" where
  "enc_keybag es = replicate 34 0 @ to_le 2 (of_nat (length es) :: u16) @ replicate 12 0 @ concat (map enc_ke es)"

definition ke_ok :: "bytes \<times> u16 \<times> bytes \<Rightarrow> bool" where
  "ke_ok e \<longleftrightarrow> length (fst e) = 16 \<and> length (snd (snd e)) < 2 ^ 16"

lemma keybag_step_ge: "24 + n \<le> keybag_step n"
proof -
  have "24 + n \<le> (24 + n + 15) div 16 * 16" by presburger
  then show ?thesis by (simp add: keybag_step_def KE_HEADER_LEN_def)
qed

lemma length_enc_ke: "ke_ok (u, t, d) \<Longrightarrow> length (enc_ke (u, t, d)) = keybag_step (length d)"
  using keybag_step_ge [of "length d"] by (simp add: enc_ke_def ke_ok_def)

lemma enc_ke_fields:
  fixes pre r
  assumes "ke_ok (u, t, d)"
  defines "kb \<equiv> pre @ enc_ke (u, t, d) @ r"
  shows "length pre + 24 \<le> length kb" "unat (le_u16 kb (length pre + 18)) = length d"
    "le_u16 kb (length pre + 16) = t" "get_range kb (length pre) (length pre + 16) = Some u"
    "get_range kb (length pre + 24) (length pre + 24 + length d) = Some d"
proof -
  have ok: "length u = 16" "length d < 2 ^ 16" using assms(1) by (simp_all add: ke_ok_def)
  define z where "z = replicate (keybag_step (length d) - 24 - length d) (0 :: u8)"
  have kb: "kb = pre @ u @ to_le 2 t @ to_le 2 (of_nat (length d) :: u16) @ replicate 4 0 @ d @ z @ r"
    by (simp add: kb_def enc_ke_def z_def)
  have "unat (of_nat (length d) :: u16) = length d" using ok by (simp add: unat_of_nat take_bit_nat_eq_self)
  then show "unat (le_u16 kb (length pre + 18)) = length d" using ok by (simp add: kb le_u16_def arr_fields)
  show "length pre + 24 \<le> length kb" "le_u16 kb (length pre + 16) = t"
    using ok by (simp_all add: kb le_u16_def arr_fields)
  show "get_range kb (length pre) (length pre + 16) = Some u" unfolding kb using ok by (intro get_range_mid) auto
  have "get_range ((pre @ u @ to_le 2 t @ to_le 2 (of_nat (length d) :: u16) @ replicate 4 0) @ d @ (z @ r))
      (length pre + 24) (length pre + 24 + length d) = Some d"
    using ok by (intro get_range_mid) auto
  then show "get_range kb (length pre + 24) (length pre + 24 + length d) = Some d" by (simp add: kb)
qed

lemma keybag_entries_enc:
  "list_all ke_ok es \<Longrightarrow>
     keybag_entries (pre @ concat (map enc_ke es) @ post) (length es) (length pre)
       = map (\<lambda>(u, t, d). (u, keybag_tag_from_u16 t, d)) es"
proof (induction es arbitrary: pre)
  case (Cons e es)
  obtain u t d where e: "e = (u, t, d)" by (cases e) auto
  have ok: "ke_ok (u, t, d)" using Cons.prems e by simp
  have "keybag_entries ((pre @ enc_ke e) @ concat (map enc_ke es) @ post) (length es) (length (pre @ enc_ke e))
      = map (\<lambda>(u, t, d). (u, keybag_tag_from_u16 t, d)) es"
    using Cons by (intro Cons.IH) simp
  then show ?case
    using enc_ke_fields [OF ok, of pre "concat (map enc_ke es) @ post"] length_enc_ke [OF ok]
    by (simp add: e layout_defs option_or_def)
qed simp

lemma owned_entries_enc:
  assumes "list_all ke_ok es" "length es \<le> 4096"
  shows "owned_entries uuid (enc_keybag es)
    = filter (\<lambda>e. fst e = uuid) (map (\<lambda>(u, t, d). (u, keybag_tag_from_u16 t, d)) es)"
proof -
  have "unat (of_nat (length es) :: u16) = length es"
    using assms(2) by (simp add: unat_of_nat take_bit_nat_eq_self)
  then have "keybag_nkeys (enc_keybag es) = length es"
    using assms(2) by (simp add: keybag_nkeys_def enc_keybag_def layout_defs le_u16_def arr_fields)
  moreover have "keybag_entries (enc_keybag es) (length es) 48 = map (\<lambda>(u, t, d). (u, keybag_tag_from_u16 t, d)) es"
    using keybag_entries_enc [OF assms(1), of "replicate 34 0 @ to_le 2 (of_nat (length es) :: u16) @ replicate 12 0" "[]"]
    by (simp add: enc_keybag_def)
  ultimately show ?thesis by (simp add: owned_entries_def KL_ENTRIES_OFF_def)
qed

theorem volume_records_isolated_witness:
  "volume_records (enc_keybag [(replicate 16 9, 2, [1, 2]), (replicate 16 1, 3, to_le 8 (77 :: u64) @ to_le 8 (1 :: u64))]) (replicate 16 1)
   = volume_records (enc_keybag [(replicate 16 1, 3, to_le 8 (77 :: u64) @ to_le 8 (1 :: u64))]) (replicate 16 1)"
  by (rule volume_records_isolated) (simp add: owned_entries_enc ke_ok_def)


subsection \<open>The unlock chain\<close>

text \<open>
  A volume key comes out of the unlock chain exactly when every link holds: the volume
  keybag has a wrapped-KEK object, the key derived from the password passes the key-wrap
  integrity check on the wrapped KEK, and the KEK passes it on the wrapped volume key. A
  password whose derived key fails the check never yields a key.
\<close>

lemma unlock_chain:
  "unlock_with_volume_keybag cr kb rec pw = Inr vek \<longleftrightarrow>
    (\<exists>obj info kek. find_kek_object kb = Some obj \<and> parse_wrapped_kek obj = Inr info
      \<and> length (derive_key_from_password cr pw (wk_salt info) (wk_iterations info) 32) = 32
      \<and> kw_unwrap cr (derive_key_from_password cr pw (wk_salt info) (wk_iterations info) 32)
          (wk_wrapped_key info) = Some kek
      \<and> length kek = 32 \<and> length (vr_wrapped_vek rec) = 40
      \<and> kw_unwrap cr kek (vr_wrapped_vek rec) = Some vek)"
  by (auto simp: unlock_with_volume_keybag_def aes_key_unwrap_def Let_def parse_wrapped_kek_lengths
      split: option.splits sum.splits if_splits)

end
