(* ===== verification/Dir.thy ===== *)
theory Dir
  imports Object_Map Inodes Volume Encryption "HOL-Library.Sublist"
begin

text \<open>
  \<^verbatim>\<open>core/src/dir.rs\<close>: directory records, the walk of the virtual file-system tree (nodes
  resolved through the volume object map, decrypted when flagged, verified before use), the
  keyed variant that descends only where an object id can be, and name and path resolution.
  The virtual descent is a second instance of the walk contract; the keyed walk is proved to
  lose no record of its object id.
\<close>

subsection \<open>Directory records\<close>

definition ROOT_DIR_INO_NUM :: u64 where [layout_defs]: "ROOT_DIR_INO_NUM = 2"
definition J_DREC_LEN_MASK :: u32 where [layout_defs]: "J_DREC_LEN_MASK = 0x000003ff"
definition OFF_DREC_FILE_ID :: nat where [layout_defs]: "OFF_DREC_FILE_ID = 0"
definition OFF_DREC_DATE_ADDED :: nat where [layout_defs]: "OFF_DREC_DATE_ADDED = 8"
definition OFF_DREC_FLAGS :: nat where [layout_defs]: "OFF_DREC_FLAGS = 16"
definition MAX_FSTREE_DEPTH :: nat where [layout_defs]: "MAX_FSTREE_DEPTH = 64"

record dir_entry =
  de_name :: rust_string
  de_file_id :: u64
  de_date_added :: u64
  de_flags :: u16

definition decode_drec_unhashed :: "bytes \<Rightarrow> rust_string option" where
  "decode_drec_unhashed key =
     (let unhashed_len = unat (le_u16 key 8)
      in if unhashed_len > 0 then map_option decode_cstr (get_range key 10 (10 + unhashed_len)) else None)"

definition decode_drec_name :: "bytes \<Rightarrow> rust_string option" where
  "decode_drec_name key =
     (let hashed_len = unat (le_u32 key 8 AND J_DREC_LEN_MASK)
      in if hashed_len > 0
         then (case get_range key 12 (12 + hashed_len) of
                 Some name \<Rightarrow> Some (decode_cstr name)
               | None \<Rightarrow> decode_drec_unhashed key)
         else decode_drec_unhashed key)"

definition parse_dir_entry :: "bytes \<Rightarrow> bytes \<Rightarrow> dir_entry option" where
  "parse_dir_entry key val =
     (case decode_drec_name key of
        None \<Rightarrow> None
      | Some name \<Rightarrow> Some \<lparr> de_name = name, de_file_id = le_u64 val OFF_DREC_FILE_ID,
          de_date_added = le_u64 val OFF_DREC_DATE_ADDED, de_flags = le_u16 val OFF_DREC_FLAGS \<rparr>)"

subsection \<open>The file-system tree walk\<close>

definition child_may_contain_oid :: "u64 \<Rightarrow> u64 option \<Rightarrow> u64 \<Rightarrow> bool" where
  "child_may_contain_oid sep_oid next_sep_oid target \<longleftrightarrow>
     sep_oid \<le> target \<and> (case next_sep_oid of None \<Rightarrow> True | Some nxt \<Rightarrow> nxt \<ge> target)"

abbreviation key_oid :: "bytes \<Rightarrow> u64" where
  "key_oid k \<equiv> fst (decode_jkey (le_u64 k 0))"

abbreviation key_type :: "bytes \<Rightarrow> record_type option" where
  "key_type k \<equiv> snd (decode_jkey (le_u64 k 0))"

text \<open>The children the loop over the index entries descends, in order.\<close>

fun virtual_children :: "u64 option \<Rightarrow> entry list \<Rightarrow> u64 list" where
  "virtual_children target_oid [] = []"
| "virtual_children target_oid ((k, v) # es) =
     (if (case target_oid of
            None \<Rightarrow> True
          | Some target \<Rightarrow>
              child_may_contain_oid (key_oid k)
                (case es of [] \<Rightarrow> None | (k', _) # _ \<Rightarrow> Some (key_oid k')) target)
      then le_u64 v 0 # virtual_children target_oid es
      else virtual_children target_oid es)"

text \<open>Resolve, read, decrypt and verify the node of a virtual object id.\<close>

definition read_virtual_node :: "crypto \<Rightarrow> reader \<Rightarrow> object_map \<Rightarrow> bytes option \<Rightarrow> u64 \<Rightarrow> nat \<Rightarrow> u64 \<Rightarrow> bytes res" where
  "read_virtual_node cr rd omap vek xid block_size node_oid =
     (case resolve omap rd node_oid xid block_size of
        Inl e \<Rightarrow> Inl e
      | Inr entry \<Rightarrow>
          (case read_block_sat rd (oe_paddr entry) block_size of
             Inl e \<Rightarrow> Inl e
           | Inr raw \<Rightarrow>
               let buf = (if oe_flags entry AND OMAP_VAL_ENCRYPTED \<noteq> 0
                          then (case vek of None \<Rightarrow> raw
                                | Some k \<Rightarrow> decrypt_volume_area cr raw k (oe_paddr entry) block_size)
                          else raw);
                   stored = fletcher64_stored buf; computed = fletcher64_checksum buf
               in if stored \<noteq> computed
                  then Inl (ChecksumMismatch
                         (case obj_phys_parse buf of None \<Rightarrow> oe_paddr entry | Some h \<Rightarrow> o_oid h) stored computed)
                  else Inr buf))"

function descend_virtual :: "crypto \<Rightarrow> reader \<Rightarrow> object_map \<Rightarrow> bytes option \<Rightarrow> u64 \<Rightarrow> nat \<Rightarrow> u64 option \<Rightarrow>
    (bytes \<Rightarrow> bytes \<Rightarrow> 's \<Rightarrow> 's) \<Rightarrow> nat \<Rightarrow> u64 set \<Rightarrow> u64 \<Rightarrow> 's \<Rightarrow> (u64 set \<times> 's) res"
  and descend_virtual_children :: "crypto \<Rightarrow> reader \<Rightarrow> object_map \<Rightarrow> bytes option \<Rightarrow> u64 \<Rightarrow> nat \<Rightarrow> u64 option \<Rightarrow>
    (bytes \<Rightarrow> bytes \<Rightarrow> 's \<Rightarrow> 's) \<Rightarrow> nat \<Rightarrow> u64 set \<Rightarrow> u64 list \<Rightarrow> 's \<Rightarrow> (u64 set \<times> 's) res" where
  "descend_virtual cr rd omap vek xid block_size target_oid visit depth visited node_oid s =
     (if depth \<ge> MAX_FSTREE_DEPTH then Inl (CycleGuard MAX_FSTREE_DEPTH)
      else if node_oid \<in> visited then Inl (CycleGuard MAX_FSTREE_DEPTH)
      else case read_virtual_node cr rd omap vek xid block_size node_oid of
             Inl e \<Rightarrow> Inl e
           | Inr buf \<Rightarrow>
               (case parse_node_header buf of
                  None \<Rightarrow> Inr (insert node_oid visited, s)
                | Some hdr \<Rightarrow>
                    if is_leaf hdr
                    then Inr (insert node_oid visited,
                              fold (\<lambda>(k, v). visit k v) (node_entries buf FsTree) s)
                    else descend_virtual_children cr rd omap vek xid block_size target_oid visit (depth + 1)
                           (insert node_oid visited)
                           (virtual_children target_oid (node_entries buf FsTree)) s))"
| "descend_virtual_children cr rd omap vek xid block_size target_oid visit depth visited [] s = Inr (visited, s)"
| "descend_virtual_children cr rd omap vek xid block_size target_oid visit depth visited (child # children) s =
     (case descend_virtual cr rd omap vek xid block_size target_oid visit depth visited child s of
        Inl e \<Rightarrow> Inl e
      | Inr (visited', s') \<Rightarrow>
          descend_virtual_children cr rd omap vek xid block_size target_oid visit depth visited' children s')"
  by pat_completeness auto
termination
  by (relation "measures [case_sum (\<lambda>(_, _, _, _, _, _, _, _, d, _). MAX_FSTREE_DEPTH - d)
                                   (\<lambda>(_, _, _, _, _, _, _, _, d, _). MAX_FSTREE_DEPTH - d),
                          case_sum (\<lambda>_. 0) (\<lambda>(_, _, _, _, _, _, _, _, _, _, cs, _). Suc (length cs))]")
    auto

declare descend_virtual.simps [simp del]

definition walk_fs_tree :: "crypto \<Rightarrow> reader \<Rightarrow> apfs_volume \<Rightarrow> nat \<Rightarrow> u64 option \<Rightarrow>
    (bytes \<Rightarrow> bytes \<Rightarrow> 's \<Rightarrow> 's) \<Rightarrow> 's \<Rightarrow> 's res" where
  "walk_fs_tree cr rd volume block_size target_oid visit s =
     (case read_block_sat rd (vol_omap_oid volume) block_size of
        Inl e \<Rightarrow> Inl e
      | Inr buf \<Rightarrow>
          (case object_map_parse buf of
             Inl e \<Rightarrow> Inl e
           | Inr omap \<Rightarrow>
               (case descend_virtual cr rd omap (vol_vek volume) (vol_xid volume) block_size target_oid visit
                       0 {} (vol_root_tree_oid volume) s of
                  Inl e \<Rightarrow> Inl e
                | Inr (_, s') \<Rightarrow> Inr s')))"

definition for_each_fs_record_for_oid :: "crypto \<Rightarrow> reader \<Rightarrow> apfs_volume \<Rightarrow> nat \<Rightarrow> u64 \<Rightarrow>
    (bytes \<Rightarrow> bytes \<Rightarrow> 's \<Rightarrow> 's) \<Rightarrow> 's \<Rightarrow> 's res" where
  "for_each_fs_record_for_oid cr rd volume block_size target_oid visit s =
     walk_fs_tree cr rd volume block_size (Some target_oid) visit s"

subsection \<open>Navigation\<close>

definition list_dir_visit :: "u64 \<Rightarrow> bytes \<Rightarrow> bytes \<Rightarrow> dir_entry list \<Rightarrow> dir_entry list" where
  "list_dir_visit parent_oid key val out =
     (if key_type key \<noteq> Some DirRec \<or> key_oid key \<noteq> parent_oid then out
      else case parse_dir_entry key val of None \<Rightarrow> out | Some entry \<Rightarrow> out @ [entry])"

definition list_dir :: "crypto \<Rightarrow> reader \<Rightarrow> apfs_volume \<Rightarrow> u64 \<Rightarrow> nat \<Rightarrow> dir_entry list res" where
  "list_dir cr rd volume parent_oid block_size =
     for_each_fs_record_for_oid cr rd volume block_size parent_oid (list_dir_visit parent_oid) []"

definition lookup_visit :: "u64 \<Rightarrow> rust_string \<Rightarrow> bytes \<Rightarrow> bytes \<Rightarrow> u64 option \<Rightarrow> u64 option" where
  "lookup_visit parent_oid name key val found =
     (if found \<noteq> None then found
      else if key_type key \<noteq> Some DirRec \<or> key_oid key \<noteq> parent_oid then found
      else case parse_dir_entry key val of
             None \<Rightarrow> found
           | Some entry \<Rightarrow> if de_name entry = name then Some (de_file_id entry) else found)"

definition lookup_child :: "crypto \<Rightarrow> reader \<Rightarrow> apfs_volume \<Rightarrow> u64 \<Rightarrow> rust_string \<Rightarrow> nat \<Rightarrow> u64 option res" where
  "lookup_child cr rd volume parent_oid name block_size =
     for_each_fs_record_for_oid cr rd volume block_size parent_oid (lookup_visit parent_oid name) None"

definition inode_visit :: "u64 \<Rightarrow> bytes \<Rightarrow> bytes \<Rightarrow> bytes option \<Rightarrow> bytes option" where
  "inode_visit oid key val found =
     (if found \<noteq> None then found
      else if key_type key = Some Inode \<and> key_oid key = oid then Some val else found)"

definition load_inode :: "crypto \<Rightarrow> reader \<Rightarrow> apfs_volume \<Rightarrow> u64 \<Rightarrow> nat \<Rightarrow> inode res" where
  "load_inode cr rd volume oid block_size =
     (case for_each_fs_record_for_oid cr rd volume block_size oid (inode_visit oid) None of
        Inl e \<Rightarrow> Inl e
      | Inr None \<Rightarrow> Inl (OmapUnresolved oid (vol_xid volume))
      | Inr (Some val) \<Rightarrow> inode_parse oid val)"

text \<open>\<^verbatim>\<open>path.split('/').filter(|c| !c.is_empty())\<close>.\<close>

fun split_slash :: "bytes \<Rightarrow> bytes list" where
  "split_slash [] = [[]]"
| "split_slash (c # cs) =
     (if c = 0x2F then [] # split_slash cs
      else case split_slash cs of [] \<Rightarrow> [[c]] | w # ws \<Rightarrow> (c # w) # ws)"

definition path_components :: "rust_string \<Rightarrow> rust_string list" where
  "path_components path = filter (\<lambda>c. c \<noteq> []) (split_slash path)"

primrec resolve_components :: "crypto \<Rightarrow> reader \<Rightarrow> apfs_volume \<Rightarrow> nat \<Rightarrow> rust_string list \<Rightarrow> u64 \<Rightarrow> u64 res" where
  "resolve_components cr rd volume block_size [] current = Inr current"
| "resolve_components cr rd volume block_size (component # rest) current =
     (case lookup_child cr rd volume current component block_size of
        Inl e \<Rightarrow> Inl e
      | Inr None \<Rightarrow> Inl (OmapUnresolved current (vol_xid volume))
      | Inr (Some child) \<Rightarrow> resolve_components cr rd volume block_size rest child)"

definition open_path :: "crypto \<Rightarrow> reader \<Rightarrow> apfs_volume \<Rightarrow> rust_string \<Rightarrow> nat \<Rightarrow> inode res" where
  "open_path cr rd volume path block_size =
     (case resolve_components cr rd volume block_size (path_components path) ROOT_DIR_INO_NUM of
        Inl e \<Rightarrow> Inl e
      | Inr current \<Rightarrow> load_inode cr rd volume current block_size)"

subsection \<open>The virtual descent as a tree walk\<close>

definition node_of_block :: "bytes \<Rightarrow> node" where
  "node_of_block buf =
     (case parse_node_header buf of
        None \<Rightarrow> LeafNode []
      | Some hdr \<Rightarrow>
          if is_leaf hdr then LeafNode (node_entries buf FsTree)
          else IndexNode (map (\<lambda>(k, v). (k, le_u64 v 0)) (node_entries buf FsTree)))"

definition load_virtual :: "crypto \<Rightarrow> reader \<Rightarrow> object_map \<Rightarrow> bytes option \<Rightarrow> u64 \<Rightarrow> nat \<Rightarrow> u64 \<Rightarrow> node res" where
  "load_virtual cr rd omap vek xid block_size node_oid =
     map_sum id node_of_block (read_virtual_node cr rd omap vek xid block_size node_oid)"

text \<open>The selection by object id, as a function of the separators.\<close>

fun pick_oid :: "u64 option \<Rightarrow> bytes list \<Rightarrow> bool list" where
  "pick_oid target [] = []"
| "pick_oid target (k # ks) =
     (case target of
        None \<Rightarrow> True
      | Some t \<Rightarrow> child_may_contain_oid (key_oid k) (case ks of [] \<Rightarrow> None | k' # _ \<Rightarrow> Some (key_oid k')) t)
     # pick_oid target ks"

lemma pick_oid_None [simp]: "pick_oid None = pick_all"
proof
  show "pick_oid None ks = pick_all ks" for ks by (induction ks) (auto simp: pick_all_def)
qed

lemma virtual_children_picked:
  "virtual_children target es = map snd (picked (pick_oid target) (map (\<lambda>(k, v). (k, le_u64 v 0)) es))"
  unfolding picked_def
proof (induction es)
  case (Cons e es)
  then show ?case by (cases e; cases es) (auto split: option.splits)
qed simp

interpretation virt: tree_walk
  "\<lambda>_. load_virtual cr rd omap vek xid block_size" "pick_oid target" "\<lambda>(k, v). visit k v" MAX_FSTREE_DEPTH
  "descend_virtual cr rd omap vek xid block_size target visit"
  "descend_virtual_children cr rd omap vek xid block_size target visit"
  for cr rd omap vek xid block_size target visit
proof (unfold_locales, goal_cases)
  case (1 d visited p s)
  show ?case
    by (subst descend_virtual.simps)
      (auto simp: load_virtual_def node_of_block_def virtual_children_picked split: sum.splits option.splits)
qed simp_all

subsection \<open>The keyed walk loses no record of its object\<close>

lemma picked_Cons:
  "picked (pick_oid target) ((k, c) # kcs) =
     (if case target of None \<Rightarrow> True
         | Some t \<Rightarrow> child_may_contain_oid (key_oid k) (case kcs of [] \<Rightarrow> None | (k', _) # _ \<Rightarrow> Some (key_oid k')) t
      then (k, c) # picked (pick_oid target) kcs else picked (pick_oid target) kcs)"
  by (cases kcs) (auto simp: picked_def split: option.splits)

lemma subseq_picked: "subseq (picked (pick_oid target) kcs) kcs"
proof (induction kcs)
  case (Cons a kcs)
  then show ?case by (cases a) (auto simp: picked_Cons)
qed (simp add: picked_def)

lemma subseq_concat: "subseq (concat (map f xs)) (concat (map f ys))" if "subseq xs ys"
  using that
proof (induction rule: list_emb.induct)
  case (list_emb_Cons xs ys y)
  then show ?case by (simp add: list_emb_append2)
qed (auto intro: list_emb_append_mono)

lemma subseq_concat_map:
  "(\<And>x. x \<in> set xs \<Longrightarrow> subseq (f x) (g x)) \<Longrightarrow> subseq (concat (map f xs)) (concat (map g xs))"
  by (induction xs) (auto intro: list_emb_append_mono)

lemma subseq_distinct: "subseq xs ys \<Longrightarrow> distinct ys \<Longrightarrow> distinct xs"
  by (induction rule: list_emb.induct) (auto dest: list_emb_set)

lemma ids_prune: "subseq (ids (prune (pick_oid target) t)) (ids t)"
proof (induction t rule: ids.induct)
  case (2 p kts)
  have "picked (pick_oid target) (map (\<lambda>(k, t). (k, prune (pick_oid target) t)) kts)
      = map (\<lambda>(k, t). (k, prune (pick_oid target) t)) (picked (pick_oid target) kts)"
    by (rule picked_map) auto
  moreover have "subseq (concat (map (\<lambda>(k, t). ids (prune (pick_oid target) t)) (picked (pick_oid target) kts)))
      (concat (map (\<lambda>(k, t). ids t) (picked (pick_oid target) kts)))"
    using 2 by (intro subseq_concat_map) (auto dest!: set_picked)
  moreover have "subseq (concat (map (\<lambda>(k, t). ids t) (picked (pick_oid target) kts)))
      (concat (map (\<lambda>(k, t). ids t) kts))"
    by (rule subseq_concat [OF subseq_picked])
  ultimately show ?case by (auto simp: comp_def case_prod_unfold intro: subseq_order.trans)
qed simp

lemma height_prune: "height (prune (pick_oid target) t) + d \<le> cap" if "height t + d \<le> cap"
  using that
proof (induction t arbitrary: d rule: height.induct)
  case (2 p kts)
  have "picked (pick_oid target) (map (\<lambda>(k, t). (k, prune (pick_oid target) t)) kts)
      = map (\<lambda>(k, t). (k, prune (pick_oid target) t)) (picked (pick_oid target) kts)"
    by (rule picked_map) auto
  moreover have "height (prune (pick_oid target) t) + Suc d \<le> cap"
    if "(k, t) \<in> set (picked (pick_oid target) kts)" for k t
    using "2.IH" [OF set_picked [OF that] refl, of "Suc d"] "2.prems" set_picked [OF that]
    by (auto simp only: height_Index_le)
  moreover have "d < cap" using "2.prems" by (simp only: height_Index_le)
  ultimately show ?case
    unfolding prune.simps height_Index_le by auto
qed simp

lemma filter_concat_picked:
  assumes "\<And>k t. (k, t) \<in> set kts \<Longrightarrow> filter P (g t) = filter P (entries t)"
    and "\<And>k t e. (k, t) \<in> set kts \<Longrightarrow> e \<in> set (entries t) \<Longrightarrow> P e \<Longrightarrow> key_oid k \<le> target"
    and "sorted_wrt (\<lambda>a b. \<forall>e\<in>set (entries (snd a)). P e \<longrightarrow> target \<le> key_oid (fst b)) kts"
  shows "filter P (concat (map (\<lambda>(k, t). g t) (picked (pick_oid (Some target)) kts)))
    = filter P (concat (map (\<lambda>(k, t). entries t) kts))"
  using assms
proof (induction kts)
  case (Cons a kts)
  obtain k t where a: "a = (k, t)" by (cases a)
  have IH: "filter P (concat (map (\<lambda>(k, t). g t) (picked (pick_oid (Some target)) kts)))
    = filter P (concat (map (\<lambda>(k, t). entries t) kts))"
  proof (rule Cons.IH)
    show "filter P (g t) = filter P (entries t)" if "(k, t) \<in> set kts" for k t
      using Cons.prems(1) [of k t] that by simp
    show "key_oid k \<le> target" if "(k, t) \<in> set kts" "e \<in> set (entries t)" "P e" for k t e
      using Cons.prems(2) [of k t e] that by simp
  qed (use Cons.prems(3) in simp)
  have "filter P (entries t) = []"
    if "\<not> child_may_contain_oid (key_oid k) (case kts of [] \<Rightarrow> None | (k', _) # _ \<Rightarrow> Some (key_oid k')) target"
    unfolding filter_empty_conv
  proof (intro ballI notI)
    fix e assume e: "e \<in> set (entries t)" "P e"
    then have "key_oid k \<le> target" using Cons.prems(2) [of k t e] a by simp
    moreover have "target \<le> key_oid k'" if "kts = (k', t') # r" for k' t' r
      using Cons.prems(3) e a that by auto
    ultimately show False
      using that by (auto simp: child_may_contain_oid_def split: list.splits)
  qed
  with IH Cons.prems(1) [of k t] show ?case by (simp add: a picked_Cons)
qed (simp add: picked_def)

lemma prune_keeps:
  assumes "ordered f t" and mono: "\<And>k k'. f k \<le> f k' \<Longrightarrow> key_oid k \<le> key_oid k'"
  shows "filter (\<lambda>e. key_oid (fst e) = target) (entries (prune (pick_oid (Some target)) t))
    = filter (\<lambda>e. key_oid (fst e) = target) (entries t)"
  using assms(1)
proof (induction t rule: ids.induct)
  case (2 p kts)
  have "picked (pick_oid (Some target)) (map (\<lambda>(k, t). (k, prune (pick_oid (Some target)) t)) kts)
      = map (\<lambda>(k, t). (k, prune (pick_oid (Some target)) t)) (picked (pick_oid (Some target)) kts)"
    by (rule picked_map) auto
  moreover have "filter (\<lambda>e. key_oid (fst e) = target)
      (concat (map (\<lambda>(k, t). entries (prune (pick_oid (Some target)) t)) (picked (pick_oid (Some target)) kts)))
    = filter (\<lambda>e. key_oid (fst e) = target) (concat (map (\<lambda>(k, t). entries t) kts))"
  proof (rule filter_concat_picked)
    show "sorted_wrt (\<lambda>a b. \<forall>e\<in>set (entries (snd a)). key_oid (fst e) = target \<longrightarrow> target \<le> key_oid (fst b)) kts"
    proof (rule sorted_wrt_mono_rel)
      show "sorted_wrt (\<lambda>a b. \<forall>e\<in>set (entries (snd a)). f (fst e) < f (fst b)) kts" using 2(2) by simp
    qed (use mono less_imp_le in blast)
    show "key_oid k \<le> target"
      if "(k, t) \<in> set kts" "e \<in> set (entries t)" "key_oid (fst e) = target" for k t e
      using mono [OF ordered_child(4) [OF 2(2) that(1,2)]] that(3) by simp
  qed (use 2 in \<open>auto simp: list_all_iff\<close>)
  ultimately show ?case by (simp add: comp_def case_prod_unfold)
qed simp

subsection \<open>Stored file-system trees\<close>

text \<open>
  The image holds the abstract tree \<open>t\<close> as the volume's file-system tree: the object map at
  the volume's address parses and verifies, and under it the nodes load as those of \<open>t\<close>.
\<close>

definition fs_stored :: "crypto \<Rightarrow> reader \<Rightarrow> apfs_volume \<Rightarrow> nat \<Rightarrow> tree \<Rightarrow> bool" where
  "fs_stored cr rd volume block_size t \<longleftrightarrow>
     (case read_block_sat rd (vol_omap_oid volume) block_size of
        Inl e \<Rightarrow> False
      | Inr buf \<Rightarrow>
          (case object_map_parse buf of
             Inl e \<Rightarrow> False
           | Inr omap \<Rightarrow>
               shown (\<lambda>_. load_virtual cr rd omap (vol_vek volume) (vol_xid volume) block_size) pick_all 0 t))
     \<and> root_id t = vol_root_tree_oid volume \<and> height t \<le> 64 \<and> distinct (ids t)"

lemma walk_fs_tree_fold:
  assumes "walk_fs_tree cr rd volume block_size target visit s = Inr r"
  shows "\<exists>es. r = fold (\<lambda>(k, v). visit k v) es s"
  using assms virt.walk_sound
  by (fastforce simp: walk_fs_tree_def split: sum.splits)

lemma walk_fs_tree_stored:
  assumes "fs_stored cr rd volume block_size t"
  shows "walk_fs_tree cr rd volume block_size target visit s
    = Inr (fold (\<lambda>(k, v). visit k v) (entries (prune (pick_oid target) t)) s)"
proof -
  obtain buf omap where b: "read_block_sat rd (vol_omap_oid volume) block_size = Inr buf"
      "object_map_parse buf = Inr omap"
    and t: "shown (\<lambda>_. load_virtual cr rd omap (vol_vek volume) (vol_xid volume) block_size) pick_all 0 t"
      "root_id t = vol_root_tree_oid volume" "height t + 0 \<le> MAX_FSTREE_DEPTH" "distinct (ids t)"
    using assms by (auto simp: fs_stored_def MAX_FSTREE_DEPTH_def split: sum.splits)
  have d: "distinct (ids (prune (pick_oid target) t))"
    by (rule subseq_distinct [OF ids_prune t(4)])
  show ?thesis
    using virt.walk_shown [OF shown_prune [OF t(1)] height_prune [OF t(3)] d,
        where visited = "{}" and visit = visit and s = s] b
    by (simp add: walk_fs_tree_def t(2))
qed

lemma prune_all [simp]: "prune pick_all t = t"
proof (induction t rule: ids.induct)
  case (2 p kts)
  then have "map (\<lambda>(k, t). (k, prune pick_all t)) kts = kts" by (intro map_idI) auto
  then show ?case by simp
qed simp

text \<open>Any total order of the full keys whose leading component is the object id.\<close>

definition oid_major :: "(bytes \<Rightarrow> 'k::linorder) \<Rightarrow> bool" where
  "oid_major f \<longleftrightarrow> (\<forall>k k'. f k \<le> f k' \<longrightarrow> key_oid k \<le> key_oid k')"

definition records_of :: "tree \<Rightarrow> u64 \<Rightarrow> entry list" where
  "records_of t oid = filter (\<lambda>e. key_oid (fst e) = oid) (entries t)"

lemma keyed_walk_records:
  assumes "fs_stored cr rd volume block_size t" "ordered f t" "oid_major f"
    and "\<And>k v s. key_oid k \<noteq> oid \<Longrightarrow> visit k v s = s"
  shows "for_each_fs_record_for_oid cr rd volume block_size oid visit s
    = Inr (fold (\<lambda>(k, v). visit k v) (records_of t oid) s)"
proof -
  have "fold (\<lambda>(k, v). visit k v) (filter (\<lambda>e. key_oid (fst e) = oid) es) s
      = fold (\<lambda>(k, v). visit k v) es s" for es
    by (rule fold_filter_skip) (use assms(4) in auto)
  from this [of "entries (prune (pick_oid (Some oid)) t)"] show ?thesis
    using prune_keeps [OF assms(2), of oid] assms(3)
    by (simp add: for_each_fs_record_for_oid_def walk_fs_tree_stored [OF assms(1)] records_of_def oid_major_def)
qed

text \<open>
  C1. The keyed walk of the file-system tree, which descends only the children whose key range
  can cover the object id, delivers exactly what a walk of the whole tree delivers to a visitor
  that acts on the records of that object only: all of them, in tree order, each once.
\<close>

theorem keyed_walk_complete:
  assumes "fs_stored cr rd volume block_size t" "ordered f t" "oid_major f"
    and "\<And>k v s. key_oid k \<noteq> oid \<Longrightarrow> visit k v s = s"
  shows "for_each_fs_record_for_oid cr rd volume block_size oid visit s
      = walk_fs_tree cr rd volume block_size None visit s
    \<and> for_each_fs_record_for_oid cr rd volume block_size oid visit s
      = Inr (fold (\<lambda>(k, v). visit k v) (records_of t oid) s)"
proof -
  have "fold (\<lambda>(k, v). visit k v) (filter (\<lambda>e. key_oid (fst e) = oid) (entries t)) s
      = fold (\<lambda>(k, v). visit k v) (entries t) s"
    by (rule fold_filter_skip) (use assms(4) in auto)
  then show ?thesis
    by (simp add: keyed_walk_records [OF assms] walk_fs_tree_stored [OF assms(1)] records_of_def)
qed

subsection \<open>Navigation over stored trees\<close>

text \<open>The directory, name and inode views of an abstract tree.\<close>

definition dir_listing :: "tree \<Rightarrow> u64 \<Rightarrow> dir_entry list" where
  "dir_listing t parent =
     List.map_filter (\<lambda>(k, v). if key_type k = Some DirRec then parse_dir_entry k v else None) (records_of t parent)"

definition child_named :: "tree \<Rightarrow> u64 \<Rightarrow> rust_string \<Rightarrow> u64 option" where
  "child_named t parent name = map_option de_file_id (find (\<lambda>e. de_name e = name) (dir_listing t parent))"

definition inode_value :: "tree \<Rightarrow> u64 \<Rightarrow> bytes option" where
  "inode_value t oid = map_option snd (find (\<lambda>e. key_type (fst e) = Some Inode) (records_of t oid))"

primrec namei :: "tree \<Rightarrow> rust_string list \<Rightarrow> u64 \<Rightarrow> u64 + u64" where
  "namei t [] current = Inr current"
| "namei t (component # rest) current =
     (case child_named t current component of None \<Rightarrow> Inl current | Some child \<Rightarrow> namei t rest child)"

lemma records_of_oid: "\<forall>e\<in>set (records_of t oid). key_oid (fst e) = oid"
  by (simp add: records_of_def)

lemma fold_list_dir:
  assumes "\<forall>e\<in>set es. key_oid (fst e) = parent"
  shows "fold (\<lambda>(k, v). list_dir_visit parent k v) es out
    = out @ List.map_filter (\<lambda>(k, v). if key_type k = Some DirRec then parse_dir_entry k v else None) es"
  using assms
  by (induction es arbitrary: out)
    (auto simp: list_dir_visit_def List.map_filter_simps split: option.splits if_splits)

lemma list_dir_stored:
  assumes "fs_stored cr rd volume block_size t" "ordered f t" "oid_major f"
  shows "list_dir cr rd volume parent block_size = Inr (dir_listing t parent)"
proof -
  have "for_each_fs_record_for_oid cr rd volume block_size parent (list_dir_visit parent) []
      = Inr (fold (\<lambda>(k, v). list_dir_visit parent k v) (records_of t parent) [])"
    by (rule keyed_walk_records [OF assms]) (simp add: list_dir_visit_def)
  then show ?thesis
    by (simp add: list_dir_def fold_list_dir [OF records_of_oid] dir_listing_def)
qed

lemma fold_lookup_Some: "fold (\<lambda>(k, v). lookup_visit parent name k v) es (Some x) = Some x"
  by (induction es) (auto simp: lookup_visit_def)

lemma fold_lookup:
  assumes "\<forall>e\<in>set es. key_oid (fst e) = parent"
  shows "fold (\<lambda>(k, v). lookup_visit parent name k v) es None
    = map_option de_file_id (find (\<lambda>e. de_name e = name)
        (List.map_filter (\<lambda>(k, v). if key_type k = Some DirRec then parse_dir_entry k v else None) es))"
  using assms
proof (induction es)
  case (Cons e es)
  obtain k v where e: "e = (k, v)" by (cases e)
  have "lookup_visit parent name k v None =
      (case if key_type k = Some DirRec then parse_dir_entry k v else None of
         None \<Rightarrow> None | Some d \<Rightarrow> if de_name d = name then Some (de_file_id d) else None)"
    using Cons.prems e by (auto simp: lookup_visit_def split: option.splits)
  with Cons show ?case
    by (auto simp: e fold_lookup_Some List.map_filter_simps split: option.splits if_splits)
qed (simp add: List.map_filter_simps)

lemma lookup_child_stored:
  assumes "fs_stored cr rd volume block_size t" "ordered f t" "oid_major f"
  shows "lookup_child cr rd volume parent name block_size = Inr (child_named t parent name)"
proof -
  have "for_each_fs_record_for_oid cr rd volume block_size parent (lookup_visit parent name) None
      = Inr (fold (\<lambda>(k, v). lookup_visit parent name k v) (records_of t parent) None)"
    by (rule keyed_walk_records [OF assms]) (simp add: lookup_visit_def)
  then show ?thesis
    by (simp add: lookup_child_def fold_lookup [OF records_of_oid] child_named_def dir_listing_def)
qed

lemma fold_inode_Some: "fold (\<lambda>(k, v). inode_visit oid k v) es (Some x) = Some x"
  by (induction es) (auto simp: inode_visit_def)

lemma fold_inode:
  assumes "\<forall>e\<in>set es. key_oid (fst e) = oid"
  shows "fold (\<lambda>(k, v). inode_visit oid k v) es None
    = map_option snd (find (\<lambda>e. key_type (fst e) = Some Inode) es)"
  using assms by (induction es) (auto simp: inode_visit_def fold_inode_Some)

lemma load_inode_stored:
  assumes "fs_stored cr rd volume block_size t" "ordered f t" "oid_major f"
  shows "load_inode cr rd volume oid block_size =
    (case inode_value t oid of None \<Rightarrow> Inl (OmapUnresolved oid (vol_xid volume)) | Some v \<Rightarrow> inode_parse oid v)"
proof -
  have "for_each_fs_record_for_oid cr rd volume block_size oid (inode_visit oid) None
      = Inr (fold (\<lambda>(k, v). inode_visit oid k v) (records_of t oid) None)"
    by (rule keyed_walk_records [OF assms]) (auto simp: inode_visit_def)
  then show ?thesis
    by (simp add: load_inode_def fold_inode [OF records_of_oid] inode_value_def
        split: option.splits)
qed

lemma resolve_components_stored:
  assumes "fs_stored cr rd volume block_size t" "ordered f t" "oid_major f"
  shows "resolve_components cr rd volume block_size cs current =
    (case namei t cs current of Inl o' \<Rightarrow> Inl (OmapUnresolved o' (vol_xid volume)) | Inr o' \<Rightarrow> Inr o')"
  by (induction cs arbitrary: current)
    (auto simp: lookup_child_stored [OF assms] split: option.splits)

lemma open_path_stored:
  assumes "fs_stored cr rd volume block_size t" "ordered f t" "oid_major f"
  shows "open_path cr rd volume path block_size =
    (case namei t (path_components path) ROOT_DIR_INO_NUM of
       Inl missing \<Rightarrow> Inl (OmapUnresolved missing (vol_xid volume))
     | Inr oid \<Rightarrow>
         (case inode_value t oid of
            None \<Rightarrow> Inl (OmapUnresolved oid (vol_xid volume))
          | Some v \<Rightarrow> inode_parse oid v))"
  by (simp add: open_path_def resolve_components_stored [OF assms] load_inode_stored [OF assms]
      split: sum.splits)

text \<open>
  C21. Looking a name up in a directory gives the file id of the first entry of that name in
  the directory's listing, and nothing when the listing has no such entry; both see every
  directory record of the parent, wherever in the tree it is stored.
\<close>

theorem lookup_child_matches_listing:
  assumes "fs_stored cr rd volume block_size t" "ordered f t" "oid_major f"
  shows "\<exists>es. list_dir cr rd volume parent block_size = Inr es \<and> es = dir_listing t parent
    \<and> lookup_child cr rd volume parent name block_size
      = Inr (map_option de_file_id (find (\<lambda>e. de_name e = name) es))"
  by (simp add: list_dir_stored [OF assms] lookup_child_stored [OF assms] child_named_def)

text \<open>
  C7. Opening a path implements name resolution over the abstract tree: the components are
  looked up one after the other from the root directory, a missing component is reported with
  the directory it is missing from, and the inode record of the last object is parsed.
\<close>

theorem open_path_resolves:
  assumes "fs_stored cr rd volume block_size t" "ordered f t" "oid_major f"
  shows "open_path cr rd volume path block_size =
    (case namei t (path_components path) ROOT_DIR_INO_NUM of
       Inl missing \<Rightarrow> Inl (OmapUnresolved missing (vol_xid volume))
     | Inr oid \<Rightarrow>
         (case inode_value t oid of
            None \<Rightarrow> Inl (OmapUnresolved oid (vol_xid volume))
          | Some v \<Rightarrow> inode_parse oid v))"
  by (rule open_path_stored [OF assms])

subsection \<open>Directory keys and paths round trip\<close>

definition enc_drec_key :: "u64 \<Rightarrow> rust_string \<Rightarrow> bytes" where
  "enc_drec_key parent name =
     to_le 8 (enc_jkey parent DirRec) @ to_le 2 (of_nat (Suc (length name)) :: u16) @ name @ [0]"

definition enc_drec_hashed_key :: "u64 \<Rightarrow> u32 \<Rightarrow> rust_string \<Rightarrow> bytes" where
  "enc_drec_hashed_key parent hash name =
     to_le 8 (enc_jkey parent DirRec)
     @ to_le 4 (of_nat (Suc (length name)) OR push_bit 10 hash :: u32) @ name @ [0]"

definition enc_drec_val :: "u64 \<Rightarrow> u64 \<Rightarrow> u16 \<Rightarrow> bytes" where
  "enc_drec_val file_id date_added flags = to_le 8 file_id @ to_le 8 date_added @ to_le 2 flags"

lemma hashed_len_mask:
  assumes "n < 2 ^ 10"
  shows "unat ((of_nat n OR push_bit 10 h :: u32) AND J_DREC_LEN_MASK) = n"
proof -
  have "(of_nat n OR push_bit 10 h :: u32) AND J_DREC_LEN_MASK = take_bit 10 (of_nat n OR push_bit 10 h)"
    by (simp add: J_DREC_LEN_MASK_def take_bit_eq_mask mask_eq_exp_minus_1)
  also have "\<dots> = take_bit 10 (of_nat n)"
    by (rule bit_word_eqI) (auto simp: bit_simps)
  finally show ?thesis
    using assms by (simp add: unsigned_take_bit_eq unat_of_nat take_bit_nat_eq_self)
qed

lemma decode_drec_hashed:
  assumes "utf8_valid n" "0 \<notin> set n" "length n < 1023"
  shows "decode_drec_name (enc_drec_hashed_key parent h n) = Some n"
proof -
  let ?key = "enc_drec_hashed_key parent h n"
  have "le_u32 ?key 8 = of_nat (Suc (length n)) OR push_bit 10 h"
    by (simp add: enc_drec_hashed_key_def le_u32_def arr_fields)
  moreover have "get_range ?key 12 (12 + Suc (length n)) = Some (n @ [0])"
    by (simp add: enc_drec_hashed_key_def get_range_def)
  ultimately show ?thesis
    using hashed_len_mask [of "Suc (length n)" h] assms
    by (simp add: decode_drec_name_def decode_cstr_terminated)
qed

lemma le_int_append: "le_int (xs @ ys) = le_int xs + 256 ^ length xs * le_int ys"
  by (induction xs) (simp_all add: algebra_simps)

lemma le_u32_low_bits:
  assumes "off + 4 \<le> length data"
  shows "le_u32 data off AND J_DREC_LEN_MASK = ucast (le_u16 data off) AND J_DREC_LEN_MASK"
proof -
  have "arr 4 data off = arr 2 data off @ arr 2 data (off + 2)"
    using assms take_add [of 2 2 "drop off data"] by (simp add: arr_in_range add.commute)
  moreover have "length (arr 2 data off) = 2" using assms by (simp add: arr_in_range)
  ultimately have "uint (le_u32 data off) = uint (le_u16 data off) + 2 ^ 16 * le_int (arr 2 data (off + 2))"
    using assms by (simp add: le_u32_def le_u16_def uint_le_word le_int_append arr_in_range)
  then have "take_bit 10 (uint (le_u32 data off)) = take_bit 10 (uint (le_u16 data off))"
    using mod_mult_self1 [of "uint (le_u16 data off)" "64 * le_int (arr 2 data (off + 2))" 1024]
    by (simp add: take_bit_eq_mod mult.assoc [symmetric])
  then have "uint (take_bit 10 (le_u32 data off)) = uint (take_bit 10 (ucast (le_u16 data off) :: u32))"
    by (simp add: unsigned_take_bit_eq unsigned_ucast_eq)
  then have "take_bit 10 (le_u32 data off) = take_bit 10 (ucast (le_u16 data off))"
    by (rule unsigned_word_eqI)
  then show ?thesis
    by (simp add: J_DREC_LEN_MASK_def take_bit_eq_mask mask_eq_exp_minus_1)
qed

lemma ucast_of_nat_u16: "n < 2 ^ 16 \<Longrightarrow> ucast (of_nat n :: u16) = (of_nat n :: u32)"
  by (metis of_nat_unat unat_of_nat_u16)

lemma decode_drec_plain:
  assumes "utf8_valid n" "0 \<notin> set n" "length n < 1023"
  shows "decode_drec_name (enc_drec_key parent n) = Some n"
proof -
  let ?key = "enc_drec_key parent n"
  have len: "length ?key = 11 + length n" by (simp add: enc_drec_key_def)
  have l16: "le_u16 ?key 8 = of_nat (Suc (length n))"
    by (simp add: enc_drec_key_def le_u16_def arr_fields)
  have "get_range ?key 10 (10 + Suc (length n)) = Some (n @ [0])"
    by (simp add: enc_drec_key_def get_range_def)
  then have un: "decode_drec_unhashed ?key = Some n"
    using l16 assms by (simp add: decode_drec_unhashed_def decode_cstr_terminated unat_of_nat_u16 del: of_nat_Suc)
  show ?thesis
  proof (cases "n = []")
    case True
    then have "le_u32 ?key 8 = 0" using len by (simp add: le_reads_out_of_range)
    then show ?thesis using un by (simp add: decode_drec_name_def)
  next
    case False
    then have "1 \<le> length n" by (cases n) auto
    then have "unat (le_u32 ?key 8 AND J_DREC_LEN_MASK) = Suc (length n)"
      using hashed_len_mask [of "Suc (length n)" 0] len l16 assms
      by (simp add: le_u32_low_bits ucast_of_nat_u16 del: of_nat_Suc)
    moreover have "get_range ?key 12 (12 + Suc (length n)) = None" using len by (simp add: get_range_def)
    ultimately show ?thesis using un by (simp add: decode_drec_name_def)
  qed
qed

text \<open>
  C33. The structural detection of the two directory-key forms is right on every key either form
  produces: a name of up to 1022 bytes written in an unhashed key or in a hashed key, with any
  hash, is decoded as written.
\<close>

theorem drec_name_round_trip:
  assumes "utf8_valid n" "0 \<notin> set n" "length n < 1023"
  shows "decode_drec_name (enc_drec_key parent n) = Some n
    \<and> decode_drec_name (enc_drec_hashed_key parent hash n) = Some n"
  using decode_drec_plain [OF assms] decode_drec_hashed [OF assms] by blast

theorem drec_name_round_trip_witness:
  "decode_drec_name (enc_drec_key 2 [0x61, 0xc3, 0xa9]) = Some [0x61, 0xc3, 0xa9]
   \<and> decode_drec_name (enc_drec_hashed_key 2 0x2abcde [0x61, 0xc3, 0xa9]) = Some [0x61, 0xc3, 0xa9]"
  by (rule drec_name_round_trip)
    (simp_all add: utf8_step_def safe_get_def is_cont_def utf8_char_width_def)

text \<open>A path written with any slashes in front of each component splits into its components.\<close>

lemma split_slash_ne [simp]: "split_slash cs \<noteq> []"
  by (induction cs) (auto split: list.splits)

lemma split_slash_word:
  "0x2F \<notin> set w \<Longrightarrow> split_slash (w @ 0x2F # cs) = w # split_slash cs"
  "0x2F \<notin> set w \<Longrightarrow> split_slash w = [w]"
  by (induction w) auto

definition enc_path :: "rust_string list \<Rightarrow> rust_string" where
  "enc_path cs = concat (map (\<lambda>c. 0x2F # c) cs)"

lemma enc_path_Cons: "enc_path (c # cs) = 0x2F # c @ enc_path cs"
  by (simp add: enc_path_def)

lemma path_components_enc:
  "list_all (\<lambda>c. c \<noteq> [] \<and> 0x2F \<notin> set c) cs \<Longrightarrow> path_components (enc_path cs) = cs"
proof (induction cs)
  case (Cons c cs)
  have "filter (\<lambda>c. c \<noteq> []) (split_slash (c @ enc_path cs)) = c # path_components (enc_path cs)"
  proof (cases cs)
    case Nil
    then show ?thesis using Cons.prems by (simp add: enc_path_def path_components_def split_slash_word)
  next
    case (Cons c' cs')
    then show ?thesis
      using \<open>list_all _ (c # cs)\<close> by (simp add: enc_path_Cons path_components_def split_slash_word)
  qed
  with Cons show ?case by (simp add: enc_path_Cons path_components_def)
qed (simp add: enc_path_def path_components_def)

end
