(* ===== verification/Snapshot.thy ===== *)
theory Snapshot
  imports Dir "HOL-Library.Multiset"
begin

text \<open>
  \<^verbatim>\<open>core/src/snapshot.rs\<close>: the snapshot-metadata tree, whose root is addressed by block and whose
  other nodes are virtual, the listing of snapshots, the resolution of a snapshot name and the
  mounting of a snapshot (its frozen superblock with the live object map grafted on). The
  descent is a third instance of the walk contract. The main result is that a mounted snapshot
  reads the volume as it stood: later transactions of the object map are invisible to it.
\<close>

subsection \<open>Layout and records\<close>

definition OBJECT_SUBTYPE_SNAPMETATREE :: u32 where [layout_defs]: "OBJECT_SUBTYPE_SNAPMETATREE = 0x10"
definition OFF_SNAP_NAME_KEY_LEN :: nat where [layout_defs]: "OFF_SNAP_NAME_KEY_LEN = 8"
definition OFF_SNAP_NAME_KEY_NAME :: nat where [layout_defs]: "OFF_SNAP_NAME_KEY_NAME = 10"
definition OFF_SNAP_EXTENTREF_TREE_OID :: nat where [layout_defs]: "OFF_SNAP_EXTENTREF_TREE_OID = 0"
definition OFF_SNAP_SBLOCK_OID :: nat where [layout_defs]: "OFF_SNAP_SBLOCK_OID = 8"
definition OFF_SNAP_CREATE_TIME :: nat where [layout_defs]: "OFF_SNAP_CREATE_TIME = 16"
definition OFF_SNAP_CHANGE_TIME :: nat where [layout_defs]: "OFF_SNAP_CHANGE_TIME = 24"
definition OFF_SNAP_INUM :: nat where [layout_defs]: "OFF_SNAP_INUM = 32"
definition OFF_SNAP_FLAGS :: nat where [layout_defs]: "OFF_SNAP_FLAGS = 44"
definition OFF_SNAP_NAME_LEN :: nat where [layout_defs]: "OFF_SNAP_NAME_LEN = 48"
definition OFF_SNAP_NAME :: nat where [layout_defs]: "OFF_SNAP_NAME = 50"
definition MAX_SNAP_TREE_DEPTH :: nat where [layout_defs]: "MAX_SNAP_TREE_DEPTH = 64"
definition MAX_SNAP_NAME_LEN :: nat where [layout_defs]: "MAX_SNAP_NAME_LEN = 4096"

record snapshot =
  ss_xid :: u64
  ss_name :: rust_string
  ss_create_time :: u64
  ss_change_time :: u64
  ss_sblock_oid :: u64
  ss_extentref_tree_oid :: u64
  ss_inum :: u64
  ss_flags :: u32

definition parse_snap_metadata :: "u64 \<Rightarrow> bytes \<Rightarrow> snapshot" where
  "parse_snap_metadata xid val =
     (let name_len = min (unat (le_u16 val OFF_SNAP_NAME_LEN)) MAX_SNAP_NAME_LEN;
          name = (case get_range val OFF_SNAP_NAME (OFF_SNAP_NAME + name_len) of
                    None \<Rightarrow> [] | Some field \<Rightarrow> decode_cstr field)
      in \<lparr> ss_xid = xid, ss_name = name,
           ss_create_time = le_u64 val OFF_SNAP_CREATE_TIME,
           ss_change_time = le_u64 val OFF_SNAP_CHANGE_TIME,
           ss_sblock_oid = le_u64 val OFF_SNAP_SBLOCK_OID,
           ss_extentref_tree_oid = le_u64 val OFF_SNAP_EXTENTREF_TREE_OID,
           ss_inum = le_u64 val OFF_SNAP_INUM,
           ss_flags = le_u32 val OFF_SNAP_FLAGS \<rparr>)"

definition decode_snap_name_key :: "bytes \<Rightarrow> rust_string option" where
  "decode_snap_name_key key =
     (let name_len = min (unat (le_u16 key OFF_SNAP_NAME_KEY_LEN)) MAX_SNAP_NAME_LEN
      in if name_len = 0 then None
         else map_option decode_cstr
                (get_range key OFF_SNAP_NAME_KEY_NAME (OFF_SNAP_NAME_KEY_NAME + name_len)))"

definition snap_meta_tree_subtype :: u32 where
  "snap_meta_tree_subtype = OBJECT_SUBTYPE_SNAPMETATREE"

subsection \<open>The descent\<close>

text \<open>
  The root is read at its block address, any other node at the address the object map gives;
  the block must verify.
\<close>

definition read_snap_node :: "reader \<Rightarrow> object_map \<Rightarrow> u64 \<Rightarrow> nat \<Rightarrow> bool \<Rightarrow> u64 \<Rightarrow> bytes res" where
  "read_snap_node rd omap xid block_size at_root node_oid =
     (case (if at_root then Inr node_oid
            else map_sum id oe_paddr (resolve omap rd node_oid xid block_size)) of
        Inl e \<Rightarrow> Inl e
      | Inr paddr \<Rightarrow>
          (case read_block_sat rd paddr block_size of
             Inl e \<Rightarrow> Inl e
           | Inr buf \<Rightarrow>
               let stored = fletcher64_stored buf; computed = fletcher64_checksum buf
               in if stored \<noteq> computed
                  then Inl (ChecksumMismatch
                         (case obj_phys_parse buf of None \<Rightarrow> paddr | Some h \<Rightarrow> o_oid h) stored computed)
                  else Inr buf))"

function descend_snap :: "reader \<Rightarrow> object_map \<Rightarrow> u64 \<Rightarrow> nat \<Rightarrow> (bytes \<Rightarrow> bytes \<Rightarrow> 's \<Rightarrow> 's) \<Rightarrow> bool \<Rightarrow> nat \<Rightarrow>
    u64 set \<Rightarrow> u64 \<Rightarrow> 's \<Rightarrow> (u64 set \<times> 's) res"
  and descend_snap_children :: "reader \<Rightarrow> object_map \<Rightarrow> u64 \<Rightarrow> nat \<Rightarrow> (bytes \<Rightarrow> bytes \<Rightarrow> 's \<Rightarrow> 's) \<Rightarrow> nat \<Rightarrow>
    u64 set \<Rightarrow> u64 list \<Rightarrow> 's \<Rightarrow> (u64 set \<times> 's) res" where
  "descend_snap rd omap xid block_size visit at_root depth visited node_oid s =
     (if depth \<ge> MAX_SNAP_TREE_DEPTH then Inl (CycleGuard MAX_SNAP_TREE_DEPTH)
      else if node_oid \<in> visited then Inl (CycleGuard MAX_SNAP_TREE_DEPTH)
      else case read_snap_node rd omap xid block_size at_root node_oid of
             Inl e \<Rightarrow> Inl e
           | Inr buf \<Rightarrow>
               (case parse_node_header buf of
                  None \<Rightarrow> Inr (insert node_oid visited, s)
                | Some hdr \<Rightarrow>
                    if is_leaf hdr
                    then Inr (insert node_oid visited,
                              fold (\<lambda>(k, v). visit k v) (node_entries buf FsTree) s)
                    else descend_snap_children rd omap xid block_size visit (depth + 1)
                           (insert node_oid visited)
                           (map (\<lambda>(k, v). le_u64 v 0) (node_entries buf FsTree)) s))"
| "descend_snap_children rd omap xid block_size visit depth visited [] s = Inr (visited, s)"
| "descend_snap_children rd omap xid block_size visit depth visited (child # children) s =
     (case descend_snap rd omap xid block_size visit False depth visited child s of
        Inl e \<Rightarrow> Inl e
      | Inr (visited', s') \<Rightarrow> descend_snap_children rd omap xid block_size visit depth visited' children s')"
  by pat_completeness auto
termination
  by (relation "measures [case_sum (\<lambda>(_, _, _, _, _, _, d, _). MAX_SNAP_TREE_DEPTH - d)
                                   (\<lambda>(_, _, _, _, _, d, _). MAX_SNAP_TREE_DEPTH - d),
                          case_sum (\<lambda>_. 0) (\<lambda>(_, _, _, _, _, _, _, cs, _). Suc (length cs))]")
    auto

declare descend_snap.simps [simp del]

definition for_each_snap_record :: "reader \<Rightarrow> apfs_volume \<Rightarrow> nat \<Rightarrow> (bytes \<Rightarrow> bytes \<Rightarrow> 's \<Rightarrow> 's) \<Rightarrow> 's \<Rightarrow> 's res" where
  "for_each_snap_record rd volume block_size visit s =
     (case read_block_sat rd (vol_omap_oid volume) block_size of
        Inl e \<Rightarrow> Inl e
      | Inr buf \<Rightarrow>
          (case object_map_parse buf of
             Inl e \<Rightarrow> Inl e
           | Inr omap \<Rightarrow>
               (case descend_snap rd omap (vol_xid volume) block_size visit True 0 {}
                       (vol_snap_meta_tree_oid volume) s of
                  Inl e \<Rightarrow> Inl e
                | Inr (_, s') \<Rightarrow> Inr s')))"

subsection \<open>Listing, naming, mounting\<close>

definition snap_visit :: "bytes \<Rightarrow> bytes \<Rightarrow> snapshot list \<Rightarrow> snapshot list" where
  "snap_visit key val out =
     (if key_type key = Some SnapMetadata then out @ [parse_snap_metadata (key_oid key) val] else out)"

definition list_snapshots :: "reader \<Rightarrow> apfs_volume \<Rightarrow> nat \<Rightarrow> snapshot list res" where
  "list_snapshots rd volume block_size =
     map_sum id (sort_key ss_xid) (for_each_snap_record rd volume block_size snap_visit [])"

definition snap_name_visit :: "rust_string \<Rightarrow> bytes \<Rightarrow> bytes \<Rightarrow> u64 option \<Rightarrow> u64 option" where
  "snap_name_visit name key val found =
     (if found \<noteq> None then found
      else if key_type key \<noteq> Some SnapName then found
      else if decode_snap_name_key key = Some name then Some (le_u64 val 0)
      else found)"

definition resolve_snapshot_xid :: "reader \<Rightarrow> apfs_volume \<Rightarrow> rust_string \<Rightarrow> nat \<Rightarrow> u64 option res" where
  "resolve_snapshot_xid rd volume name block_size =
     for_each_snap_record rd volume block_size (snap_name_visit name) None"

definition mount_snapshot :: "reader \<Rightarrow> apfs_volume \<Rightarrow> snapshot \<Rightarrow> nat \<Rightarrow> apfs_volume res" where
  "mount_snapshot rd live_volume snap block_size =
     (case read_block_sat rd (ss_sblock_oid snap) block_size of
        Inl e \<Rightarrow> Inl e
      | Inr buf \<Rightarrow> map_sum id (with_omap_oid (vol_omap_oid live_volume)) (apfs_volume_parse buf))"

subsection \<open>The descent as a tree walk\<close>

definition load_snap :: "reader \<Rightarrow> object_map \<Rightarrow> u64 \<Rightarrow> nat \<Rightarrow> nat \<Rightarrow> u64 \<Rightarrow> node res" where
  "load_snap rd omap xid block_size depth node_oid =
     map_sum id node_of_block (read_snap_node rd omap xid block_size (depth = 0) node_oid)"

interpretation snap: tree_walk
  "load_snap rd omap xid block_size" pick_all "\<lambda>(k, v). visit k v" MAX_SNAP_TREE_DEPTH
  "\<lambda>d. descend_snap rd omap xid block_size visit (d = 0) d"
  "descend_snap_children rd omap xid block_size visit"
  for rd omap xid block_size visit
proof (unfold_locales, goal_cases)
  case (1 d visited p s)
  show ?case
    by (subst descend_snap.simps)
      (auto simp: load_snap_def node_of_block_def comp_def case_prod_unfold split: sum.splits option.splits)
qed simp_all

definition snap_stored :: "reader \<Rightarrow> apfs_volume \<Rightarrow> nat \<Rightarrow> tree \<Rightarrow> bool" where
  "snap_stored rd volume block_size t \<longleftrightarrow>
     (case read_block_sat rd (vol_omap_oid volume) block_size of
        Inl e \<Rightarrow> False
      | Inr buf \<Rightarrow>
          (case object_map_parse buf of
             Inl e \<Rightarrow> False
           | Inr omap \<Rightarrow> shown (load_snap rd omap (vol_xid volume) block_size) pick_all 0 t))
     \<and> root_id t = vol_snap_meta_tree_oid volume \<and> height t \<le> 64 \<and> distinct (ids t)"

lemma for_each_snap_record_iff:
  "for_each_snap_record rd volume block_size visit s = Inr r \<longleftrightarrow>
     (\<exists>t. snap_stored rd volume block_size t \<and> r = fold (\<lambda>(k, v). visit k v) (entries t) s)"
proof (cases "read_block_sat rd (vol_omap_oid volume) block_size")
  case (Inr buf)
  show ?thesis
  proof (cases "object_map_parse buf")
    case (Inr omap)
    note w = snap.walk_iff [of rd omap "vol_xid volume" block_size visit 0 "{}" "vol_snap_meta_tree_oid volume" s]
    have "for_each_snap_record rd volume block_size visit s = Inr r \<longleftrightarrow>
        (\<exists>v. descend_snap rd omap (vol_xid volume) block_size visit True 0 {} (vol_snap_meta_tree_oid volume) s
           = Inr (v, r))"
      using \<open>read_block_sat _ _ _ = _\<close> Inr by (auto simp: for_each_snap_record_def split: sum.splits)
    with w show ?thesis
      using \<open>read_block_sat _ _ _ = _\<close> Inr by (auto simp: snap_stored_def MAX_SNAP_TREE_DEPTH_def)
  qed (use Inr in \<open>simp add: for_each_snap_record_def snap_stored_def\<close>)
qed (simp add: for_each_snap_record_def snap_stored_def)

lemma for_each_snap_record_stored:
  "snap_stored rd volume block_size t \<Longrightarrow>
     for_each_snap_record rd volume block_size visit s = Inr (fold (\<lambda>(k, v). visit k v) (entries t) s)"
  by (auto simp: for_each_snap_record_iff)

subsection \<open>What the listing and the name lookup return\<close>

definition snaps_of :: "tree \<Rightarrow> snapshot list" where
  "snaps_of t = map (\<lambda>(k, v). parse_snap_metadata (key_oid k) v)
     (filter (\<lambda>(k, v). key_type k = Some SnapMetadata) (entries t))"

definition snap_xid_named :: "tree \<Rightarrow> rust_string \<Rightarrow> u64 option" where
  "snap_xid_named t name = map_option (\<lambda>(k, v). le_u64 v 0)
     (find (\<lambda>(k, v). key_type k = Some SnapName \<and> decode_snap_name_key k = Some name) (entries t))"

lemma fold_snap_visit:
  "fold (\<lambda>(k, v). snap_visit k v) es out
    = out @ map (\<lambda>(k, v). parse_snap_metadata (key_oid k) v)
        (filter (\<lambda>(k, v). key_type k = Some SnapMetadata) es)"
  by (induction es arbitrary: out) (auto simp: snap_visit_def)

lemma fold_snap_name_Some: "fold (\<lambda>(k, v). snap_name_visit name k v) es (Some x) = Some x"
  by (induction es) (auto simp: snap_name_visit_def)

lemma snap_name_visit_None:
  "snap_name_visit name k v None =
     (if key_type k = Some SnapName \<and> decode_snap_name_key k = Some name then Some (le_u64 v 0) else None)"
  by (simp add: snap_name_visit_def)

lemma fold_snap_name:
  "fold (\<lambda>(k, v). snap_name_visit name k v) es None = map_option (\<lambda>(k, v). le_u64 v 0)
     (find (\<lambda>(k, v). key_type k = Some SnapName \<and> decode_snap_name_key k = Some name) es)"
proof (induction es)
  case (Cons e es)
  then show ?case
    by (cases e) (auto simp: snap_name_visit_None fold_snap_name_Some)
qed simp

lemma list_snapshots_stored:
  "snap_stored rd volume block_size t \<Longrightarrow>
     list_snapshots rd volume block_size = Inr (sort_key ss_xid (snaps_of t))"
  by (simp add: list_snapshots_def for_each_snap_record_stored fold_snap_visit snaps_of_def)

lemma resolve_snapshot_xid_stored:
  "snap_stored rd volume block_size t \<Longrightarrow>
     resolve_snapshot_xid rd volume name block_size = Inr (snap_xid_named t name)"
  by (simp add: resolve_snapshot_xid_def for_each_snap_record_stored fold_snap_name snap_xid_named_def)

lemma sort_key_unique:
  assumes "sorted (map f ys)" "\<And>k. filter (\<lambda>x. f x = k) ys = filter (\<lambda>x. f x = k) xs"
  shows "ys = sort_key f xs"
proof -
  have "mset ys = mset xs"
  proof (rule multiset_eqI)
    fix y
    have "count (mset zs) y = count (mset (filter (\<lambda>x. f x = f y) zs)) y" for zs by simp
    then show "count (mset ys) y = count (mset xs) y" using assms(2) [of "f y"] by metis
  qed
  moreover have "filter (\<lambda>x. f k = f x) ys = filter (\<lambda>x. f k = f x) xs" for k
    using assms(2) [of "f k"] by (simp only: eq_commute [of "f k"])
  ultimately show ?thesis
    using assms(1) by (intro properties_for_sort_key [symmetric])
qed

text \<open>
  C22. The snapshot listing succeeds exactly when the volume stores a metadata tree of bounded
  height with distinct node identifiers, and the list it returns is the one that is sorted by
  transaction and holds, for every transaction, exactly the metadata records of that
  transaction, in tree order.
\<close>

theorem list_snapshots_sorted:
  "list_snapshots rd volume block_size = Inr ss \<longleftrightarrow>
     (\<exists>t. snap_stored rd volume block_size t \<and> sorted (map ss_xid ss)
        \<and> (\<forall>x. filter (\<lambda>s. ss_xid s = x) ss = filter (\<lambda>s. ss_xid s = x) (snaps_of t)))"
proof
  assume "list_snapshots rd volume block_size = Inr ss"
  then obtain r where r: "for_each_snap_record rd volume block_size snap_visit [] = Inr r"
    by (auto simp: list_snapshots_def map_sum_def split: sum.splits)
  then obtain t where t: "snap_stored rd volume block_size t" by (auto simp: for_each_snap_record_iff)
  with \<open>list_snapshots _ _ _ = _\<close> have "ss = sort_key ss_xid (snaps_of t)" by (simp add: list_snapshots_stored)
  with t show "\<exists>t. snap_stored rd volume block_size t \<and> sorted (map ss_xid ss)
      \<and> (\<forall>x. filter (\<lambda>s. ss_xid s = x) ss = filter (\<lambda>s. ss_xid s = x) (snaps_of t))"
    by (intro exI [of _ t]) (simp add: sort_key_stable)
next
  assume "\<exists>t. snap_stored rd volume block_size t \<and> sorted (map ss_xid ss)
      \<and> (\<forall>x. filter (\<lambda>s. ss_xid s = x) ss = filter (\<lambda>s. ss_xid s = x) (snaps_of t))"
  then show "list_snapshots rd volume block_size = Inr ss"
    using sort_key_unique [of ss_xid ss] by (auto simp: list_snapshots_stored)
qed

subsection \<open>Records round trip\<close>

definition enc_snap_metadata :: "snapshot \<Rightarrow> u32 \<Rightarrow> bytes" where
  "enc_snap_metadata sn tree_type =
     to_le 8 (ss_extentref_tree_oid sn) @ to_le 8 (ss_sblock_oid sn) @ to_le 8 (ss_create_time sn)
     @ to_le 8 (ss_change_time sn) @ to_le 8 (ss_inum sn) @ to_le 4 tree_type @ to_le 4 (ss_flags sn)
     @ to_le 2 (of_nat (Suc (length (ss_name sn))) :: u16) @ ss_name sn @ [0]"

definition enc_snap_name_key :: "rust_string \<Rightarrow> bytes" where
  "enc_snap_name_key name =
     to_le 8 (enc_jkey 0x0FFFFFFFFFFFFFFF SnapName) @ to_le 2 (of_nat (Suc (length name)) :: u16) @ name @ [0]"

definition snap_name_ok :: "rust_string \<Rightarrow> bool" where
  "snap_name_ok name \<longleftrightarrow> length name < 4096 \<and> utf8_valid name \<and> 0 \<notin> set name"

lemma parse_snap_metadata_enc:
  assumes "snap_name_ok (ss_name sn)"
  shows "parse_snap_metadata (ss_xid sn) (enc_snap_metadata sn ty) = sn"
proof -
  have n: "unat (of_nat (Suc (length (ss_name sn))) :: u16) = Suc (length (ss_name sn))"
    using assms by (intro unat_of_nat_u16) (simp add: snap_name_ok_def)
  have r: "le_u64 (enc_snap_metadata sn ty) 0 = ss_extentref_tree_oid sn"
    "le_u64 (enc_snap_metadata sn ty) 8 = ss_sblock_oid sn"
    "le_u64 (enc_snap_metadata sn ty) 16 = ss_create_time sn" "le_u64 (enc_snap_metadata sn ty) 24 = ss_change_time sn"
    "le_u64 (enc_snap_metadata sn ty) 32 = ss_inum sn" "le_u32 (enc_snap_metadata sn ty) 44 = ss_flags sn"
    "le_u16 (enc_snap_metadata sn ty) 48 = of_nat (Suc (length (ss_name sn)))"
    by (simp_all add: enc_snap_metadata_def le_u64_def le_u32_def le_u16_def arr_fields del: of_nat_Suc)
  have "get_range (enc_snap_metadata sn ty) 50 (50 + Suc (length (ss_name sn))) = Some (ss_name sn @ [0])"
    unfolding enc_snap_metadata_def append_assoc [symmetric]
    by (simp only: append_assoc [of _ "ss_name sn"]) (simp add: get_range_def)
  then show ?thesis
    using assms by (simp add: parse_snap_metadata_def r n layout_defs decode_cstr_terminated snap_name_ok_def
        min_absorb1 del: of_nat_Suc)
qed

lemma decode_snap_name_key_enc:
  assumes "snap_name_ok name"
  shows "decode_snap_name_key (enc_snap_name_key name) = Some name"
proof -
  have n: "unat (of_nat (Suc (length name)) :: u16) = Suc (length name)"
    using assms by (intro unat_of_nat_u16) (simp add: snap_name_ok_def)
  have "le_u16 (enc_snap_name_key name) 8 = of_nat (Suc (length name))"
    by (simp add: enc_snap_name_key_def le_u16_def arr_fields del: of_nat_Suc)
  moreover have "get_range (enc_snap_name_key name) 10 (10 + Suc (length name)) = Some (name @ [0])"
    by (simp add: enc_snap_name_key_def get_range_def)
  ultimately show ?thesis
    using assms by (simp add: decode_snap_name_key_def n layout_defs decode_cstr_terminated snap_name_ok_def
        min_absorb1 del: of_nat_Suc)
qed

subsection \<open>A snapshot reads the past\<close>

text \<open>A stored object map: its header at a block and its tree, in key order.\<close>

definition omap_at :: "reader \<Rightarrow> u64 \<Rightarrow> nat \<Rightarrow> object_map \<Rightarrow> tree \<Rightarrow> bool" where
  "omap_at rd oid block_size om t \<longleftrightarrow>
     (case read_block_sat rd oid block_size of Inl e \<Rightarrow> False | Inr buf \<Rightarrow> object_map_parse buf = Inr om)
     \<and> shown (\<lambda>_. load_physical rd block_size Omap) pick_all 0 t \<and> root_id t = om_tree_oid om
     \<and> height t \<le> 64 \<and> distinct (ids t) \<and> ordered omap_key_of t"

text \<open>The mappings written up to a transaction.\<close>

definition entries_upto :: "u64 \<Rightarrow> tree \<Rightarrow> entry list" where
  "entries_upto xid t = filter (\<lambda>e. snd (omap_key_of (fst e)) \<le> xid) (entries t)"

lemma omap_scan_upto:
  "omap_scan oid xid (filter (\<lambda>e. snd (omap_key_of (fst e)) \<le> xid) es) best = omap_scan oid xid es best"
  by (induction es arbitrary: best) (auto simp: omap_visit_matches omap_matches_def omap_key_of_def)

lemma resolve_upto:
  assumes "omap_at rd h block_size om t"
  shows "resolve om rd oid xid block_size =
    (case omap_scan oid xid (entries_upto xid t) None of
       None \<Rightarrow> Inl (OmapUnresolved oid xid) | Some best \<Rightarrow> Inr best)"
proof -
  have t: "shown (\<lambda>_. load_physical rd block_size Omap) pick_all 0 t" "root_id t = om_tree_oid om"
      "height t \<le> MAX_BTREE_DEPTH" "distinct (ids t)" "ordered omap_key_of t"
    using assms by (simp_all add: omap_at_def MAX_BTREE_DEPTH_def)
  show ?thesis
    unfolding resolve_def t(2) [symmetric] find_leaf_shown [OF t(1,3,4)] omap_scan_search_leaf [OF t(5)]
      entries_upto_def omap_scan_upto by (simp split: option.split)
qed

lemma resolve_upto_entry:
  assumes "omap_at rd h block_size om t" "resolve om rd oid xid block_size = Inr r"
  shows "\<exists>e\<in>set (entries_upto xid t). r = omap_decode e"
  using omap_scan_result [where oid = oid and xid = xid and es = "entries_upto xid t" and best = None]
    assms(2) resolve_upto [OF assms(1), of oid xid]
  by (auto split: option.splits)

lemma read_virtual_node_cong:
  assumes "resolve om rd oid xid block_size = resolve om' rd' oid xid block_size"
    and "\<And>r. resolve om' rd' oid xid block_size = Inr r \<Longrightarrow>
        read_block_sat rd (oe_paddr r) block_size = read_block_sat rd' (oe_paddr r) block_size"
  shows "load_virtual cr rd om vek xid block_size oid = load_virtual cr rd' om' vek xid block_size oid"
  using assms by (simp add: load_virtual_def read_virtual_node_def split: sum.split)

text \<open>The image \<open>rd\<close> still holds what \<open>rd'\<close> had mapped up to transaction \<open>xid\<close>.\<close>

definition retains :: "reader \<Rightarrow> reader \<Rightarrow> u64 \<Rightarrow> nat \<Rightarrow> tree \<Rightarrow> tree \<Rightarrow> bool" where
  "retains rd rd' xid block_size t t' \<longleftrightarrow>
     entries_upto xid t = entries_upto xid t'
     \<and> list_all (\<lambda>e. read_block_sat rd (oe_paddr (omap_decode e)) block_size
                   = read_block_sat rd' (oe_paddr (omap_decode e)) block_size) (entries_upto xid t')"

lemma load_virtual_retained:
  assumes "omap_at rd h block_size om t" "omap_at rd' h' block_size om' t'"
    and "retains rd rd' xid block_size t t'"
  shows "load_virtual cr rd om vek xid block_size = load_virtual cr rd' om' vek xid block_size"
proof (rule ext, rule read_virtual_node_cong)
  show "resolve om rd oid xid block_size = resolve om' rd' oid xid block_size" for oid
    using assms by (simp add: resolve_upto [OF assms(1)] resolve_upto [OF assms(2)] retains_def)
  show "read_block_sat rd (oe_paddr r) block_size = read_block_sat rd' (oe_paddr r) block_size"
    if "resolve om' rd' oid xid block_size = Inr r" for oid r
    using resolve_upto_entry [OF assms(2) that] assms(3) by (auto simp: retains_def list_all_iff)
qed

lemma fs_stored_retained:
  assumes "fs_stored cr rd' past block_size t" "omap_at rd' (vol_omap_oid past) block_size om' ot'"
    and "omap_at rd (vol_omap_oid v) block_size om ot" "retains rd rd' (vol_xid past) block_size ot ot'"
    and "vol_xid v = vol_xid past" "vol_root_tree_oid v = vol_root_tree_oid past" "vol_vek v = vol_vek past"
  shows "fs_stored cr rd v block_size t"
proof -
  have "load_virtual cr rd om vek (vol_xid past) block_size = load_virtual cr rd' om' vek (vol_xid past) block_size" for vek
    by (rule load_virtual_retained [OF assms(3,2,4)])
  then show ?thesis using assms by (auto simp: fs_stored_def omap_at_def split: sum.splits)
qed

text \<open>
  C3. A mounted snapshot reads the volume as it stood. Let the volume \<open>past\<close> be stored in an
  earlier image \<open>rd'\<close>, and let the current image \<open>rd\<close> retain the object-map entries up to that
  transaction and the blocks they map, whatever else was written since. If the frozen superblock
  carries the transaction and root of \<open>past\<close>, mounting succeeds and gives a volume without a key.
  Once it holds the key \<open>past\<close> held (as it stands, if \<open>past\<close> held none), listing any directory and
  opening any path of it give the results they gave then, errors included.
\<close>

theorem snapshot_reads_past:
  assumes "fs_stored cr rd' past block_size t" "ordered f t" "oid_major f"
    and "omap_at rd' (vol_omap_oid past) block_size om' ot'"
    and "omap_at rd (vol_omap_oid live) block_size om ot"
    and "retains rd rd' (vol_xid past) block_size ot ot'"
    and "read_block_sat rd (ss_sblock_oid snap) block_size = Inr buf" "apfs_volume_parse buf = Inr frozen"
    and "vol_xid frozen = vol_xid past" "vol_root_tree_oid frozen = vol_root_tree_oid past"
  shows "\<exists>v w. mount_snapshot rd live snap block_size = Inr v \<and> vol_vek v = None
    \<and> w = (case vol_vek past of None \<Rightarrow> v | Some vek \<Rightarrow> set_vek vek v)
    \<and> (\<forall>parent. list_dir cr rd w parent block_size = list_dir cr rd' past parent block_size)
    \<and> (\<forall>path. open_path cr rd w path block_size = open_path cr rd' past path block_size)"
proof -
  let ?v = "with_omap_oid (vol_omap_oid live) frozen"
  define w where "w = (case vol_vek past of None \<Rightarrow> ?v | Some vek \<Rightarrow> set_vek vek ?v)"
  have k: "vol_vek ?v = None" using volume_parse_gates [OF assms(8)] by (simp add: with_omap_oid_def)
  have w: "vol_vek w = vol_vek past" "vol_omap_oid w = vol_omap_oid live" "vol_xid w = vol_xid past"
      "vol_root_tree_oid w = vol_root_tree_oid past"
    using k assms(9,10) by (auto simp: w_def set_vek_def with_omap_oid_def split: option.split)
  have st: "fs_stored cr rd w block_size t"
    using assms w by (intro fs_stored_retained [OF assms(1,4) _ assms(6)]) simp_all
  have "mount_snapshot rd live snap block_size = Inr ?v" using assms(7,8) by (simp add: mount_snapshot_def)
  moreover have "list_dir cr rd w parent block_size = list_dir cr rd' past parent block_size" for parent
    by (simp add: list_dir_stored [OF st assms(2,3)] list_dir_stored [OF assms(1-3)])
  moreover have "open_path cr rd w path block_size = open_path cr rd' past path block_size" for path
    unfolding open_path_stored [OF st assms(2,3)] open_path_stored [OF assms(1-3)] w(3) ..
  ultimately show ?thesis using k w_def by blast
qed

subsection \<open>A block address among virtual identifiers\<close>

text \<open>
  C34. One visited set records the root by block address and every other node by object
  identifier. A root that has a child whose virtual identifier equals the root's block address
  is therefore refused as a cycle, wherever the object map places that child: the listing ends in
  the cycle error, unless one of the children before it already failed, which then is the error.
\<close>

theorem snap_root_alias:
  assumes "read_block_sat rd (vol_omap_oid volume) block_size = Inr buf" "object_map_parse buf = Inr om"
    and "load_snap rd om (vol_xid volume) block_size 0 (vol_snap_meta_tree_oid volume)
      = Inr (IndexNode (before @ (k, vol_snap_meta_tree_oid volume) # after))"
  shows "list_snapshots rd volume block_size =
    (case descend_snap_children rd om (vol_xid volume) block_size snap_visit 1 {vol_snap_meta_tree_oid volume}
            (map snd before) [] of
       Inl e \<Rightarrow> Inl e
     | Inr _ \<Rightarrow> Inl (CycleGuard MAX_SNAP_TREE_DEPTH))"
proof -
  let ?root = "vol_snap_meta_tree_oid volume" and ?xid = "vol_xid volume"
  let ?children = "\<lambda>cs. descend_snap_children rd om ?xid block_size snap_visit 1 {?root} cs []"
  have "descend_snap rd om ?xid block_size snap_visit True 0 {} ?root [] = ?children (map snd before @ ?root # map snd after)"
    using snap.walk_unfold [of rd om ?xid block_size snap_visit 0 "{}" ?root "[]"] assms(3)
    by (simp add: MAX_SNAP_TREE_DEPTH_def)
  also have "\<dots> = (case ?children (map snd before) of Inl e \<Rightarrow> Inl e | Inr _ \<Rightarrow> Inl (CycleGuard MAX_SNAP_TREE_DEPTH))"
  proof (cases "?children (map snd before)")
    case (Inr r)
    obtain v s where r: "r = (v, s)" by (cases r)
    have "?root \<in> v" using snap.walk_all_visited [of rd om ?xid block_size snap_visit 0 "{?root}" "map snd before" "[]" v s] Inr r by simp
    then show ?thesis
      using Inr r snap.walk_visited_twice [of ?root v rd om ?xid block_size snap_visit 1 s]
        snap.walk_all_append [of rd om ?xid block_size snap_visit 0]
        snap.walk_all_Cons [of rd om ?xid block_size snap_visit 0] by simp
  qed (use snap.walk_all_append [of rd om ?xid block_size snap_visit 0] in simp)
  finally show ?thesis
    using assms(1,2) by (simp add: list_snapshots_def for_each_snap_record_def split: sum.split)
qed

end
