(* ===== verification/Extent.thy ===== *)
theory Extent
  imports Dir
begin

text \<open>
  \<^verbatim>\<open>core/src/extent.rs\<close>: the extent records of a data stream and the assembly of its bytes,
  with holes, the end-of-file cut and per-block decryption. (\<^verbatim>\<open>read_data\<close>, which first looks
  for a compression attribute, is in \<open>Compression\<close>.) The main result gives every byte of an
  assembled stream.
\<close>

subsection \<open>Extents\<close>

definition J_FILE_EXTENT_LEN_MASK :: u64 where [layout_defs]: "J_FILE_EXTENT_LEN_MASK = 0x00ffffffffffffff"
definition OFF_FEXT_KEY_LOGICAL :: nat where [layout_defs]: "OFF_FEXT_KEY_LOGICAL = 8"
definition OFF_FEXT_LEN_AND_FLAGS :: nat where [layout_defs]: "OFF_FEXT_LEN_AND_FLAGS = 0"
definition OFF_FEXT_PHYS_BLOCK :: nat where [layout_defs]: "OFF_FEXT_PHYS_BLOCK = 8"
definition OFF_FEXT_CRYPTO_ID :: nat where [layout_defs]: "OFF_FEXT_CRYPTO_ID = 16"
definition MAX_FILE_BYTES :: u64 where [layout_defs]: "MAX_FILE_BYTES = 0x400000000"

record file_extent =
  fe_logical_offset :: u64
  fe_len :: u64
  fe_phys_block_num :: u64
  fe_crypto_id :: u64

definition decode_extent :: "bytes \<Rightarrow> bytes \<Rightarrow> file_extent" where
  "decode_extent key val =
     \<lparr> fe_logical_offset = le_u64 key OFF_FEXT_KEY_LOGICAL,
       fe_len = le_u64 val OFF_FEXT_LEN_AND_FLAGS AND J_FILE_EXTENT_LEN_MASK,
       fe_phys_block_num = le_u64 val OFF_FEXT_PHYS_BLOCK,
       fe_crypto_id = le_u64 val OFF_FEXT_CRYPTO_ID \<rparr>"

definition extent_visit :: "u64 \<Rightarrow> bytes \<Rightarrow> bytes \<Rightarrow> file_extent list \<Rightarrow> file_extent list" where
  "extent_visit stream_oid key val out =
     (if key_type key \<noteq> Some FileExtent \<or> key_oid key \<noteq> stream_oid then out
      else out @ [decode_extent key val])"

definition list_extents :: "crypto \<Rightarrow> reader \<Rightarrow> apfs_volume \<Rightarrow> u64 \<Rightarrow> nat \<Rightarrow> file_extent list res" where
  "list_extents cr rd volume stream_oid block_size =
     (case for_each_fs_record_for_oid cr rd volume block_size stream_oid (extent_visit stream_oid) [] of
        Inl e \<Rightarrow> Inl e
      | Inr out \<Rightarrow> Inr (sort_key fe_logical_offset out))"

subsection \<open>Assembly\<close>

text \<open>The \<^verbatim>\<open>chunks_mut(block_size).enumerate()\<close> loop over a buffer of \<open>n\<close> whole blocks.\<close>

definition decrypt_blocks :: "crypto \<Rightarrow> bytes \<Rightarrow> u64 \<Rightarrow> nat \<Rightarrow> nat \<Rightarrow> bytes \<Rightarrow> bytes" where
  "decrypt_blocks cr vek crypto_id block_size n tmp =
     concat (map (\<lambda>i. decrypt_volume_area cr (take block_size (drop (i * block_size) tmp)) vek
                        (saturating_add_u64 crypto_id (of_nat i)) block_size) [0..<n])"

text \<open>\<^verbatim>\<open>out[start..start + bs.len()].copy_from_slice(&bs)\<close>.\<close>

definition overlay :: "bytes \<Rightarrow> nat \<Rightarrow> bytes \<Rightarrow> bytes" where
  "overlay out start bs = take start out @ bs @ drop (start + length bs) out"

definition read_extent :: "crypto \<Rightarrow> reader \<Rightarrow> bytes option \<Rightarrow> nat \<Rightarrow> nat \<Rightarrow> file_extent \<Rightarrow> bytes \<Rightarrow> bytes res" where
  "read_extent cr rd vek block_size sz ext out =
     (let start = unat (fe_logical_offset ext)
      in if start \<ge> sz \<or> fe_phys_block_num ext = 0 then Inr out
         else if block_size = 0 then Inl (Panic ''attempt to divide by zero'')
         else let copy_len = min (unat (fe_len ext)) (sz - start)
              in case checked_mul_u64 (fe_phys_block_num ext) (of_nat block_size) of
                   None \<Rightarrow> Inl (FieldOutOfRange ''j_file_extent'' ''phys_block_num''
                                  (fe_phys_block_num ext) (u64_max div of_nat block_size))
                 | Some byte_off \<Rightarrow>
                     if vek \<noteq> None \<and> fe_crypto_id ext \<noteq> 0
                     then let nblocks = (copy_len + block_size - 1) div block_size
                          in case read_exact_at rd byte_off (nblocks * block_size) of
                               Inl e \<Rightarrow> Inl e
                             | Inr tmp \<Rightarrow>
                                 Inr (overlay out start
                                   (take copy_len
                                     (decrypt_blocks cr (the vek) (fe_crypto_id ext) block_size nblocks tmp)))
                     else case read_exact_at rd byte_off copy_len of
                            Inl e \<Rightarrow> Inl e
                          | Inr bs \<Rightarrow> Inr (overlay out start bs))"

primrec read_extents :: "crypto \<Rightarrow> reader \<Rightarrow> bytes option \<Rightarrow> nat \<Rightarrow> nat \<Rightarrow> file_extent list \<Rightarrow> bytes \<Rightarrow> bytes res" where
  "read_extents cr rd vek block_size sz [] out = Inr out"
| "read_extents cr rd vek block_size sz (ext # exts) out =
     (case read_extent cr rd vek block_size sz ext out of
        Inl e \<Rightarrow> Inl e
      | Inr out' \<Rightarrow> read_extents cr rd vek block_size sz exts out')"

definition read_stream :: "crypto \<Rightarrow> reader \<Rightarrow> apfs_volume \<Rightarrow> u64 \<Rightarrow> u64 \<Rightarrow> nat \<Rightarrow> bytes res" where
  "read_stream cr rd volume stream_oid logical_size block_size =
     (if logical_size > MAX_FILE_BYTES
      then Inl (FieldOutOfRange ''j_dstream'' ''size'' logical_size MAX_FILE_BYTES)
      else case list_extents cr rd volume stream_oid block_size of
             Inl e \<Rightarrow> Inl e
           | Inr extents \<Rightarrow>
               read_extents cr rd (vol_vek volume) block_size (unat logical_size) extents
                 (replicate (unat logical_size) 0))"

subsection \<open>What an extent contributes\<close>

definition extent_span :: "bytes option \<Rightarrow> nat \<Rightarrow> nat \<Rightarrow> file_extent \<Rightarrow> nat" where
  "extent_span vek block_size sz e =
     (let n = min (unat (fe_len e)) (sz - unat (fe_logical_offset e))
      in if vek \<noteq> None \<and> fe_crypto_id e \<noteq> 0 then (n + block_size - 1) div block_size * block_size else n)"

text \<open>Byte \<open>j\<close> of an extent in the image \<open>img\<close>: stored, or of the decryption of its whole block.\<close>

definition extent_byte :: "crypto \<Rightarrow> bytes option \<Rightarrow> bytes \<Rightarrow> nat \<Rightarrow> file_extent \<Rightarrow> nat \<Rightarrow> u8" where
  "extent_byte cr vek img block_size e j =
     (let base = unat (fe_phys_block_num e) * block_size
      in if vek \<noteq> None \<and> fe_crypto_id e \<noteq> 0
         then decrypt_volume_area cr (take block_size (drop (base + j div block_size * block_size) img)) (the vek)
                (saturating_add_u64 (fe_crypto_id e) (of_nat (j div block_size))) block_size ! (j mod block_size)
         else img ! (base + j))"

definition covers :: "file_extent \<Rightarrow> nat \<Rightarrow> bool" where
  "covers e i \<longleftrightarrow> fe_phys_block_num e \<noteq> 0 \<and> unat (fe_logical_offset e) \<le> i
     \<and> i < unat (fe_logical_offset e) + unat (fe_len e)"

text \<open>A stream's byte: zero, overwritten by the extents that cover it in turn.\<close>

definition stream_byte :: "crypto \<Rightarrow> bytes option \<Rightarrow> bytes \<Rightarrow> nat \<Rightarrow> file_extent list \<Rightarrow> nat \<Rightarrow> u8 \<Rightarrow> u8" where
  "stream_byte cr vek img block_size exts i =
     fold (\<lambda>e b. if covers e i then extent_byte cr vek img block_size e (i - unat (fe_logical_offset e)) else b) exts"

definition extent_in_image :: "bytes option \<Rightarrow> bytes \<Rightarrow> nat \<Rightarrow> nat \<Rightarrow> file_extent \<Rightarrow> bool" where
  "extent_in_image vek img block_size sz e \<longleftrightarrow>
     sz \<le> unat (fe_logical_offset e) \<or> fe_phys_block_num e = 0
     \<or> unat (fe_phys_block_num e) * block_size + extent_span vek block_size sz e \<le> length img"

lemma nth_overlay:
  assumes "start + length bs \<le> length out" "i < length out"
  shows "overlay out start bs ! i = (if start \<le> i \<and> i < start + length bs then bs ! (i - start) else out ! i)"
  using assms by (auto simp: overlay_def nth_append)

lemma length_overlay: "start + length bs \<le> length out \<Longrightarrow> length (overlay out start bs) = length out"
  by (simp add: overlay_def)

lemma length_decrypt_volume_area:
  assumes "\<And>k1 k2 ss n d. length (xts_area cr k1 k2 ss n d) = length d"
  shows "length (decrypt_volume_area cr d k t n) = length d"
  using assms by (simp add: decrypt_volume_area_def Let_def)

lemma nth_concat_blocks:
  assumes "\<And>i. i < n \<Longrightarrow> length (f i) = L" "j < n * L"
  shows "concat (map f [0..<n]) ! j = f (j div L) ! (j mod L)"
  using assms
proof (induction n)
  case (Suc n)
  have len: "length (concat (map f [0..<n])) = n * L"
    by (subst length_concat_chunks [of _ _ L]) (use Suc.prems in auto)
  show ?case
  proof (cases "j < n * L")
    case True
    then show ?thesis using Suc len by (simp add: nth_append)
  next
    case False
    then have "j div L = n" using Suc.prems(2) by (intro div_nat_eqI) (auto simp: mult.commute)
    moreover from this have "j mod L = j - n * L" by (metis minus_div_mult_eq_mod)
    ultimately show ?thesis using Suc.prems False len by (simp add: nth_append)
  qed
qed simp

lemma length_decrypt_blocks:
  assumes "\<And>k1 k2 ss n d. length (xts_area cr k1 k2 ss n d) = length d" "length tmp = n * bs"
  shows "length (decrypt_blocks cr k c bs n tmp) = n * bs"
proof -
  have "length (take bs (drop (i * bs) tmp)) = bs" if "i < n" for i
  proof -
    have "Suc i * bs \<le> n * bs" using that by (intro mult_le_mono1) simp
    then show ?thesis using assms(2) by simp
  qed
  then show ?thesis
    unfolding decrypt_blocks_def
    by (subst length_concat_chunks [of _ _ bs]) (simp_all add: length_decrypt_volume_area [OF assms(1)])
qed

lemma ceil_blocks: "0 < bs \<Longrightarrow> n \<le> (n + bs - 1) div bs * bs" for n bs :: nat
  using div_mult_mod_eq [of "n + bs - 1" bs] mod_less_divisor [of bs "n + bs - 1"] by linarith

lemma nth_decrypt_blocks:
  fixes img :: bytes
  assumes len: "\<And>k1 k2 ss n d. length (xts_area cr k1 k2 ss n d) = length d"
    and "base + n * bs \<le> length img" "j < n * bs"
  shows "decrypt_blocks cr k c bs n (take (n * bs) (drop base img)) ! j
    = decrypt_volume_area cr (take bs (drop (base + j div bs * bs) img)) k
        (saturating_add_u64 c (of_nat (j div bs))) bs ! (j mod bs)"
proof -
  have le: "i * bs + bs \<le> n * bs" if "i < n" for i
    using mult_le_mono1 [of "Suc i" n bs] that by simp
  have blk: "take bs (drop (i * bs) (take (n * bs) (drop base img))) = take bs (drop (base + i * bs) img)"
    if "i < n" for i
    using le [OF that] by (simp add: drop_take add.commute)
  have "j div bs < n" using assms(3) by (simp add: less_mult_imp_div_less)
  moreover have "length (decrypt_volume_area cr (take bs (drop (i * bs) (take (n * bs) (drop base img)))) k
      (saturating_add_u64 c (of_nat i)) bs) = bs" if "i < n" for i
    using le [OF that] assms(2) by (simp add: length_decrypt_volume_area [OF len] blk [OF that])
  ultimately show ?thesis
    unfolding decrypt_blocks_def using blk
    by (subst nth_concat_blocks [OF _ assms(3)]) auto
qed

lemma cursor_span:
  assumes "unat p * bs + n \<le> length img" "length img < 2 ^ 64" "bs < 2 ^ 64"
  shows "checked_mul_u64 p (of_nat bs) = Some (p * of_nat bs)"
    and "read_exact_at (cursor img) (p * of_nat bs) n = Inr (take n (drop (unat p * bs) img))"
proof -
  have lt: "unat p * unat (of_nat bs :: u64) < 2 ^ 64" using assms by (simp add: unat_of_nat_u64)
  then show "checked_mul_u64 p (of_nat bs) = Some (p * of_nat bs)" by (simp add: checked_mul_u64_def)
  have "unat (p * of_nat bs) = unat p * bs"
    using lt unat_mult_lem [of p "of_nat bs"] assms(3) by (simp add: unat_of_nat_u64)
  then show "read_exact_at (cursor img) (p * of_nat bs) n = Inr (take n (drop (unat p * bs) img))"
    using assms(1) by (simp add: read_exact_at_def cursor_def)
qed

lemma read_extent_ok:
  assumes len: "\<And>k1 k2 ss n d. length (xts_area cr k1 k2 ss n d) = length d"
    and img: "length img < 2 ^ 64" "0 < bs" "bs < 2 ^ 64"
    and e: "extent_in_image vek img bs (length out) e"
  shows "\<exists>out'. read_extent cr (cursor img) vek bs (length out) e out = Inr out' \<and> length out' = length out
    \<and> (\<forall>i<length out. out' ! i =
        (if covers e i then extent_byte cr vek img bs e (i - unat (fe_logical_offset e)) else out ! i))"
proof (cases "length out \<le> unat (fe_logical_offset e) \<or> fe_phys_block_num e = 0")
  case True
  then show ?thesis by (auto simp: read_extent_def covers_def)
next
  case False
  define start where "start = unat (fe_logical_offset e)"
  define n where "n = min (unat (fe_len e)) (length out - start)"
  define base where "base = unat (fe_phys_block_num e) * bs"
  define enc where "enc \<longleftrightarrow> vek \<noteq> None \<and> fe_crypto_id e \<noteq> 0"
  define nb where "nb = (n + bs - 1) div bs"
  have span: "base + (if enc then nb * bs else n) \<le> length img"
    using e False
    unfolding extent_in_image_def extent_span_def Let_def n_def start_def base_def enc_def nb_def by blast
  have nb: "n \<le> nb * bs" unfolding nb_def by (rule ceil_blocks [OF img(2)])
  define piece where "piece = (if enc then take n (decrypt_blocks cr (the vek) (fe_crypto_id e) bs nb
      (take (nb * bs) (drop base img))) else take n (drop base img))"
  have r: "read_extent cr (cursor img) vek bs (length out) e out = Inr (overlay out start piece)"
    using False span img(2) cursor_span [OF _ img(1,3), of "fe_phys_block_num e"]
    by (auto simp: read_extent_def Let_def piece_def enc_def n_def [symmetric] start_def [symmetric]
        base_def [symmetric] nb_def [unfolded One_nat_def, symmetric])
  have tmp: "length (decrypt_blocks cr (the vek) (fe_crypto_id e) bs nb (take (nb * bs) (drop base img))) = nb * bs"
    if enc using span that by (intro length_decrypt_blocks [OF len]) simp
  have lp: "length piece = n" using tmp nb span by (auto simp: piece_def)
  have st: "start < length out" using False by (simp add: start_def)
  then have fit: "start + length piece \<le> length out" by (simp add: lp n_def)
  have "piece ! j = extent_byte cr vek img bs e j" if "j < n" for j
    using that span nb nth_decrypt_blocks [OF len, where base = base and n = nb and j = j and bs = bs and img = img]
    by (auto simp: piece_def extent_byte_def Let_def enc_def base_def)
  moreover have "covers e i \<longleftrightarrow> start \<le> i \<and> i < start + n" if "i < length out" for i
    using that False st by (auto simp: covers_def start_def n_def)
  ultimately show ?thesis
    using r lp fit by (auto simp: nth_overlay [OF fit] length_overlay start_def [symmetric])
qed

lemma read_extents_ok:
  assumes len: "\<And>k1 k2 ss n d. length (xts_area cr k1 k2 ss n d) = length d"
    and img: "length img < 2 ^ 64" "0 < bs" "bs < 2 ^ 64"
    and e: "list_all (extent_in_image vek img bs (length out)) exts"
  shows "\<exists>out'. read_extents cr (cursor img) vek bs (length out) exts out = Inr out' \<and> length out' = length out
    \<and> (\<forall>i<length out. out' ! i = stream_byte cr vek img bs exts i (out ! i))"
  using e
proof (induction exts arbitrary: out)
  case Nil
  then show ?case by (simp add: stream_byte_def)
next
  case (Cons e exts)
  obtain out1 where o1: "read_extent cr (cursor img) vek bs (length out) e out = Inr out1" "length out1 = length out"
      "\<forall>i<length out. out1 ! i =
        (if covers e i then extent_byte cr vek img bs e (i - unat (fe_logical_offset e)) else out ! i)"
    using read_extent_ok [OF len img, of vek out e] Cons.prems by auto
  obtain out2 where o2: "read_extents cr (cursor img) vek bs (length out1) exts out1 = Inr out2"
      "length out2 = length out1" "\<forall>i<length out1. out2 ! i = stream_byte cr vek img bs exts i (out1 ! i)"
    using Cons.IH [of out1] Cons.prems o1(2) by auto
  then show ?case using o1 by (auto simp: stream_byte_def)
qed

subsection \<open>Streams of a stored volume\<close>

definition extents_of :: "tree \<Rightarrow> u64 \<Rightarrow> file_extent list" where
  "extents_of t oid =
     sort_key fe_logical_offset
       (map (\<lambda>(k, v). decode_extent k v) (filter (\<lambda>e. key_type (fst e) = Some FileExtent) (records_of t oid)))"

lemma fold_extents:
  assumes "\<forall>e\<in>set es. key_oid (fst e) = oid"
  shows "fold (\<lambda>(k, v). extent_visit oid k v) es out
    = out @ map (\<lambda>(k, v). decode_extent k v) (filter (\<lambda>e. key_type (fst e) = Some FileExtent) es)"
  using assms by (induction es arbitrary: out) (auto simp: extent_visit_def)

lemma list_extents_stored:
  assumes "fs_stored cr rd volume block_size t" "ordered f t" "oid_major f"
  shows "list_extents cr rd volume oid block_size = Inr (extents_of t oid)"
proof -
  have "for_each_fs_record_for_oid cr rd volume block_size oid (extent_visit oid) []
      = Inr (fold (\<lambda>(k, v). extent_visit oid k v) (records_of t oid) [])"
    by (rule keyed_walk_records [OF assms]) (simp add: extent_visit_def)
  then show ?thesis by (simp add: list_extents_def extents_of_def fold_extents [OF records_of_oid])
qed

text \<open>Whatever the source holds, a stream that is read has the requested length.\<close>

context byte_source
begin

lemma read_extent_length:
  assumes "\<And>k1 k2 ss n d. length (xts_area cr k1 k2 ss n d) = length d"
    and "length out = sz" "read_extent cr rd vek block_size sz ext out = Inr out'"
  shows "length out' = sz"
proof -
  have o: "length (overlay out st bs) = length out"
    if "length bs = min n (length out - st)" "\<not> length out \<le> st" for st bs n
    using that by (subst length_overlay) auto
  have d: "length (take n (decrypt_blocks cr k c block_size ((n + block_size - Suc 0) div block_size) tmp)) = n"
    if "0 < block_size" "length tmp = (n + block_size - Suc 0) div block_size * block_size" for n k c tmp
    using length_decrypt_blocks [OF assms(1) that(2)] ceil_blocks [OF that(1), of n] by (simp add: min_absorb2)
  show ?thesis
    using assms(2,3)
    by (auto simp: read_extent_def Let_def split: if_splits option.splits sum.splits
        intro!: o d dest!: read_exact_at_length)
qed

lemma read_stream_length:
  assumes "\<And>k1 k2 ss n d. length (xts_area cr k1 k2 ss n d) = length d"
    and "read_stream cr rd volume oid sz block_size = Inr out"
  shows "length out = unat sz"
proof -
  have "length out' = n" if "read_extents cr rd vek block_size n exts out0 = Inr out'" "length out0 = n" for n vek exts out0 out'
    using that
    by (induction exts arbitrary: out0) (auto split: sum.splits dest: read_extent_length [OF assms(1), rotated 1])
  then show ?thesis using assms(2) by (auto simp: read_stream_def split: if_splits sum.splits)
qed

end

lemma read_stream_stored:
  assumes "fs_stored cr (cursor img) volume bs t" "ordered f t" "oid_major f"
    and "\<And>k1 k2 ss n d. length (xts_area cr k1 k2 ss n d) = length d"
    and "length img < 2 ^ 64" "0 < bs" "bs < 2 ^ 64" "sz \<le> MAX_FILE_BYTES"
    and "list_all (extent_in_image (vol_vek volume) img bs (unat sz)) (extents_of t oid)"
  shows "\<exists>out. read_stream cr (cursor img) volume oid sz bs = Inr out \<and> length out = unat sz
    \<and> (\<forall>i<unat sz. out ! i = stream_byte cr (vol_vek volume) img bs (extents_of t oid) i 0)"
  using read_extents_ok [OF assms(4-7), of "vol_vek volume" "replicate (unat sz) 0" "extents_of t oid"] assms(8,9)
  by (auto simp: read_stream_def list_extents_stored [OF assms(1-3)])

text \<open>
  C4. Reading a data stream of a stored volume whose extents lie in the image succeeds, returns
  exactly the requested number of bytes, and gives at every position the byte of the extent
  that covers it (of the last such extent in logical order), decrypted with its whole block
  when the volume key applies, and zero in holes and uncovered gaps.
\<close>

theorem read_stream_content:
  assumes "fs_stored cr (cursor img) volume bs t" "ordered f t" "oid_major f"
    and "\<And>k1 k2 ss n d. length (xts_area cr k1 k2 ss n d) = length d"
    and "length img < 2 ^ 64" "0 < bs" "bs < 2 ^ 64" "sz \<le> MAX_FILE_BYTES"
    and "list_all (extent_in_image (vol_vek volume) img bs (unat sz)) (extents_of t oid)"
  shows "\<exists>out. read_stream cr (cursor img) volume oid sz bs = Inr out \<and> length out = unat sz
    \<and> (\<forall>i<unat sz. out ! i = stream_byte cr (vol_vek volume) img bs (extents_of t oid) i 0)"
  by (rule read_stream_stored [OF assms])

end
