(* ===== verification/Xattr.thy ===== *)
theory Xattr
  imports Extent
begin

text \<open>
  \<^verbatim>\<open>core/src/xattr.rs\<close>: extended attributes, the named attributes the reader acts on
  (compression header, resource fork, symbolic-link target), and their behaviour on a stored
  volume.
\<close>

subsection \<open>Attribute records\<close>

definition XATTR_DATA_STREAM :: u16 where [layout_defs]: "XATTR_DATA_STREAM = 0x0001"
definition XATTR_DATA_EMBEDDED :: u16 where [layout_defs]: "XATTR_DATA_EMBEDDED = 0x0002"

definition str_bytes :: "string \<Rightarrow> rust_string" where
  "str_bytes s = map of_char s"

definition XATTR_NAME_DECMPFS :: rust_string where "XATTR_NAME_DECMPFS = str_bytes ''com.apple.decmpfs''"
definition XATTR_NAME_RESOURCE_FORK :: rust_string where
  "XATTR_NAME_RESOURCE_FORK = str_bytes ''com.apple.ResourceFork''"
definition XATTR_NAME_SYMLINK :: rust_string where "XATTR_NAME_SYMLINK = str_bytes ''com.apple.fs.symlink''"

definition OFF_XATTR_KEY_NAME_LEN :: nat where [layout_defs]: "OFF_XATTR_KEY_NAME_LEN = 8"
definition OFF_XATTR_KEY_NAME :: nat where [layout_defs]: "OFF_XATTR_KEY_NAME = 10"
definition OFF_XATTR_VAL_FLAGS :: nat where [layout_defs]: "OFF_XATTR_VAL_FLAGS = 0"
definition OFF_XATTR_VAL_XDATA_LEN :: nat where [layout_defs]: "OFF_XATTR_VAL_XDATA_LEN = 2"
definition OFF_XATTR_VAL_XDATA :: nat where [layout_defs]: "OFF_XATTR_VAL_XDATA = 4"
definition OFF_XDSTREAM_OBJ_ID :: nat where [layout_defs]: "OFF_XDSTREAM_OBJ_ID = 0"
definition OFF_XDSTREAM_SIZE :: nat where [layout_defs]: "OFF_XDSTREAM_SIZE = 8"

datatype xattr_value = XEmbedded bytes | XStream u64 u64

record xattr =
  xa_name :: rust_string
  xa_flags :: u16
  xa_value :: xattr_value

definition parse_xattr :: "bytes \<Rightarrow> bytes \<Rightarrow> xattr option" where
  "parse_xattr key val =
     (let name_len = unat (le_u16 key OFF_XATTR_KEY_NAME_LEN)
      in if name_len = 0 then None
         else case get_range key OFF_XATTR_KEY_NAME (OFF_XATTR_KEY_NAME + name_len) of
                None \<Rightarrow> None
              | Some name_bytes \<Rightarrow>
                  let flags = le_u16 val OFF_XATTR_VAL_FLAGS;
                      xdata_len = unat (le_u16 val OFF_XATTR_VAL_XDATA_LEN);
                      xdata = (case get_range val OFF_XATTR_VAL_XDATA (OFF_XATTR_VAL_XDATA + xdata_len) of
                                 Some d \<Rightarrow> d | None \<Rightarrow> [])
                  in Some \<lparr> xa_name = decode_cstr name_bytes, xa_flags = flags,
                            xa_value = (if flags AND XATTR_DATA_STREAM \<noteq> 0
                              then XStream (le_u64 xdata OFF_XDSTREAM_OBJ_ID) (le_u64 xdata OFF_XDSTREAM_SIZE)
                              else XEmbedded xdata) \<rparr>)"

subsection \<open>Queries\<close>

definition xattr_visit :: "u64 \<Rightarrow> bytes \<Rightarrow> bytes \<Rightarrow> xattr list \<Rightarrow> xattr list" where
  "xattr_visit inode_oid key val out =
     (if key_type key \<noteq> Some Xattr \<or> key_oid key \<noteq> inode_oid then out
      else case parse_xattr key val of None \<Rightarrow> out | Some x \<Rightarrow> out @ [x])"

definition list_xattrs :: "crypto \<Rightarrow> reader \<Rightarrow> apfs_volume \<Rightarrow> u64 \<Rightarrow> nat \<Rightarrow> xattr list res" where
  "list_xattrs cr rd volume inode_oid block_size =
     for_each_fs_record_for_oid cr rd volume block_size inode_oid (xattr_visit inode_oid) []"

definition get_xattr :: "crypto \<Rightarrow> reader \<Rightarrow> apfs_volume \<Rightarrow> u64 \<Rightarrow> rust_string \<Rightarrow> nat \<Rightarrow> xattr_value option res" where
  "get_xattr cr rd volume inode_oid name block_size =
     (case list_xattrs cr rd volume inode_oid block_size of
        Inl e \<Rightarrow> Inl e
      | Inr xattrs \<Rightarrow> Inr (map_option xa_value (find (\<lambda>x. xa_name x = name) xattrs)))"

definition decmpfs_header :: "crypto \<Rightarrow> reader \<Rightarrow> apfs_volume \<Rightarrow> u64 \<Rightarrow> nat \<Rightarrow> bytes option res" where
  "decmpfs_header cr rd volume inode_oid block_size =
     (case get_xattr cr rd volume inode_oid XATTR_NAME_DECMPFS block_size of
        Inl e \<Rightarrow> Inl e
      | Inr (Some (XEmbedded bs)) \<Rightarrow> Inr (Some bs)
      | Inr (Some (XStream _ _)) \<Rightarrow> Inr None
      | Inr None \<Rightarrow> Inr None)"

definition resource_fork :: "crypto \<Rightarrow> reader \<Rightarrow> apfs_volume \<Rightarrow> u64 \<Rightarrow> nat \<Rightarrow> bytes option res" where
  "resource_fork cr rd volume inode_oid block_size =
     (case get_xattr cr rd volume inode_oid XATTR_NAME_RESOURCE_FORK block_size of
        Inl e \<Rightarrow> Inl e
      | Inr (Some (XEmbedded bs)) \<Rightarrow> Inr (Some bs)
      | Inr (Some (XStream dstream_oid sz)) \<Rightarrow>
          (case read_stream cr rd volume dstream_oid sz block_size of
             Inl e \<Rightarrow> Inl e
           | Inr bs \<Rightarrow> Inr (Some bs))
      | Inr None \<Rightarrow> Inr None)"

definition symlink_target :: "crypto \<Rightarrow> reader \<Rightarrow> apfs_volume \<Rightarrow> u64 \<Rightarrow> nat \<Rightarrow> rust_string option res" where
  "symlink_target cr rd volume inode_oid block_size =
     (case get_xattr cr rd volume inode_oid XATTR_NAME_SYMLINK block_size of
        Inl e \<Rightarrow> Inl e
      | Inr (Some (XEmbedded bs)) \<Rightarrow> Inr (Some (decode_cstr bs))
      | Inr (Some (XStream _ _)) \<Rightarrow> Inr None
      | Inr None \<Rightarrow> Inr None)"

subsection \<open>Attributes of a stored volume\<close>

definition xattrs_of :: "tree \<Rightarrow> u64 \<Rightarrow> xattr list" where
  "xattrs_of t oid =
     List.map_filter (\<lambda>(k, v). if key_type k = Some Xattr then parse_xattr k v else None) (records_of t oid)"

definition xattr_of :: "tree \<Rightarrow> u64 \<Rightarrow> rust_string \<Rightarrow> xattr_value option" where
  "xattr_of t oid name = map_option xa_value (find (\<lambda>x. xa_name x = name) (xattrs_of t oid))"

lemma fold_xattrs:
  assumes "\<forall>e\<in>set es. key_oid (fst e) = oid"
  shows "fold (\<lambda>(k, v). xattr_visit oid k v) es out
    = out @ List.map_filter (\<lambda>(k, v). if key_type k = Some Xattr then parse_xattr k v else None) es"
  using assms
  by (induction es arbitrary: out)
    (auto simp: xattr_visit_def List.map_filter_simps split: option.splits if_splits)

lemma list_xattrs_embedded:
  assumes "list_xattrs cr rd volume oid block_size = Inr xs" "x \<in> set xs" "xa_value x = XEmbedded b"
  shows "length b < 2 ^ 16"
proof -
  obtain es where "xs = fold (\<lambda>(k, v). xattr_visit oid k v) es []"
    using assms(1) walk_fs_tree_fold by (fastforce simp: list_xattrs_def for_each_fs_record_for_oid_def)
  moreover have "\<forall>x\<in>set (fold (\<lambda>(k, v). xattr_visit oid k v) es out). x \<in> set out \<or> (\<exists>k v. parse_xattr k v = Some x)" for out
    by (induction es arbitrary: out) (fastforce simp: xattr_visit_def split: option.splits if_splits)+
  ultimately obtain k v where "parse_xattr k v = Some x" using assms(2) by fastforce
  moreover have "unat (w :: u16) < 2 ^ 16" for w using unsigned_less [of w, where 'a = nat] by simp
  ultimately show ?thesis
    using assms(3) by (auto simp: parse_xattr_def Let_def get_range_def split: if_splits option.splits)
qed

lemma list_xattrs_stored:
  assumes "fs_stored cr rd volume block_size t" "ordered f t" "oid_major f"
  shows "list_xattrs cr rd volume oid block_size = Inr (xattrs_of t oid)"
proof -
  have "for_each_fs_record_for_oid cr rd volume block_size oid (xattr_visit oid) []
      = Inr (fold (\<lambda>(k, v). xattr_visit oid k v) (records_of t oid) [])"
    by (rule keyed_walk_records [OF assms]) (simp add: xattr_visit_def)
  then show ?thesis by (simp add: list_xattrs_def xattrs_of_def fold_xattrs [OF records_of_oid])
qed

lemma get_xattr_stored:
  assumes "fs_stored cr rd volume block_size t" "ordered f t" "oid_major f"
  shows "get_xattr cr rd volume oid name block_size = Inr (xattr_of t oid name)"
  by (simp add: get_xattr_def list_xattrs_stored [OF assms] xattr_of_def)

subsection \<open>Round trip\<close>

definition enc_xattr_key :: "u64 \<Rightarrow> rust_string \<Rightarrow> bytes" where
  "enc_xattr_key oid name =
     to_le 8 (enc_jkey oid Xattr) @ to_le 2 (of_nat (Suc (length name)) :: u16) @ name @ [0]"

definition enc_xattr_val :: "u16 \<Rightarrow> bytes \<Rightarrow> bytes" where
  "enc_xattr_val flags xdata = to_le 2 flags @ to_le 2 (of_nat (length xdata) :: u16) @ xdata"

definition enc_xattr_dstream :: "u64 \<Rightarrow> u64 \<Rightarrow> bytes \<Rightarrow> bytes" where
  "enc_xattr_dstream oid sz rest = to_le 8 oid @ to_le 8 sz @ rest"

lemma parse_xattr_enc:
  assumes "utf8_valid n" "0 \<notin> set n" "length n < 2 ^ 16 - 1" "length xdata < 2 ^ 16"
  shows "parse_xattr (enc_xattr_key oid n) (enc_xattr_val flags xdata)
    = Some \<lparr> xa_name = n, xa_flags = flags,
        xa_value = (if flags AND XATTR_DATA_STREAM \<noteq> 0
          then XStream (le_u64 xdata OFF_XDSTREAM_OBJ_ID) (le_u64 xdata OFF_XDSTREAM_SIZE)
          else XEmbedded xdata) \<rparr>"
proof -
  have k: "le_u16 (enc_xattr_key oid n) 8 = of_nat (Suc (length n))"
    by (simp add: enc_xattr_key_def le_u16_def arr_fields)
  have kl: "unat (of_nat (Suc (length n)) :: u16) = Suc (length n)"
    using assms(3) by (intro unat_of_nat_u16) simp
  have n: "get_range (enc_xattr_key oid n) 10 (10 + Suc (length n)) = Some (n @ [0])"
    by (simp add: enc_xattr_key_def get_range_def)
  have v: "le_u16 (enc_xattr_val flags xdata) 0 = flags"
      "unat (le_u16 (enc_xattr_val flags xdata) 2) = length xdata"
      "get_range (enc_xattr_val flags xdata) 4 (4 + length xdata) = Some xdata"
    using assms(4) by (simp_all add: enc_xattr_val_def le_u16_def arr_fields unat_of_nat_u16 get_range_def)
  show ?thesis
    unfolding parse_xattr_def Let_def OFF_XATTR_KEY_NAME_LEN_def OFF_XATTR_KEY_NAME_def k kl
      OFF_XATTR_VAL_FLAGS_def OFF_XATTR_VAL_XDATA_LEN_def OFF_XATTR_VAL_XDATA_def n v
    using assms(1,2) by (simp add: decode_cstr_terminated)
qed

text \<open>
  C39. An attribute record written in the documented layout parses back to its name and its
  value: the inline bytes, or, with the stream flag, the stream id and logical size, whatever
  the other flag bits are.
\<close>

theorem xattr_round_trip:
  assumes "utf8_valid n" "0 \<notin> set n" "length n < 2 ^ 16 - 1" "length xdata < 2 ^ 16" "length rest < 2 ^ 15"
    and "bit sflags 0" "\<not> bit eflags 0"
  shows "parse_xattr (enc_xattr_key oid n) (enc_xattr_val eflags xdata)
      = Some \<lparr> xa_name = n, xa_flags = eflags, xa_value = XEmbedded xdata \<rparr>
    \<and> parse_xattr (enc_xattr_key oid n) (enc_xattr_val sflags (enc_xattr_dstream sid ssz rest))
      = Some \<lparr> xa_name = n, xa_flags = sflags, xa_value = XStream sid ssz \<rparr>"
proof -
  have "w AND XATTR_DATA_STREAM \<noteq> 0 \<longleftrightarrow> bit w 0" for w :: u16
    by (simp add: XATTR_DATA_STREAM_def and_one_eq odd_iff_mod_2_eq_one bit_0)
  moreover have "length (enc_xattr_dstream sid ssz rest) < 2 ^ 16"
    using assms(5) by (simp add: enc_xattr_dstream_def)
  ultimately show ?thesis
    using parse_xattr_enc [OF assms(1-3)] assms(4,6,7)
    by (auto simp: enc_xattr_dstream_def layout_defs le_u64_def arr_fields)
qed

theorem xattr_round_trip_witness:
  "parse_xattr (enc_xattr_key 16 [0x78]) (enc_xattr_val 6 [9])
     = Some \<lparr> xa_name = [0x78], xa_flags = 6, xa_value = XEmbedded [9] \<rparr>
   \<and> parse_xattr (enc_xattr_key 16 [0x78]) (enc_xattr_val 1 (enc_xattr_dstream 77 900 (replicate 32 0)))
     = Some \<lparr> xa_name = [0x78], xa_flags = 1, xa_value = XStream 77 900 \<rparr>"
  by (rule xattr_round_trip) (simp_all add: utf8_step_def bit_0)

end
