(* ===== verification/Compression.thy ===== *)
theory Compression
  imports Xattr
begin

text \<open>
  \<^verbatim>\<open>core/src/compression.rs\<close> and \<^verbatim>\<open>read_data\<close> of \<^verbatim>\<open>core/src/extent.rs\<close>: transparent
  compression. The codecs and the decmpfs table (type classification, magic, offsets) come from
  other crates and are the fields of the parameter record \<open>decmpfs_lib\<close>.
\<close>

subsection \<open>The codec crates\<close>

datatype algorithm = Uncompressed | Zlib | Lzvn | Lzfse | LzBitmap | OtherAlgorithm
datatype storage = Inline | ResourceFork

record decmpfs_lib =
  dm_classify :: "u32 \<Rightarrow> (algorithm \<times> storage) option"
  dm_magic :: u32
  dm_header_len :: nat
  dm_type_offset :: nat
  dm_size_offset :: nat
  dm_chunk_size :: nat
  dm_inflate :: "bytes \<Rightarrow> bytes option"
  dm_lzvn :: "bytes \<Rightarrow> nat \<Rightarrow> bytes option"
  dm_lzfse :: "bytes \<Rightarrow> bytes option"

subsection \<open>Bounds-checked readers\<close>

definition checked_add_usize :: "nat \<Rightarrow> nat \<Rightarrow> nat option" where
  "checked_add_usize a b = (if a + b < 2 ^ 64 then Some (a + b) else None)"

definition checked_mul_usize :: "nat \<Rightarrow> nat \<Rightarrow> nat option" where
  "checked_mul_usize a b = (if a * b < 2 ^ 64 then Some (a * b) else None)"

definition read_at :: "bytes \<Rightarrow> nat \<Rightarrow> nat \<Rightarrow> bytes res" where
  "read_at data offset n =
     (case checked_add_usize offset n of
        None \<Rightarrow> Inl (Decmpfs ''decmpfs read offset overflow'')
      | Some e \<Rightarrow>
          (case get_range data offset e of
             None \<Rightarrow> Inl (Decmpfs ''decmpfs read out of bounds'')
           | Some bs \<Rightarrow> Inr bs))"

definition cmp_le_u32 :: "bytes \<Rightarrow> nat \<Rightarrow> u32 res" where
  "cmp_le_u32 data offset = map_sum id le_word (read_at data offset 4)"

definition cmp_be_u32 :: "bytes \<Rightarrow> nat \<Rightarrow> u32 res" where
  "cmp_be_u32 data offset = map_sum id (\<lambda>bs. le_word (rev bs)) (read_at data offset 4)"

definition cmp_le_u64 :: "bytes \<Rightarrow> nat \<Rightarrow> u64 res" where
  "cmp_le_u64 data offset = map_sum id le_word (read_at data offset 8)"

subsection \<open>Decoders\<close>

definition inflate :: "decmpfs_lib \<Rightarrow> bytes \<Rightarrow> bytes res" where
  "inflate lib data = (case dm_inflate lib data of None \<Rightarrow> Inl (Decmpfs ''decmpfs zlib codec error'') | Some x \<Rightarrow> Inr x)"

definition lzvn_decode :: "decmpfs_lib \<Rightarrow> bytes \<Rightarrow> nat \<Rightarrow> bytes res" where
  "lzvn_decode lib chunk n = (case dm_lzvn lib chunk n of None \<Rightarrow> Inl (Decmpfs ''decmpfs lzvn codec error'') | Some x \<Rightarrow> Inr x)"

definition lzfse_decode :: "decmpfs_lib \<Rightarrow> bytes \<Rightarrow> bytes res" where
  "lzfse_decode lib data = (case dm_lzfse lib data of None \<Rightarrow> Inl (Decmpfs ''decmpfs lzfse codec error'') | Some x \<Rightarrow> Inr x)"

definition unreachable_algorithm :: "bytes res" where
  "unreachable_algorithm = Inl (Decmpfs ''decmpfs unsupported algorithm'')"

definition decode_inline :: "decmpfs_lib \<Rightarrow> algorithm \<Rightarrow> bytes \<Rightarrow> nat \<Rightarrow> u32 \<Rightarrow> bytes res" where
  "decode_inline lib algorithm payload uncompressed_size compression_type =
     (case algorithm of
        Uncompressed \<Rightarrow> if compression_type = 9 then Inr (drop 1 payload) else Inr payload
      | Zlib \<Rightarrow> if get_at payload 0 = Some 0xFF then Inr (drop 1 payload) else inflate lib payload
      | Lzvn \<Rightarrow> if get_at payload 0 = Some 0x06 then Inr (drop 1 payload)
                else lzvn_decode lib payload uncompressed_size
      | Lzfse \<Rightarrow> lzfse_decode lib payload
      | _ \<Rightarrow> unreachable_algorithm)"

text \<open>One turn of the block loop: the bytes of block \<open>i\<close>, inflated.\<close>

definition zlib_block :: "decmpfs_lib \<Rightarrow> bytes \<Rightarrow> nat \<Rightarrow> nat \<Rightarrow> bytes res" where
  "zlib_block lib fork table i =
     (case Option.bind (checked_add_usize table 4)
             (\<lambda>b. Option.bind (checked_mul_usize i 8) (\<lambda>o8. checked_add_usize b o8)) of
        None \<Rightarrow> Inl (Decmpfs ''decmpfs zlib fork entry offset overflow'')
      | Some entry \<Rightarrow>
          (case cmp_le_u32 fork entry of
             Inl e \<Rightarrow> Inl e
           | Inr offset \<Rightarrow>
               (case cmp_le_u32 fork (entry + 4) of
                  Inl e \<Rightarrow> Inl e
                | Inr sz \<Rightarrow>
                    (case checked_add_usize table (unat offset) of
                       None \<Rightarrow> Inl (Decmpfs ''decmpfs zlib fork block start overflow'')
                     | Some start \<Rightarrow>
                         (case checked_add_usize start (unat sz) of
                            None \<Rightarrow> Inl (Decmpfs ''decmpfs zlib fork block end overflow'')
                          | Some e' \<Rightarrow>
                              (case get_range fork start e' of
                                 None \<Rightarrow> Inl (Decmpfs ''decmpfs zlib fork block out of bounds'')
                               | Some block \<Rightarrow> inflate lib block))))))"

primrec zlib_fork_loop :: "decmpfs_lib \<Rightarrow> bytes \<Rightarrow> nat \<Rightarrow> nat \<Rightarrow> nat \<Rightarrow> bytes \<Rightarrow> bytes res" where
  "zlib_fork_loop lib fork table i 0 out = Inr out"
| "zlib_fork_loop lib fork table i (Suc n) out =
     (case zlib_block lib fork table i of
        Inl e \<Rightarrow> Inl e
      | Inr x \<Rightarrow> zlib_fork_loop lib fork table (Suc i) n (out @ x))"

definition decode_zlib_resource_fork :: "decmpfs_lib \<Rightarrow> bytes \<Rightarrow> nat \<Rightarrow> bytes res" where
  "decode_zlib_resource_fork lib fork uncompressed_size =
     (case cmp_be_u32 fork 0 of
        Inl e \<Rightarrow> Inl e
      | Inr header_size \<Rightarrow>
          (case checked_add_usize (unat header_size) 4 of
             None \<Rightarrow> Inl (Decmpfs ''decmpfs zlib fork table offset overflow'')
           | Some table \<Rightarrow>
               (case cmp_le_u32 fork table of
                  Inl e \<Rightarrow> Inl e
                | Inr num_blocks \<Rightarrow> zlib_fork_loop lib fork table 0 (unat num_blocks) [])))"

definition chunk_decode :: "decmpfs_lib \<Rightarrow> algorithm \<Rightarrow> bytes \<Rightarrow> nat \<Rightarrow> bytes res" where
  "chunk_decode lib algorithm chunk chunk_uncompressed =
     (case algorithm of
        Lzvn \<Rightarrow> lzvn_decode lib chunk chunk_uncompressed
      | Lzfse \<Rightarrow> lzfse_decode lib chunk
      | Uncompressed \<Rightarrow> Inr chunk
      | _ \<Rightarrow> unreachable_algorithm)"

primrec chunked_fork_loop ::
  "decmpfs_lib \<Rightarrow> algorithm \<Rightarrow> bytes \<Rightarrow> nat \<Rightarrow> nat \<Rightarrow> nat \<Rightarrow> nat \<Rightarrow> bytes \<Rightarrow> bytes res" where
  "chunked_fork_loop lib algorithm fork uncompressed_size i 0 src out = Inr out"
| "chunked_fork_loop lib algorithm fork uncompressed_size i (Suc n) src out =
     (if length out \<ge> uncompressed_size then Inr out
      else case cmp_le_u32 fork (4 + i * 4) of
             Inl e \<Rightarrow> Inl e
           | Inr e32 \<Rightarrow>
               let e' = unat e32
               in if e' < src then Inl (Decmpfs ''decmpfs chunked fork end-offset goes backward'')
                  else case get_range fork src e' of
                         None \<Rightarrow> Inl (Decmpfs ''decmpfs chunked fork chunk out of bounds'')
                       | Some chunk \<Rightarrow>
                           (case chunk_decode lib algorithm chunk
                                   (min (uncompressed_size - length out) (dm_chunk_size lib)) of
                              Inl e \<Rightarrow> Inl e
                            | Inr decoded \<Rightarrow>
                                chunked_fork_loop lib algorithm fork uncompressed_size (Suc i) n e' (out @ decoded)))"

definition decode_chunked_resource_fork :: "decmpfs_lib \<Rightarrow> algorithm \<Rightarrow> bytes \<Rightarrow> nat \<Rightarrow> bytes res" where
  "decode_chunked_resource_fork lib algorithm fork uncompressed_size =
     (case cmp_le_u32 fork 0 of
        Inl e \<Rightarrow> Inl e
      | Inr h \<Rightarrow>
          let header_size = unat h
          in if header_size div 4 < 1 then Inl (Decmpfs ''decmpfs chunked fork header too small'')
             else chunked_fork_loop lib algorithm fork uncompressed_size 0 (header_size div 4 - 1) header_size [])"

definition decode_resource_fork :: "decmpfs_lib \<Rightarrow> algorithm \<Rightarrow> bytes \<Rightarrow> nat \<Rightarrow> bytes res" where
  "decode_resource_fork lib algorithm fork uncompressed_size =
     (case algorithm of
        Zlib \<Rightarrow> decode_zlib_resource_fork lib fork uncompressed_size
      | Lzvn \<Rightarrow> decode_chunked_resource_fork lib algorithm fork uncompressed_size
      | Lzfse \<Rightarrow> decode_chunked_resource_fork lib algorithm fork uncompressed_size
      | Uncompressed \<Rightarrow> decode_chunked_resource_fork lib algorithm fork uncompressed_size
      | _ \<Rightarrow> unreachable_algorithm)"

definition decode_payload :: "decmpfs_lib \<Rightarrow> algorithm \<Rightarrow> storage \<Rightarrow> bytes \<Rightarrow> bytes option \<Rightarrow> nat \<Rightarrow> u32 \<Rightarrow> bytes res" where
  "decode_payload lib algorithm storage header rfork uncompressed_size compression_type =
     (case storage of
        Inline \<Rightarrow>
          (case get_range header (dm_header_len lib) (length header) of
             None \<Rightarrow> Inl (Decmpfs ''decmpfs inline payload truncated'')
           | Some payload \<Rightarrow> decode_inline lib algorithm payload uncompressed_size compression_type)
      | ResourceFork \<Rightarrow>
          (case rfork of
             None \<Rightarrow> Inl (Decmpfs ''decmpfs resource-fork type but no fork present'')
           | Some fork \<Rightarrow> decode_resource_fork lib algorithm fork uncompressed_size))"

definition decompress_decmpfs :: "decmpfs_lib \<Rightarrow> bytes \<Rightarrow> bytes option \<Rightarrow> bytes res" where
  "decompress_decmpfs lib header rfork =
     (if length header < dm_header_len lib
      then Inl (Decmpfs ''decmpfs xattr shorter than 16-byte header'')
      else case cmp_le_u32 header 0 of
        Inl e \<Rightarrow> Inl e
      | Inr magic \<Rightarrow>
          if magic \<noteq> dm_magic lib then Inl (Decmpfs ''decmpfs bad magic (expected 'cmpf')'')
          else case cmp_le_u32 header (dm_type_offset lib) of
            Inl e \<Rightarrow> Inl e
          | Inr compression_type \<Rightarrow>
              (case cmp_le_u64 header (dm_size_offset lib) of
                 Inl e \<Rightarrow> Inl e
               | Inr sz \<Rightarrow>
                   (case dm_classify lib compression_type of
                      None \<Rightarrow> Inl (Decmpfs
                        (if compression_type = 5
                         then ''decmpfs type 5 (de-dup generation store, no payload)''
                         else ''decmpfs unknown compression_type''))
                    | Some (algorithm, storage) \<Rightarrow>
                        if algorithm = LzBitmap then Inl (Decmpfs ''decmpfs LZBitmap (no public spec)'')
                        else case decode_payload lib algorithm storage header rfork (unat sz) compression_type of
                               Inl e \<Rightarrow> Inl e
                             | Inr out \<Rightarrow>
                                 if length out \<noteq> unat sz
                                 then Inl (Decmpfs ''decmpfs decoded length != uncompressed_size'')
                                 else Inr out)))"

definition read_compressed :: "decmpfs_lib \<Rightarrow> crypto \<Rightarrow> reader \<Rightarrow> apfs_volume \<Rightarrow> inode \<Rightarrow> bytes \<Rightarrow> nat \<Rightarrow> bytes res" where
  "read_compressed lib cr rd volume ino header block_size =
     (case cmp_le_u32 header (dm_type_offset lib) of
        Inl e \<Rightarrow> Inl e
      | Inr compression_type \<Rightarrow>
          let needs_fork = (case dm_classify lib compression_type of
                              None \<Rightarrow> False | Some (_, storage) \<Rightarrow> storage = ResourceFork)
          in if needs_fork
             then (case resource_fork cr rd volume (ino_oid ino) block_size of
                     Inl e \<Rightarrow> Inl e
                   | Inr fork \<Rightarrow> decompress_decmpfs lib header fork)
             else decompress_decmpfs lib header None)"

definition read_data :: "decmpfs_lib \<Rightarrow> crypto \<Rightarrow> reader \<Rightarrow> apfs_volume \<Rightarrow> inode \<Rightarrow> nat \<Rightarrow> bytes res" where
  "read_data lib cr rd volume ino block_size =
     (case decmpfs_header cr rd volume (ino_oid ino) block_size of
        Inl e \<Rightarrow> Inl e
      | Inr (Some header) \<Rightarrow> read_compressed lib cr rd volume ino header block_size
      | Inr None \<Rightarrow>
          read_stream cr rd volume (ino_private_id ino)
            (case ino_size ino of None \<Rightarrow> 0 | Some sz \<Rightarrow> sz) block_size)"

subsection \<open>Compressed forks round trip\<close>

text \<open>A zlib fork: big-endian header, total-size prefix, block table, compressed blocks.\<close>

definition enc_zlib_fork :: "bytes \<Rightarrow> bytes \<Rightarrow> bytes list \<Rightarrow> bytes" where
  "enc_zlib_fork pad tot blocks =
     rev (to_le 4 (of_nat (4 + length pad) :: u32)) @ pad @ tot @ to_le 4 (of_nat (length blocks) :: u32)
     @ concat (map (\<lambda>i. to_le 4 (of_nat (4 + 8 * length blocks + length (concat (take i blocks))) :: u32)
                        @ to_le 4 (of_nat (length (blocks ! i)) :: u32)) [0..<length blocks])
     @ concat blocks"

text \<open>A chunked fork: little-endian header size, the end offset of each chunk, the chunks.\<close>

definition enc_chunked_fork :: "bytes list \<Rightarrow> bytes" where
  "enc_chunked_fork chunks =
     (let h = 4 * (length chunks + 1)
      in to_le 4 (of_nat h :: u32)
         @ concat (map (\<lambda>i. to_le 4 (of_nat (h + length (concat (take (Suc i) chunks))) :: u32)) [0..<length chunks])
         @ concat chunks)"

lemma unat_of_nat_u32: "n < 2 ^ 32 \<Longrightarrow> unat (of_nat n :: u32) = n"
  by (simp add: unat_of_nat take_bit_nat_eq_self)

lemma read_at_arr:
  "off + n \<le> length data \<Longrightarrow> length data < 2 ^ 64 \<Longrightarrow> read_at data off n = Inr (arr n data off)"
  by (simp add: read_at_def checked_add_usize_def get_range_def arr_in_range)

lemma cmp_le_u32_read:
  "off + 4 \<le> length data \<Longrightarrow> length data < 2 ^ 64 \<Longrightarrow> cmp_le_u32 data off = Inr (le_u32 data off)"
  by (simp add: cmp_le_u32_def read_at_arr le_u32_def)

lemma zlib_loop_all:
  assumes "\<And>i. i < length ps \<Longrightarrow> zlib_block lib fork table i = Inr (ps ! i)"
  shows "i + n = length ps \<Longrightarrow> zlib_fork_loop lib fork table i n out = Inr (out @ concat (drop i ps))"
proof (induction n arbitrary: i out)
  case (Suc n)
  then have "drop i ps = ps ! i # drop (Suc i) ps" by (intro Cons_nth_drop_Suc [symmetric]) simp
  then show ?case using assms [of i] Suc by simp
qed simp

lemma length_enc_zlib_fork:
  "length tot = 4 \<Longrightarrow> length (enc_zlib_fork pad tot blocks)
    = 12 + length pad + 8 * length blocks + length (concat blocks)"
  unfolding enc_zlib_fork_def
  by (simp add: length_concat_chunks [where L = 8])

lemma zlib_block_enc:
  assumes len: "length tot = 4" "length (enc_zlib_fork pad tot blocks) < 2 ^ 32" and i: "i < length blocks"
  shows "zlib_block lib (enc_zlib_fork pad tot blocks) (8 + length pad) i = inflate lib (blocks ! i)"
proof -
  let ?fork = "enc_zlib_fork pad tot blocks"
  let ?f = "\<lambda>i. to_le 4 (of_nat (4 + 8 * length blocks + length (concat (take i blocks))) :: u32)
                        @ to_le 4 (of_nat (length (blocks ! i)) :: u32)"
  let ?pre = "rev (to_le 4 (of_nat (4 + length pad) :: u32)) @ pad @ tot @ to_le 4 (of_nat (length blocks) :: u32)"
  have fork: "?fork = ?pre @ concat (map ?f [0..<length blocks]) @ concat blocks"
    by (simp add: enc_zlib_fork_def)
  have flen: "length ?fork = 12 + length pad + 8 * length blocks + length (concat blocks)"
    by (rule length_enc_zlib_fork [OF len(1)])
  have off: "length (concat (take i blocks)) + length (blocks ! i) \<le> length (concat blocks)"
    using concat_split_nth [OF i] by (metis add.assoc le_add1 length_append)
  have a: "arr 4 ?fork (12 + length pad + i * 8 + j) = arr 4 (?f i) j" if "j + 4 \<le> 8" for j
    unfolding fork
    by (subst arr_concat_chunk [where L = 8 and i = i and j = j]) (use i that len(1) in auto)
  have e: "le_u32 ?fork (12 + length pad + i * 8) = of_nat (4 + 8 * length blocks + length (concat (take i blocks)))"
      "le_u32 ?fork (12 + length pad + i * 8 + 4) = of_nat (length (blocks ! i))"
    using a [of 0] a [of 4] by (simp_all add: le_u32_def arr_fields)
  have g: "get_range ?fork (12 + length pad + 8 * length blocks + length (concat (take i blocks)))
      (12 + length pad + 8 * length blocks + length (concat (take i blocks)) + length (blocks ! i)) = Some (blocks ! i)"
    using get_range_concat [where i = i and xss = blocks and pre = "?pre @ concat (map ?f [0..<length blocks])"
        and post = "[]"] i len(1)
    by (simp add: fork length_concat_chunks [where L = 8] add.assoc mult.commute [of 8 "length blocks"])
  have ent: "Option.bind (checked_add_usize (8 + length pad) 4)
      (\<lambda>b. Option.bind (checked_mul_usize i 8) (\<lambda>o8. checked_add_usize b o8)) = Some (12 + length pad + i * 8)"
    using len(2) i flen by (simp add: checked_add_usize_def checked_mul_usize_def)
  have c: "cmp_le_u32 ?fork (12 + length pad + i * 8)
        = Inr (of_nat (4 + 8 * length blocks + length (concat (take i blocks))))"
      "cmp_le_u32 ?fork (12 + length pad + i * 8 + 4) = Inr (of_nat (length (blocks ! i)))"
    unfolding e [symmetric] by (rule cmp_le_u32_read, use len(2) i flen in simp_all)+
  have u: "unat (of_nat (4 + 8 * length blocks + length (concat (take i blocks))) :: u32)
        = 4 + 8 * length blocks + length (concat (take i blocks))"
      "unat (of_nat (length (blocks ! i)) :: u32) = length (blocks ! i)"
    by (rule unat_of_nat_u32, use len(2) flen off in linarith)+
  have s: "checked_add_usize (8 + length pad) (4 + 8 * length blocks + length (concat (take i blocks)))
        = Some (12 + length pad + 8 * length blocks + length (concat (take i blocks)))"
      "checked_add_usize (12 + length pad + 8 * length blocks + length (concat (take i blocks))) (length (blocks ! i))
        = Some (12 + length pad + 8 * length blocks + length (concat (take i blocks)) + length (blocks ! i))"
    using len(2) flen off by (simp_all add: checked_add_usize_def)
  show ?thesis
    by (simp only: zlib_block_def ent c u s g option.case sum.case)
qed

lemma zlib_fork_round_trip:
  assumes len: "length tot = 4" "length (enc_zlib_fork pad tot blocks) < 2 ^ 32"
    and ps: "list_all2 (\<lambda>b p. dm_inflate lib b = Some p) blocks ps"
  shows "decode_zlib_resource_fork lib (enc_zlib_fork pad tot blocks) n = Inr (concat ps)"
proof -
  let ?fork = "enc_zlib_fork pad tot blocks"
  have flen: "length ?fork = 12 + length pad + 8 * length blocks + length (concat blocks)"
    by (rule length_enc_zlib_fork [OF len(1)])
  have "arr 4 ?fork 0 = rev (to_le 4 (of_nat (4 + length pad) :: u32))"
    by (simp add: enc_zlib_fork_def arr_fields)
  then have h: "cmp_be_u32 ?fork 0 = Inr (of_nat (4 + length pad))"
    using flen len(2) by (simp add: cmp_be_u32_def read_at_arr)
  have "arr 4 ?fork (8 + length pad) = to_le 4 (of_nat (length blocks) :: u32)"
    using len(1) by (simp add: enc_zlib_fork_def arr_fields)
  then have n: "cmp_le_u32 ?fork (8 + length pad) = Inr (of_nat (length blocks))"
    using flen len(2) by (simp add: cmp_le_u32_read le_u32_def)
  have len2: "length ps = length blocks" using ps by (simp add: list_all2_lengthD)
  have "zlib_block lib ?fork (8 + length pad) i = Inr (ps ! i)" if "i < length ps" for i
    using zlib_block_enc [OF len, of i lib] list_all2_nthD [OF ps, of i] that len2 by (simp add: inflate_def)
  then have "zlib_fork_loop lib ?fork (8 + length pad) 0 (length blocks) [] = Inr (concat ps)"
    using zlib_loop_all [of ps lib ?fork "8 + length pad" 0 "length blocks" "[]"] len2 by simp
  then show ?thesis
    using flen len(2) h n
    by (simp add: decode_zlib_resource_fork_def checked_add_usize_def unat_of_nat_u32 add.commute del: of_nat_add)
qed

lemma length_enc_chunked_fork:
  "length (enc_chunked_fork chunks) = 4 * (length chunks + 1) + length (concat chunks)"
  unfolding enc_chunked_fork_def Let_def by (simp add: length_concat_chunks [where L = 4])

text \<open>Chunks of the decoder's size: all full but the last, none empty.\<close>

fun well_chunked :: "nat \<Rightarrow> bytes list \<Rightarrow> bool" where
  "well_chunked c [] \<longleftrightarrow> True"
| "well_chunked c [p] \<longleftrightarrow> 0 < length p \<and> length p \<le> c"
| "well_chunked c (p # ps) \<longleftrightarrow> 0 < length p \<and> length p = c \<and> well_chunked c ps"

lemma well_chunked_Cons:
  assumes "well_chunked c (p # ps)"
  shows "0 < length p" "min (length p + length (concat ps)) c = length p" "well_chunked c ps"
  using assms by (cases ps; auto)+

lemma chunk_reads:
  assumes len: "length (enc_chunked_fork chunks) < 2 ^ 32" and i: "i < length chunks"
  defines "h \<equiv> 4 * (length chunks + 1)"
  shows "cmp_le_u32 (enc_chunked_fork chunks) (4 + i * 4) = Inr (of_nat (h + length (concat (take (Suc i) chunks))))"
    and "get_range (enc_chunked_fork chunks) (h + length (concat (take i chunks)))
      (h + length (concat (take (Suc i) chunks))) = Some (chunks ! i)"
    and "h + length (concat (take (Suc i) chunks)) < 2 ^ 32"
proof -
  let ?fork = "enc_chunked_fork chunks"
  let ?f = "\<lambda>i. to_le 4 (of_nat (h + length (concat (take (Suc i) chunks))) :: u32)"
  have fork: "?fork = to_le 4 (of_nat h :: u32) @ concat (map ?f [0..<length chunks]) @ concat chunks"
    unfolding enc_chunked_fork_def Let_def h_def ..
  have flen: "length ?fork = h + length (concat chunks)"
    unfolding h_def by (rule length_enc_chunked_fork)
  have tk: "length (concat (take (Suc i) chunks)) = length (concat (take i chunks)) + length (chunks ! i)"
    using i by (simp add: take_Suc_conv_app_nth)
  have "arr 4 ?fork (4 + i * 4) = ?f i"
    unfolding fork by (subst arr_concat_chunk [where L = 4 and i = i and j = 0]) (use i in \<open>auto simp: arr_full\<close>)
  then show "cmp_le_u32 ?fork (4 + i * 4) = Inr (of_nat (h + length (concat (take (Suc i) chunks))))"
    using flen len i by (simp add: cmp_le_u32_read le_u32_def h_def)
  show "get_range ?fork (h + length (concat (take i chunks))) (h + length (concat (take (Suc i) chunks)))
      = Some (chunks ! i)"
    using get_range_concat [where i = i and xss = chunks and post = "[]"
        and pre = "to_le 4 (of_nat h :: u32) @ concat (map ?f [0..<length chunks])"] i
    by (simp add: fork tk length_concat_chunks [where L = 4] h_def add.assoc mult.commute [of 4 "length chunks"])
  have "length (concat (take (Suc i) chunks)) \<le> length (concat chunks)"
    by (metis append_take_drop_id concat_append le_add1 length_append)
  then show "h + length (concat (take (Suc i) chunks)) < 2 ^ 32" using len flen by simp
qed

lemma chunked_loop_all:
  assumes len: "length (enc_chunked_fork chunks) < 2 ^ 32" "length ps = length chunks"
    and dec: "\<And>i. i < length chunks \<Longrightarrow> chunk_decode lib alg (chunks ! i) (length (ps ! i)) = Inr (ps ! i)"
    and "well_chunked (dm_chunk_size lib) (drop i ps)" "i + n = length chunks"
  shows "chunked_fork_loop lib alg (enc_chunked_fork chunks) (length (concat ps)) i n
      (4 * (length chunks + 1) + length (concat (take i chunks))) (concat (take i ps)) = Inr (concat ps)"
  using assms(4,5)
proof (induction n arbitrary: i)
  case 0
  then show ?case using len(2) by simp
next
  case (Suc n)
  then have i: "i < length chunks" and ip: "i < length ps" using len(2) by simp_all
  have d: "drop i ps = ps ! i # drop (Suc i) ps" by (rule Cons_nth_drop_Suc [OF ip, symmetric])
  note wc = well_chunked_Cons [OF Suc.prems(1) [unfolded d]]
  have whole: "length (concat ps) = length (concat (take i ps)) + (length (ps ! i) + length (concat (drop (Suc i) ps)))"
    using concat_split_nth [OF ip] by simp
  have tk: "concat (take (Suc i) ps) = concat (take i ps) @ ps ! i" using ip by (simp add: take_Suc_conv_app_nth)
  have tc: "length (concat (take i chunks)) \<le> length (concat (take (Suc i) chunks))"
    using i by (simp add: take_Suc_conv_app_nth)
  show ?case
    using Suc.IH [of "Suc i"] Suc.prems(2) wc whole chunk_reads [OF len(1) i] dec [OF i] tc
    by (simp add: unat_of_nat_u32 tk del: of_nat_add of_nat_mult)
qed

lemma chunked_fork_round_trip:
  assumes len: "length (enc_chunked_fork chunks) < 2 ^ 32" "length ps = length chunks"
    and dec: "\<And>i. i < length chunks \<Longrightarrow> chunk_decode lib alg (chunks ! i) (length (ps ! i)) = Inr (ps ! i)"
    and wc: "well_chunked (dm_chunk_size lib) ps"
  shows "decode_chunked_resource_fork lib alg (enc_chunked_fork chunks) (length (concat ps)) = Inr (concat ps)"
proof -
  have "arr 4 (enc_chunked_fork chunks) 0 = to_le 4 (of_nat (4 * (length chunks + 1)) :: u32)"
    by (simp add: enc_chunked_fork_def Let_def arr_fields)
  then have h: "cmp_le_u32 (enc_chunked_fork chunks) 0 = Inr (of_nat (4 * (length chunks + 1)))"
    using len(1) by (simp add: cmp_le_u32_read le_u32_def length_enc_chunked_fork)
  have "4 * (length chunks + 1) < 2 ^ 32" using len(1) unfolding length_enc_chunked_fork by linarith
  then have u: "unat (of_nat (4 * (length chunks + 1)) :: u32) = 4 * (length chunks + 1)"
    by (rule unat_of_nat_u32)
  show ?thesis
    using chunked_loop_all [OF len dec, of 0 "length chunks"] wc
    by (simp only: decode_chunked_resource_fork_def h u Let_def sum.case) simp
qed

subsection \<open>What decompression guarantees\<close>

text \<open>\<open>b\<close> is a compressed form of \<open>p\<close>: the codec of the algorithm turns it into \<open>p\<close>.\<close>

definition compressed_as :: "decmpfs_lib \<Rightarrow> algorithm \<Rightarrow> bytes \<Rightarrow> bytes \<Rightarrow> bool" where
  "compressed_as lib alg b p \<longleftrightarrow>
     (case alg of
        Zlib \<Rightarrow> dm_inflate lib b = Some p
      | Lzvn \<Rightarrow> dm_lzvn lib b (length p) = Some p
      | Lzfse \<Rightarrow> dm_lzfse lib b = Some p
      | Uncompressed \<Rightarrow> b = p
      | _ \<Rightarrow> False)"

definition enc_fork :: "algorithm \<Rightarrow> bytes \<Rightarrow> bytes \<Rightarrow> bytes list \<Rightarrow> bytes" where
  "enc_fork alg pad tot blocks = (if alg = Zlib then enc_zlib_fork pad tot blocks else enc_chunked_fork blocks)"

lemma decode_resource_fork_enc:
  assumes "length tot = 4" "length (enc_fork alg pad tot blocks) < 2 ^ 32"
    and "list_all2 (compressed_as lib alg) blocks ps" "blocks \<noteq> []"
    and "alg = Zlib \<or> well_chunked (dm_chunk_size lib) ps"
  shows "decode_resource_fork lib alg (enc_fork alg pad tot blocks) (length (concat ps)) = Inr (concat ps)"
proof -
  have len: "length ps = length blocks" using assms(3) by (simp add: list_all2_lengthD)
  have nth: "compressed_as lib alg (blocks ! i) (ps ! i)" if "i < length blocks" for i
    using assms(3) that by (rule list_all2_nthD)
  show ?thesis
  proof (cases "alg = Zlib")
    case True
    then have "list_all2 (\<lambda>b p. dm_inflate lib b = Some p) blocks ps"
      using assms(3) by (auto simp: compressed_as_def elim: list_all2_mono)
    then show ?thesis
      using zlib_fork_round_trip [OF assms(1), of pad blocks lib ps] assms(2) True
      by (simp add: enc_fork_def decode_resource_fork_def)
  next
    case False
    have "chunk_decode lib alg (blocks ! i) (length (ps ! i)) = Inr (ps ! i)" if "i < length blocks" for i
      using nth [OF that] False
      by (cases alg) (simp_all add: compressed_as_def chunk_decode_def lzvn_decode_def lzfse_decode_def)
    then have "decode_chunked_resource_fork lib alg (enc_chunked_fork blocks) (length (concat ps)) = Inr (concat ps)"
      using assms(2,5) False len by (intro chunked_fork_round_trip) (auto simp: enc_fork_def)
    then show ?thesis
      using False nth [of 0] assms(4)
      by (cases alg) (auto simp: enc_fork_def decode_resource_fork_def compressed_as_def)
  qed
qed

text \<open>
  C27. A file compressed into a resource fork decompresses to the original bytes: for a zlib
  fork with any number of blocks and for an LZVN, LZFSE or stored fork cut into full chunks,
  with any codec that inverts the compression of each block, the header naming the type and
  the total size.
\<close>

theorem decompress_fork_round_trip:
  assumes "dm_header_len lib \<le> length header" "cmp_le_u32 header 0 = Inr (dm_magic lib)"
    and "cmp_le_u32 header (dm_type_offset lib) = Inr ty" "dm_classify lib ty = Some (alg, ResourceFork)"
    and "cmp_le_u64 header (dm_size_offset lib) = Inr (of_nat (length (concat ps)))" "length (concat ps) < 2 ^ 64"
    and "length tot = 4" "length (enc_fork alg pad tot blocks) < 2 ^ 32" "blocks \<noteq> []"
    and "list_all2 (compressed_as lib alg) blocks ps" "alg = Zlib \<or> well_chunked (dm_chunk_size lib) ps"
  shows "decompress_decmpfs lib header (Some (enc_fork alg pad tot blocks)) = Inr (concat ps)"
proof -
  obtain b p where "compressed_as lib alg b p" using assms(9,10) by (cases blocks; cases ps) auto
  then have "alg \<noteq> LzBitmap" by (auto simp: compressed_as_def)
  then show ?thesis
    using assms decode_resource_fork_enc [OF assms(7,8,10,9,11)]
    by (simp add: decompress_decmpfs_def decode_payload_def unat_of_nat_u64)
qed

definition demo_lib :: decmpfs_lib where
  "demo_lib = \<lparr> dm_classify = (\<lambda>ty. if ty = 4 then Some (Zlib, ResourceFork)
                 else if ty = 8 then Some (Lzvn, ResourceFork) else if ty = 1 then Some (Uncompressed, Inline) else None),
     dm_magic = 0x636d7066, dm_header_len = 16, dm_type_offset = 4, dm_size_offset = 8, dm_chunk_size = 4,
     dm_inflate = (\<lambda>b. case b of [] \<Rightarrow> None | m # bs \<Rightarrow> if m = 0x78 then Some bs else None),
     dm_lzvn = (\<lambda>b n. case b of [] \<Rightarrow> None | m # bs \<Rightarrow> if m = 0xe0 \<and> n \<le> length bs then Some (take n bs) else None),
     dm_lzfse = (\<lambda>b. None) \<rparr>"

definition demo_decmpfs_header :: "u32 \<Rightarrow> u64 \<Rightarrow> bytes" where
  "demo_decmpfs_header ty sz = to_le 4 (0x636d7066 :: u32) @ to_le 4 ty @ to_le 8 sz"

lemma demo_header_reads:
  "length (demo_decmpfs_header ty sz) = 16" "cmp_le_u32 (demo_decmpfs_header ty sz) 0 = Inr 0x636d7066"
  "cmp_le_u32 (demo_decmpfs_header ty sz) 4 = Inr ty" "cmp_le_u64 (demo_decmpfs_header ty sz) 8 = Inr sz"
  by (simp_all add: demo_decmpfs_header_def cmp_le_u32_read le_u32_def cmp_le_u64_def read_at_arr arr_fields)

theorem decompress_fork_round_trip_witness:
  "decompress_decmpfs demo_lib (demo_decmpfs_header 8 6)
     (Some (enc_fork Lzvn [] (replicate 4 0) [[0xe0, 1, 2, 3, 4, 0x06], [0xe0, 5, 6]])) = Inr [1, 2, 3, 4, 5, 6]
   \<and> decompress_decmpfs demo_lib (demo_decmpfs_header 4 5)
     (Some (enc_fork Zlib (replicate 252 0) (replicate 4 0) [[0x78, 1, 2], [0x78, 3, 4, 5]])) = Inr [1, 2, 3, 4, 5]"
proof
  show "decompress_decmpfs demo_lib (demo_decmpfs_header 8 6)
      (Some (enc_fork Lzvn [] (replicate 4 0) [[0xe0, 1, 2, 3, 4, 0x06], [0xe0, 5, 6]])) = Inr [1, 2, 3, 4, 5, 6]"
    using decompress_fork_round_trip [where lib = demo_lib and header = "demo_decmpfs_header 8 6" and ty = 8
        and alg = Lzvn and pad = "[]" and tot = "replicate 4 0" and blocks = "[[0xe0, 1, 2, 3, 4, 0x06], [0xe0, 5, 6]]"
        and ps = "[[1, 2, 3, 4], [5, 6]]"]
    by (simp add: demo_lib_def demo_header_reads compressed_as_def enc_fork_def length_enc_chunked_fork)
  show "decompress_decmpfs demo_lib (demo_decmpfs_header 4 5)
      (Some (enc_fork Zlib (replicate 252 0) (replicate 4 0) [[0x78, 1, 2], [0x78, 3, 4, 5]])) = Inr [1, 2, 3, 4, 5]"
    using decompress_fork_round_trip [where lib = demo_lib and header = "demo_decmpfs_header 4 5" and ty = 4
        and alg = Zlib and pad = "replicate 252 0" and tot = "replicate 4 0" and blocks = "[[0x78, 1, 2], [0x78, 3, 4, 5]]"
        and ps = "[[1, 2], [3, 4, 5]]"]
    by (simp add: demo_lib_def demo_header_reads compressed_as_def enc_fork_def length_enc_zlib_fork)
qed

text \<open>
  C37. Decompression never returns a partial buffer: whenever it succeeds, whatever the header,
  fork and codecs, the header carried the magic and a classified type other than LZBitmap, and
  the output has exactly the length the header declares.
\<close>

theorem decompress_whole_or_error:
  "decompress_decmpfs lib header rfork = Inr out \<Longrightarrow>
     cmp_le_u32 header 0 = Inr (dm_magic lib)
     \<and> cmp_le_u64 header (dm_size_offset lib) = Inr (of_nat (length out))
     \<and> (\<exists>ty alg st. cmp_le_u32 header (dm_type_offset lib) = Inr ty \<and> dm_classify lib ty = Some (alg, st)
          \<and> alg \<noteq> LzBitmap \<and> decode_payload lib alg st header rfork (length out) ty = Inr out)"
  by (auto simp: decompress_decmpfs_def split: sum.splits option.splits if_splits prod.splits)

theorem decompress_whole_or_error_witness:
  "decompress_decmpfs demo_lib (demo_decmpfs_header 1 2 @ [7, 8]) None = Inr [7, 8]
   \<and> cmp_le_u64 (demo_decmpfs_header 1 2 @ [7, 8]) 8 = Inr 2"
proof -
  let ?h = "demo_decmpfs_header 1 2 @ [7, 8]"
  have "decompress_decmpfs demo_lib ?h None = Inr [7, 8]"
    by (simp add: decompress_decmpfs_def demo_lib_def decode_payload_def decode_inline_def get_range_def
        demo_decmpfs_header_def cmp_le_u32_read le_u32_def cmp_le_u64_def read_at_arr arr_fields)
  with decompress_whole_or_error [OF this] show ?thesis by (simp add: demo_lib_def)
qed

end
