(* ===== verification/Display.thy ===== *)
theory Display
  imports Xattr
begin

text \<open>
  The text forms the crates build with \<^verbatim>\<open>format!\<close>: decimal and padded hexadecimal numbers, and
  the messages of \<^verbatim>\<open>ApfsError\<close> (\<^verbatim>\<open>core/src/lib.rs\<close>). Decimal output is shown to be injective, also
  inside a longer message, which is what lets a message stand as evidence of the value.
\<close>

subsection \<open>Numbers\<close>

definition digit_byte :: "nat \<Rightarrow> u8" where
  "digit_byte d = of_nat (if d < 10 then 48 + d else 87 + d)"

function digits :: "nat \<Rightarrow> nat \<Rightarrow> rust_string" where
  "digits b n = (if b < 2 \<or> n < b then [digit_byte n] else digits b (n div b) @ [digit_byte (n mod b)])"
  by pat_completeness auto
termination
  by (relation "measure snd") (auto intro: div_less_dividend)

declare digits.simps [simp del]

text \<open>\<^verbatim>\<open>{n}\<close>, \<^verbatim>\<open>{n:#x}\<close> and \<^verbatim>\<open>{n:#0wx}\<close> (the width counts the prefix).\<close>

definition fmt_dec :: "nat \<Rightarrow> rust_string" where
  "fmt_dec n = digits 10 n"

definition fmt_hex :: "nat \<Rightarrow> nat \<Rightarrow> rust_string" where
  "fmt_hex w n = str_bytes ''0x'' @ replicate (w - 2 - length (digits 16 n)) 48 @ digits 16 n"

abbreviation fmt_u64 :: "u64 \<Rightarrow> rust_string" where
  "fmt_u64 w \<equiv> fmt_dec (unat w)"

definition is_digit_byte :: "u8 \<Rightarrow> bool" where
  "is_digit_byte b \<longleftrightarrow> 48 \<le> b \<and> b < 58"

definition digit_value :: "u8 \<Rightarrow> nat" where
  "digit_value b = (if b < 58 then unat b - 48 else unat b - 87)"

definition number_of :: "nat \<Rightarrow> rust_string \<Rightarrow> nat" where
  "number_of base bs = foldl (\<lambda>n b. n * base + digit_value b) 0 bs"

lemma unat_digit_byte: "d < 16 \<Longrightarrow> unat (digit_byte d) = (if d < 10 then 48 + d else 87 + d)"
  by (simp add: digit_byte_def unat_of_nat take_bit_nat_eq_self)

lemma digit_value_byte: "d < 16 \<Longrightarrow> digit_value (digit_byte d) = d"
  by (auto simp: digit_value_def word_less_nat_alt unat_digit_byte)

lemma number_of_snoc: "number_of b (xs @ [d]) = number_of b xs * b + digit_value d"
  by (simp add: number_of_def)

lemma digits_small: "n < b \<Longrightarrow> digits b n = [digit_byte n]"
  by (subst digits.simps) simp

lemma digits_large: "2 \<le> b \<Longrightarrow> b \<le> n \<Longrightarrow> digits b n = digits b (n div b) @ [digit_byte (n mod b)]"
  by (subst digits.simps) simp

lemma number_of_digits:
  assumes "2 \<le> b" "b \<le> 16"
  shows "number_of b (digits b n) = n"
proof (induction n rule: less_induct)
  case (less n)
  show ?case
  proof (cases "n < b")
    case True
    then have "digit_value (digit_byte n) = n" using assms(2) by (intro digit_value_byte) simp
    then show ?thesis using True by (simp add: digits_small number_of_def)
  next
    case False
    then have "n div b < n" using assms(1) by (intro div_less_dividend) auto
    then have "number_of b (digits b (n div b)) = n div b" by (rule less)
    moreover have "n mod b < b" using assms(1) by (intro mod_less_divisor) simp
    then have "digit_value (digit_byte (n mod b)) = n mod b" using assms(2) by (intro digit_value_byte) simp
    ultimately show ?thesis
      using False assms(1) by (simp add: digits_large number_of_snoc)
  qed
qed

lemma digits_dec: "\<forall>b\<in>set (digits 10 n). is_digit_byte b"
proof (induction n rule: less_induct)
  case (less n)
  have d: "is_digit_byte (digit_byte d)" if "d < 10" for d
    using that by (simp add: is_digit_byte_def word_le_nat_alt word_less_nat_alt unat_digit_byte)
  show ?case
  proof (cases "n < 10")
    case True
    then show ?thesis using d by (simp add: digits_small)
  next
    case False
    then have "\<forall>b\<in>set (digits 10 (n div 10)). is_digit_byte b" by (intro less) auto
    then show ?thesis using False d [of "n mod 10"] by (simp add: digits_large)
  qed
qed

lemma fmt_dec_inject [simp]: "fmt_dec m = fmt_dec n \<longleftrightarrow> m = n"
proof
  assume "fmt_dec m = fmt_dec n"
  then have "number_of 10 (digits 10 m) = number_of 10 (digits 10 n)" by (simp add: fmt_dec_def)
  then show "m = n" by (simp add: number_of_digits)
qed simp

lemma dec_split:
  assumes "fmt_dec m @ c # xs = fmt_dec n @ d # ys" "\<not> is_digit_byte c" "\<not> is_digit_byte d"
  shows "m = n \<and> c # xs = d # ys"
proof -
  have tw: "takeWhile is_digit_byte (fmt_dec k @ e # zs) = fmt_dec k" if "\<not> is_digit_byte e" for k e zs
    using that digits_dec [of k] by (simp add: fmt_dec_def takeWhile_append2)
  have "fmt_dec m = fmt_dec n" using tw [OF assms(2), of m xs] tw [OF assms(3), of n ys] assms(1) by simp
  then show ?thesis using assms(1) by simp
qed

text \<open>A number followed by the same non-digit byte can be read back.\<close>

lemma dec_cancel [simp]:
  "\<not> is_digit_byte c \<Longrightarrow> fmt_dec m @ c # xs = fmt_dec n @ c # ys \<longleftrightarrow> m = n \<and> xs = ys"
  using dec_split [of m c xs n c ys] by auto

lemma str_bytes_Cons: "str_bytes (c # cs) = of_char c # str_bytes cs" "str_bytes [] = []"
  by (simp_all add: str_bytes_def)

subsection \<open>Error messages\<close>

text \<open>
  The \<^verbatim>\<open>#[error(...)]\<close> attributes of \<^verbatim>\<open>ApfsError\<close>. The text of a \<^verbatim>\<open>std::io::Error\<close> comes from the
  host and is an argument. The panic outcome is no \<^verbatim>\<open>ApfsError\<close>; it is given its own text.
\<close>

fun display_error :: "(io_error \<Rightarrow> rust_string) \<Rightarrow> apfs_error \<Rightarrow> rust_string" where
  "display_error io_text (Io e) = str_bytes ''i/o error: '' @ io_text e"
| "display_error io_text (NoValidSuperblock checked last_magic) =
     str_bytes ''no valid NXSB superblock found (checked '' @ fmt_dec checked
     @ str_bytes '' checkpoint slots; last magic seen: '' @ fmt_hex 10 (unat last_magic) @ str_bytes '')''"
| "display_error io_text (ChecksumMismatch block stored computed) =
     str_bytes ''object checksum mismatch at block '' @ fmt_u64 block @ str_bytes '': stored ''
     @ fmt_hex 18 (unat stored) @ str_bytes '', computed '' @ fmt_hex 18 (unat computed)"
| "display_error io_text (OmapUnresolved oid xid) =
     str_bytes ''omap could not resolve virtual oid '' @ fmt_hex 0 (unat oid) @ str_bytes '' at xid '' @ fmt_u64 xid"
| "display_error io_text (UnexpectedObjectType structure expected found) =
     str_bytes ''unexpected object type in '' @ str_bytes structure @ str_bytes '': expected ''
     @ fmt_hex 6 (unat expected) @ str_bytes '', found '' @ fmt_hex 10 (unat found)"
| "display_error io_text UnsupportedFusion =
     str_bytes ''unsupported Fusion container (tier-2 device present); Fusion addressing not yet implemented''"
| "display_error io_text (UnsupportedSpacemanCab count) =
     str_bytes ''unsupported space-manager CAB tier (sm_cab_count = '' @ fmt_u64 count
     @ str_bytes ''); only inline CIB layout is implemented''"
| "display_error io_text (FieldOutOfRange structure field val cap) =
     str_bytes ''structural field out of range in '' @ str_bytes structure @ str_bytes '': '' @ str_bytes field
     @ str_bytes '' = '' @ fmt_u64 val @ str_bytes '' (cap '' @ fmt_u64 cap @ str_bytes '')''"
| "display_error io_text (CycleGuard cap) =
     str_bytes ''tree walk exceeded depth cap '' @ fmt_dec cap @ str_bytes '' (possible cyclic object graph)''"
| "display_error io_text (CheckpointTreeUnsupported area) =
     str_bytes ''checkpoint '' @ str_bytes area
     @ str_bytes '' area is tree-backed; B-tree resolution not yet implemented''"
| "display_error io_text (SnapshotNotFound xid) =
     str_bytes ''no snapshot with transaction id '' @ fmt_u64 xid
     @ str_bytes '' (and it is not the live volume's xid)''"
| "display_error io_text (Decmpfs msg) = str_bytes ''decmpfs decode failure: '' @ str_bytes msg"
| "display_error io_text (Panic msg) = str_bytes msg"

end
