(* ===== verification/Vfs.thy ===== *)
theory Vfs
  imports Apfs_Container Spaceman Snapshot Compression Display
begin

text \<open>
  \<^verbatim>\<open>core/src/vfs.rs\<close>: the file-system adapter. A mounted handle holds the parsed volume behind a
  lock; every call takes the lock for the reads it makes, so a call is a function from the handle
  to a reply and the handle afterwards. A panic under the lock poisons it, and every later call
  that takes the lock then fails. The types of the \<^verbatim>\<open>forensic_vfs\<close> interface are restricted to the
  variants and fields the adapter builds or matches; a foreign identity or stream is its printed
  form, which is all the adapter uses of it.
\<close>

subsection \<open>Interface types\<close>

datatype file_id = ApfsOid u64 u64 | ForeignId rust_string
datatype stream_id = DefaultStream | XattrStream u16 | ForeignStream rust_string
datatype node_kind = Dir_Node | File_Node | Symlink_Node | Other_Node
datatype residency = Resident u32 | NonResident
datatype stream_kind = ApfsNamed_Stream | Xattr_Stream
datatype run_alloc = Allocated_Run | Unallocated_Run

datatype vfs_error =
    VfsIo string io_error
  | VfsDecode string u64 rust_string bytes
  | VfsUnsupported string rust_string
  | VfsBootstrap string string
  | VfsPanic string

type_synonym 'a vfs_res = "vfs_error + 'a"

record vfs_dir_entry =
  vde_kind :: node_kind
  vde_name :: bytes
  vde_id :: file_id

record run_info =
  ri_image_offset :: u64
  ri_len :: u64
  ri_sparse :: bool
  ri_alloc :: run_alloc

record stream_info =
  si_id :: stream_id
  si_name :: "bytes option"
  si_size :: u64
  si_residency :: residency
  si_kind :: stream_kind

record fs_meta =
  fm_ino :: u64
  fm_kind :: node_kind
  fm_size :: u64
  fm_nlink :: u32
  fm_uid :: u32
  fm_gid :: u32
  fm_mode :: u32
  fm_born :: int
  fm_modified :: int
  fm_changed :: int
  fm_accessed :: int
  fm_streams :: "stream_info list"
  fm_residency :: residency
  fm_link_target :: "bytes option"

subsection \<open>Constants and conversions\<close>

definition S_IFMT :: u16 where [layout_defs]: "S_IFMT = 0xF000"
definition S_IFDIR :: u16 where [layout_defs]: "S_IFDIR = 0x4000"
definition S_IFREG :: u16 where [layout_defs]: "S_IFREG = 0x8000"
definition S_IFLNK :: u16 where [layout_defs]: "S_IFLNK = 0xA000"
definition DT_MASK :: u16 where [layout_defs]: "DT_MASK = 0x0F"
definition DT_DIR :: u16 where [layout_defs]: "DT_DIR = 4"
definition DT_REG :: u16 where [layout_defs]: "DT_REG = 8"
definition DT_LNK :: u16 where [layout_defs]: "DT_LNK = 10"

text \<open>What the adapter relies on of other crates and of the host.\<close>

record host =
  h_crypto :: crypto
  h_codec :: decmpfs_lib
  h_io_text :: "io_error \<Rightarrow> rust_string"

record apfs_fs =
  fs_reader :: reader
  fs_poisoned :: bool
  fs_volume :: apfs_volume
  fs_block_size :: nat
  fs_root_xid :: u64
  fs_spaceman_paddr :: "u64 option"

definition oid_of :: "file_id \<Rightarrow> u64 vfs_res" where
  "oid_of i = (case i of ApfsOid oid _ \<Rightarrow> Inr oid | ForeignId s \<Rightarrow> Inl (VfsUnsupported ''apfs file-id'' s))"

definition require_default_stream :: "stream_id \<Rightarrow> unit vfs_res" where
  "require_default_stream st =
     (case st of
        DefaultStream \<Rightarrow> Inr ()
      | XattrStream n \<Rightarrow> Inl (VfsUnsupported ''apfs stream'' (str_bytes ''Xattr('' @ fmt_dec (unat n) @ str_bytes '')''))
      | ForeignStream s \<Rightarrow> Inl (VfsUnsupported ''apfs stream'' s))"

definition map_err :: "host \<Rightarrow> apfs_error \<Rightarrow> vfs_error" where
  "map_err h e =
     (case e of
        Io src \<Rightarrow> VfsIo ''apfs read'' src
      | Panic m \<Rightarrow> VfsPanic m
      | _ \<Rightarrow> VfsDecode ''apfs'' 0 (display_error (h_io_text h) e) [])"

definition poisoned :: vfs_error where
  "poisoned = VfsBootstrap ''apfs reader lock'' ''interior reader mutex poisoned''"

definition unallocated_runs :: "(u64 \<times> u64) list \<Rightarrow> u64 \<Rightarrow> run_info list" where
  "unallocated_runs runs block_size =
     map (\<lambda>(first_block, blocks).
        \<lparr> ri_image_offset = saturating_mul_u64 first_block block_size,
          ri_len = saturating_mul_u64 blocks block_size, ri_sparse = False, ri_alloc = Unallocated_Run \<rparr>) runs"

definition dt_to_kind :: "u16 \<Rightarrow> node_kind" where
  "dt_to_kind flags =
     (let t = flags AND DT_MASK
      in if t = DT_DIR then Dir_Node else if t = DT_REG then File_Node
         else if t = DT_LNK then Symlink_Node else Other_Node)"

definition mode_to_kind :: "u16 \<Rightarrow> node_kind" where
  "mode_to_kind mode =
     (let t = mode AND S_IFMT
      in if t = S_IFDIR then Dir_Node else if t = S_IFREG then File_Node
         else if t = S_IFLNK then Symlink_Node else Other_Node)"

definition build_meta :: "inode \<Rightarrow> fs_meta" where
  "build_meta ino =
     \<lparr> fm_ino = ino_oid ino, fm_kind = mode_to_kind (ino_mode ino),
       fm_size = (case ino_size ino of None \<Rightarrow> 0 | Some sz \<Rightarrow> sz),
       fm_nlink = word_of_int (max (ino_nlink_or_nchildren ino) 0),
       fm_uid = ino_uid ino, fm_gid = ino_gid ino, fm_mode = ucast (ino_mode ino),
       fm_born = uint (ino_create_time ino), fm_modified = uint (ino_mod_time ino),
       fm_changed = uint (ino_change_time ino), fm_accessed = uint (ino_access_time ino),
       fm_streams = [], fm_residency = NonResident, fm_link_target = None \<rparr>"

subsection \<open>Opening\<close>

definition open_first_volume :: "reader \<Rightarrow> (apfs_volume \<times> nat \<times> u64 option) res" where
  "open_first_volume rd =
     (case container_open rd of
        Inl e \<Rightarrow> Inl e
      | Inr container \<Rightarrow>
          let block_size = unat (nx_block_size (ac_superblock container))
          in case volume_superblock_addrs rd container of
               Inl e \<Rightarrow> Inl e
             | Inr [] \<Rightarrow> Inl (NoValidSuperblock 0 0)
             | Inr (vaddr # _) \<Rightarrow>
                 (case read_block_sat rd vaddr block_size of
                    Inl e \<Rightarrow> Inl e
                  | Inr buf \<Rightarrow>
                      (case apfs_volume_parse buf of
                         Inl e \<Rightarrow> Inl e
                       | Inr volume \<Rightarrow> Inr (volume, block_size, spaceman_paddr container))))"

definition fs_open :: "reader \<Rightarrow> apfs_fs res" where
  "fs_open rd =
     (case open_first_volume rd of
        Inl e \<Rightarrow> Inl e
      | Inr (volume, block_size, sm) \<Rightarrow>
          Inr \<lparr> fs_reader = rd, fs_poisoned = False, fs_volume = volume, fs_block_size = block_size,
                fs_root_xid = vol_xid volume, fs_spaceman_paddr = sm \<rparr>)"

definition open_snapshot :: "reader \<Rightarrow> u64 \<Rightarrow> apfs_fs res" where
  "open_snapshot rd xid =
     (case open_first_volume rd of
        Inl e \<Rightarrow> Inl e
      | Inr (live, block_size, sm) \<Rightarrow>
          let mounted = (\<lambda>volume. \<lparr> fs_reader = rd, fs_poisoned = False, fs_volume = volume,
                           fs_block_size = block_size, fs_root_xid = xid, fs_spaceman_paddr = sm \<rparr>)
          in if xid = vol_xid live then Inr (mounted live)
             else case list_snapshots rd live block_size of
                    Inl e \<Rightarrow> Inl e
                  | Inr snaps \<Rightarrow>
                      (case find (\<lambda>s. ss_xid s = xid) snaps of
                         None \<Rightarrow> Inl (SnapshotNotFound xid)
                       | Some snap \<Rightarrow> map_sum id mounted (mount_snapshot rd live snap block_size)))"

definition fs_snapshots :: "reader \<Rightarrow> snapshot list res" where
  "fs_snapshots rd =
     (case open_first_volume rd of
        Inl e \<Rightarrow> Inl e
      | Inr (volume, block_size, _) \<Rightarrow> list_snapshots rd volume block_size)"

subsection \<open>Calls\<close>

text \<open>
  Taking the lock for some reads: a poisoned lock refuses; a panic while it is held poisons it;
  any other outcome releases it unchanged.
\<close>

definition with_reader :: "host \<Rightarrow> apfs_fs \<Rightarrow> 'a res \<Rightarrow> 'a vfs_res \<times> apfs_fs" where
  "with_reader h fs act =
     (if fs_poisoned fs then (Inl poisoned, fs)
      else case act of
             Inr v \<Rightarrow> (Inr v, fs)
           | Inl (Panic m) \<Rightarrow> (Inl (map_err h (Panic m)), fs\<lparr> fs_poisoned := True \<rparr>)
           | Inl e \<Rightarrow> (Inl (map_err h e), fs))"

text \<open>Copying a window of the data into the caller's buffer.\<close>

definition copy_window :: "bytes \<Rightarrow> u64 \<Rightarrow> bytes \<Rightarrow> nat \<times> bytes" where
  "copy_window data off buf =
     (let start = unat off
      in if start \<ge> length data then (0, buf)
         else let n = min (length buf) (length data - start)
              in case get_range data start (start + n) of
                   Some src \<Rightarrow> if n \<le> length buf then (n, src @ drop n buf) else (0, buf)
                 | None \<Rightarrow> (0, buf))"

definition root :: "apfs_fs \<Rightarrow> file_id" where
  "root fs = ApfsOid ROOT_DIR_INO_NUM (fs_root_xid fs)"

definition sector_sizes :: "apfs_fs \<Rightarrow> u32 \<times> u32 \<times> u32" where
  "sector_sizes fs = (let bs = of_nat (fs_block_size fs) in (bs, bs, bs))"

definition read_dir :: "host \<Rightarrow> apfs_fs \<Rightarrow> file_id \<Rightarrow> vfs_dir_entry list vfs_res \<times> apfs_fs" where
  "read_dir h fs ino =
     (case oid_of ino of
        Inl e \<Rightarrow> (Inl e, fs)
      | Inr parent \<Rightarrow>
          with_reader h fs
            (map_sum id
              (map (\<lambda>e. \<lparr> vde_kind = dt_to_kind (de_flags e), vde_name = de_name e,
                          vde_id = ApfsOid (de_file_id e) (fs_root_xid fs) \<rparr>))
              (list_dir (h_crypto h) (fs_reader fs) (fs_volume fs) parent (fs_block_size fs))))"

definition extents :: "host \<Rightarrow> apfs_fs \<Rightarrow> file_id \<Rightarrow> stream_id \<Rightarrow> run_info list vfs_res \<times> apfs_fs" where
  "extents h fs ino stream =
     (case oid_of ino of
        Inl e \<Rightarrow> (Inl e, fs)
      | Inr node \<Rightarrow>
          (case require_default_stream stream of
             Inl e \<Rightarrow> (Inl e, fs)
           | Inr _ \<Rightarrow>
               with_reader h fs
                 (case load_inode (h_crypto h) (fs_reader fs) (fs_volume fs) node (fs_block_size fs) of
                    Inl e \<Rightarrow> Inl e
                  | Inr inode \<Rightarrow>
                      map_sum id
                        (map (\<lambda>x. \<lparr> ri_image_offset =
                                       saturating_mul_u64 (fe_phys_block_num x) (of_nat (fs_block_size fs)),
                                    ri_len = fe_len x, ri_sparse = (fe_phys_block_num x = 0),
                                    ri_alloc = Allocated_Run \<rparr>))
                        (list_extents (h_crypto h) (fs_reader fs) (fs_volume fs) (ino_private_id inode)
                          (fs_block_size fs)))))"

definition lookup :: "host \<Rightarrow> apfs_fs \<Rightarrow> file_id \<Rightarrow> bytes \<Rightarrow> file_id option vfs_res \<times> apfs_fs" where
  "lookup h fs parent name =
     (case oid_of parent of
        Inl e \<Rightarrow> (Inl e, fs)
      | Inr p \<Rightarrow>
          if \<not> utf8_valid name then (Inr None, fs)
          else with_reader h fs
                 (map_sum id (map_option (\<lambda>oid. ApfsOid oid (fs_root_xid fs)))
                   (lookup_child (h_crypto h) (fs_reader fs) (fs_volume fs) p name (fs_block_size fs))))"

definition meta :: "host \<Rightarrow> apfs_fs \<Rightarrow> file_id \<Rightarrow> fs_meta vfs_res \<times> apfs_fs" where
  "meta h fs ino =
     (case oid_of ino of
        Inl e \<Rightarrow> (Inl e, fs)
      | Inr node \<Rightarrow>
          with_reader h fs
            (map_sum id build_meta
              (load_inode (h_crypto h) (fs_reader fs) (fs_volume fs) node (fs_block_size fs))))"

definition try_u16 :: "nat \<Rightarrow> u16" where
  "try_u16 i = (if i < 2 ^ 16 then of_nat i else - 1)"

definition try_u32 :: "nat \<Rightarrow> u32" where
  "try_u32 i = (if i < 2 ^ 32 then of_nat i else - 1)"

definition xattr_stream_info :: "nat \<Rightarrow> xattr \<Rightarrow> stream_info" where
  "xattr_stream_info i x =
     (let (len, res) = (case xa_value x of
                          XEmbedded b \<Rightarrow> (of_nat (length b), Resident (try_u32 (length b)))
                        | XStream _ sz \<Rightarrow> (sz, NonResident))
      in \<lparr> si_id = XattrStream (try_u16 i), si_name = Some (xa_name x), si_size = len,
           si_residency = res, si_kind = Xattr_Stream \<rparr>)"

definition data_streams :: "host \<Rightarrow> apfs_fs \<Rightarrow> file_id \<Rightarrow> stream_info list vfs_res \<times> apfs_fs" where
  "data_streams h fs ino =
     (case oid_of ino of
        Inl e \<Rightarrow> (Inl e, fs)
      | Inr node \<Rightarrow>
          with_reader h fs
            (case load_inode (h_crypto h) (fs_reader fs) (fs_volume fs) node (fs_block_size fs) of
               Inl e \<Rightarrow> Inl e
             | Inr inode \<Rightarrow>
                 map_sum id
                   (\<lambda>xs. \<lparr> si_id = DefaultStream, si_name = None,
                          si_size = (case ino_size inode of None \<Rightarrow> 0 | Some sz \<Rightarrow> sz),
                          si_residency = NonResident, si_kind = ApfsNamed_Stream \<rparr>
                        # map (\<lambda>(i, x). xattr_stream_info i x) (enumerate 0 xs))
                   (list_xattrs (h_crypto h) (fs_reader fs) (fs_volume fs) node (fs_block_size fs))))"

definition read_xattr_at :: "host \<Rightarrow> apfs_fs \<Rightarrow> u64 \<Rightarrow> u16 \<Rightarrow> u64 \<Rightarrow> bytes \<Rightarrow> (nat \<times> bytes) vfs_res \<times> apfs_fs" where
  "read_xattr_at h fs node idx off buf =
     with_reader h fs
       (case list_xattrs (h_crypto h) (fs_reader fs) (fs_volume fs) node (fs_block_size fs) of
          Inl e \<Rightarrow> Inl e
        | Inr xs \<Rightarrow>
            (case get_at xs (unat idx) of
               None \<Rightarrow> Inr (0, buf)
             | Some x \<Rightarrow>
                 (case (case xa_value x of
                          XEmbedded b \<Rightarrow> Inr b
                        | XStream dstream_oid sz \<Rightarrow>
                            read_stream (h_crypto h) (fs_reader fs) (fs_volume fs) dstream_oid sz (fs_block_size fs)) of
                    Inl e \<Rightarrow> Inl e
                  | Inr data \<Rightarrow> Inr (copy_window data off buf))))"

definition vfs_read_at :: "host \<Rightarrow> apfs_fs \<Rightarrow> file_id \<Rightarrow> stream_id \<Rightarrow> u64 \<Rightarrow> bytes \<Rightarrow> (nat \<times> bytes) vfs_res \<times> apfs_fs" where
  "vfs_read_at h fs ino stream off buf =
     (case oid_of ino of
        Inl e \<Rightarrow> (Inl e, fs)
      | Inr node \<Rightarrow>
          (case stream of
             XattrStream idx \<Rightarrow> read_xattr_at h fs node idx off buf
           | _ \<Rightarrow>
               (case require_default_stream stream of
                  Inl e \<Rightarrow> (Inl e, fs)
                | Inr _ \<Rightarrow>
                    with_reader h fs
                      (case load_inode (h_crypto h) (fs_reader fs) (fs_volume fs) node (fs_block_size fs) of
                         Inl e \<Rightarrow> Inl e
                       | Inr inode \<Rightarrow>
                           (case read_data (h_codec h) (h_crypto h) (fs_reader fs) (fs_volume fs) inode
                                   (fs_block_size fs) of
                              Inl e \<Rightarrow> Inl e
                            | Inr data \<Rightarrow> Inr (copy_window data off buf))))))"

definition read_link :: "apfs_fs \<Rightarrow> file_id \<Rightarrow> nat \<Rightarrow> bytes vfs_res \<times> apfs_fs" where
  "read_link fs ino cap = (Inr [], fs)"

definition deleted :: "apfs_fs \<Rightarrow> file_id list vfs_res \<times> apfs_fs" where
  "deleted fs = (Inr [], fs)"

definition unallocated :: "host \<Rightarrow> apfs_fs \<Rightarrow> run_info list vfs_res \<times> apfs_fs" where
  "unallocated h fs =
     (case fs_spaceman_paddr fs of
        None \<Rightarrow> (Inl (VfsBootstrap ''apfs spaceman'' ''nx_spaceman_oid did not resolve through the checkpoint map''), fs)
      | Some sm_paddr \<Rightarrow>
          with_reader h fs
            (map_sum id
              (\<lambda>runs. unallocated_runs (map (\<lambda>(a, n). (of_nat a, of_nat n)) runs) (of_nat (fs_block_size fs)))
              (free_block_runs (fs_reader fs) sm_paddr (fs_block_size fs))))"

subsection \<open>Windows of a stream\<close>

lemma copy_window_eq:
  "copy_window data off buf =
     (let n = min (length buf) (length data - unat off) in (n, take n (drop (unat off) data) @ drop n buf))"
  by (auto simp: copy_window_def get_range_def Let_def)

text \<open>A client that reads a stream from the start, one buffer at a time, until a read gives nothing.\<close>

partial_function (option) read_to_end :: "host \<Rightarrow> apfs_fs \<Rightarrow> file_id \<Rightarrow> stream_id \<Rightarrow> nat \<Rightarrow> u64 \<Rightarrow> bytes \<Rightarrow>
    (bytes vfs_res \<times> apfs_fs) option" where
  "read_to_end h fs ino stream k off acc =
     (case vfs_read_at h fs ino stream off (replicate k 0) of
        (Inl e, fs') \<Rightarrow> Some (Inl e, fs')
      | (Inr (n, buf), fs') \<Rightarrow>
          if n = 0 then Some (Inr acc, fs')
          else read_to_end h fs' ino stream k (off + of_nat n) (acc @ take n buf))"

text \<open>The content of a stream as one call would give it.\<close>

definition stream_content :: "host \<Rightarrow> apfs_fs \<Rightarrow> u64 \<Rightarrow> stream_id \<Rightarrow> bytes res" where
  "stream_content h fs node stream =
     (let cr = h_crypto h; rd = fs_reader fs; v = fs_volume fs; bs = fs_block_size fs
      in case stream of
           XattrStream idx \<Rightarrow>
             (case list_xattrs cr rd v node bs of
                Inl e \<Rightarrow> Inl e
              | Inr xs \<Rightarrow>
                  (case get_at xs (unat idx) of
                     None \<Rightarrow> Inr []
                   | Some x \<Rightarrow> (case xa_value x of XEmbedded b \<Rightarrow> Inr b
                                | XStream dstream_oid sz \<Rightarrow> read_stream cr rd v dstream_oid sz bs)))
         | _ \<Rightarrow>
             (case load_inode cr rd v node bs of
                Inl e \<Rightarrow> Inl e
              | Inr ino \<Rightarrow> read_data (h_codec h) cr rd v ino bs))"

definition addressable :: "stream_id \<Rightarrow> bool" where
  "addressable stream \<longleftrightarrow> (case stream of ForeignStream _ \<Rightarrow> False | _ \<Rightarrow> True)"

lemma vfs_read_at_content:
  assumes "addressable stream"
  shows "vfs_read_at h fs (ApfsOid node x) stream off buf =
    with_reader h fs (map_sum id (\<lambda>data. copy_window data off buf) (stream_content h fs node stream))"
proof (cases stream)
  case (XattrStream idx)
  then show ?thesis
    by (auto simp: vfs_read_at_def oid_of_def read_xattr_at_def stream_content_def copy_window_eq
        split: sum.split option.split xattr_value.split intro!: arg_cong [where f = "with_reader h fs"])
qed (use assms in \<open>auto simp: vfs_read_at_def oid_of_def require_default_stream_def stream_content_def
  addressable_def split: sum.split intro!: arg_cong [where f = "with_reader h fs"]\<close>)

lemma read_to_end_step:
  assumes "addressable stream" "\<not> fs_poisoned fs" "stream_content h fs node stream = Inr data"
    and "0 < k" "length data < 2 ^ 64" "unat off \<le> length data" "acc = take (unat off) data"
  shows "read_to_end h fs (ApfsOid node x) stream k off acc = Some (Inr data, fs)"
  using assms(6,7)
proof (induction "length data - unat off" arbitrary: off acc rule: less_induct)
  case less
  let ?n = "min k (length data - unat off)"
  have rd: "vfs_read_at h fs (ApfsOid node x) stream off (replicate k 0)
      = (Inr (?n, take ?n (drop (unat off) data) @ drop ?n (replicate k 0)), fs)"
    using assms by (simp add: vfs_read_at_content with_reader_def copy_window_eq Let_def)
  show ?case
  proof (cases "?n = 0")
    case True
    then have "unat off = length data" using assms(4) less.prems(1) by simp
    then show ?thesis using rd less.prems by (subst read_to_end.simps) simp
  next
    case False
    have le: "unat off + ?n \<le> length data" using less.prems(1) by simp
    have u: "unat (off + of_nat ?n) = unat off + ?n"
    proof -
      have "unat (of_nat (unat off + ?n) :: u64) = unat off + ?n"
        using le assms(5) by (intro unat_of_nat_u64) simp
      then show ?thesis by simp
    qed
    have "acc @ take ?n (drop (unat off) data) = take (unat off + ?n) data"
      using less.prems(2) by (simp add: take_add)
    then have "read_to_end h fs (ApfsOid node x) stream k (off + of_nat ?n) (acc @ take ?n (drop (unat off) data))
        = Some (Inr data, fs)"
      using False le u by (intro less.hyps) (simp_all, linarith)
    moreover have "?n > 0" using False by simp
    ultimately show ?thesis using rd by (subst read_to_end.simps) (auto simp del: min_less_iff_conj)
  qed
qed

text \<open>
  C11. Reading a stream of a node through the handle in buffers of any fixed positive size, until
  a read returns nothing, terminates and gives exactly the content of the stream: the decoded
  file for the default stream, the attribute's value for an attribute stream.
\<close>

theorem vfs_read_windows:
  assumes "addressable stream" "\<not> fs_poisoned fs" "stream_content h fs node stream = Inr data"
    and "0 < k" "length data < 2 ^ 64"
  shows "read_to_end h fs (ApfsOid node x) stream k 0 [] = Some (Inr data, fs)"
  by (rule read_to_end_step [OF assms]) simp_all

subsection \<open>The listing of streams is honest\<close>

lemma data_streams_Inr:
  assumes "data_streams h fs (ApfsOid node x) = (Inr infos, fs')"
  obtains ino xs where
    "load_inode (h_crypto h) (fs_reader fs) (fs_volume fs) node (fs_block_size fs) = Inr ino"
    "list_xattrs (h_crypto h) (fs_reader fs) (fs_volume fs) node (fs_block_size fs) = Inr xs"
    "infos = \<lparr> si_id = DefaultStream, si_name = None, si_size = (case ino_size ino of None \<Rightarrow> 0 | Some sz \<Rightarrow> sz),
       si_residency = NonResident, si_kind = ApfsNamed_Stream \<rparr> # map (\<lambda>(i, x). xattr_stream_info i x) (enumerate 0 xs)"
proof -
  have "\<not> fs_poisoned fs" using assms by (auto simp: data_streams_def oid_of_def with_reader_def)
  then show thesis
    using assms that
    by (auto simp: data_streams_def oid_of_def with_reader_def res_simps split: sum.splits apfs_error.splits)
qed

lemma load_inode_oid: "load_inode cr rd volume oid block_size = Inr ino \<Longrightarrow> ino_oid ino = oid"
  using inode_parse_Inr [of oid] by (auto simp: load_inode_def split: sum.splits option.splits) (metis sum.inject(2))

lemma xattr_content_size:
  assumes "\<And>k1 k2 ss n d. length (xts_area (h_crypto h) k1 k2 ss n d) = length d" "fs_reader fs = cursor img"
    and "list_xattrs (h_crypto h) (fs_reader fs) (fs_volume fs) node (fs_block_size fs) = Inr xs"
    and "i < length xs" "i < 2 ^ 16"
    and "stream_content h fs node (si_id (xattr_stream_info i (xs ! i))) = Inr data"
  shows "length data = unat (si_size (xattr_stream_info i (xs ! i)))"
proof (cases "xa_value (xs ! i)")
  case (XEmbedded b)
  then have "length b < 2 ^ 16" using list_xattrs_embedded [OF assms(3)] assms(4) by (meson nth_mem)
  then have "unat (of_nat (length b) :: u64) = length b" by (intro unat_of_nat_u64) simp
  then show ?thesis
    using assms(3-6) XEmbedded
    by (simp add: stream_content_def xattr_stream_info_def try_u16_def get_at_def unat_of_nat_u16)
next
  case (XStream o' sz)
  then show ?thesis
    using assms(2-6) cursor.read_stream_length [OF assms(1)]
    by (auto simp: stream_content_def xattr_stream_info_def try_u16_def get_at_def unat_of_nat_u16)
qed

text \<open>
  C24. What a stream listing says of each stream, and where its size is the size a read delivers.
  The default stream is listed with the data-stream size of the inode (0 without one). The
  attribute in position p is listed under the identifier min p 65535. The stream addressed by the
  listed identifier, whenever it can be read at all, has exactly the listed size in two cases: the
  default stream of a file that is not transparently compressed, and each of the first 65536
  attributes. Outside them nothing of the kind is claimed: the default stream of a compressed file
  is listed with the data-stream size while its read gives the decoded content, and every attribute
  past the first 65536 carries the identifier of the one in position 65535.
\<close>

theorem stream_sizes_honest:
  assumes "\<And>k1 k2 ss n d. length (xts_area (h_crypto h) k1 k2 ss n d) = length d" "fs_reader fs = cursor img"
    and "data_streams h fs (ApfsOid node x) = (Inr infos, fs')" "j < length infos"
  shows "(\<exists>ino. load_inode (h_crypto h) (fs_reader fs) (fs_volume fs) node (fs_block_size fs) = Inr ino
       \<and> si_size (infos ! 0) = (case ino_size ino of None \<Rightarrow> 0 | Some sz \<Rightarrow> sz))
    \<and> si_id (infos ! j) = (if j = 0 then DefaultStream else XattrStream (of_nat (min (j - 1) 65535)))
    \<and> (j \<le> 2 ^ 16
       \<and> (0 < j \<or> decmpfs_header (h_crypto h) (fs_reader fs) (fs_volume fs) node (fs_block_size fs) = Inr None)
       \<and> stream_content h fs node (si_id (infos ! j)) = Inr data
       \<longrightarrow> length data = unat (si_size (infos ! j)))"
proof -
  obtain ino xs where ino: "load_inode (h_crypto h) (fs_reader fs) (fs_volume fs) node (fs_block_size fs) = Inr ino"
    and xs: "list_xattrs (h_crypto h) (fs_reader fs) (fs_volume fs) node (fs_block_size fs) = Inr xs"
    and infos: "infos = \<lparr> si_id = DefaultStream, si_name = None, si_size = (case ino_size ino of None \<Rightarrow> 0 | Some sz \<Rightarrow> sz),
       si_residency = NonResident, si_kind = ApfsNamed_Stream \<rparr> # map (\<lambda>(i, x). xattr_stream_info i x) (enumerate 0 xs)"
    by (rule data_streams_Inr [OF assms(3)])
  show ?thesis
  proof (cases j)
    case 0
    have "length data = unat (si_size (infos ! j))"
      if "decmpfs_header (h_crypto h) (fs_reader fs) (fs_volume fs) node (fs_block_size fs) = Inr None"
        "stream_content h fs node (si_id (infos ! j)) = Inr data"
      using that assms(2) 0 ino load_inode_oid [OF ino] cursor.read_stream_length [OF assms(1)] infos
      by (auto simp: read_data_def stream_content_def)
    then show ?thesis using 0 ino infos by simp
  next
    case (Suc i)
    then have i: "infos ! j = xattr_stream_info i (xs ! i)" "i < length xs"
      using infos assms(4) by (simp_all add: nth_enumerate_eq)
    then have "si_id (infos ! j) = XattrStream (of_nat (min i 65535))"
      by (auto simp: xattr_stream_info_def try_u16_def min_def split: xattr_value.splits)
    moreover have "length data = unat (si_size (infos ! j))"
      if "j \<le> 2 ^ 16" "stream_content h fs node (si_id (infos ! j)) = Inr data"
      using xattr_content_size [OF assms(1,2) xs, of i data] that i Suc by simp
    ultimately show ?thesis using ino infos Suc by auto
  qed
qed

subsection \<open>Names and mounts\<close>

text \<open>Looking a name up agrees with the directory listing, for every name that is valid UTF-8.\<close>

lemma lookup_matches_read_dir:
  assumes "fs_stored (h_crypto h) (fs_reader fs) (fs_volume fs) (fs_block_size fs) t" "ordered f t" "oid_major f"
    and "\<not> fs_poisoned fs" "utf8_valid name"
  shows "\<exists>es. read_dir h fs (ApfsOid p x) = (Inr es, fs)
    \<and> lookup h fs (ApfsOid p x) name = (Inr (map_option vde_id (find (\<lambda>e. vde_name e = name) es)), fs)"
proof -
  have "find (\<lambda>e. vde_name e = name) (map g es) = map_option g (find (\<lambda>e. de_name e = name) es)"
    if "\<And>e. vde_name (g e) = de_name e" for g :: "dir_entry \<Rightarrow> vfs_dir_entry" and es
    by (induction es) (simp_all add: that)
  then show ?thesis
    using assms(4,5)
    by (simp add: read_dir_def lookup_def oid_of_def with_reader_def list_dir_stored [OF assms(1-3)]
        lookup_child_stored [OF assms(1-3)] child_named_def option.map_comp comp_def)
qed

text \<open>What a successful mount by transaction gives.\<close>

lemma open_snapshot_Inr:
  assumes "open_snapshot rd xid = Inr fs"
  obtains live sm where "open_first_volume rd = Inr (live, fs_block_size fs, sm)"
    "fs_root_xid fs = xid" "\<not> fs_poisoned fs" "fs_reader fs = rd"
    "vol_omap_oid (fs_volume fs) = vol_omap_oid live"
    "xid = vol_xid live \<and> fs_volume fs = live
     \<or> (\<exists>snaps snap. list_snapshots rd live (fs_block_size fs) = Inr snaps \<and> snap \<in> set snaps \<and> ss_xid snap = xid
          \<and> mount_snapshot rd live snap (fs_block_size fs) = Inr (fs_volume fs))"
proof -
  obtain live bs sm where o: "open_first_volume rd = Inr (live, bs, sm)"
    using assms by (auto simp: open_snapshot_def split: sum.splits)
  have m: "vol_omap_oid v = vol_omap_oid live" if "mount_snapshot rd live s bs = Inr v" for s v
    using that by (auto simp: mount_snapshot_def with_omap_oid_def map_sum_def split: sum.splits)
  show thesis
  proof (cases "xid = vol_xid live")
    case True
    then show thesis using assms o by (intro that [of live sm]) (auto simp: open_snapshot_def)
  next
    case False
    then obtain snaps snap v where s: "list_snapshots rd live bs = Inr snaps" "find (\<lambda>s. ss_xid s = xid) snaps = Some snap"
        "mount_snapshot rd live snap bs = Inr v" "fs_volume fs = v" "fs_block_size fs = bs"
        "fs_root_xid fs = xid" "\<not> fs_poisoned fs" "fs_reader fs = rd"
      using assms o
      by (cases "list_snapshots rd live bs"; cases "find (\<lambda>s. ss_xid s = xid) (projr (list_snapshots rd live bs))";
          cases "mount_snapshot rd live (the (find (\<lambda>s. ss_xid s = xid) (projr (list_snapshots rd live bs)))) bs")
        (auto simp: open_snapshot_def)
    then show thesis using o m [of snap v] by (intro that [of live sm]) (auto simp: find_Some_iff)
  qed
qed

subsection \<open>Sequences of calls\<close>

datatype vfs_call =
    CallReadDir file_id
  | CallExtents file_id stream_id
  | CallLookup file_id bytes
  | CallMeta file_id
  | CallDataStreams file_id
  | CallReadAt file_id stream_id u64 bytes
  | CallReadLink file_id nat
  | CallDeleted
  | CallUnallocated

datatype vfs_reply =
    ReplyDir "vfs_dir_entry list vfs_res"
  | ReplyRuns "run_info list vfs_res"
  | ReplyId "file_id option vfs_res"
  | ReplyMeta "fs_meta vfs_res"
  | ReplyStreams "stream_info list vfs_res"
  | ReplyData "(nat \<times> bytes) vfs_res"
  | ReplyLink "bytes vfs_res"
  | ReplyNodes "file_id list vfs_res"

fun exec :: "host \<Rightarrow> apfs_fs \<Rightarrow> vfs_call \<Rightarrow> vfs_reply \<times> apfs_fs" where
  "exec h fs (CallReadDir i) = map_prod ReplyDir id (read_dir h fs i)"
| "exec h fs (CallExtents i s) = map_prod ReplyRuns id (extents h fs i s)"
| "exec h fs (CallLookup i n) = map_prod ReplyId id (lookup h fs i n)"
| "exec h fs (CallMeta i) = map_prod ReplyMeta id (meta h fs i)"
| "exec h fs (CallDataStreams i) = map_prod ReplyStreams id (data_streams h fs i)"
| "exec h fs (CallReadAt i s off buf) = map_prod ReplyData id (vfs_read_at h fs i s off buf)"
| "exec h fs (CallReadLink i n) = map_prod ReplyLink id (read_link fs i n)"
| "exec h fs CallDeleted = map_prod ReplyNodes id (deleted fs)"
| "exec h fs CallUnallocated = map_prod ReplyRuns id (unallocated h fs)"

primrec serve :: "host \<Rightarrow> apfs_fs \<Rightarrow> vfs_call list \<Rightarrow> vfs_reply list \<times> apfs_fs" where
  "serve h fs [] = ([], fs)"
| "serve h fs (c # cs) =
     (let (r, fs') = exec h fs c; (rs, fs'') = serve h fs' cs in (r # rs, fs''))"

definition is_panic :: "'a vfs_res \<Rightarrow> bool" where
  "is_panic r \<longleftrightarrow> (case r of Inl (VfsPanic _) \<Rightarrow> True | _ \<Rightarrow> False)"

fun panicked :: "vfs_reply \<Rightarrow> bool" where
  "panicked (ReplyDir r) = is_panic r"
| "panicked (ReplyRuns r) = is_panic r"
| "panicked (ReplyId r) = is_panic r"
| "panicked (ReplyMeta r) = is_panic r"
| "panicked (ReplyStreams r) = is_panic r"
| "panicked (ReplyData r) = is_panic r"
| "panicked (ReplyLink r) = is_panic r"
| "panicked (ReplyNodes r) = is_panic r"

text \<open>The handle after a call, given its reply.\<close>

definition poison_if :: "bool \<Rightarrow> apfs_fs \<Rightarrow> apfs_fs" where
  "poison_if b fs = (if b then fs\<lparr> fs_poisoned := True \<rparr> else fs)"

definition lawful :: "apfs_fs \<Rightarrow> 'a vfs_res \<times> apfs_fs \<Rightarrow> bool" where
  "lawful fs p \<longleftrightarrow> snd p = poison_if (is_panic (fst p)) fs"

lemma lawful_with_reader [simp]: "lawful fs (with_reader h fs act)"
  by (auto simp: lawful_def with_reader_def poison_if_def is_panic_def map_err_def poisoned_def
      split: sum.split apfs_error.split)

lemma lawful_early [simp]: "lawful fs (Inr v, fs)" "lawful fs (Inl (VfsBootstrap a b), fs)"
  by (simp_all add: lawful_def poison_if_def is_panic_def)

lemma lawful_oid_of: "oid_of i = Inl e \<Longrightarrow> lawful fs (Inl e, fs)"
  by (auto simp: oid_of_def lawful_def poison_if_def is_panic_def split: file_id.splits)

lemma lawful_stream: "require_default_stream st = Inl e \<Longrightarrow> lawful fs (Inl e, fs)"
  by (auto simp: require_default_stream_def lawful_def poison_if_def is_panic_def split: stream_id.splits)

lemma lawful_calls:
  "lawful fs (read_dir h fs i)" "lawful fs (extents h fs i st)" "lawful fs (lookup h fs i name)"
  "lawful fs (meta h fs i)" "lawful fs (data_streams h fs i)" "lawful fs (vfs_read_at h fs i st off buf)"
  "lawful fs (read_link fs i cap)" "lawful fs (deleted fs)" "lawful fs (unallocated h fs)"
  by (auto simp: read_dir_def extents_def lookup_def meta_def data_streams_def vfs_read_at_def read_xattr_at_def
      read_link_def deleted_def unallocated_def lawful_oid_of lawful_stream
      split: sum.split stream_id.split option.split)

lemma exec_after: "snd (exec h fs c) = poison_if (panicked (fst (exec h fs c))) fs"
  using lawful_calls [unfolded lawful_def] by (cases c) simp_all

lemma poison_if_again: "poison_if b (poison_if a fs) = poison_if (a \<or> b) fs"
  by (simp add: poison_if_def)

lemma serve_poison_if:
  fixes h fs
  defines "P \<equiv> \<lambda>c. panicked (fst (exec h fs c))"
  shows "serve h (poison_if b fs) cs =
    (map (\<lambda>i. fst (exec h (poison_if (b \<or> list_ex P (take i cs)) fs) (cs ! i))) [0..<length cs],
     poison_if (b \<or> list_ex P cs) fs)"
proof (induction cs arbitrary: b)
  case (Cons c cs)
  have "snd (exec h (poison_if b fs) c) = poison_if (b \<or> P c) fs"
    by (cases b) (simp_all add: exec_after poison_if_again P_def, simp add: poison_if_def)
  then have "serve h (poison_if b fs) (c # cs) =
      (fst (exec h (poison_if b fs) c) # fst (serve h (poison_if (b \<or> P c) fs) cs),
       snd (serve h (poison_if (b \<or> P c) fs) cs))"
    by (simp add: case_prod_unfold Let_def)
  then show ?case
    unfolding Cons by (simp add: upt_conv_Cons map_Suc_upt [symmetric] disj_assoc comp_def del: upt_Suc)
qed simp

end
