(* ===== verification/Device.thy ===== *)
theory Device
  imports Compression Spaceman "HOL-Library.State_Monad"
begin

text \<open>
  The byte source with its position. Elsewhere a source is the function from offset and length to
  the outcome of a \<^verbatim>\<open>seek\<close> followed by a \<^verbatim>\<open>read_exact\<close>. Here it is a device that carries a current
  position: a seek moves it, a read starts from it, and a failed call leaves it anywhere. The
  reads that the handle of \<^verbatim>\<open>core/src/vfs.rs\<close> makes are written again over this device, with the
  two calls where the sources have them, and each is shown to give, from every position, what
  its counterpart over the function gives.
\<close>

subsection \<open>A device with a position\<close>

record device =
  dv_seek :: "u64 \<Rightarrow> io_error option"
  dv_bytes :: "u64 \<Rightarrow> nat \<Rightarrow> io_error + bytes"
  dv_lost :: "u64 \<Rightarrow> u64"
  dv_pos :: u64

type_synonym 'a io = "(device, 'a res) state"

text \<open>\<^verbatim>\<open>reader.seek(SeekFrom::Start(off))\<close> and \<^verbatim>\<open>reader.read_exact(&mut buf)\<close> for a buffer of length \<open>n\<close>.\<close>

definition dev_seek :: "u64 \<Rightarrow> unit io" where
  "dev_seek off = State (\<lambda>d.
     case dv_seek d off of
       Some e \<Rightarrow> (Inl (Io e), d\<lparr> dv_pos := dv_lost d off \<rparr>)
     | None \<Rightarrow> (Inr (), d\<lparr> dv_pos := off \<rparr>))"

definition dev_read_exact :: "nat \<Rightarrow> bytes io" where
  "dev_read_exact n = State (\<lambda>d.
     case dv_bytes d (dv_pos d) n of
       Inl e \<Rightarrow> (Inl (Io e), d\<lparr> dv_pos := dv_lost d (dv_pos d) \<rparr>)
     | Inr bs \<Rightarrow> (Inr bs, d\<lparr> dv_pos := dv_pos d + of_nat n \<rparr>))"

text \<open>\<^verbatim>\<open>Ok(v)\<close>, \<^verbatim>\<open>Err(e)\<close> and the operator \<^verbatim>\<open>?\<close>.\<close>

definition io_ok :: "'a \<Rightarrow> 'a io" where
  "io_ok v = State_Monad.return (Inr v)"

definition io_err :: "apfs_error \<Rightarrow> 'a io" where
  "io_err e = State_Monad.return (Inl e)"

definition io_of :: "'a res \<Rightarrow> 'a io" where
  "io_of r = State_Monad.return r"

definition attempt :: "'a io \<Rightarrow> ('a \<Rightarrow> 'b io) \<Rightarrow> 'b io" where
  "attempt m k = do { r \<leftarrow> m; case r of Inl e \<Rightarrow> io_err e | Inr v \<Rightarrow> k v }"

text \<open>The function from offset and length that a device is, and the cursor as a device.\<close>

definition reader_of :: "device \<Rightarrow> reader" where
  "reader_of d off n =
     (case dv_seek d off of
        Some e \<Rightarrow> Inl (SeekFault e)
      | None \<Rightarrow> (case dv_bytes d off n of Inl e \<Rightarrow> Inl (ReadFault e) | Inr bs \<Rightarrow> Inr bs))"

definition cursor_device :: "bytes \<Rightarrow> u64 \<Rightarrow> device" where
  "cursor_device img p =
     \<lparr> dv_seek = (\<lambda>_. None),
       dv_bytes = (\<lambda>off n. if n \<le> length img - unat off then Inr (take n (drop (unat off) img)) else Inl UnexpectedEof),
       dv_lost = (\<lambda>_. of_nat (length img)), dv_pos = p \<rparr>"

lemma reader_of_cursor: "reader_of (cursor_device img p) = cursor img"
  by (intro ext) (simp add: reader_of_def cursor_device_def cursor_def)

lemma reader_of_pos [simp]: "reader_of (d\<lparr> dv_pos := p \<rparr>) = reader_of d"
  by (intro ext) (simp add: reader_of_def split: option.split)

subsection \<open>Reads that do not depend on the position\<close>

text \<open>
  A computation gives \<open>x\<close> over a source \<open>rd\<close> if, from every device that is this source and
  whatever its position, it returns \<open>x\<close> and changes nothing of the device but the position.
\<close>

definition gives :: "reader \<Rightarrow> 'a io \<Rightarrow> 'a res \<Rightarrow> bool" where
  "gives rd m x \<longleftrightarrow>
     (\<forall>d. reader_of d = rd \<longrightarrow> fst (run_state m d) = x \<and> (\<exists>p. snd (run_state m d) = d\<lparr> dv_pos := p \<rparr>))"

named_theorems gives_rules

lemma gives_pure [gives_rules]:
  "gives rd (io_ok v) (Inr v)" "gives rd (io_err e) (Inl e)" "gives rd (io_of r) r"
proof -
  have "\<exists>p. d = d\<lparr> dv_pos := p \<rparr>" for d :: device by (rule exI [of _ "dv_pos d"]) simp
  then show "gives rd (io_ok v) (Inr v)" "gives rd (io_err e) (Inl e)" "gives rd (io_of r) r"
    by (simp_all add: gives_def io_ok_def io_err_def io_of_def)
qed

lemma run_attempt:
  "run_state (attempt m k) d =
     (case run_state m d of (Inl e, d') \<Rightarrow> (Inl e, d') | (Inr v, d') \<Rightarrow> run_state (k v) d')"
  by (simp add: attempt_def io_err_def State_Monad.bind_def split: prod.split sum.split)

lemma attempt_assoc: "attempt (attempt m k) l = attempt m (\<lambda>v. attempt (k v) l)"
  by (rule state_ext) (simp add: run_attempt split: prod.split sum.split)

lemma gives_attempt [gives_rules]:
  assumes "gives rd m r" "\<And>v. r = Inr v \<Longrightarrow> gives rd (k v) (g v)"
  shows "gives rd (attempt m k) (case r of Inl e \<Rightarrow> Inl e | Inr v \<Rightarrow> g v)"
proof -
  have "fst (run_state (attempt m k) d) = (case r of Inl e \<Rightarrow> Inl e | Inr v \<Rightarrow> g v)
      \<and> (\<exists>p. snd (run_state (attempt m k) d) = d\<lparr> dv_pos := p \<rparr>)" if d: "reader_of d = rd" for d
  proof -
    obtain p where m: "run_state m d = (r, d\<lparr> dv_pos := p \<rparr>)"
      using assms(1) d by (auto simp: gives_def prod_eq_iff)
    show ?thesis
    proof (cases r)
      case (Inr v)
      have "reader_of (d\<lparr> dv_pos := p \<rparr>) = rd" using d by simp
      then obtain q where "run_state (k v) (d\<lparr> dv_pos := p \<rparr>) = (g v, d\<lparr> dv_pos := p, dv_pos := q \<rparr>)"
        using assms(2) [OF Inr] unfolding gives_def by (metis prod.collapse)
      then show ?thesis by (auto simp: run_attempt m Inr)
    qed (auto simp: run_attempt m)
  qed
  then show ?thesis by (simp add: gives_def)
qed

text \<open>A seek followed by a read is where a computation stops depending on the position it starts from.\<close>

lemma gives_seek_read [gives_rules]:
  assumes "\<And>bs. read_exact_at rd off n = Inr bs \<Longrightarrow> gives rd (k bs) (g bs)"
  shows "gives rd (attempt (dev_seek off) (\<lambda>_. attempt (dev_read_exact n) k))
           (case read_exact_at rd off n of Inl e \<Rightarrow> Inl e | Inr bs \<Rightarrow> g bs)"
proof -
  have "gives rd (attempt (dev_seek off) (\<lambda>_. dev_read_exact n)) (read_exact_at rd off n)"
    by (auto simp: gives_def run_attempt dev_seek_def dev_read_exact_def read_exact_at_def reader_of_def
        split: option.split sum.split)
  from gives_attempt [where g = g, OF this assms] show ?thesis by (simp add: attempt_assoc)
qed

lemma gives_if [gives_rules]:
  "(b \<Longrightarrow> gives rd m x) \<Longrightarrow> (\<not> b \<Longrightarrow> gives rd m' x') \<Longrightarrow>
     gives rd (if b then m else m') (if b then x else x')"
  by simp

lemma gives_option [gives_rules]:
  "(v = None \<Longrightarrow> gives rd m x) \<Longrightarrow> (\<And>a. v = Some a \<Longrightarrow> gives rd (m' a) (x' a)) \<Longrightarrow>
     gives rd (case v of None \<Rightarrow> m | Some a \<Rightarrow> m' a) (case v of None \<Rightarrow> x | Some a \<Rightarrow> x' a)"
  by (cases v) simp_all

lemma gives_list [gives_rules]:
  "(v = [] \<Longrightarrow> gives rd m x) \<Longrightarrow> (\<And>a as. v = a # as \<Longrightarrow> gives rd (m' a as) (x' a as)) \<Longrightarrow>
     gives rd (case v of [] \<Rightarrow> m | a # as \<Rightarrow> m' a as) (case v of [] \<Rightarrow> x | a # as \<Rightarrow> x' a as)"
  by (cases v) simp_all

lemma gives_prod [gives_rules]:
  "(\<And>a b. v = (a, b) \<Longrightarrow> gives rd (m a b) (x a b)) \<Longrightarrow>
     gives rd (case v of (a, b) \<Rightarrow> m a b) (case v of (a, b) \<Rightarrow> x a b)"
  by (cases v) simp

lemma gives_value [gives_rules]:
  "(\<And>bs. v = XEmbedded bs \<Longrightarrow> gives rd (m bs) (x bs)) \<Longrightarrow>
   (\<And>oid sz. v = XStream oid sz \<Longrightarrow> gives rd (m' oid sz) (x' oid sz)) \<Longrightarrow>
     gives rd (case v of XEmbedded bs \<Rightarrow> m bs | XStream oid sz \<Rightarrow> m' oid sz)
       (case v of XEmbedded bs \<Rightarrow> x bs | XStream oid sz \<Rightarrow> x' oid sz)"
  by (cases v) simp_all

lemma gives_res [gives_rules]:
  "(\<And>e. v = Inl e \<Longrightarrow> gives rd (m e) (x e)) \<Longrightarrow> (\<And>a. v = Inr a \<Longrightarrow> gives rd (m' a) (x' a)) \<Longrightarrow>
     gives rd (case v of Inl e \<Rightarrow> m e | Inr a \<Rightarrow> m' a) (case v of Inl e \<Rightarrow> x e | Inr a \<Rightarrow> x' a)"
  by (cases v) simp_all

lemma gives_Let [gives_rules]:
  "gives rd (m v) (x v) \<Longrightarrow> gives rd (let a = v in m a) (let a = v in x a)"
  by simp

lemma map_sum_res: "map_sum id f r = (case r of Inl e \<Rightarrow> Inl e | Inr v \<Rightarrow> Inr (f v))"
  by (cases r) simp_all

lemma gives_map [gives_rules]:
  "gives rd m r \<Longrightarrow> gives rd (attempt m (\<lambda>v. io_ok (f v))) (map_sum id f r)"
  unfolding map_sum_res by (rule gives_attempt) (simp_all add: gives_pure)

end
