(* ===== verification/Device_Reads.thy ===== *)
theory Device_Reads
  imports Device
begin

text \<open>
  The reads behind the handle, over a device with a position: the verified node read and the
  point lookup (\<^verbatim>\<open>core/src/btree.rs\<close>), the object map (\<^verbatim>\<open>core/src/omap.rs\<close>), the tree of the volume
  (\<^verbatim>\<open>core/src/dir.rs\<close>), extents, attributes, compressed content, and the space manager. Each is
  followed by the lemma that it gives the result of its counterpart over the plain function.
\<close>

subsection \<open>Nodes and the object map\<close>

definition read_verified_node_on :: "u64 \<Rightarrow> nat \<Rightarrow> bytes option io" where
  "read_verified_node_on paddr block_size =
     (case checked_mul_u64 paddr (of_nat block_size) of
        None \<Rightarrow> io_ok None
      | Some offset \<Rightarrow>
          attempt (dev_seek offset) (\<lambda>_.
          attempt (dev_read_exact block_size) (\<lambda>buf.
            let stored = fletcher64_stored buf; computed = fletcher64_checksum buf
            in if stored \<noteq> computed
               then io_err (ChecksumMismatch
                      (case obj_phys_parse buf of None \<Rightarrow> paddr | Some h \<Rightarrow> o_oid h) stored computed)
               else io_ok (Some buf))))"

primrec find_leaf_loop_on :: "nat \<Rightarrow> nat \<Rightarrow> btree_subtype \<Rightarrow> (bytes \<Rightarrow> ordering) \<Rightarrow>
    (bytes \<Rightarrow> bytes \<Rightarrow> 's \<Rightarrow> 's) \<Rightarrow> u64 set \<Rightarrow> u64 \<Rightarrow> 's \<Rightarrow> 's io" where
  "find_leaf_loop_on 0 block_size subtype cmp visit visited paddr s = io_err (CycleGuard MAX_BTREE_DEPTH)"
| "find_leaf_loop_on (Suc n) block_size subtype cmp visit visited paddr s =
     (if paddr \<in> visited then io_err (CycleGuard MAX_BTREE_DEPTH)
      else attempt (read_verified_node_on paddr block_size) (\<lambda>node.
             case node of
               None \<Rightarrow> io_ok s
             | Some buf \<Rightarrow>
                 (case parse_node_header buf of
                    None \<Rightarrow> io_ok s
                  | Some hdr \<Rightarrow>
                      if is_leaf hdr then io_ok (fold (\<lambda>(k, v). visit k v) (node_entries buf subtype) s)
                      else let kcs = map (\<lambda>(k, v). (k, le_u64 v 0)) (node_entries buf subtype)
                           in case kcs of
                                [] \<Rightarrow> io_ok s
                              | (_, c) # _ \<Rightarrow>
                                  find_leaf_loop_on n block_size subtype cmp visit
                                    (insert paddr visited) (last_le cmp c kcs) s)))"

definition find_leaf_on :: "u64 \<Rightarrow> nat \<Rightarrow> btree_subtype \<Rightarrow> (bytes \<Rightarrow> ordering) \<Rightarrow>
    (bytes \<Rightarrow> bytes \<Rightarrow> 's \<Rightarrow> 's) \<Rightarrow> 's \<Rightarrow> 's io" where
  "find_leaf_on root_paddr block_size subtype cmp visit s =
     find_leaf_loop_on MAX_BTREE_DEPTH block_size subtype cmp visit {} root_paddr s"

definition resolve_on :: "object_map \<Rightarrow> u64 \<Rightarrow> u64 \<Rightarrow> nat \<Rightarrow> omap_entry io" where
  "resolve_on om oid xid block_size =
     attempt (find_leaf_on (om_tree_oid om) block_size Omap (omap_cmp oid xid) (omap_visit oid xid) None) (\<lambda>best.
       case best of None \<Rightarrow> io_err (OmapUnresolved oid xid) | Some b \<Rightarrow> io_ok b)"

lemma gives_read_verified_node [gives_rules]:
  "gives rd (read_verified_node_on paddr block_size) (read_verified_node rd paddr block_size)"
  unfolding read_verified_node_on_def read_verified_node_def by (intro gives_rules)

lemma gives_find_leaf_loop [gives_rules]:
  "gives rd (find_leaf_loop_on n block_size subtype cmp visit visited paddr s)
     (find_leaf_loop n rd block_size subtype cmp visit visited paddr s)"
proof (induction n arbitrary: visited paddr)
  case (Suc n)
  show ?case unfolding find_leaf_loop_on.simps find_leaf_loop.simps by (intro gives_rules Suc)
qed (simp add: gives_pure)

lemma gives_find_leaf [gives_rules]:
  "gives rd (find_leaf_on root_paddr block_size subtype cmp visit s)
     (find_leaf rd root_paddr block_size subtype cmp visit s)"
  unfolding find_leaf_on_def find_leaf_def by (rule gives_find_leaf_loop)

lemma gives_resolve [gives_rules]: "gives rd (resolve_on om oid xid block_size) (resolve om rd oid xid block_size)"
  unfolding resolve_on_def resolve_def by (intro gives_rules)

subsection \<open>The tree of a volume\<close>

definition read_virtual_node_on :: "crypto \<Rightarrow> object_map \<Rightarrow> bytes option \<Rightarrow> u64 \<Rightarrow> nat \<Rightarrow> u64 \<Rightarrow> bytes io" where
  "read_virtual_node_on cr omap vek xid block_size node_oid =
     attempt (resolve_on omap node_oid xid block_size) (\<lambda>entry.
     attempt (dev_seek (saturating_mul_u64 (oe_paddr entry) (of_nat block_size))) (\<lambda>_.
     attempt (dev_read_exact block_size) (\<lambda>raw.
       let buf = (if oe_flags entry AND OMAP_VAL_ENCRYPTED \<noteq> 0
                  then (case vek of None \<Rightarrow> raw
                        | Some k \<Rightarrow> decrypt_volume_area cr raw k (oe_paddr entry) block_size)
                  else raw);
           stored = fletcher64_stored buf; computed = fletcher64_checksum buf
       in if stored \<noteq> computed
          then io_err (ChecksumMismatch
                 (case obj_phys_parse buf of None \<Rightarrow> oe_paddr entry | Some h \<Rightarrow> o_oid h) stored computed)
          else io_ok buf)))"

function descend_virtual_on :: "crypto \<Rightarrow> object_map \<Rightarrow> bytes option \<Rightarrow> u64 \<Rightarrow> nat \<Rightarrow> u64 option \<Rightarrow>
    (bytes \<Rightarrow> bytes \<Rightarrow> 's \<Rightarrow> 's) \<Rightarrow> nat \<Rightarrow> u64 set \<Rightarrow> u64 \<Rightarrow> 's \<Rightarrow> (u64 set \<times> 's) io"
  and descend_virtual_children_on :: "crypto \<Rightarrow> object_map \<Rightarrow> bytes option \<Rightarrow> u64 \<Rightarrow> nat \<Rightarrow> u64 option \<Rightarrow>
    (bytes \<Rightarrow> bytes \<Rightarrow> 's \<Rightarrow> 's) \<Rightarrow> nat \<Rightarrow> u64 set \<Rightarrow> u64 list \<Rightarrow> 's \<Rightarrow> (u64 set \<times> 's) io" where
  "descend_virtual_on cr omap vek xid block_size target_oid visit depth visited node_oid s =
     (if depth \<ge> MAX_FSTREE_DEPTH then io_err (CycleGuard MAX_FSTREE_DEPTH)
      else if node_oid \<in> visited then io_err (CycleGuard MAX_FSTREE_DEPTH)
      else attempt (read_virtual_node_on cr omap vek xid block_size node_oid) (\<lambda>buf.
             case parse_node_header buf of
               None \<Rightarrow> io_ok (insert node_oid visited, s)
             | Some hdr \<Rightarrow>
                 if is_leaf hdr
                 then io_ok (insert node_oid visited,
                             fold (\<lambda>(k, v). visit k v) (node_entries buf FsTree) s)
                 else descend_virtual_children_on cr omap vek xid block_size target_oid visit (depth + 1)
                        (insert node_oid visited)
                        (virtual_children target_oid (node_entries buf FsTree)) s))"
| "descend_virtual_children_on cr omap vek xid block_size target_oid visit depth visited [] s = io_ok (visited, s)"
| "descend_virtual_children_on cr omap vek xid block_size target_oid visit depth visited (child # children) s =
     attempt (descend_virtual_on cr omap vek xid block_size target_oid visit depth visited child s) (\<lambda>(visited', s').
       descend_virtual_children_on cr omap vek xid block_size target_oid visit depth visited' children s')"
  by pat_completeness auto
termination
  by (relation "measures [case_sum (\<lambda>(_, _, _, _, _, _, _, d, _). MAX_FSTREE_DEPTH - d)
                                   (\<lambda>(_, _, _, _, _, _, _, d, _). MAX_FSTREE_DEPTH - d),
                          case_sum (\<lambda>_. 0) (\<lambda>(_, _, _, _, _, _, _, _, _, cs, _). Suc (length cs))]")
    auto

declare descend_virtual_on.simps [simp del]

definition walk_fs_tree_on :: "crypto \<Rightarrow> apfs_volume \<Rightarrow> nat \<Rightarrow> u64 option \<Rightarrow>
    (bytes \<Rightarrow> bytes \<Rightarrow> 's \<Rightarrow> 's) \<Rightarrow> 's \<Rightarrow> 's io" where
  "walk_fs_tree_on cr volume block_size target_oid visit s =
     attempt (dev_seek (saturating_mul_u64 (vol_omap_oid volume) (of_nat block_size))) (\<lambda>_.
     attempt (dev_read_exact block_size) (\<lambda>buf.
     attempt (io_of (object_map_parse buf)) (\<lambda>omap.
     attempt (descend_virtual_on cr omap (vol_vek volume) (vol_xid volume) block_size target_oid visit
                0 {} (vol_root_tree_oid volume) s) (\<lambda>(_, s'). io_ok s'))))"

definition for_each_fs_record_for_oid_on :: "crypto \<Rightarrow> apfs_volume \<Rightarrow> nat \<Rightarrow> u64 \<Rightarrow>
    (bytes \<Rightarrow> bytes \<Rightarrow> 's \<Rightarrow> 's) \<Rightarrow> 's \<Rightarrow> 's io" where
  "for_each_fs_record_for_oid_on cr volume block_size target_oid visit s =
     walk_fs_tree_on cr volume block_size (Some target_oid) visit s"

definition list_dir_on :: "crypto \<Rightarrow> apfs_volume \<Rightarrow> u64 \<Rightarrow> nat \<Rightarrow> dir_entry list io" where
  "list_dir_on cr volume parent_oid block_size =
     for_each_fs_record_for_oid_on cr volume block_size parent_oid (list_dir_visit parent_oid) []"

definition lookup_child_on :: "crypto \<Rightarrow> apfs_volume \<Rightarrow> u64 \<Rightarrow> rust_string \<Rightarrow> nat \<Rightarrow> u64 option io" where
  "lookup_child_on cr volume parent_oid name block_size =
     for_each_fs_record_for_oid_on cr volume block_size parent_oid (lookup_visit parent_oid name) None"

definition load_inode_on :: "crypto \<Rightarrow> apfs_volume \<Rightarrow> u64 \<Rightarrow> nat \<Rightarrow> inode io" where
  "load_inode_on cr volume oid block_size =
     attempt (for_each_fs_record_for_oid_on cr volume block_size oid (inode_visit oid) None) (\<lambda>found.
       case found of
         None \<Rightarrow> io_err (OmapUnresolved oid (vol_xid volume))
       | Some val \<Rightarrow> io_of (inode_parse oid val))"

lemma gives_read_virtual_node [gives_rules]:
  "gives rd (read_virtual_node_on cr omap vek xid block_size node_oid)
     (read_virtual_node cr rd omap vek xid block_size node_oid)"
  unfolding read_virtual_node_on_def read_virtual_node_def read_block_sat_def by (intro gives_rules)

lemma gives_descend_virtual:
  "gives rd (descend_virtual_on cr omap vek xid block_size target_oid visit depth visited node_oid s)
     (descend_virtual cr rd omap vek xid block_size target_oid visit depth visited node_oid s)"
  "gives rd (descend_virtual_children_on cr omap vek xid block_size target_oid visit depth visited oids s)
     (descend_virtual_children cr rd omap vek xid block_size target_oid visit depth visited oids s)"
proof (induction cr omap vek xid block_size target_oid visit depth visited node_oid s
    and cr omap vek xid block_size target_oid visit depth visited oids s
    rule: descend_virtual_on_descend_virtual_children_on.induct)
  case (1 cr omap vek xid block_size target_oid visit depth visited node_oid s)
  then show ?case
    unfolding descend_virtual_on.simps [of cr] descend_virtual.simps [of cr] by (intro gives_rules) auto
next
  case (3 cr omap vek xid block_size target_oid visit depth visited child children s)
  then show ?case
    unfolding descend_virtual_children_on.simps descend_virtual_children.simps by (intro gives_rules) auto
qed (simp add: gives_pure)

lemma gives_walk_fs_tree [gives_rules]:
  "gives rd (walk_fs_tree_on cr volume block_size target_oid visit s)
     (walk_fs_tree cr rd volume block_size target_oid visit s)"
  unfolding walk_fs_tree_on_def walk_fs_tree_def read_block_sat_def
  by (intro gives_rules gives_descend_virtual)

lemma gives_for_each_fs_record_for_oid [gives_rules]:
  "gives rd (for_each_fs_record_for_oid_on cr volume block_size target_oid visit s)
     (for_each_fs_record_for_oid cr rd volume block_size target_oid visit s)"
  unfolding for_each_fs_record_for_oid_on_def for_each_fs_record_for_oid_def by (rule gives_walk_fs_tree)

lemma gives_navigation [gives_rules]:
  "gives rd (list_dir_on cr volume oid block_size) (list_dir cr rd volume oid block_size)"
  "gives rd (lookup_child_on cr volume oid name block_size) (lookup_child cr rd volume oid name block_size)"
  "gives rd (load_inode_on cr volume oid block_size) (load_inode cr rd volume oid block_size)"
  unfolding list_dir_on_def list_dir_def lookup_child_on_def lookup_child_def load_inode_on_def load_inode_def
  by (intro gives_rules)+

subsection \<open>File content\<close>

definition list_extents_on :: "crypto \<Rightarrow> apfs_volume \<Rightarrow> u64 \<Rightarrow> nat \<Rightarrow> file_extent list io" where
  "list_extents_on cr volume stream_oid block_size =
     attempt (for_each_fs_record_for_oid_on cr volume block_size stream_oid (extent_visit stream_oid) []) (\<lambda>out.
       io_ok (sort_key fe_logical_offset out))"

definition read_extent_on :: "crypto \<Rightarrow> bytes option \<Rightarrow> nat \<Rightarrow> nat \<Rightarrow> file_extent \<Rightarrow> bytes \<Rightarrow> bytes io" where
  "read_extent_on cr vek block_size sz ext out =
     (let start = unat (fe_logical_offset ext)
      in if start \<ge> sz \<or> fe_phys_block_num ext = 0 then io_ok out
         else if block_size = 0 then io_err (Panic ''attempt to divide by zero'')
         else let copy_len = min (unat (fe_len ext)) (sz - start)
              in case checked_mul_u64 (fe_phys_block_num ext) (of_nat block_size) of
                   None \<Rightarrow> io_err (FieldOutOfRange ''j_file_extent'' ''phys_block_num''
                                    (fe_phys_block_num ext) (u64_max div of_nat block_size))
                 | Some byte_off \<Rightarrow>
                     attempt (dev_seek byte_off) (\<lambda>_.
                       if vek \<noteq> None \<and> fe_crypto_id ext \<noteq> 0
                       then let nblocks = (copy_len + block_size - 1) div block_size
                            in attempt (dev_read_exact (nblocks * block_size)) (\<lambda>tmp.
                                 io_ok (overlay out start
                                   (take copy_len
                                     (decrypt_blocks cr (the vek) (fe_crypto_id ext) block_size nblocks tmp))))
                       else attempt (dev_read_exact copy_len) (\<lambda>bs. io_ok (overlay out start bs))))"

primrec read_extents_on :: "crypto \<Rightarrow> bytes option \<Rightarrow> nat \<Rightarrow> nat \<Rightarrow> file_extent list \<Rightarrow> bytes \<Rightarrow> bytes io" where
  "read_extents_on cr vek block_size sz [] out = io_ok out"
| "read_extents_on cr vek block_size sz (ext # exts) out =
     attempt (read_extent_on cr vek block_size sz ext out) (\<lambda>out'.
       read_extents_on cr vek block_size sz exts out')"

definition read_stream_on :: "crypto \<Rightarrow> apfs_volume \<Rightarrow> u64 \<Rightarrow> u64 \<Rightarrow> nat \<Rightarrow> bytes io" where
  "read_stream_on cr volume stream_oid logical_size block_size =
     (if logical_size > MAX_FILE_BYTES
      then io_err (FieldOutOfRange ''j_dstream'' ''size'' logical_size MAX_FILE_BYTES)
      else attempt (list_extents_on cr volume stream_oid block_size) (\<lambda>extents.
             read_extents_on cr (vol_vek volume) block_size (unat logical_size) extents
               (replicate (unat logical_size) 0)))"

definition list_xattrs_on :: "crypto \<Rightarrow> apfs_volume \<Rightarrow> u64 \<Rightarrow> nat \<Rightarrow> xattr list io" where
  "list_xattrs_on cr volume inode_oid block_size =
     for_each_fs_record_for_oid_on cr volume block_size inode_oid (xattr_visit inode_oid) []"

definition get_xattr_on :: "crypto \<Rightarrow> apfs_volume \<Rightarrow> u64 \<Rightarrow> rust_string \<Rightarrow> nat \<Rightarrow> xattr_value option io" where
  "get_xattr_on cr volume inode_oid name block_size =
     attempt (list_xattrs_on cr volume inode_oid block_size) (\<lambda>xattrs.
       io_ok (map_option xa_value (find (\<lambda>x. xa_name x = name) xattrs)))"

definition decmpfs_header_on :: "crypto \<Rightarrow> apfs_volume \<Rightarrow> u64 \<Rightarrow> nat \<Rightarrow> bytes option io" where
  "decmpfs_header_on cr volume inode_oid block_size =
     attempt (get_xattr_on cr volume inode_oid XATTR_NAME_DECMPFS block_size) (\<lambda>x.
       case x of
         None \<Rightarrow> io_ok None
       | Some v \<Rightarrow> (case v of XEmbedded bs \<Rightarrow> io_ok (Some bs) | XStream _ _ \<Rightarrow> io_ok None))"

definition resource_fork_on :: "crypto \<Rightarrow> apfs_volume \<Rightarrow> u64 \<Rightarrow> nat \<Rightarrow> bytes option io" where
  "resource_fork_on cr volume inode_oid block_size =
     attempt (get_xattr_on cr volume inode_oid XATTR_NAME_RESOURCE_FORK block_size) (\<lambda>x.
       case x of
         None \<Rightarrow> io_ok None
       | Some v \<Rightarrow>
           (case v of
              XEmbedded bs \<Rightarrow> io_ok (Some bs)
            | XStream dstream_oid sz \<Rightarrow>
                attempt (read_stream_on cr volume dstream_oid sz block_size) (\<lambda>bs. io_ok (Some bs))))"

definition read_compressed_on :: "decmpfs_lib \<Rightarrow> crypto \<Rightarrow> apfs_volume \<Rightarrow> inode \<Rightarrow> bytes \<Rightarrow> nat \<Rightarrow> bytes io" where
  "read_compressed_on lib cr volume ino header block_size =
     attempt (io_of (cmp_le_u32 header (dm_type_offset lib))) (\<lambda>compression_type.
       let needs_fork = (case dm_classify lib compression_type of
                           None \<Rightarrow> False | Some (_, storage) \<Rightarrow> storage = ResourceFork)
       in if needs_fork
          then attempt (resource_fork_on cr volume (ino_oid ino) block_size) (\<lambda>fork.
                 io_of (decompress_decmpfs lib header fork))
          else io_of (decompress_decmpfs lib header None))"

definition read_data_on :: "decmpfs_lib \<Rightarrow> crypto \<Rightarrow> apfs_volume \<Rightarrow> inode \<Rightarrow> nat \<Rightarrow> bytes io" where
  "read_data_on lib cr volume ino block_size =
     attempt (decmpfs_header_on cr volume (ino_oid ino) block_size) (\<lambda>h.
       case h of
         None \<Rightarrow>
           read_stream_on cr volume (ino_private_id ino)
             (case ino_size ino of None \<Rightarrow> 0 | Some sz \<Rightarrow> sz) block_size
       | Some header \<Rightarrow> read_compressed_on lib cr volume ino header block_size)"

lemma attempt_if: "attempt m (\<lambda>v. if b then k v else l v) = (if b then attempt m k else attempt m l)"
  by simp

lemma gives_list_extents [gives_rules]:
  "gives rd (list_extents_on cr volume stream_oid block_size) (list_extents cr rd volume stream_oid block_size)"
  unfolding list_extents_on_def list_extents_def by (intro gives_rules)

lemma gives_read_extent [gives_rules]:
  "gives rd (read_extent_on cr vek block_size sz ext out) (read_extent cr rd vek block_size sz ext out)"
  unfolding read_extent_on_def read_extent_def attempt_if Let_def by (intro gives_rules)

lemma gives_read_extents [gives_rules]:
  "gives rd (read_extents_on cr vek block_size sz exts out) (read_extents cr rd vek block_size sz exts out)"
proof (induction exts arbitrary: out)
  case (Cons ext exts)
  show ?case unfolding read_extents_on.simps read_extents.simps by (intro gives_rules Cons)
qed (simp add: gives_pure)

lemma gives_read_stream [gives_rules]:
  "gives rd (read_stream_on cr volume oid sz block_size) (read_stream cr rd volume oid sz block_size)"
  unfolding read_stream_on_def read_stream_def by (intro gives_rules)

lemma gives_xattrs [gives_rules]:
  "gives rd (list_xattrs_on cr volume oid block_size) (list_xattrs cr rd volume oid block_size)"
  "gives rd (get_xattr_on cr volume oid name block_size) (get_xattr cr rd volume oid name block_size)"
  unfolding list_xattrs_on_def list_xattrs_def get_xattr_on_def get_xattr_def by (intro gives_rules)+

lemma gives_decmpfs_header [gives_rules]:
  "gives rd (decmpfs_header_on cr volume oid block_size) (decmpfs_header cr rd volume oid block_size)"
  unfolding decmpfs_header_on_def decmpfs_header_def by (intro gives_rules)

lemma gives_resource_fork [gives_rules]:
  "gives rd (resource_fork_on cr volume oid block_size) (resource_fork cr rd volume oid block_size)"
  unfolding resource_fork_on_def resource_fork_def by (intro gives_rules)

lemma gives_read_compressed [gives_rules]:
  "gives rd (read_compressed_on lib cr volume ino header block_size)
     (read_compressed lib cr rd volume ino header block_size)"
  unfolding read_compressed_on_def read_compressed_def by (intro gives_rules)

lemma gives_read_data [gives_rules]:
  "gives rd (read_data_on lib cr volume ino block_size) (read_data lib cr rd volume ino block_size)"
  unfolding read_data_on_def read_data_def by (intro gives_rules)

subsection \<open>Free space\<close>

definition read_obj_block_on :: "u64 \<Rightarrow> nat \<Rightarrow> bytes io" where
  "read_obj_block_on paddr block_size =
     attempt (dev_seek (saturating_mul_u64 paddr (of_nat block_size))) (\<lambda>_.
     attempt (dev_read_exact block_size) (\<lambda>buf.
       let stored = fletcher64_stored buf; computed = fletcher64_checksum buf
       in if stored \<noteq> computed then io_err (ChecksumMismatch (le_u64 buf 8) stored computed) else io_ok buf))"

primrec chunk_loop_on :: "nat \<Rightarrow> sm_geometry \<Rightarrow> bytes \<Rightarrow> nat \<Rightarrow> nat \<Rightarrow> nat \<Rightarrow> runs \<Rightarrow> runs io" where
  "chunk_loop_on block_size g cib cib_idx within 0 runs = io_ok runs"
| "chunk_loop_on block_size g cib cib_idx within (Suc n) runs =
     (let chunk_index = sat_u64 (cib_idx * chunks_per_cib g) + within
      in if chunk_index \<ge> chunk_count g then io_ok runs
         else let chunk_base = sat_u64 (chunk_index * blocks_per_chunk g)
              in if chunk_base \<ge> block_count g then io_ok runs
                 else let blocks_in_chunk = min (blocks_per_chunk g) (block_count g - chunk_base);
                          addr = ci_bitmap_addr cib within
                      in if addr = 0
                         then chunk_loop_on block_size g cib cib_idx (Suc within) n
                                (push_free_run runs chunk_base blocks_in_chunk)
                         else attempt (dev_seek (saturating_mul_u64 addr (of_nat block_size))) (\<lambda>_.
                              attempt (dev_read_exact block_size) (\<lambda>bitmap.
                                chunk_loop_on block_size g cib cib_idx (Suc within) n
                                  (fold (\<lambda>(start, len) rs. push_free_run rs (chunk_base + start) len)
                                    (free_runs bitmap blocks_in_chunk False) runs))))"

primrec cib_loop_on :: "nat \<Rightarrow> sm_geometry \<Rightarrow> bytes \<Rightarrow> nat \<Rightarrow> nat \<Rightarrow> runs \<Rightarrow> runs io" where
  "cib_loop_on block_size g sm cib_idx 0 runs = io_ok runs"
| "cib_loop_on block_size g sm cib_idx (Suc n) runs =
     attempt (read_obj_block_on (cib_paddr sm g cib_idx) block_size) (\<lambda>cib.
     attempt (chunk_loop_on block_size g cib cib_idx 0 (ci_count cib) runs) (\<lambda>runs'.
       cib_loop_on block_size g sm (Suc cib_idx) n runs'))"

definition free_block_runs_on :: "u64 \<Rightarrow> nat \<Rightarrow> runs io" where
  "free_block_runs_on spaceman_paddr block_size =
     attempt (read_obj_block_on spaceman_paddr block_size) (\<lambda>sm.
       let g = sm_geometry_of sm
       in if blocks_per_chunk g = 0 \<or> chunks_per_cib g = 0
          then io_err (sm_range ''sm_blocks_per_chunk/sm_chunks_per_cib'' 0 1)
          else if cab_count g \<noteq> 0 then io_err (UnsupportedSpacemanCab (cab_count g))
          else cib_loop_on block_size g sm 0 (cib_count g) [])"

lemma gives_read_obj_block [gives_rules]:
  "gives rd (read_obj_block_on paddr block_size) (read_obj_block rd paddr block_size)"
  unfolding read_obj_block_on_def read_obj_block_def read_block_sat_def by (intro gives_rules)

lemma gives_chunk_loop [gives_rules]:
  "gives rd (chunk_loop_on block_size g cib cib_idx within n runs) (chunk_loop rd block_size g cib cib_idx within n runs)"
proof (induction n arbitrary: within runs)
  case (Suc n)
  show ?case
    unfolding chunk_loop_on.simps chunk_loop.simps read_block_sat_def by (intro gives_rules Suc)
qed (simp add: gives_pure)

lemma gives_cib_loop [gives_rules]:
  "gives rd (cib_loop_on block_size g sm cib_idx n runs) (cib_loop rd block_size g sm cib_idx n runs)"
proof (induction n arbitrary: cib_idx runs)
  case (Suc n)
  show ?case unfolding cib_loop_on.simps cib_loop.simps by (intro gives_rules Suc)
qed (simp add: gives_pure)

lemma gives_free_block_runs [gives_rules]:
  "gives rd (free_block_runs_on paddr block_size) (free_block_runs rd paddr block_size)"
  unfolding free_block_runs_on_def free_block_runs_def by (intro gives_rules)

end
