(* ===== verification/Shared_Handle.thy ===== *)
theory Shared_Handle
  imports Vfs Device_Reads
begin

text \<open>
  One handle of \<^verbatim>\<open>core/src/vfs.rs\<close> over a device with a position. The lock owns the device, every
  call reads through it and leaves its position, and with it the next call starts. The calls are
  written over the reads of \<^verbatim>\<open>Device_Reads\<close> and refine the calls of \<^verbatim>\<open>Vfs\<close>.
\<close>

record apfs_handle =
  hn_device :: device
  hn_poisoned :: bool
  hn_volume :: apfs_volume
  hn_block_size :: nat
  hn_root_xid :: u64
  hn_spaceman_paddr :: "u64 option"

subsection \<open>The calls\<close>

text \<open>The lock is taken, the reads run on the device, and the device stays where they leave it.\<close>

definition with_reader_on :: "host \<Rightarrow> apfs_handle \<Rightarrow> 'a io \<Rightarrow> 'a vfs_res \<times> apfs_handle" where
  "with_reader_on h hn act =
     (if hn_poisoned hn then (Inl poisoned, hn)
      else let (r, dev) = run_state act (hn_device hn); hn' = hn\<lparr> hn_device := dev \<rparr>
           in case r of
                Inr v \<Rightarrow> (Inr v, hn')
              | Inl (Panic m) \<Rightarrow> (Inl (map_err h (Panic m)), hn'\<lparr> hn_poisoned := True \<rparr>)
              | Inl e \<Rightarrow> (Inl (map_err h e), hn'))"

definition read_dir_on :: "host \<Rightarrow> apfs_handle \<Rightarrow> file_id \<Rightarrow> vfs_dir_entry list vfs_res \<times> apfs_handle" where
  "read_dir_on h hn ino =
     (case oid_of ino of
        Inl e \<Rightarrow> (Inl e, hn)
      | Inr parent \<Rightarrow>
          with_reader_on h hn
            (attempt (list_dir_on (h_crypto h) (hn_volume hn) parent (hn_block_size hn)) (\<lambda>entries.
               io_ok (map (\<lambda>e. \<lparr> vde_kind = dt_to_kind (de_flags e), vde_name = de_name e,
                                 vde_id = ApfsOid (de_file_id e) (hn_root_xid hn) \<rparr>) entries))))"

definition extents_on :: "host \<Rightarrow> apfs_handle \<Rightarrow> file_id \<Rightarrow> stream_id \<Rightarrow> run_info list vfs_res \<times> apfs_handle" where
  "extents_on h hn ino stream =
     (case oid_of ino of
        Inl e \<Rightarrow> (Inl e, hn)
      | Inr node \<Rightarrow>
          (case require_default_stream stream of
             Inl e \<Rightarrow> (Inl e, hn)
           | Inr _ \<Rightarrow>
               with_reader_on h hn
                 (attempt (load_inode_on (h_crypto h) (hn_volume hn) node (hn_block_size hn)) (\<lambda>inode.
                  attempt (list_extents_on (h_crypto h) (hn_volume hn) (ino_private_id inode) (hn_block_size hn)) (\<lambda>exts.
                    io_ok (map (\<lambda>x. \<lparr> ri_image_offset =
                                       saturating_mul_u64 (fe_phys_block_num x) (of_nat (hn_block_size hn)),
                                     ri_len = fe_len x, ri_sparse = (fe_phys_block_num x = 0),
                                     ri_alloc = Allocated_Run \<rparr>) exts))))))"

definition lookup_on :: "host \<Rightarrow> apfs_handle \<Rightarrow> file_id \<Rightarrow> bytes \<Rightarrow> file_id option vfs_res \<times> apfs_handle" where
  "lookup_on h hn parent name =
     (case oid_of parent of
        Inl e \<Rightarrow> (Inl e, hn)
      | Inr p \<Rightarrow>
          if \<not> utf8_valid name then (Inr None, hn)
          else with_reader_on h hn
                 (attempt (lookup_child_on (h_crypto h) (hn_volume hn) p name (hn_block_size hn)) (\<lambda>found.
                    io_ok (map_option (\<lambda>oid. ApfsOid oid (hn_root_xid hn)) found))))"

definition meta_on :: "host \<Rightarrow> apfs_handle \<Rightarrow> file_id \<Rightarrow> fs_meta vfs_res \<times> apfs_handle" where
  "meta_on h hn ino =
     (case oid_of ino of
        Inl e \<Rightarrow> (Inl e, hn)
      | Inr node \<Rightarrow>
          with_reader_on h hn
            (attempt (load_inode_on (h_crypto h) (hn_volume hn) node (hn_block_size hn)) (\<lambda>inode.
               io_ok (build_meta inode))))"

definition data_streams_on :: "host \<Rightarrow> apfs_handle \<Rightarrow> file_id \<Rightarrow> stream_info list vfs_res \<times> apfs_handle" where
  "data_streams_on h hn ino =
     (case oid_of ino of
        Inl e \<Rightarrow> (Inl e, hn)
      | Inr node \<Rightarrow>
          with_reader_on h hn
            (attempt (load_inode_on (h_crypto h) (hn_volume hn) node (hn_block_size hn)) (\<lambda>inode.
             attempt (list_xattrs_on (h_crypto h) (hn_volume hn) node (hn_block_size hn)) (\<lambda>xs.
               io_ok (\<lparr> si_id = DefaultStream, si_name = None,
                        si_size = (case ino_size inode of None \<Rightarrow> 0 | Some sz \<Rightarrow> sz),
                        si_residency = NonResident, si_kind = ApfsNamed_Stream \<rparr>
                      # map (\<lambda>(i, x). xattr_stream_info i x) (enumerate 0 xs))))))"

definition read_xattr_at_on :: "host \<Rightarrow> apfs_handle \<Rightarrow> u64 \<Rightarrow> u16 \<Rightarrow> u64 \<Rightarrow> bytes \<Rightarrow>
    (nat \<times> bytes) vfs_res \<times> apfs_handle" where
  "read_xattr_at_on h hn node idx off buf =
     with_reader_on h hn
       (attempt (list_xattrs_on (h_crypto h) (hn_volume hn) node (hn_block_size hn)) (\<lambda>xs.
          case get_at xs (unat idx) of
            None \<Rightarrow> io_ok (0, buf)
          | Some x \<Rightarrow>
              attempt (case xa_value x of
                         XEmbedded b \<Rightarrow> io_ok b
                       | XStream dstream_oid sz \<Rightarrow>
                           read_stream_on (h_crypto h) (hn_volume hn) dstream_oid sz (hn_block_size hn)) (\<lambda>data.
                io_ok (copy_window data off buf))))"

definition vfs_read_at_on :: "host \<Rightarrow> apfs_handle \<Rightarrow> file_id \<Rightarrow> stream_id \<Rightarrow> u64 \<Rightarrow> bytes \<Rightarrow>
    (nat \<times> bytes) vfs_res \<times> apfs_handle" where
  "vfs_read_at_on h hn ino stream off buf =
     (case oid_of ino of
        Inl e \<Rightarrow> (Inl e, hn)
      | Inr node \<Rightarrow>
          (case stream of
             XattrStream idx \<Rightarrow> read_xattr_at_on h hn node idx off buf
           | _ \<Rightarrow>
               (case require_default_stream stream of
                  Inl e \<Rightarrow> (Inl e, hn)
                | Inr _ \<Rightarrow>
                    with_reader_on h hn
                      (attempt (load_inode_on (h_crypto h) (hn_volume hn) node (hn_block_size hn)) (\<lambda>inode.
                       attempt (read_data_on (h_codec h) (h_crypto h) (hn_volume hn) inode (hn_block_size hn)) (\<lambda>data.
                         io_ok (copy_window data off buf)))))))"

definition unallocated_on :: "host \<Rightarrow> apfs_handle \<Rightarrow> run_info list vfs_res \<times> apfs_handle" where
  "unallocated_on h hn =
     (case hn_spaceman_paddr hn of
        None \<Rightarrow> (Inl (VfsBootstrap ''apfs spaceman'' ''nx_spaceman_oid did not resolve through the checkpoint map''), hn)
      | Some sm_paddr \<Rightarrow>
          with_reader_on h hn
            (attempt (free_block_runs_on sm_paddr (hn_block_size hn)) (\<lambda>runs.
               io_ok (unallocated_runs (map (\<lambda>(a, n). (of_nat a, of_nat n)) runs) (of_nat (hn_block_size hn))))))"

text \<open>One call, and a sequence of calls; \<^verbatim>\<open>read_link\<close> and \<^verbatim>\<open>deleted\<close> take no lock.\<close>

fun exec_on :: "host \<Rightarrow> apfs_handle \<Rightarrow> vfs_call \<Rightarrow> vfs_reply \<times> apfs_handle" where
  "exec_on h hn (CallReadDir i) = map_prod ReplyDir id (read_dir_on h hn i)"
| "exec_on h hn (CallExtents i s) = map_prod ReplyRuns id (extents_on h hn i s)"
| "exec_on h hn (CallLookup i n) = map_prod ReplyId id (lookup_on h hn i n)"
| "exec_on h hn (CallMeta i) = map_prod ReplyMeta id (meta_on h hn i)"
| "exec_on h hn (CallDataStreams i) = map_prod ReplyStreams id (data_streams_on h hn i)"
| "exec_on h hn (CallReadAt i s off buf) = map_prod ReplyData id (vfs_read_at_on h hn i s off buf)"
| "exec_on h hn (CallReadLink i n) = (ReplyLink (Inr []), hn)"
| "exec_on h hn CallDeleted = (ReplyNodes (Inr []), hn)"
| "exec_on h hn CallUnallocated = map_prod ReplyRuns id (unallocated_on h hn)"

primrec serve_on :: "host \<Rightarrow> apfs_handle \<Rightarrow> vfs_call list \<Rightarrow> vfs_reply list \<times> apfs_handle" where
  "serve_on h hn [] = ([], hn)"
| "serve_on h hn (c # cs) =
     (let (r, hn') = exec_on h hn c; (rs, hn'') = serve_on h hn' cs in (r # rs, hn''))"

subsection \<open>Refinement\<close>

text \<open>
  The handle over the plain function; the handle with its device moved to a position; and the
  handle after a panic.
\<close>

definition view :: "apfs_handle \<Rightarrow> apfs_fs" where
  "view hn = \<lparr> fs_reader = reader_of (hn_device hn), fs_poisoned = hn_poisoned hn, fs_volume = hn_volume hn,
     fs_block_size = hn_block_size hn, fs_root_xid = hn_root_xid hn, fs_spaceman_paddr = hn_spaceman_paddr hn \<rparr>"

definition park :: "u64 \<Rightarrow> apfs_handle \<Rightarrow> apfs_handle" where
  "park p hn = hn\<lparr> hn_device := (hn_device hn)\<lparr> dv_pos := p \<rparr> \<rparr>"

definition poison_handle :: "bool \<Rightarrow> apfs_handle \<Rightarrow> apfs_handle" where
  "poison_handle b hn = (if b then hn\<lparr> hn_poisoned := True \<rparr> else hn)"

lemma view_simps [simp]:
  "fs_reader (view hn) = reader_of (hn_device hn)" "fs_poisoned (view hn) = hn_poisoned hn"
  "fs_volume (view hn) = hn_volume hn" "fs_block_size (view hn) = hn_block_size hn"
  "fs_root_xid (view hn) = hn_root_xid hn" "fs_spaceman_paddr (view hn) = hn_spaceman_paddr hn"
  "view (park p hn) = view hn" "view (poison_handle b hn) = poison_if b (view hn)"
  by (simp_all add: view_def park_def poison_handle_def poison_if_def)

lemma park_simps [simp]:
  "park p (park q hn) = park p hn" "park p (poison_handle b hn) = poison_handle b (park p hn)"
  "poison_handle a (poison_handle b hn) = poison_handle (a \<or> b) hn" "park (dv_pos (hn_device hn)) hn = hn"
  "poison_handle False hn = hn"
  by (simp_all add: park_def poison_handle_def)

text \<open>A call answers with \<open>r\<close> and leaves the handle as it was but for the position and a panic.\<close>

definition answers :: "apfs_handle \<Rightarrow> 'a vfs_res \<times> apfs_handle \<Rightarrow> 'a vfs_res \<Rightarrow> bool" where
  "answers hn out r \<longleftrightarrow> fst out = r \<and> (\<exists>p. snd out = poison_handle (is_panic r) (park p hn))"

lemma answers_early: "\<not> is_panic r \<Longrightarrow> answers hn (r, hn) r"
  unfolding answers_def by (auto intro: exI [of _ "dv_pos (hn_device hn)"])

lemma answers_with_reader:
  assumes "gives (reader_of (hn_device hn)) act x"
  shows "answers hn (with_reader_on h hn act) (fst (with_reader h (view hn) x))"
proof (cases "hn_poisoned hn")
  case True
  then show ?thesis
    by (simp add: with_reader_on_def with_reader_def answers_early is_panic_def poisoned_def)
next
  case False
  obtain p where "run_state act (hn_device hn) = (x, (hn_device hn)\<lparr> dv_pos := p \<rparr>)"
    using assms by (auto simp: gives_def prod_eq_iff)
  with False show ?thesis
    by (auto simp: answers_def with_reader_on_def with_reader_def park_def poison_handle_def is_panic_def map_err_def
        split: sum.split apfs_error.split)
qed

lemma answers_oid:
  assumes "\<And>node. oid_of i = Inr node \<Longrightarrow> answers hn (f node) (fst (g node))"
  shows "answers hn (case oid_of i of Inl e \<Rightarrow> (Inl e, hn) | Inr node \<Rightarrow> f node)
           (fst (case oid_of i of Inl e \<Rightarrow> (Inl e, fs) | Inr node \<Rightarrow> g node))"
  using assms by (cases i) (auto simp: oid_of_def is_panic_def intro!: answers_early)

lemma answers_stream:
  assumes "answers hn f (fst g)"
  shows "answers hn (case require_default_stream st of Inl e \<Rightarrow> (Inl e, hn) | Inr _ \<Rightarrow> f)
           (fst (case require_default_stream st of Inl e \<Rightarrow> (Inl e, fs) | Inr _ \<Rightarrow> g))"
  using assms by (cases st) (auto simp: require_default_stream_def is_panic_def intro!: answers_early)

lemma answers_navigation:
  "answers hn (read_dir_on h hn i) (fst (read_dir h (view hn) i))"
  "answers hn (meta_on h hn i) (fst (meta h (view hn) i))"
  "answers hn (data_streams_on h hn i) (fst (data_streams h (view hn) i))"
  unfolding read_dir_on_def read_dir_def meta_on_def meta_def data_streams_on_def data_streams_def view_simps
  by (intro answers_oid answers_with_reader gives_rules)+

lemma answers_lookup: "answers hn (lookup_on h hn i name) (fst (lookup h (view hn) i name))"
  unfolding lookup_on_def lookup_def view_simps
  by (cases "utf8_valid name")
    (auto simp: is_panic_def intro!: answers_oid answers_with_reader answers_early gives_rules)

lemma answers_extents: "answers hn (extents_on h hn i st) (fst (extents h (view hn) i st))"
  unfolding extents_on_def extents_def view_simps
  by (intro answers_oid answers_stream answers_with_reader gives_rules)

lemma answers_content:
  "answers hn (vfs_read_at_on h hn i st off buf) (fst (vfs_read_at h (view hn) i st off buf))"
  "answers hn (unallocated_on h hn) (fst (unallocated h (view hn)))"
proof -
  have "answers hn (read_xattr_at_on h hn node idx off buf) (fst (read_xattr_at h (view hn) node idx off buf))" for node idx
    unfolding read_xattr_at_on_def read_xattr_at_def view_simps by (intro answers_with_reader gives_rules)
  then show "answers hn (vfs_read_at_on h hn i st off buf) (fst (vfs_read_at h (view hn) i st off buf))"
    unfolding vfs_read_at_on_def vfs_read_at_def view_simps
    by (cases st) (auto intro!: answers_oid answers_stream answers_with_reader gives_rules)
  show "answers hn (unallocated_on h hn) (fst (unallocated h (view hn)))"
    unfolding unallocated_on_def unallocated_def view_simps
    by (cases "hn_spaceman_paddr hn") (auto simp: is_panic_def intro!: answers_early answers_with_reader gives_rules)
qed

lemma exec_on_exec:
  "fst (exec_on h hn c) = fst (exec h (view hn) c)"
  "\<exists>p. snd (exec_on h hn c) = poison_handle (panicked (fst (exec h (view hn) c))) (park p hn)"
proof -
  have "fst (exec_on h hn c) = fst (exec h (view hn) c)
      \<and> (\<exists>p. snd (exec_on h hn c) = poison_handle (panicked (fst (exec h (view hn) c))) (park p hn))"
    using answers_navigation [of hn h] answers_lookup [of hn h] answers_extents [of hn h] answers_content [of hn h]
      exI [of "\<lambda>p. hn = park p hn", OF park_simps(4) [symmetric]]
    unfolding answers_def by (cases c) (auto simp: read_link_def deleted_def is_panic_def)
  then show "fst (exec_on h hn c) = fst (exec h (view hn) c)"
    "\<exists>p. snd (exec_on h hn c) = poison_handle (panicked (fst (exec h (view hn) c))) (park p hn)" by auto
qed

lemma view_exec_on: "map_prod id view (exec_on h hn c) = exec h (view hn) c"
proof -
  have "view (snd (exec_on h hn c)) = snd (exec h (view hn) c)"
    using exec_on_exec(2) [of h hn c] by (auto simp: exec_after)
  then show ?thesis by (simp add: prod_eq_iff exec_on_exec(1))
qed

lemma view_serve_on: "map_prod id view (serve_on h hn cs) = serve h (view hn) cs"
proof (induction cs arbitrary: hn)
  case (Cons c cs)
  show ?case
    using Cons [of "snd (exec_on h hn c)"] view_exec_on [of h hn c] by (auto simp: prod_eq_iff case_prod_unfold Let_def)
qed simp

lemma serve_on_keeps: "\<exists>b p. snd (serve_on h hn cs) = poison_handle b (park p hn)"
proof (induction cs arbitrary: hn)
  case Nil
  show ?case by (metis park_simps(4,5) serve_on.simps(1) snd_conv)
next
  case (Cons c cs)
  obtain p where "snd (exec_on h hn c) = poison_handle (panicked (fst (exec h (view hn) c))) (park p hn)"
    using exec_on_exec(2) by blast
  then show ?case using Cons [of "snd (exec_on h hn c)"] by (auto simp: case_prod_unfold Let_def)
qed

subsection \<open>Sharing a handle\<close>

text \<open>
  C12. One handle serves any sequence of calls although they share one device and its position (the
  bytes behind the device and its failures do not change meanwhile). In such a sequence, started
  from any position, the reply to each call is the reply the call gets on the handle it began
  with, parked at any position at all, as long as no earlier call panicked under the lock; from
  the first panic on, it is the reply of the poisoned handle. In the end the handle differs from
  the one it began with at most in the position and in the poison flag, which a panic sets. The
  replies and the final flag are those of the handle over the plain function of offset and length.
\<close>

theorem vfs_shared_handle:
  "fst (serve_on h hn cs) =
     map (\<lambda>i. fst (exec_on h
           (poison_handle (list_ex (\<lambda>c. panicked (fst (exec_on h hn c))) (take i cs)) (park (pos i) hn)) (cs ! i)))
       [0..<length cs]
   \<and> (\<exists>p. snd (serve_on h hn cs) =
        poison_handle (list_ex (\<lambda>c. panicked (fst (exec_on h hn c))) cs) (park p hn))
   \<and> map_prod id view (serve_on h hn cs) = serve h (view hn) cs"
proof -
  let ?P = "\<lambda>c. panicked (fst (exec h (view hn) c))"
  have serve: "serve h (view hn) cs =
      (map (\<lambda>i. fst (exec h (poison_if (list_ex ?P (take i cs)) (view hn)) (cs ! i))) [0..<length cs],
       poison_if (list_ex ?P cs) (view hn))"
    using serve_poison_if [of h False "view hn" cs] by (simp add: poison_if_def [of False])
  obtain b p where keeps: "snd (serve_on h hn cs) = poison_handle b (park p hn)" using serve_on_keeps by blast
  have "view (snd (serve_on h hn cs)) = poison_if (list_ex ?P cs) (view hn)"
    using view_serve_on [of h hn cs] by (simp add: serve prod_eq_iff)
  then have "hn_poisoned (poison_handle b (park p hn)) = hn_poisoned (poison_handle (list_ex ?P cs) (park p hn))"
    unfolding keeps by (metis view_simps(2,7,8))
  then have "poison_handle b (park p hn) = poison_handle (list_ex ?P cs) (park p hn)"
    by (auto simp: poison_handle_def split: if_splits)
  moreover have "fst (serve_on h hn cs) = fst (serve h (view hn) cs)"
    using view_serve_on [of h hn cs] by (simp add: prod_eq_iff)
  ultimately show ?thesis using keeps view_serve_on [of h hn cs] by (auto simp: serve exec_on_exec(1))
qed

end
