(* ===== verification/Anomaly.thy ===== *)
theory Anomaly
  imports Display
begin

text \<open>
  \<^verbatim>\<open>forensic/src/lib.rs\<close>: the anomalies of the auditor with their published code, their grade and
  the note that reports them. A note surfaces every raw value: with the code, it determines the
  anomaly.
\<close>

text \<open>The grades of the report library, by name.\<close>

datatype severity = Info | Low | Medium | High

datatype anomaly_kind =
    ObjectChecksumMismatch u64 u64 u64
  | OmapInconsistent u64 u64
  | OmapOrphanMapping u64
  | CheckpointRingMalformed string
  | CheckpointSupersededState u64
  | SnapshotXidDisorder u64
  | SnapshotMissingMetadata rust_string
  | SnapshotDivergence u64
  | SealedVolumeHashMismatch u64
  | SealedVolumeBroken u64
  | DeletedInodeRecoverable u64
  | DeletedExtentCarveCandidate u64
  | ReaperPendingObject u64
  | CloneSharedExtent u64 u64
  | CloneFlagWithoutSharing u64
  | EncryptionLocked
  | EncryptionState rust_string
  | EncryptionKeybagAnomaly u8 u64
  | TimestampZeroed u64
  | TimestampOrder u64
  | XidReuse u64 u64
  | OrphanInode u64
  | VolumeRoleMismatch rust_string

primrec code :: "anomaly_kind \<Rightarrow> string" where
  "code (ObjectChecksumMismatch block stored computed) = ''APFS-OBJECT-CKSUM-MISMATCH''"
| "code (OmapInconsistent oid xid) = ''APFS-OMAP-INCONSISTENT''"
| "code (OmapOrphanMapping oid) = ''APFS-OMAP-ORPHAN-MAPPING''"
| "code (CheckpointRingMalformed detail) = ''APFS-CHECKPOINT-RING-MALFORMED''"
| "code (CheckpointSupersededState xid) = ''APFS-CHECKPOINT-SUPERSEDED-STATE''"
| "code (SnapshotXidDisorder xid) = ''APFS-SNAPSHOT-XID-DISORDER''"
| "code (SnapshotMissingMetadata name) = ''APFS-SNAPSHOT-MISSING-METADATA''"
| "code (SnapshotDivergence ino) = ''APFS-SNAPSHOT-DIVERGENCE''"
| "code (SealedVolumeHashMismatch ino) = ''APFS-SEALED-VOLUME-HASH-MISMATCH''"
| "code (SealedVolumeBroken broken_xid) = ''APFS-SEALED-VOLUME-BROKEN''"
| "code (DeletedInodeRecoverable oid) = ''APFS-DELETED-INODE-RECOVERABLE''"
| "code (DeletedExtentCarveCandidate block) = ''APFS-DELETED-EXTENT-CARVE-CANDIDATE''"
| "code (ReaperPendingObject oid) = ''APFS-REAPER-PENDING-OBJECT''"
| "code (CloneSharedExtent inode_a inode_b) = ''APFS-CLONE-SHARED-EXTENT''"
| "code (CloneFlagWithoutSharing ino) = ''APFS-CLONE-FLAG-WITHOUT-SHARING''"
| "code EncryptionLocked = ''APFS-ENCRYPTION-LOCKED''"
| "code (EncryptionState detail) = ''APFS-ENCRYPTION-STATE''"
| "code (EncryptionKeybagAnomaly raw_tag offset) = ''APFS-ENCRYPTION-KEYBAG-ANOMALY''"
| "code (TimestampZeroed ino) = ''APFS-TIMESTAMP-ZEROED''"
| "code (TimestampOrder ino) = ''APFS-TIMESTAMP-ORDER''"
| "code (XidReuse oid xid) = ''APFS-XID-REUSE''"
| "code (OrphanInode oid) = ''APFS-ORPHAN-INODE''"
| "code (VolumeRoleMismatch detail) = ''APFS-VOLUME-ROLE-MISMATCH''"

primrec severity_of :: "anomaly_kind \<Rightarrow> severity" where
  "severity_of (ObjectChecksumMismatch block stored computed) = High"
| "severity_of (OmapInconsistent oid xid) = High"
| "severity_of (OmapOrphanMapping oid) = Info"
| "severity_of (CheckpointRingMalformed detail) = High"
| "severity_of (CheckpointSupersededState xid) = Info"
| "severity_of (SnapshotXidDisorder xid) = Info"
| "severity_of (SnapshotMissingMetadata name) = Medium"
| "severity_of (SnapshotDivergence ino) = Info"
| "severity_of (SealedVolumeHashMismatch ino) = High"
| "severity_of (SealedVolumeBroken broken_xid) = High"
| "severity_of (DeletedInodeRecoverable oid) = Medium"
| "severity_of (DeletedExtentCarveCandidate block) = Low"
| "severity_of (ReaperPendingObject oid) = Low"
| "severity_of (CloneSharedExtent inode_a inode_b) = Info"
| "severity_of (CloneFlagWithoutSharing ino) = Low"
| "severity_of EncryptionLocked = Info"
| "severity_of (EncryptionState detail) = Info"
| "severity_of (EncryptionKeybagAnomaly raw_tag offset) = Medium"
| "severity_of (TimestampZeroed ino) = Info"
| "severity_of (TimestampOrder ino) = Info"
| "severity_of (XidReuse oid xid) = High"
| "severity_of (OrphanInode oid) = Low"
| "severity_of (VolumeRoleMismatch detail) = Info"

primrec note_text :: "anomaly_kind \<Rightarrow> rust_string" where
  "note_text (ObjectChecksumMismatch block stored computed) =
     str_bytes ''object at block ''
     @ fmt_u64 block
     @ str_bytes '' has stored Fletcher-64 ''
     @ fmt_hex 18 (unat stored)
     @ str_bytes '' but its body computes ''
     @ fmt_hex 18 (unat computed)
     @ str_bytes ''; consistent with structural corruption or tampering''"
| "note_text (OmapInconsistent oid xid) =
     str_bytes ''object-map entry for oid ''
     @ fmt_u64 oid
     @ str_bytes '' at xid ''
     @ fmt_u64 xid
     @ str_bytes '' resolves to a block whose object oid/xid/type disagrees; consistent with omap inconsistency''"
| "note_text (OmapOrphanMapping oid) =
     str_bytes ''object-map entry for oid ''
     @ fmt_u64 oid
     @ str_bytes '' targets a block not reachable from any live tree examined; consistent with an orphaned mapping (reachability not exhaustively modelled)''"
| "note_text (CheckpointRingMalformed detail) =
     str_bytes ''checkpoint ring is structurally invalid: ''
     @ str_bytes detail
     @ str_bytes ''; consistent with a malformed or truncated checkpoint area''"
| "note_text (CheckpointSupersededState xid) =
     str_bytes ''a non-latest checkpoint at xid ''
     @ fmt_u64 xid
     @ str_bytes '' references objects absent from the latest; consistent with normal copy-on-write residue (a recovery lead)''"
| "note_text (SnapshotXidDisorder xid) =
     str_bytes ''snapshot xid ''
     @ fmt_u64 xid
     @ str_bytes '' is not ordered consistently with its create_time; a lead for the examiner''"
| "note_text (SnapshotMissingMetadata name) =
     str_bytes ''snapshot ''
     @ [0x22]
     @ name
     @ [0x22]
     @ str_bytes '' appears in one of the snap-metadata / snap-name trees but not the other; consistent with a structural snapshot inconsistency''"
| "note_text (SnapshotDivergence ino) =
     str_bytes ''a snapshot's view of inode ''
     @ fmt_u64 ino
     @ str_bytes '' differs from the live volume; a history lead, not an anomaly in itself''"
| "note_text (SealedVolumeHashMismatch ino) =
     str_bytes ''sealed-volume file-info hash for inode ''
     @ fmt_u64 ino
     @ str_bytes '' does not match the recomputed content hash; consistent with a hash-metadata mismatch (not a trust-chain verdict)''"
| "note_text (SealedVolumeBroken broken_xid) =
     str_bytes ''integrity_meta_phys.im_broken_xid is set to ''
     @ fmt_u64 broken_xid
     @ str_bytes ''; consistent with the seal having been broken at that transaction''"
| "note_text (DeletedInodeRecoverable oid) =
     str_bytes ''inode/dir record for oid ''
     @ fmt_u64 oid
     @ str_bytes '' is superseded but still present in an older checkpoint or unreaped block; consistent with recoverable residue''"
| "note_text (DeletedExtentCarveCandidate block) =
     str_bytes ''a deleted file's extent block ''
     @ fmt_u64 block
     @ str_bytes '' is marked free in the allocation bitmap; a carve candidate only (free does not guarantee recoverable content)''"
| "note_text (ReaperPendingObject oid) =
     str_bytes ''object oid ''
     @ fmt_u64 oid
     @ str_bytes '' is queued in the reaper (logically deleted, still physically present); a residue lead''"
| "note_text (CloneSharedExtent inode_a inode_b) =
     str_bytes ''inodes ''
     @ fmt_u64 inode_a
     @ str_bytes '' and ''
     @ fmt_u64 inode_b
     @ str_bytes '' share one or more physical extents; consistent with a clonefile/dedup provenance link''"
| "note_text (CloneFlagWithoutSharing ino) =
     str_bytes ''inode ''
     @ fmt_u64 ino
     @ str_bytes '' has INODE_WAS_CLONED set but no shared extent was found; consistent with a clone-flag inconsistency''"
| "note_text EncryptionLocked =
     str_bytes ''volume is encrypted and no key is available; content is not readable (a state, not a verdict)''"
| "note_text (EncryptionState detail) =
     str_bytes ''observed encryption state: ''
     @ detail
     @ str_bytes '' (raw fields; software-vs-hardware not inferred)''"
| "note_text (EncryptionKeybagAnomaly raw_tag offset) =
     str_bytes ''keybag entry at offset ''
     @ fmt_u64 offset
     @ str_bytes '' carries an unexpected or malformed tag ''
     @ fmt_hex 4 (unat raw_tag)
     @ str_bytes ''; consistent with a keybag anomaly''"
| "note_text (TimestampZeroed ino) =
     str_bytes ''inode ''
     @ fmt_u64 ino
     @ str_bytes '' has one timestamp zeroed while its siblings are set; an Info lead (possible wipe)''"
| "note_text (TimestampOrder ino) =
     str_bytes ''inode ''
     @ fmt_u64 ino
     @ str_bytes '' has timestamps out of expected order (e.g. change_time before create_time); an FP-prone Info lead''"
| "note_text (XidReuse oid xid) =
     str_bytes ''two distinct live objects claim the same (oid ''
     @ fmt_u64 oid
     @ str_bytes '', xid ''
     @ fmt_u64 xid
     @ str_bytes ''); impossible under copy-on-write, consistent with tampering''"
| "note_text (OrphanInode oid) =
     str_bytes ''inode ''
     @ fmt_u64 oid
     @ str_bytes '' has no DIR_REC referencing it and is not in the private directory; consistent with deleted-but-linked residue''"
| "note_text (VolumeRoleMismatch detail) =
     str_bytes ''volume role flag is inconsistent with content: ''
     @ detail
     @ str_bytes ''; a structural lead''"

subsection \<open>Reading values back from a note\<close>

definition is_hex_byte :: "u8 \<Rightarrow> bool" where
  "is_hex_byte b \<longleftrightarrow> 48 \<le> b \<and> b < 58 \<or> 97 \<le> b \<and> b < 103"

lemma digits_hex: "\<forall>b\<in>set (digits 16 n). is_hex_byte b"
proof (induction n rule: less_induct)
  case (less n)
  have d: "is_hex_byte (digit_byte d)" if "d < 16" for d
    using that by (simp add: is_hex_byte_def word_le_nat_alt word_less_nat_alt unat_digit_byte)
  show ?case
  proof (cases "n < 16")
    case True
    then show ?thesis using d by (simp add: digits_small)
  next
    case False
    then have "\<forall>b\<in>set (digits 16 (n div 16)). is_hex_byte b" by (intro less) auto
    then show ?thesis using False d [of "n mod 16"] by (simp add: digits_large)
  qed
qed

lemma number_of_zeros: "number_of 16 (replicate k 48 @ ds) = number_of 16 ds"
proof -
  have "foldl (\<lambda>n b. n * 16 + digit_value b) 0 (replicate k 48) = 0"
    by (induction k) (simp_all add: digit_value_def)
  then show ?thesis by (simp add: number_of_def)
qed

lemma hex_split:
  assumes "fmt_hex w m @ str_bytes (c # cs) @ xs = fmt_hex w n @ str_bytes (c # cs) @ ys" "\<not> is_hex_byte (of_char c)"
  shows "m = n \<and> xs = ys"
proof -
  define h where "h k = replicate (w - 2 - length (digits 16 k)) 48 @ digits 16 k" for k
  have h: "\<forall>b\<in>set (h k). is_hex_byte b" for k using digits_hex by (auto simp: h_def is_hex_byte_def)
  have e: "h m @ str_bytes (c # cs) @ xs = h n @ str_bytes (c # cs) @ ys"
    using assms(1) by (simp add: fmt_hex_def h_def)
  have tw: "takeWhile is_hex_byte (h k @ str_bytes (c # cs) @ zs) = h k" for k zs
    using h [of k] assms(2) by (simp add: takeWhile_append2 str_bytes_Cons)
  have hk: "h m = h n" using arg_cong [OF e, of "takeWhile is_hex_byte"] unfolding tw .
  then have "number_of 16 (h m) = number_of 16 (h n)" by simp
  then have "m = n" unfolding h_def number_of_zeros by (simp add: number_of_digits)
  then show ?thesis using e hk by simp
qed

lemma hex_cancel:
  "\<not> is_hex_byte (of_char c) \<Longrightarrow>
     fmt_hex w m @ str_bytes (c # cs) @ xs = fmt_hex w n @ str_bytes (c # cs) @ ys \<longleftrightarrow> m = n \<and> xs = ys"
  "\<not> is_hex_byte (of_char c) \<Longrightarrow> fmt_hex w m @ str_bytes (c # cs) = fmt_hex w n @ str_bytes (c # cs) \<longleftrightarrow> m = n"
  using hex_split [of w m c cs xs n ys] hex_split [of w m c cs "[]" n "[]"] by auto

lemma dec_cancel_str:
  "\<not> is_digit_byte (of_char c) \<Longrightarrow>
     fmt_dec m @ str_bytes (c # cs) @ xs = fmt_dec n @ str_bytes (c # cs) @ ys \<longleftrightarrow> m = n \<and> xs = ys"
  "\<not> is_digit_byte (of_char c) \<Longrightarrow> fmt_dec m @ str_bytes (c # cs) = fmt_dec n @ str_bytes (c # cs) \<longleftrightarrow> m = n"
  by (auto simp: str_bytes_Cons)

lemma str_bytes_inject [simp]: "str_bytes s = str_bytes t \<longleftrightarrow> s = t"
proof -
  have "inj (of_char :: char \<Rightarrow> u8)"
  proof (rule injI)
    fix c d :: char
    assume "(of_char c :: u8) = of_char d"
    then have "unat (of_nat (of_char c) :: u8) = unat (of_nat (of_char d) :: u8)" by (simp only: of_nat_of_char)
    moreover have "(of_char e :: nat) < 2 ^ 8" for e :: char by (simp add: of_char_def)
    ultimately have "(of_char c :: nat) = of_char d" by (simp add: unat_of_nat_u8)
    then show "c = d" by simp
  qed
  then show ?thesis by (auto simp: str_bytes_def inj_map_eq_map)
qed

subsection \<open>A note determines its anomaly\<close>

text \<open>The kinds in the order of the enumeration, and their codes.\<close>

primrec kind_index :: "anomaly_kind \<Rightarrow> nat" where
  "kind_index (ObjectChecksumMismatch x y z) = 0"
| "kind_index (OmapInconsistent x y) = 1"
| "kind_index (OmapOrphanMapping x) = 2"
| "kind_index (CheckpointRingMalformed x) = 3"
| "kind_index (CheckpointSupersededState x) = 4"
| "kind_index (SnapshotXidDisorder x) = 5"
| "kind_index (SnapshotMissingMetadata x) = 6"
| "kind_index (SnapshotDivergence x) = 7"
| "kind_index (SealedVolumeHashMismatch x) = 8"
| "kind_index (SealedVolumeBroken x) = 9"
| "kind_index (DeletedInodeRecoverable x) = 10"
| "kind_index (DeletedExtentCarveCandidate x) = 11"
| "kind_index (ReaperPendingObject x) = 12"
| "kind_index (CloneSharedExtent x y) = 13"
| "kind_index (CloneFlagWithoutSharing x) = 14"
| "kind_index EncryptionLocked = 15"
| "kind_index (EncryptionState x) = 16"
| "kind_index (EncryptionKeybagAnomaly x y) = 17"
| "kind_index (TimestampZeroed x) = 18"
| "kind_index (TimestampOrder x) = 19"
| "kind_index (XidReuse x y) = 20"
| "kind_index (OrphanInode x) = 21"
| "kind_index (VolumeRoleMismatch x) = 22"

definition codes :: "string list" where
  "codes = [''APFS-OBJECT-CKSUM-MISMATCH'', ''APFS-OMAP-INCONSISTENT'',
     ''APFS-OMAP-ORPHAN-MAPPING'', ''APFS-CHECKPOINT-RING-MALFORMED'',
     ''APFS-CHECKPOINT-SUPERSEDED-STATE'', ''APFS-SNAPSHOT-XID-DISORDER'',
     ''APFS-SNAPSHOT-MISSING-METADATA'', ''APFS-SNAPSHOT-DIVERGENCE'',
     ''APFS-SEALED-VOLUME-HASH-MISMATCH'', ''APFS-SEALED-VOLUME-BROKEN'',
     ''APFS-DELETED-INODE-RECOVERABLE'', ''APFS-DELETED-EXTENT-CARVE-CANDIDATE'',
     ''APFS-REAPER-PENDING-OBJECT'', ''APFS-CLONE-SHARED-EXTENT'',
     ''APFS-CLONE-FLAG-WITHOUT-SHARING'', ''APFS-ENCRYPTION-LOCKED'',
     ''APFS-ENCRYPTION-STATE'', ''APFS-ENCRYPTION-KEYBAG-ANOMALY'',
     ''APFS-TIMESTAMP-ZEROED'', ''APFS-TIMESTAMP-ORDER'',
     ''APFS-XID-REUSE'', ''APFS-ORPHAN-INODE'',
     ''APFS-VOLUME-ROLE-MISMATCH'']"

lemma kind_index_iff:
  "kind_index b = 0 \<longleftrightarrow> (\<exists>x y z. b = ObjectChecksumMismatch x y z)"
  "kind_index b = 1 \<longleftrightarrow> (\<exists>x y. b = OmapInconsistent x y)"
  "kind_index b = 2 \<longleftrightarrow> (\<exists>x. b = OmapOrphanMapping x)"
  "kind_index b = 3 \<longleftrightarrow> (\<exists>x. b = CheckpointRingMalformed x)"
  "kind_index b = 4 \<longleftrightarrow> (\<exists>x. b = CheckpointSupersededState x)"
  "kind_index b = 5 \<longleftrightarrow> (\<exists>x. b = SnapshotXidDisorder x)"
  "kind_index b = 6 \<longleftrightarrow> (\<exists>x. b = SnapshotMissingMetadata x)"
  "kind_index b = 7 \<longleftrightarrow> (\<exists>x. b = SnapshotDivergence x)"
  "kind_index b = 8 \<longleftrightarrow> (\<exists>x. b = SealedVolumeHashMismatch x)"
  "kind_index b = 9 \<longleftrightarrow> (\<exists>x. b = SealedVolumeBroken x)"
  "kind_index b = 10 \<longleftrightarrow> (\<exists>x. b = DeletedInodeRecoverable x)"
  "kind_index b = 11 \<longleftrightarrow> (\<exists>x. b = DeletedExtentCarveCandidate x)"
  "kind_index b = 12 \<longleftrightarrow> (\<exists>x. b = ReaperPendingObject x)"
  "kind_index b = 13 \<longleftrightarrow> (\<exists>x y. b = CloneSharedExtent x y)"
  "kind_index b = 14 \<longleftrightarrow> (\<exists>x. b = CloneFlagWithoutSharing x)"
  "kind_index b = 15 \<longleftrightarrow> b = EncryptionLocked"
  "kind_index b = 16 \<longleftrightarrow> (\<exists>x. b = EncryptionState x)"
  "kind_index b = 17 \<longleftrightarrow> (\<exists>x y. b = EncryptionKeybagAnomaly x y)"
  "kind_index b = 18 \<longleftrightarrow> (\<exists>x. b = TimestampZeroed x)"
  "kind_index b = 19 \<longleftrightarrow> (\<exists>x. b = TimestampOrder x)"
  "kind_index b = 20 \<longleftrightarrow> (\<exists>x y. b = XidReuse x y)"
  "kind_index b = 21 \<longleftrightarrow> (\<exists>x. b = OrphanInode x)"
  "kind_index b = 22 \<longleftrightarrow> (\<exists>x. b = VolumeRoleMismatch x)"
  by (cases b; simp)+

lemma code_nth: "code a = codes ! kind_index a" and kind_index_less: "kind_index a < length codes"
  by (cases a; simp add: codes_def)+

lemma distinct_codes: "distinct codes"
  by code_simp

lemma code_eq_iff: "code a = code b \<longleftrightarrow> kind_index a = kind_index b"
  unfolding code_nth by (rule nth_eq_iff_index_eq [OF distinct_codes kind_index_less kind_index_less])

lemma note_cancel:
  "\<not> is_hex_byte (of_char (CHR '' ''))" "\<not> is_hex_byte (of_char (CHR '';''))"
  "\<not> is_digit_byte (of_char (CHR '' ''))" "\<not> is_digit_byte (of_char (CHR '';''))"
  "\<not> is_digit_byte (of_char (CHR '',''))" "\<not> is_digit_byte (of_char (CHR '')''))"
  by (simp_all add: is_hex_byte_def is_digit_byte_def)

lemma unat_eq_iff: "unat a = unat b \<longleftrightarrow> a = b" for a b :: "'a::len word"
  by (auto intro: unsigned_word_eqI)

lemma fmt_hex_inject: "fmt_hex w m = fmt_hex w n \<longleftrightarrow> m = n"
  using hex_cancel(2) [OF note_cancel(1), where cs = "[]"] by (metis append_same_eq)

lemma note_inject:
  assumes "kind_index a = kind_index b" "note_text a = note_text b"
  shows "a = b"
  using assms
  by (cases a) (auto simp only: kind_index.simps kind_index_iff [of b] eq_commute [of _ "kind_index b"] note_text.simps
      same_append_eq append_same_eq hex_cancel [OF note_cancel(1)] hex_cancel [OF note_cancel(2)] dec_cancel_str [OF note_cancel(3)]
      dec_cancel_str [OF note_cancel(4)] dec_cancel_str [OF note_cancel(5)] dec_cancel_str [OF note_cancel(6)]
      str_bytes_inject fmt_dec_inject fmt_hex_inject unat_eq_iff)

text \<open>
  C25. The report of an anomaly surfaces every raw value it is about: two anomalies with the same
  published code and the same note are equal.
\<close>

theorem note_surfaces_values:
  "code a = code b \<and> note_text a = note_text b \<longleftrightarrow> a = b"
  using note_inject by (auto simp: code_eq_iff)

end
