(* ===== verification/Reaper.thy ===== *)
theory Reaper
  imports Checkpoint Spaceman
begin

text \<open>
  \<^verbatim>\<open>core/src/reaper.rs\<close>: the objects pending deletion, read from the reaper and its chain of
  reap lists. The chain is an inductive predicate; the walk succeeds exactly on finite,
  duplicate-free chains within the cap and returns their entries in order.
\<close>

subsection \<open>Reap lists\<close>

definition NR_HEAD :: nat where [layout_defs]: "NR_HEAD = 48"
definition NR_TYPE :: nat where [layout_defs]: "NR_TYPE = 72"
definition NR_OID :: nat where [layout_defs]: "NR_OID = 88"
definition NRL_NEXT :: nat where [layout_defs]: "NRL_NEXT = 32"
definition NRL_COUNT :: nat where [layout_defs]: "NRL_COUNT = 48"
definition NRL_ENTRIES :: nat where [layout_defs]: "NRL_ENTRIES = 64"
definition NRLE_LEN :: nat where [layout_defs]: "NRLE_LEN = 40"
definition NRLE_TYPE :: nat where [layout_defs]: "NRLE_TYPE = 8"
definition NRLE_OID :: nat where [layout_defs]: "NRLE_OID = 24"
definition MAX_REAP_LISTS :: nat where [layout_defs]: "MAX_REAP_LISTS = 4096"

record reap_pending =
  rp_oid :: u64
  rp_obj_type :: u32

definition reap_entry :: "bytes \<Rightarrow> nat \<Rightarrow> reap_pending option" where
  "reap_entry lst i =
     (let e = NRL_ENTRIES + i * NRLE_LEN; oid = le_u64 lst (e + NRLE_OID)
      in if oid \<noteq> 0 then Some \<lparr> rp_oid = oid, rp_obj_type = le_u32 lst (e + NRLE_TYPE) \<rparr> else None)"

definition reap_entries :: "bytes \<Rightarrow> nat \<Rightarrow> reap_pending list" where
  "reap_entries lst block_size =
     (let max_entries = (block_size - NRL_ENTRIES) div NRLE_LEN;
          count = min (unat (le_u32 lst NRL_COUNT)) max_entries
      in List.map_filter (reap_entry lst) [0..<count])"

text \<open>The \<^verbatim>\<open>while next_oid != 0\<close> loop; \<open>seen\<close> holds the inserted ids, each once.\<close>

function reap_loop :: "reader \<Rightarrow> checkpoint_mapping list \<Rightarrow> nat \<Rightarrow> u64 list \<Rightarrow> u64 \<Rightarrow> reap_pending list \<Rightarrow>
    reap_pending list res" where
  "reap_loop rd mappings block_size seen next_oid out =
     (if next_oid = 0 then Inr out
      else if next_oid \<in> set seen \<or> Suc (length seen) > MAX_REAP_LISTS then Inl (CycleGuard MAX_REAP_LISTS)
      else case find (\<lambda>m. cm_oid m = next_oid) mappings of
             None \<Rightarrow> Inl (OmapUnresolved next_oid 0)
           | Some m \<Rightarrow>
               (case read_obj_block rd (cm_paddr m) block_size of
                  Inl e \<Rightarrow> Inl e
                | Inr lst \<Rightarrow>
                    reap_loop rd mappings block_size (next_oid # seen) (le_u64 lst NRL_NEXT)
                      (out @ reap_entries lst block_size)))"
  by pat_completeness auto
termination
  by (relation "measure (\<lambda>(_, _, _, seen, _, _). MAX_REAP_LISTS - length seen)") auto

declare reap_loop.simps [simp del]

definition in_progress :: "bytes \<Rightarrow> reap_pending list" where
  "in_progress reaper =
     (let nr_oid = le_u64 reaper NR_OID
      in if nr_oid \<noteq> 0 then [\<lparr> rp_oid = nr_oid, rp_obj_type = le_u32 reaper NR_TYPE \<rparr>] else [])"

definition pending_objects :: "reader \<Rightarrow> u64 \<Rightarrow> checkpoint_mapping list \<Rightarrow> nat \<Rightarrow> reap_pending list res" where
  "pending_objects rd reaper_paddr mappings block_size =
     (case read_obj_block rd reaper_paddr block_size of
        Inl e \<Rightarrow> Inl e
      | Inr reaper \<Rightarrow>
          reap_loop rd mappings block_size [] (le_u64 reaper NR_HEAD) (in_progress reaper))"

subsection \<open>Chains\<close>

inductive reap_chain :: "reader \<Rightarrow> checkpoint_mapping list \<Rightarrow> nat \<Rightarrow> u64 \<Rightarrow> (u64 \<times> bytes) list \<Rightarrow> bool"
  for rd mappings block_size where
  stop: "reap_chain rd mappings block_size 0 []"
| link: "next_oid \<noteq> 0 \<Longrightarrow> find (\<lambda>m. cm_oid m = next_oid) mappings = Some m \<Longrightarrow>
    read_obj_block rd (cm_paddr m) block_size = Inr lst \<Longrightarrow>
    reap_chain rd mappings block_size (le_u64 lst NRL_NEXT) ls \<Longrightarrow>
    reap_chain rd mappings block_size next_oid ((next_oid, lst) # ls)"

inductive_simps reap_chain_0 [simp]: "reap_chain rd mappings bs 0 ls"
inductive_simps reap_chain_simps: "reap_chain rd mappings bs next_oid ls"

lemma reap_loop_chain:
  assumes "reap_chain rd mappings bs next_oid ls" "distinct (map fst ls)" "set (map fst ls) \<inter> set seen = {}"
    and "length seen + length ls \<le> MAX_REAP_LISTS"
  shows "reap_loop rd mappings bs seen next_oid out = Inr (out @ concat (map (\<lambda>(oid, lst). reap_entries lst bs) ls))"
  using assms
proof (induction arbitrary: seen out rule: reap_chain.induct)
  case stop
  then show ?case by (simp add: reap_loop.simps)
next
  case (link next_oid m lst ls)
  then show ?case by (subst reap_loop.simps) simp
qed

lemma reap_loop_sound:
  "reap_loop rd mappings bs seen next_oid out = Inr r \<Longrightarrow> distinct seen \<Longrightarrow>
    \<exists>ls. reap_chain rd mappings bs next_oid ls \<and> distinct (map fst ls) \<and> set (map fst ls) \<inter> set seen = {}
      \<and> length seen + length ls \<le> max (length seen) MAX_REAP_LISTS
      \<and> r = out @ concat (map (\<lambda>(oid, lst). reap_entries lst bs) ls)"
proof (induction rd mappings bs seen next_oid out rule: reap_loop.induct)
  case (1 rd mappings bs seen next_oid out)
  show ?case
  proof (cases "next_oid = 0")
    case True
    then show ?thesis using 1 by (simp add: reap_loop.simps)
  next
    case False
    then obtain m lst where m: "next_oid \<notin> set seen" "Suc (length seen) \<le> MAX_REAP_LISTS"
        "find (\<lambda>m. cm_oid m = next_oid) mappings = Some m" "read_obj_block rd (cm_paddr m) bs = Inr lst"
        "reap_loop rd mappings bs (next_oid # seen) (le_u64 lst NRL_NEXT) (out @ reap_entries lst bs) = Inr r"
      using "1.prems" by (subst (asm) reap_loop.simps) (auto split: if_splits option.splits sum.splits)
    then obtain ls where "reap_chain rd mappings bs (le_u64 lst NRL_NEXT) ls" "distinct (map fst ls)"
        "set (map fst ls) \<inter> set (next_oid # seen) = {}"
        "length (next_oid # seen) + length ls \<le> max (length (next_oid # seen)) MAX_REAP_LISTS"
        "r = (out @ reap_entries lst bs) @ concat (map (\<lambda>(oid, lst). reap_entries lst bs) ls)"
      using "1.IH" [OF False _ m(3,4,5)] "1.prems"(2) by auto
    with m False show ?thesis
      by (intro exI [of _ "(next_oid, lst) # ls"]) (auto intro: reap_chain.link)
  qed
qed

text \<open>
  C26. Reading the pending objects succeeds exactly when the reaper verifies and its reap lists
  form a chain that ends, visits no list twice and has at most 4096 lists; the result is then
  the object in progress, if any, followed by the non-zero entries of the lists in chain order.
\<close>

theorem pending_objects_iff:
  "pending_objects rd reaper_paddr mappings bs = Inr out \<longleftrightarrow>
     (\<exists>reaper ls. read_obj_block rd reaper_paddr bs = Inr reaper
       \<and> reap_chain rd mappings bs (le_u64 reaper NR_HEAD) ls \<and> distinct (map fst ls)
       \<and> length ls \<le> MAX_REAP_LISTS
       \<and> out = in_progress reaper @ concat (map (\<lambda>(oid, lst). reap_entries lst bs) ls))"
  using reap_loop_sound [of rd mappings bs "[]"] reap_loop_chain [where seen = "[]"]
  by (fastforce simp: pending_objects_def split: sum.splits)

end
