(* ===== verification/Sealed.thy ===== *)
theory Sealed
  imports Object
begin

text \<open>
  \<^verbatim>\<open>core/src/sealed.rs\<close>: the integrity metadata of a sealed volume, parsed after its checksum
  is verified.
\<close>

record integrity_meta =
  im_version :: u32
  im_flags :: u32
  im_hash_type :: u32
  im_broken_xid :: u64

definition OFF_IM_VERSION :: nat where [layout_defs]: "OFF_IM_VERSION = 32"
definition OFF_IM_FLAGS :: nat where [layout_defs]: "OFF_IM_FLAGS = 36"
definition OFF_IM_HASH_TYPE :: nat where [layout_defs]: "OFF_IM_HASH_TYPE = 40"
definition OFF_IM_BROKEN_XID :: nat where [layout_defs]: "OFF_IM_BROKEN_XID = 48"
definition INTEGRITY_META_MIN_LEN :: nat where [layout_defs]: "INTEGRITY_META_MIN_LEN = OFF_IM_BROKEN_XID + 8"

definition integrity_meta_parse :: "bytes \<Rightarrow> integrity_meta res" where
  "integrity_meta_parse block =
     (if length block < INTEGRITY_META_MIN_LEN
      then Inl (FieldOutOfRange ''integrity_meta_phys'' ''block.len'' (of_nat (length block))
                  (of_nat INTEGRITY_META_MIN_LEN))
      else let stored = fletcher64_stored block; computed = fletcher64_checksum block
           in if stored \<noteq> computed then Inl (ChecksumMismatch (le_u64 block 8) stored computed)
              else Inr \<lparr> im_version = le_u32 block OFF_IM_VERSION, im_flags = le_u32 block OFF_IM_FLAGS,
                         im_hash_type = le_u32 block OFF_IM_HASH_TYPE,
                         im_broken_xid = le_u64 block OFF_IM_BROKEN_XID \<rparr>)"

definition enc_integrity_meta :: "integrity_meta \<Rightarrow> bytes \<Rightarrow> u32 \<Rightarrow> bytes \<Rightarrow> bytes" where
  "enc_integrity_meta m hdr root_hash_offset rest =
     seal_block (hdr @ to_le 4 (im_version m) @ to_le 4 (im_flags m) @ to_le 4 (im_hash_type m)
       @ to_le 4 root_hash_offset @ to_le 8 (im_broken_xid m) @ rest)"

lemma integrity_meta_parse_enc:
  "length hdr = 24 \<Longrightarrow> integrity_meta_parse (enc_integrity_meta m hdr r rest) = Inr m"
  by (simp add: integrity_meta_parse_def enc_integrity_meta_def layout_defs le_u32_def le_u64_def
      arr_seal_block arr_fields)

lemma integrity_meta_verified:
  "integrity_meta_parse block = Inr m \<Longrightarrow> fletcher64_stored block = fletcher64_checksum block"
  by (auto simp: integrity_meta_parse_def Let_def split: if_splits)

end
