(* ===== verification/Auditor.thy ===== *)
theory Auditor
  imports Anomaly Snapshot Reaper Sealed Apfs_Container
begin

text \<open>
  The auditor of \<^verbatim>\<open>forensic/src\<close>: timestamps, encryption state, snapshots, integrity of the
  checkpoint map, clones, recovery leads and sealed volumes, and the drivers \<^verbatim>\<open>audit_volume\<close> and
  \<^verbatim>\<open>audit_container\<close>. The lemmas say exactly which conditions of the image each reported anomaly
  stands for.
\<close>

subsection \<open>Timestamps, encryption, sealed volumes, clones\<close>

definition timestamp_anomalies :: "u64 \<Rightarrow> u64 \<Rightarrow> u64 \<Rightarrow> u64 \<Rightarrow> u64 \<Rightarrow> anomaly_kind list" where
  "timestamp_anomalies oid create modify change access =
     (let ts = [create, modify, change, access];
          order_broken = (change \<noteq> 0 \<and> create \<noteq> 0 \<and> change < create
                          \<or> access \<noteq> 0 \<and> create \<noteq> 0 \<and> access < create)
      in (if list_ex (\<lambda>t. t \<noteq> 0) ts \<and> 0 \<in> set ts then [TimestampZeroed oid] else [])
         @ (if order_broken then [TimestampOrder oid] else []))"

definition timestamps_audit :: "inode \<Rightarrow> anomaly_kind list" where
  "timestamps_audit ino =
     timestamp_anomalies (ino_oid ino) (ino_create_time ino) (ino_mod_time ino) (ino_change_time ino) (ino_access_time ino)"

definition crypto_anomalies :: "bool \<Rightarrow> rust_string \<Rightarrow> (u16 \<times> u64) list \<Rightarrow> anomaly_kind list" where
  "crypto_anomalies encrypted detail unknown_tags =
     (if encrypted then [EncryptionLocked, EncryptionState detail] else [])
     @ map (\<lambda>(raw_tag, offset). EncryptionKeybagAnomaly (ucast (raw_tag AND 0xff)) offset) unknown_tags"

text \<open>\<^verbatim>\<open>{}\<close> of a boolean and the derived \<^verbatim>\<open>{:?}\<close> of a list of tags.\<close>

definition fmt_bool :: "bool \<Rightarrow> rust_string" where
  "fmt_bool b = (if b then str_bytes ''true'' else str_bytes ''false'')"

primrec fmt_tag :: "keybag_tag \<Rightarrow> rust_string" where
  "fmt_tag UnknownTag = str_bytes ''Unknown''"
| "fmt_tag WrappingKey = str_bytes ''WrappingKey''"
| "fmt_tag VolumeKey = str_bytes ''VolumeKey''"
| "fmt_tag VolumeUnlockRecords = str_bytes ''VolumeUnlockRecords''"
| "fmt_tag VolumePassphraseHint = str_bytes ''VolumePassphraseHint''"
| "fmt_tag UserPayload = str_bytes ''UserPayload''"

fun fmt_list :: "rust_string list \<Rightarrow> rust_string" where
  "fmt_list [] = []"
| "fmt_list [x] = x"
| "fmt_list (x # y # ys) = x @ str_bytes '', '' @ fmt_list (y # ys)"

definition crypto_audit :: "encryption_state \<Rightarrow> anomaly_kind list" where
  "crypto_audit st =
     crypto_anomalies (es_encrypted st)
       (str_bytes ''encrypted='' @ fmt_bool (es_encrypted st)
        @ str_bytes '', tags=['' @ fmt_list (map fmt_tag (es_tags_present st))
        @ str_bytes ''], passphrase_hint='' @ fmt_bool (es_has_passphrase_hint st))
       (es_unknown_tags st)"

definition sealed_anomalies :: "u64 \<Rightarrow> anomaly_kind list" where
  "sealed_anomalies broken_xid = (if broken_xid \<noteq> 0 then [SealedVolumeBroken broken_xid] else [])"

definition sealed_audit :: "integrity_meta \<Rightarrow> anomaly_kind list" where
  "sealed_audit m = sealed_anomalies (im_broken_xid m)"

definition clone_anomalies :: "(u64 \<times> u64) list \<Rightarrow> u64 list \<Rightarrow> anomaly_kind list" where
  "clone_anomalies shared flagged_unshared =
     map (\<lambda>(a, b). CloneSharedExtent a b) shared @ map CloneFlagWithoutSharing flagged_unshared"

definition clones_audit :: "anomaly_kind list" where
  "clones_audit = clone_anomalies [] []"

subsection \<open>Integrity of the checkpoint map\<close>

definition duplicate_oid_anomalies :: "(u64 \<times> u64) list \<Rightarrow> u64 \<Rightarrow> anomaly_kind list" where
  "duplicate_oid_anomalies mappings live_xid =
     concat (map (\<lambda>i. let (oid, paddr) = mappings ! i;
                          already = list_ex (\<lambda>(o', _). o' = oid) (take i mappings);
                          collides = list_ex (\<lambda>(o', p). o' = oid \<and> p \<noteq> paddr) (drop (i + 1) mappings)
                      in if \<not> already \<and> collides then [XidReuse oid live_xid] else [])
                 [0..<length mappings])"

definition integrity_audit :: "apfs_container \<Rightarrow> anomaly_kind list" where
  "integrity_audit c =
     duplicate_oid_anomalies (map (\<lambda>m. (cm_oid m, cm_paddr m)) (ac_checkpoint_mappings c))
       (nx_xid (ac_superblock c))"

subsection \<open>Recovery leads\<close>

definition reaper_anomalies :: "u64 list \<Rightarrow> anomaly_kind list" where
  "reaper_anomalies pending_oids = map ReaperPendingObject pending_oids"

definition recovery_audit :: "reader \<Rightarrow> u64 \<Rightarrow> checkpoint_mapping list \<Rightarrow> nat \<Rightarrow> anomaly_kind list res" where
  "recovery_audit rd paddr mappings block_size =
     map_sum id (\<lambda>pending. reaper_anomalies (map rp_oid pending))
       (pending_objects rd paddr mappings block_size)"

subsection \<open>Snapshots\<close>

fun disorder_windows :: "(u64 \<times> u64) list \<Rightarrow> anomaly_kind list" where
  "disorder_windows ((x0, t0) # (x1, t1) # rest) =
     (if t0 \<noteq> 0 \<and> t1 \<noteq> 0 \<and> t1 < t0 then [SnapshotXidDisorder x1] else []) @ disorder_windows ((x1, t1) # rest)"
| "disorder_windows _ = []"

definition snapshot_xid_disorder :: "(u64 \<times> u64) list \<Rightarrow> anomaly_kind list" where
  "snapshot_xid_disorder snaps = disorder_windows (sort_key fst snaps)"

primrec snapshot_names :: "reader \<Rightarrow> apfs_volume \<Rightarrow> nat \<Rightarrow> snapshot list \<Rightarrow> anomaly_kind list \<Rightarrow> anomaly_kind list res" where
  "snapshot_names rd volume block_size [] out = Inr out"
| "snapshot_names rd volume block_size (s # snaps) out =
     (case resolve_snapshot_xid rd volume (ss_name s) block_size of
        Inl e \<Rightarrow> Inl e
      | Inr r \<Rightarrow>
          snapshot_names rd volume block_size snaps
            (if r = Some (ss_xid s) then out else out @ [SnapshotMissingMetadata (ss_name s)]))"

definition snapshots_audit :: "reader \<Rightarrow> apfs_volume \<Rightarrow> nat \<Rightarrow> anomaly_kind list res" where
  "snapshots_audit rd volume block_size =
     (case list_snapshots rd volume block_size of
        Inl e \<Rightarrow> Inl e
      | Inr snaps \<Rightarrow>
          map_sum id (\<lambda>out. out @ snapshot_xid_disorder (map (\<lambda>s. (ss_xid s, ss_create_time s)) snaps))
            (snapshot_names rd volume block_size snaps []))"

subsection \<open>The drivers\<close>

definition audit_volume :: "reader \<Rightarrow> apfs_volume \<Rightarrow> nat \<Rightarrow> anomaly_kind list res" where
  "audit_volume rd volume block_size = map_sum id (\<lambda>out. out @ clones_audit) (snapshots_audit rd volume block_size)"

primrec audit_volumes :: "reader \<Rightarrow> nat \<Rightarrow> u64 list \<Rightarrow> anomaly_kind list \<Rightarrow> anomaly_kind list res" where
  "audit_volumes rd block_size [] out = Inr out"
| "audit_volumes rd block_size (paddr # addrs) out =
     (case read_block_sat rd paddr block_size of
        Inl e \<Rightarrow> Inl e
      | Inr block \<Rightarrow>
          (case apfs_volume_parse block of
             Inl _ \<Rightarrow> audit_volumes rd block_size addrs out
           | Inr volume \<Rightarrow>
               (case audit_volume rd volume block_size of
                  Inl e \<Rightarrow> Inl e
                | Inr found \<Rightarrow> audit_volumes rd block_size addrs (out @ found))))"

definition audit_container :: "reader \<Rightarrow> nat \<Rightarrow> anomaly_kind list res" where
  "audit_container rd block_size =
     (case container_open rd of
        Inl e \<Rightarrow> Inl e
      | Inr container \<Rightarrow>
          (case volume_superblock_addrs rd container of
             Inl e \<Rightarrow> Inl e
           | Inr apsb_addrs \<Rightarrow>
               (case audit_volumes rd block_size apsb_addrs (integrity_audit container) of
                  Inl e \<Rightarrow> Inl e
                | Inr out \<Rightarrow>
                    (case reaper_paddr container of
                       None \<Rightarrow> Inr out
                     | Some rp \<Rightarrow>
                         map_sum id (\<lambda>found. out @ found)
                           (recovery_audit rd rp (ac_checkpoint_mappings container) block_size)))))"

subsection \<open>Exactness of the pure checks\<close>

text \<open>An object identifier is reused when the map sends it to two different blocks.\<close>

definition reused :: "(u64 \<times> u64) list \<Rightarrow> u64 \<Rightarrow> bool" where
  "reused ms oid \<longleftrightarrow> (\<exists>p q. (oid, p) \<in> set ms \<and> (oid, q) \<in> set ms \<and> p \<noteq> q)"

lemma reuse_scan:
  "list_ex (\<lambda>p. fst p = oid) ms \<longleftrightarrow> oid \<in> fst ` set ms"
  "list_ex (\<lambda>p. fst p = oid \<and> snd p \<noteq> q) ms \<longleftrightarrow> (\<exists>p. (oid, p) \<in> set ms \<and> p \<noteq> q)"
proof -
  show "list_ex (\<lambda>p. fst p = oid) ms \<longleftrightarrow> oid \<in> fst ` set ms"
    unfolding list_ex_iff image_iff by (simp only: eq_commute [of oid])
  show "list_ex (\<lambda>p. fst p = oid \<and> snd p \<noteq> q) ms \<longleftrightarrow> (\<exists>p. (oid, p) \<in> set ms \<and> p \<noteq> q)"
    unfolding list_ex_iff by (metis fst_conv snd_conv prod.collapse)
qed

text \<open>The test at position \<open>i\<close>: the first sighting of an identifier that collides later.\<close>

definition reuse_at :: "(u64 \<times> u64) list \<Rightarrow> nat \<Rightarrow> bool" where
  "reuse_at ms i \<longleftrightarrow> fst (ms ! i) \<notin> fst ` set (take i ms)
     \<and> (\<exists>p. (fst (ms ! i), p) \<in> set (drop (Suc i) ms) \<and> p \<noteq> snd (ms ! i))"

lemma duplicate_member:
  "a \<in> set (duplicate_oid_anomalies ms x) \<longleftrightarrow> (\<exists>i<length ms. reuse_at ms i \<and> a = XidReuse (fst (ms ! i)) x)"
proof -
  have eq: "duplicate_oid_anomalies ms x
      = concat (map (\<lambda>i. if reuse_at ms i then [XidReuse (fst (ms ! i)) x] else []) [0..<length ms])"
    by (simp add: duplicate_oid_anomalies_def Let_def case_prod_unfold reuse_at_def reuse_scan)
  have "a \<in> set (concat (map f [0..<n])) \<longleftrightarrow> (\<exists>i<n. a \<in> set (f i))" for f and n :: nat by auto
  note mem = this [of "\<lambda>i. if reuse_at ms i then [XidReuse (fst (ms ! i)) x] else []"]
  have one: "a \<in> set (if reuse_at ms i then [XidReuse (fst (ms ! i)) x] else []) \<longleftrightarrow>
      reuse_at ms i \<and> a = XidReuse (fst (ms ! i)) x" for i
    by auto
  show ?thesis unfolding eq mem one ..
qed

lemma reuse_at_sound: "i < length ms \<Longrightarrow> reuse_at ms i \<Longrightarrow> reused ms (fst (ms ! i))"
  using nth_mem [of i ms] unfolding reuse_at_def reused_def by (metis in_set_dropD prod.collapse)

lemma reuse_at_complete:
  assumes "reused ms oid"
  shows "\<exists>i<length ms. reuse_at ms i \<and> fst (ms ! i) = oid"
  using assms
proof (induction ms rule: rev_induct)
  case (snoc m ms)
  show ?case
  proof (cases "reused ms oid")
    case True
    then obtain i where i: "i < length ms" "reuse_at ms i" "fst (ms ! i) = oid" using snoc.IH by blast
    then have "reuse_at (ms @ [m]) i" by (auto simp: reuse_at_def nth_append)
    with i show ?thesis by (intro exI [of _ i]) (simp add: nth_append)
  next
    case False
    obtain p q where pq: "(oid, p) \<in> set (ms @ [m])" "(oid, q) \<in> set (ms @ [m])" "p \<noteq> q"
      using snoc.prems unfolding reused_def by blast
    then have "(oid, p) \<in> set ms \<and> m = (oid, q) \<or> (oid, q) \<in> set ms \<and> m = (oid, p)"
      using False unfolding reused_def by (cases "m = (oid, p)"; cases "m = (oid, q)") auto
    then obtain r where r: "(oid, r) \<in> set ms" "fst m = oid" "snd m \<noteq> r" using pq(3) by auto
    then have same: "snd e = r" if "e \<in> set ms" "fst e = oid" for e
      using False that unfolding reused_def by (metis prod.collapse)
    have "\<exists>e\<in>set ms. fst e = oid" using r(1) by (intro bexI [of _ "(oid, r)"]) simp_all
    then obtain ys z zs where ms: "ms = ys @ z # zs" "fst z = oid" "\<forall>y\<in>set ys. fst y \<noteq> oid"
      by (rule split_list_first_propE)
    have "reuse_at (ms @ [m]) (length ys)"
    proof -
      have "(ms @ [m]) ! length ys = z" "take (length ys) (ms @ [m]) = ys" "drop (Suc (length ys)) (ms @ [m]) = zs @ [m]"
        by (simp_all add: ms(1))
      moreover have "snd z = r" using same [of z] ms by simp
      moreover have "oid \<notin> fst ` set ys" using ms(3) by blast
      moreover have "(oid, snd m) \<in> set (zs @ [m])" using r(2) by (cases m) simp
      ultimately show ?thesis unfolding reuse_at_def using r(3) ms(2) by auto
    qed
    then show ?thesis using ms by (intro exI [of _ "length ys"]) simp
  qed
qed (simp add: reused_def)

lemma duplicate_oid_exact: "set (duplicate_oid_anomalies ms x) = {XidReuse oid x |oid. reused ms oid}"
proof (intro set_eqI iffI)
  fix a
  assume "a \<in> set (duplicate_oid_anomalies ms x)"
  then obtain i where "i < length ms" "reuse_at ms i" "a = XidReuse (fst (ms ! i)) x"
    unfolding duplicate_member by blast
  then show "a \<in> {XidReuse oid x |oid. reused ms oid}" using reuse_at_sound by blast
next
  fix a
  assume "a \<in> {XidReuse oid x |oid. reused ms oid}"
  then obtain oid where "a = XidReuse oid x" "reused ms oid" by blast
  then show "a \<in> set (duplicate_oid_anomalies ms x)"
    unfolding duplicate_member using reuse_at_complete by blast
qed

lemma disorder_windows_Nil:
  "disorder_windows ps = [] \<longleftrightarrow> successively (\<lambda>(x0, t0) (x1, t1). \<not> (t0 \<noteq> 0 \<and> t1 \<noteq> 0 \<and> t1 < t0)) ps"
  by (induction ps rule: disorder_windows.induct) (auto split: if_splits)

text \<open>When every creation time is set, silence means that the times are sorted.\<close>

lemma disorder_windows_sorted:
  assumes "\<forall>p\<in>set ps. snd p \<noteq> 0"
  shows "disorder_windows ps = [] \<longleftrightarrow> sorted (map snd ps)"
proof -
  have "successively (\<lambda>(x0, t0) (x1, t1). \<not> (t0 \<noteq> 0 \<and> t1 \<noteq> 0 \<and> t1 < t0)) ps \<longleftrightarrow> successively (\<lambda>p q. snd p \<le> snd q) ps"
    using assms by (intro successively_cong) auto
  also have "\<dots> \<longleftrightarrow> sorted_wrt (\<lambda>p q. snd p \<le> snd q) ps"
    by (rule successively_conv_sorted_wrt) (auto simp: transp_def)
  finally show ?thesis by (simp add: disorder_windows_Nil sorted_map)
qed

lemma disorder_member:
  "a \<in> set (disorder_windows ps) \<longleftrightarrow>
     (\<exists>i. Suc i < length ps \<and> a = SnapshotXidDisorder (fst (ps ! Suc i))
        \<and> snd (ps ! i) \<noteq> 0 \<and> snd (ps ! Suc i) \<noteq> 0 \<and> snd (ps ! Suc i) < snd (ps ! i))"
proof (induction ps rule: disorder_windows.induct)
  case (1 x0 t0 x1 t1 rest)
  have ex: "(\<exists>i. Q i) \<longleftrightarrow> Q 0 \<or> (\<exists>i. Q (Suc i))" for Q :: "nat \<Rightarrow> bool" by (metis not0_implies_Suc)
  show ?case by (subst ex) (use 1 in auto)
qed simp_all

lemma snapshot_names_stored:
  assumes "snap_stored rd volume block_size t"
  shows "snapshot_names rd volume block_size ss out
    = Inr (out @ map (\<lambda>s. SnapshotMissingMetadata (ss_name s))
        (filter (\<lambda>s. snap_xid_named t (ss_name s) \<noteq> Some (ss_xid s)) ss))"
  by (induction ss arbitrary: out) (simp_all add: resolve_snapshot_xid_stored [OF assms])

lemma snapshots_audit_stored:
  assumes "snap_stored rd volume block_size t"
  defines "ss \<equiv> sort_key ss_xid (snaps_of t)"
  shows "snapshots_audit rd volume block_size
    = Inr (map (\<lambda>s. SnapshotMissingMetadata (ss_name s))
            (filter (\<lambda>s. snap_xid_named t (ss_name s) \<noteq> Some (ss_xid s)) ss)
          @ disorder_windows (map (\<lambda>s. (ss_xid s, ss_create_time s)) ss))"
proof -
  have "sorted (map fst (map (\<lambda>s. (ss_xid s, ss_create_time s)) ss))" by (simp add: ss_def comp_def)
  then have "sort_key fst (map (\<lambda>s. (ss_xid s, ss_create_time s)) ss) = map (\<lambda>s. (ss_xid s, ss_create_time s)) ss"
    by (intro sort_key_unique [symmetric]) auto
  then show ?thesis
    by (simp add: snapshots_audit_def list_snapshots_stored [OF assms(1)] ss_def [symmetric]
        snapshot_names_stored [OF assms(1)] snapshot_xid_disorder_def)
qed

subsection \<open>What an audit reports\<close>

text \<open>
  C23. On a volume whose snapshot tree is stored, the snapshot audit succeeds and its report is
  exactly this: the name of every snapshot with a metadata record whose name does not resolve back
  to its own transaction, and every transaction whose creation time is set and earlier than that
  of its immediate predecessor in transaction order. This is narrower than the documentation of
  the two anomalies, and the statement says where. A name that no metadata record bears is never
  reported, although a name record without metadata is documented as the same anomaly. A
  transaction that predates an earlier one is not reported when its immediate predecessor does not
  come later (an unset time included), although any later transaction that predates an earlier one
  is documented as out of order.
\<close>

theorem snapshot_audit_exact:
  assumes "snap_stored rd volume block_size t" "ss = sort_key ss_xid (snaps_of t)"
  shows "\<exists>out. snapshots_audit rd volume block_size = Inr out
    \<and> set out = {SnapshotMissingMetadata (ss_name s) |s. s \<in> set ss \<and> snap_xid_named t (ss_name s) \<noteq> Some (ss_xid s)}
        \<union> {SnapshotXidDisorder (ss_xid (ss ! Suc i)) |i. Suc i < length ss \<and> ss_create_time (ss ! Suc i) \<noteq> 0
             \<and> ss_create_time (ss ! Suc i) < ss_create_time (ss ! i)}
    \<and> (\<forall>n. n \<notin> ss_name ` set ss \<longrightarrow> SnapshotMissingMetadata n \<notin> set out)
    \<and> (\<forall>i j. i < j \<and> Suc j < length ss \<and> ss_create_time (ss ! Suc j) < ss_create_time (ss ! i)
          \<and> ss_create_time (ss ! j) \<le> ss_create_time (ss ! Suc j) \<and> distinct (map ss_xid ss)
          \<longrightarrow> SnapshotXidDisorder (ss_xid (ss ! Suc j)) \<notin> set out)"
proof -
  let ?ms = "{SnapshotMissingMetadata (ss_name s) |s. s \<in> set ss \<and> snap_xid_named t (ss_name s) \<noteq> Some (ss_xid s)}"
  let ?ds = "{SnapshotXidDisorder (ss_xid (ss ! Suc i)) |i. Suc i < length ss \<and> ss_create_time (ss ! Suc i) \<noteq> 0
           \<and> ss_create_time (ss ! Suc i) < ss_create_time (ss ! i)}"
  have "set (disorder_windows (map (\<lambda>s. (ss_xid s, ss_create_time s)) ss)) = ?ds" (is "?l = _")
  proof (rule set_eqI)
    fix a
    have "Suc i < length ss \<Longrightarrow> ss_create_time (ss ! Suc i) < ss_create_time (ss ! i) \<Longrightarrow> ss_create_time (ss ! i) \<noteq> 0" for i
      by (metis word_not_simps(1))
    then show "a \<in> ?l \<longleftrightarrow> a \<in> ?ds" unfolding disorder_member by auto
  qed
  then obtain out where out: "snapshots_audit rd volume block_size = Inr out" "set out = ?ms \<union> ?ds"
    unfolding snapshots_audit_stored [OF assms(1)] assms(2) [symmetric] by auto
  have "SnapshotXidDisorder (ss_xid (ss ! Suc j)) \<notin> set out"
    if "Suc j < length ss" "ss_create_time (ss ! j) \<le> ss_create_time (ss ! Suc j)" "distinct (map ss_xid ss)" for j
    unfolding out(2) using that nth_eq_iff_index_eq [OF that(3)] by fastforce
  moreover have "SnapshotMissingMetadata n \<notin> set out" if "n \<notin> ss_name ` set ss" for n
    unfolding out(2) using that by blast
  ultimately show ?thesis using out by (intro exI [of _ out]) blast
qed

lemma audit_volumes_found:
  "audit_volumes rd block_size addrs out = Inr r \<Longrightarrow>
     set r = set out \<union> {a. \<exists>p\<in>set addrs. \<exists>b v found. read_block_sat rd p block_size = Inr b
       \<and> apfs_volume_parse b = Inr v \<and> snapshots_audit rd v block_size = Inr found \<and> a \<in> set found}"
proof (induction addrs arbitrary: out)
  case (Cons p addrs)
  show ?case
  proof (cases "read_block_sat rd p block_size")
    case (Inr b)
    show ?thesis
    proof (cases "apfs_volume_parse b")
      case (Inl e)
      then show ?thesis using Cons \<open>read_block_sat _ _ _ = _\<close> by simp
    next
      case (Inr v)
      then obtain found where f: "snapshots_audit rd v block_size = Inr found"
          "audit_volumes rd block_size addrs (out @ found) = Inr r"
        using Cons.prems \<open>read_block_sat _ _ _ = _\<close>
        by (auto simp: audit_volume_def res_simps clones_audit_def clone_anomalies_def split: sum.splits)
      then show ?thesis
        using Cons.IH [OF f(2)] Inr \<open>read_block_sat _ _ _ = _\<close> by auto
    qed
  qed (use Cons.prems in simp)
qed simp


definition unparsable_volume :: "reader \<Rightarrow> nat \<Rightarrow> u64 \<Rightarrow> bool" where
  "unparsable_volume rd block_size p \<longleftrightarrow>
     (case read_block_sat rd p block_size of
        Inl e \<Rightarrow> False
      | Inr b \<Rightarrow> (case apfs_volume_parse b of Inl e \<Rightarrow> True | Inr v \<Rightarrow> False))"

text \<open>
  C35. A volume superblock that can be read but does not parse (a wrong checksum included) is
  passed over without an error and without an anomaly. If that is so of every volume of the
  container, and there is no reaper or its audit succeeds, the whole audit succeeds; it reports
  the anomalies of the checkpoint map and of the reaper and none of any other kind. The
  documentation says that parse failures surface as errors and are never swallowed.
\<close>

theorem audit_skips_unparsable:
  assumes "container_open rd = Inr c" "volume_superblock_addrs rd c = Inr addrs"
    and "list_all (unparsable_volume rd block_size) addrs"
    and "case reaper_paddr c of
           None \<Rightarrow> found = []
         | Some rp \<Rightarrow> recovery_audit rd rp (ac_checkpoint_mappings c) block_size = Inr found"
  shows "audit_container rd block_size = Inr (integrity_audit c @ found)
    \<and> set (integrity_audit c @ found) \<subseteq> range (case_prod XidReuse) \<union> range ReaperPendingObject"
proof -
  have "audit_volumes rd block_size addrs out = Inr out" for out
    using assms(3) by (induction addrs) (auto simp: unparsable_volume_def split: sum.splits)
  then have "audit_container rd block_size = Inr (integrity_audit c @ found)"
    using assms by (simp add: audit_container_def split: option.splits)
  moreover have "set (integrity_audit c) \<subseteq> range (case_prod XidReuse)"
    by (auto simp: integrity_audit_def duplicate_oid_anomalies_def Let_def image_iff split: if_splits)
  moreover have "set found \<subseteq> range ReaperPendingObject"
    using assms(4) by (auto simp: recovery_audit_def reaper_anomalies_def map_sum_id_eq split: option.splits)
  ultimately show ?thesis by (simp add: le_supI1 le_supI2)
qed

end
