(* ===== verification/Panic_Free.thy ===== *)
theory Panic_Free
  imports Vfs Auditor
begin

text \<open>
  Where the reader and the auditor can panic. The collection \<open>no_panic\<close> has one fact per operation:
  its outcome is never \<open>Panic\<close>. Two operations of the model can panic at all, the scan of the
  checkpoint ring (an unchecked addition on an on-disk field) and the assembly of a stream (a
  division by the block size), and the facts about their callers carry the condition that rules
  it out.
\<close>

named_theorems no_panic \<open>operations whose outcome is never a panic\<close>

subsection \<open>Reads and parsers\<close>

lemma read_exact_at_no_panic [no_panic]: "read_exact_at rd off n \<noteq> Inl (Panic m)"
  by (auto simp: read_exact_at_def split: sum.splits)

lemma read_block_sat_no_panic [no_panic]: "read_block_sat rd p bs \<noteq> Inl (Panic m)"
  by (simp add: read_block_sat_def no_panic)

lemma read_obj_block_no_panic [no_panic]: "read_obj_block rd p bs \<noteq> Inl (Panic m)"
  by (auto simp: read_obj_block_def no_panic Let_def split: sum.splits)

lemma cp_read_block_no_panic [no_panic]: "cp_read_block rd p bs \<noteq> Inl (Panic m)"
  by (auto simp: cp_read_block_def split: option.splits sum.splits io_fault.splits io_error.splits)

lemma read_verified_node_no_panic [no_panic]: "read_verified_node rd p bs \<noteq> Inl (Panic m)"
  by (auto simp: read_verified_node_def no_panic Let_def split: option.splits sum.splits if_splits)

lemma parsers_no_panic [no_panic]:
  "nx_superblock_parse b \<noteq> Inl (Panic m)" "object_map_parse b \<noteq> Inl (Panic m)"
  "apfs_volume_parse b \<noteq> Inl (Panic m)" "inode_parse oid b \<noteq> Inl (Panic m)"
  "integrity_meta_parse b \<noteq> Inl (Panic m)" "read_keybag b \<noteq> Inl (Panic m)"
  by (auto simp: nx_superblock_parse_def object_map_parse_def unexpected_omap_type_def apfs_volume_parse_def apsb_bad_type_def
      inode_parse_def integrity_meta_parse_def read_keybag_def Let_def
      split: option.splits if_splits prod.splits)

lemma map_sum_no_panic [no_panic]: "map_sum id f r = Inl (Panic m) \<longleftrightarrow> r = Inl (Panic m)"
  by (cases r) auto

subsection \<open>Tree walks\<close>

lemma loads_no_panic [no_panic]:
  "load_physical rd bs st p \<noteq> Inl (Panic m)"
  by (auto simp: load_physical_def no_panic split: sum.splits option.splits)

lemma find_leaf_loop_no_panic [no_panic]:
  "find_leaf_loop n rd bs st cmp visit visited p s \<noteq> Inl (Panic m)"
proof (induction n arbitrary: visited p s)
  case (Suc n)
  then show ?case
    by (auto simp: find_leaf_loop_unfold no_panic simp del: find_leaf_loop.simps
        split: sum.splits node.splits list.splits)
qed simp

lemma resolve_no_panic [no_panic]: "resolve om rd oid xid bs \<noteq> Inl (Panic m)"
  by (auto simp: resolve_def find_leaf_def no_panic split: sum.splits option.splits)

lemma virtual_loads_no_panic [no_panic]:
  "read_virtual_node cr rd om vek xid bs oid \<noteq> Inl (Panic m)"
  "read_snap_node rd om xid bs at_root oid \<noteq> Inl (Panic m)"
  by (auto simp: read_virtual_node_def read_snap_node_def no_panic Let_def split: sum.splits if_splits)

lemma virtual_nodes_no_panic [no_panic]:
  "load_virtual cr rd om vek xid bs oid \<noteq> Inl (Panic m)" "load_snap rd om xid bs d oid \<noteq> Inl (Panic m)"
  by (auto simp: load_virtual_def load_snap_def no_panic split: sum.splits)

lemma descents_no_panic [no_panic]:
  "descend_virtual cr rd om vek xid bs target visit d visited oid s \<noteq> Inl (Panic m)"
  "descend_snap rd om xid bs visit True 0 visited oid s \<noteq> Inl (Panic m)"
  using virt.walk_error [of cr rd om vek xid bs target visit d visited oid s "Panic m"]
    snap.walk_error [of rd om xid bs visit 0 visited oid s "Panic m"]
  by (auto simp: no_panic)

lemma walks_no_panic [no_panic]:
  "for_each_fs_record_for_oid cr rd vol bs oid visit s \<noteq> Inl (Panic m)"
  "for_each_snap_record rd vol bs visit' s' \<noteq> Inl (Panic m)"
  by (auto simp: for_each_fs_record_for_oid_def walk_fs_tree_def for_each_snap_record_def no_panic
      split: sum.splits)

subsection \<open>Navigation and content\<close>

lemma navigation_no_panic [no_panic]:
  "list_dir cr rd vol oid bs \<noteq> Inl (Panic m)" "lookup_child cr rd vol oid name bs \<noteq> Inl (Panic m)"
  "load_inode cr rd vol oid bs \<noteq> Inl (Panic m)" "list_extents cr rd vol oid bs \<noteq> Inl (Panic m)"
  "list_xattrs cr rd vol oid bs \<noteq> Inl (Panic m)"
  by (auto simp: list_dir_def lookup_child_def load_inode_def list_extents_def list_xattrs_def no_panic
      split: sum.splits option.splits)

lemma read_extent_no_panic [no_panic]:
  "0 < bs \<Longrightarrow> read_extent cr rd vek bs sz e out \<noteq> Inl (Panic m)"
  by (auto simp: read_extent_def Let_def no_panic split: option.splits sum.splits if_splits)

lemma read_extents_no_panic [no_panic]:
  "0 < bs \<Longrightarrow> read_extents cr rd vek bs sz exts out \<noteq> Inl (Panic m)"
  by (induction exts arbitrary: out) (auto simp: no_panic split: sum.splits)

lemma read_stream_no_panic [no_panic]:
  "0 < bs \<Longrightarrow> read_stream cr rd vol oid sz bs \<noteq> Inl (Panic m)"
  by (auto simp: read_stream_def no_panic split: sum.splits)

lemma xattr_reads_no_panic [no_panic]:
  "get_xattr cr rd vol oid name bs \<noteq> Inl (Panic m)" "decmpfs_header cr rd vol oid bs \<noteq> Inl (Panic m)"
  by (auto simp: get_xattr_def decmpfs_header_def no_panic split: sum.splits option.splits xattr_value.splits)

lemma resource_fork_no_panic [no_panic]:
  "0 < bs \<Longrightarrow> resource_fork cr rd vol oid bs \<noteq> Inl (Panic m)"
  by (auto simp: resource_fork_def no_panic split: sum.splits option.splits xattr_value.splits)

subsection \<open>Decompression\<close>

lemma field_reads_no_panic [no_panic]:
  "read_at data off n \<noteq> Inl (Panic m)" "cmp_le_u32 data off \<noteq> Inl (Panic m)"
  "cmp_be_u32 data off \<noteq> Inl (Panic m)" "cmp_le_u64 data off \<noteq> Inl (Panic m)"
  by (auto simp: read_at_def cmp_le_u32_def cmp_be_u32_def cmp_le_u64_def no_panic split: option.splits)

lemma codecs_no_panic [no_panic]:
  "inflate lib data \<noteq> Inl (Panic m)" "lzvn_decode lib data n \<noteq> Inl (Panic m)"
  "lzfse_decode lib data \<noteq> Inl (Panic m)" "unreachable_algorithm \<noteq> Inl (Panic m)"
  by (auto simp: inflate_def lzvn_decode_def lzfse_decode_def unreachable_algorithm_def split: option.splits)

lemma decode_inline_no_panic [no_panic]: "decode_inline lib a payload n t \<noteq> Inl (Panic m)"
  by (auto simp: decode_inline_def no_panic split: algorithm.splits)

lemma zlib_block_no_panic [no_panic]: "zlib_block lib fork table i \<noteq> Inl (Panic m)"
  by (auto simp: zlib_block_def no_panic split: option.splits sum.splits)

lemma zlib_fork_loop_no_panic [no_panic]: "zlib_fork_loop lib fork table i n out \<noteq> Inl (Panic m)"
  by (induction n arbitrary: i out) (auto simp: no_panic split: sum.splits)

lemma chunk_decode_no_panic [no_panic]: "chunk_decode lib a chunk n \<noteq> Inl (Panic m)"
  by (auto simp: chunk_decode_def no_panic split: algorithm.splits)

lemma chunked_fork_loop_no_panic [no_panic]: "chunked_fork_loop lib a fork u i n src out \<noteq> Inl (Panic m)"
  by (induction n arbitrary: i src out) (auto simp: no_panic Let_def split: sum.splits option.splits)

lemma decode_resource_fork_no_panic [no_panic]: "decode_resource_fork lib a fork u \<noteq> Inl (Panic m)"
  by (auto simp: decode_resource_fork_def decode_zlib_resource_fork_def decode_chunked_resource_fork_def
      Let_def no_panic split: algorithm.splits sum.splits option.splits)

lemma decode_payload_no_panic [no_panic]: "decode_payload lib a st header rfork u t \<noteq> Inl (Panic m)"
  by (auto simp: decode_payload_def no_panic split: storage.splits option.splits)

lemma decompress_decmpfs_no_panic [no_panic]: "decompress_decmpfs lib header rfork \<noteq> Inl (Panic m)"
  by (auto simp: decompress_decmpfs_def no_panic split: sum.splits option.splits)

lemma read_data_no_panic [no_panic]:
  "0 < bs \<Longrightarrow> read_data lib cr rd vol ino bs \<noteq> Inl (Panic m)"
  by (auto simp: read_data_def read_compressed_def Let_def no_panic split: sum.splits option.splits)

subsection \<open>Space manager, reaper, snapshots\<close>

lemma chunk_loop_no_panic [no_panic]: "chunk_loop rd bs g cib c w n runs \<noteq> Inl (Panic m)"
  by (induction n arbitrary: w runs) (auto simp: no_panic Let_def split: sum.splits)

lemma cib_loop_no_panic [no_panic]: "cib_loop rd bs g sm c n runs \<noteq> Inl (Panic m)"
  by (induction n arbitrary: c runs) (auto simp: no_panic split: sum.splits)

lemma free_block_runs_no_panic [no_panic]: "free_block_runs rd p bs \<noteq> Inl (Panic m)"
  by (auto simp: free_block_runs_def Let_def sm_range_def no_panic split: sum.splits)

lemma reap_loop_no_panic [no_panic]: "reap_loop rd ms bs seen oid out \<noteq> Inl (Panic m)"
proof (induction rd ms bs seen oid out rule: reap_loop.induct)
  case (1 rd ms bs seen oid out)
  then show ?case by (subst reap_loop.simps) (auto simp: no_panic split: option.splits sum.splits)
qed

lemma pending_objects_no_panic [no_panic]: "pending_objects rd p ms bs \<noteq> Inl (Panic m)"
  by (auto simp: pending_objects_def no_panic split: sum.splits)

lemma snapshots_no_panic [no_panic]:
  "list_snapshots rd vol bs \<noteq> Inl (Panic m)" "resolve_snapshot_xid rd vol name bs \<noteq> Inl (Panic m)"
  "mount_snapshot rd vol snap bs \<noteq> Inl (Panic m)"
  by (auto simp: list_snapshots_def resolve_snapshot_xid_def mount_snapshot_def no_panic split: sum.splits)

lemma resolve_volumes_no_panic [no_panic]: "resolve_volumes om rd xid bs oids \<noteq> Inl (Panic m)"
  by (induction oids) (auto simp: no_panic split: sum.splits)

lemma volume_superblock_addrs_no_panic [no_panic]: "volume_superblock_addrs rd c \<noteq> Inl (Panic m)"
  by (auto simp: volume_superblock_addrs_def Let_def no_panic split: sum.splits)

subsection \<open>The auditor after the container is open\<close>

lemma snapshot_names_no_panic [no_panic]: "snapshot_names rd vol bs snaps out \<noteq> Inl (Panic m)"
  by (induction snaps arbitrary: out) (auto simp: no_panic split: sum.splits)

lemma audit_volume_no_panic [no_panic]: "audit_volume rd vol bs \<noteq> Inl (Panic m)"
  by (auto simp: audit_volume_def snapshots_audit_def no_panic split: sum.splits)

lemma audit_volumes_no_panic [no_panic]: "audit_volumes rd bs addrs out \<noteq> Inl (Panic m)"
  by (induction addrs arbitrary: out) (auto simp: no_panic split: sum.splits)

lemma audit_container_panic:
  "audit_container rd bs = Inl (Panic m) \<longleftrightarrow> container_open rd = Inl (Panic m)"
  by (auto simp: audit_container_def recovery_audit_def no_panic split: sum.splits option.splits)

subsection \<open>The ring scan\<close>

lemma cp_read_block_cursor: "\<exists>r. cp_read_block (cursor img) p bs = Inr r"
  by (auto simp: cp_read_block_def cursor_def split: option.splits)

text \<open>Over an image in memory nothing but the overflow stops the scan.\<close>

lemma ring_loop_panic:
  assumes "i + n \<le> 2 ^ 64"
  shows "ring_loop (cursor img) bs base step i n s = Inl e \<longleftrightarrow>
    e = Panic ''attempt to add with overflow'' \<and> 0 < n \<and> 2 ^ 64 < unat base + i + n"
  using assms
proof (induction n arbitrary: i s)
  case (Suc n)
  have i: "unat (of_nat i :: u64) = i" using Suc.prems by (intro unat_of_nat_u64) simp
  obtain r where r: "cp_read_block (cursor img) (base + of_nat i) bs = Inr r"
    using cp_read_block_cursor by blast
  show ?case
  proof (cases "unat base + i < 2 ^ 64")
    case True
    then have "add_u64 base (of_nat i) = Some (base + of_nat i)" by (simp add: add_u64_def i)
    then show ?thesis
      using Suc.IH [of "Suc i"] Suc.prems True r by (cases r) auto
  qed (auto simp: add_u64_def i)
qed simp

text \<open>The addresses of the ring do not fit in 64 bits.\<close>

definition ring_overflows :: "nx_superblock \<Rightarrow> bool" where
  "ring_overflows sb \<longleftrightarrow> 2 ^ 64 < unat (nx_xp_desc_base sb) + unat (nx_xp_desc_blocks sb)"

lemma ring_loop_overflows:
  "ring_loop (cursor img) bs (nx_xp_desc_base sb) step 0 (unat (nx_xp_desc_blocks sb)) s = Inl e \<longleftrightarrow>
     e = Panic ''attempt to add with overflow'' \<and> ring_overflows sb"
proof -
  have n: "unat (nx_xp_desc_blocks sb) < 2 ^ 64"
    using unsigned_less [of "nx_xp_desc_blocks sb", where 'a = nat] by simp
  have "0 < unat (nx_xp_desc_blocks sb)" if "ring_overflows sb"
    using that unsigned_less [of "nx_xp_desc_base sb", where 'a = nat] by (simp add: ring_overflows_def)
  then show ?thesis
    using n by (subst ring_loop_panic) (auto simp: ring_overflows_def)
qed

lemmas ring_loop_stops = ring_loop_overflows [THEN iffD2, OF conjI, OF refl]

lemma resolve_live_checkpoint_panic:
  "resolve_live_checkpoint (cursor img) sb = Inl (Panic m) \<longleftrightarrow>
     m = ''attempt to add with overflow''
     \<and> \<not> xp_desc_is_tree sb \<and> block_size_in_range (nx_block_size sb) \<and> ring_overflows sb"
proof (cases "ring_overflows sb")
  case True
  then show ?thesis by (auto simp: resolve_live_checkpoint_def Let_def ring_loop_stops)
next
  case False
  then show ?thesis
    by (auto simp: resolve_live_checkpoint_def Let_def ring_loop_overflows
        split: sum.splits prod.splits option.splits)
qed

text \<open>The bootstrap superblock of an image, when it has one that the scan starts from.\<close>

definition scans_ring :: "bytes \<Rightarrow> nx_superblock \<Rightarrow> bool" where
  "scans_ring img sb \<longleftrightarrow> 4096 \<le> length img \<and> nx_superblock_parse (take 4096 img) = Inr sb
     \<and> \<not> is_fusion sb \<and> \<not> xp_desc_is_tree sb \<and> block_size_in_range (nx_block_size sb)"

lemma container_open_panic:
  "container_open (cursor img) = Inl (Panic m) \<longleftrightarrow>
     m = ''attempt to add with overflow'' \<and> (\<exists>sb. scans_ring img sb \<and> ring_overflows sb)"
proof -
  have rd: "cursor img 0 (unat NX_MINIMUM_BLOCK_SIZE)
      = (if 4096 \<le> length img then Inr (take 4096 img) else Inl (ReadFault UnexpectedEof))"
    by (simp add: cursor_def NX_MINIMUM_BLOCK_SIZE_def)
  show ?thesis
  proof (cases "nx_superblock_parse (take 4096 img)")
    case (Inr sb)
    then show ?thesis
      using resolve_live_checkpoint_panic [of img sb m]
      by (cases "resolve_live_checkpoint (cursor img) sb = Inl (Panic m)")
        (auto simp: container_open_def rd scans_ring_def no_panic split: sum.splits)
  qed (auto simp: container_open_def rd scans_ring_def no_panic)
qed

subsection \<open>Mounted handles\<close>

lemma open_first_volume_block_size:
  "open_first_volume rd = Inr (volume, bs, sm) \<Longrightarrow> 0 < bs"
  by (auto simp: open_first_volume_def volume_superblock_addrs_def Let_def block_size_in_range_def
      NX_MINIMUM_BLOCK_SIZE_def word_le_nat_alt split: sum.splits list.splits if_splits)

lemma opened_handle:
  assumes "fs_open rd = Inr fs \<or> open_snapshot rd xid = Inr fs"
  shows "0 < fs_block_size fs" "\<not> fs_poisoned fs"
  using assms
  by (auto simp: fs_open_def open_snapshot_def Let_def map_sum_id_eq
      dest: open_first_volume_block_size split: sum.splits prod.splits if_splits option.splits)

lemma with_reader_no_panic:
  "(\<And>m. act \<noteq> Inl (Panic m)) \<Longrightarrow> \<not> is_panic (fst (with_reader h fs act))"
  by (auto simp: with_reader_def is_panic_def map_err_def poisoned_def split: sum.split apfs_error.split)

lemma early_no_panic:
  "oid_of i = Inl e \<Longrightarrow> \<not> is_panic (Inl e)" "require_default_stream st = Inl e \<Longrightarrow> \<not> is_panic (Inl e)"
  "\<not> is_panic (Inr v)" "\<not> is_panic (Inl (VfsBootstrap a b))"
  by (auto simp: oid_of_def require_default_stream_def is_panic_def split: file_id.splits stream_id.splits)

lemma calls_no_panic:
  assumes "0 < fs_block_size fs"
  shows "\<not> panicked (fst (exec h fs c))"
  using assms
  by (cases c)
    (auto simp: read_dir_def extents_def lookup_def meta_def data_streams_def vfs_read_at_def read_xattr_at_def
      read_link_def deleted_def unallocated_def early_no_panic no_panic
      split: sum.split stream_id.split option.split xattr_value.split intro!: with_reader_no_panic)

text \<open>
  C14. A mounted handle never panics and its lock is never poisoned: whatever the image holds, once
  a volume or a snapshot is mounted, any sequence of calls gets the replies the calls would get
  one by one on the fresh handle, and leaves the handle as it was.
\<close>

theorem opened_handle_never_poisoned:
  assumes "fs_open rd = Inr fs \<or> open_snapshot rd xid = Inr fs"
  shows "serve h fs cs = (map (\<lambda>c. fst (exec h fs c)) cs, fs)
    \<and> \<not> fs_poisoned fs \<and> list_all (\<lambda>r. \<not> panicked r) (fst (serve h fs cs))"
proof -
  note fs = opened_handle [OF assms]
  have "serve h (poison_if False fs) cs = (map (\<lambda>c. fst (exec h fs c)) cs, fs)"
    unfolding serve_poison_if using calls_no_panic [OF fs(1)]
    by (auto simp: list_ex_iff poison_if_def intro!: nth_equalityI)
  then have s: "serve h fs cs = (map (\<lambda>c. fst (exec h fs c)) cs, fs)" by (simp add: poison_if_def)
  show ?thesis unfolding s using fs calls_no_panic [OF fs(1)] by (simp add: list_all_iff)
qed

end
