(* ===== verification/Fuzz_Targets.thy ===== *)
theory Fuzz_Targets
  imports Panic_Free
begin

text \<open>
  The harnesses of \<^verbatim>\<open>fuzz/fuzz_targets\<close>. Each states one invariant, \<^emph>\<open>must not panic\<close>, for arbitrary
  input. A target drops what it computes, so its outcome is that it returns or that it panics; a
  target over parsers that are total here is the tuple of what it computes.
\<close>

subsection \<open>Parser targets\<close>

definition fuzz_object :: "bytes \<Rightarrow> obj_phys option \<times> u64" where
  "fuzz_object data = (obj_phys_parse data, fletcher64_checksum data)"

definition fuzz_nx_superblock :: "bytes \<Rightarrow> nx_superblock res" where
  "fuzz_nx_superblock data = nx_superblock_parse data"

definition fuzz_btree_node :: "bytes \<Rightarrow> btree_node_header option \<times> entry list" where
  "fuzz_btree_node data =
     (let subtype = (case get_at data 0 of
                       None \<Rightarrow> FsTree
                     | Some b \<Rightarrow> if b AND 1 = 0 then Omap else FsTree)
      in (parse_node_header data, node_entries data subtype))"

text \<open>\<^verbatim>\<open>data[i]\<close>: an index past the end panics.\<close>

definition index_at :: "bytes \<Rightarrow> nat \<Rightarrow> u8 res" where
  "index_at data i =
     (case get_at data i of None \<Rightarrow> Inl (Panic ''index out of bounds'') | Some b \<Rightarrow> Inr b)"

primrec index_each :: "bytes \<Rightarrow> nat list \<Rightarrow> bytes res" where
  "index_each data [] = Inr []"
| "index_each data (i # is) =
     (case index_at data i of
        Inl e \<Rightarrow> Inl e
      | Inr b \<Rightarrow> map_sum id ((#) b) (index_each data is))"

definition fuzz_fsrecord :: "bytes \<Rightarrow> ((u64 \<times> record_type option) option \<times> (u8 \<times> bytes) list) res" where
  "fuzz_fsrecord data =
     (if 8 \<le> length data
      then map_sum id (\<lambda>bs. (Some (decode_jkey (le_word bs)), parse_xfields data))
             (index_each data [0, 1, 2, 3, 4, 5, 6, 7])
      else Inr (None, parse_xfields data))"

lemma fuzz_fsrecord_no_panic: "fuzz_fsrecord data \<noteq> Inl e"
  by (auto simp: fuzz_fsrecord_def index_at_def get_at_def map_sum_id_eq split: if_splits)

subsection \<open>The pipeline\<close>

definition fuzz_forensic :: "bytes \<Rightarrow> unit res" where
  "fuzz_forensic data =
     (case audit_container (cursor data) 4096 of Inl (Panic m) \<Rightarrow> Inl (Panic m) | _ \<Rightarrow> Inr ())"

text \<open>
  C13. The invariant of the pipeline target holds of exactly the inputs whose checkpoint ring can
  be addressed: opening, navigating and auditing arbitrary bytes panics precisely when the first
  block parses as a superblock that reaches the ring scan and whose descriptor area runs past the
  end of the 64-bit address space. Everything else returns.
\<close>

theorem fuzz_forensic_exact:
  "fuzz_forensic data =
     (if \<exists>sb. scans_ring data sb \<and> ring_overflows sb
      then Inl (Panic ''attempt to add with overflow'') else Inr ())"
proof (cases "\<exists>sb. scans_ring data sb \<and> ring_overflows sb")
  case True
  then have "audit_container (cursor data) 4096 = Inl (Panic ''attempt to add with overflow'')"
    unfolding audit_container_panic container_open_panic by (intro conjI refl)
  then show ?thesis unfolding if_P [OF True] by (simp add: fuzz_forensic_def)
next
  case False
  then have "audit_container (cursor data) 4096 \<noteq> Inl (Panic m)" for m
    unfolding audit_container_panic container_open_panic by blast
  then show ?thesis
    unfolding if_not_P [OF False] fuzz_forensic_def by (simp split: sum.split apfs_error.split)
qed

end
