(* ===== verification/Sample_Volume.thy ===== *)
theory Sample_Volume
  imports Compression
begin

text \<open>
  A complete small volume as an image of eight 1024-byte blocks: an object map, its tree, a
  file-system tree of a root and two leaves (one object's records straddle the leaves), and a
  file with two data blocks and a hole. It instantiates the hypotheses of the theorems on
  stored volumes.
\<close>

subsection \<open>Blocks of an image\<close>

lemma cursor_blocks:
  assumes "\<forall>b\<in>set blocks. length b = n" "i < length blocks" "length blocks * n < 2 ^ 64" "n < 2 ^ 64"
  shows "cursor (concat blocks) (of_nat i * of_nat n) n = Inr (blocks ! i)"
    and "unat (of_nat i :: u64) * unat (of_nat n :: u64) < 2 ^ 64"
    and "read_block_sat (cursor (concat blocks)) (of_nat i) n = Inr (blocks ! i)"
proof -
  have len: "length (concat (take i blocks)) = i * n"
    using assms(1,2) length_concat_chunks [of "take i blocks" "\<lambda>x. x" n] by (auto dest: in_set_takeD)
  have split: "concat blocks = concat (take i blocks) @ blocks ! i @ concat (drop (Suc i) blocks)"
    by (rule concat_split_nth [OF assms(2)])
  have bi: "length (blocks ! i) = n" using assms(1,2) by simp
  have lt: "i * n < 2 ^ 64" using assms(2,3) mult_le_mono1 [of i "length blocks" n] by linarith
  show m: "unat (of_nat i :: u64) * unat (of_nat n :: u64) < 2 ^ 64"
  proof (cases "n = 0")
    case False
    then have "i < 2 ^ 64" using lt by (metis le_square less_one linorder_not_less mult.commute mult_le_mono2 mult_1 order_le_less_trans)
    then show ?thesis using lt assms(4) by (simp add: unat_of_nat_u64)
  qed simp
  have u: "unat (of_nat i * of_nat n :: u64) = i * n"
    using lt unat_of_nat_u64 [of "i * n"] by simp
  show c: "cursor (concat blocks) (of_nat i * of_nat n) n = Inr (blocks ! i)"
    unfolding cursor_def u split using len bi by simp
  show "read_block_sat (cursor (concat blocks)) (of_nat i) n = Inr (blocks ! i)"
    using m c by (simp add: read_block_sat_def saturating_mul_u64_def read_exact_at_def)
qed

lemma resolve_leaf:
  assumes "load_physical rd n Omap (om_tree_oid om) = Inr (LeafNode es)"
  shows "resolve om rd oid xid n =
    (case omap_scan oid xid es None of None \<Rightarrow> Inl (OmapUnresolved oid xid) | Some r \<Rightarrow> Inr r)"
  using find_leaf_shown [where t = "Leaf (om_tree_oid om) es" and rd = rd and block_size = n and subtype = Omap
      and cmp = "omap_cmp oid xid" and visit = "omap_visit oid xid" and s = None] assms
  by (simp add: resolve_def MAX_BTREE_DEPTH_def split: option.split)

lemma load_virtual_enc:
  assumes "resolve om rd oid xid n = Inr r" "oe_flags r = 0" "oe_paddr r = p"
    and "read_block_sat rd p n = Inr (enc_node hdr flags level es free footer)"
    and "enc_ok FsTree hdr flags level es footer"
  shows "load_virtual cr rd om vek xid n oid =
    (if flags AND BTNODE_LEAF \<noteq> 0 \<or> level = 0 then Inr (LeafNode es)
     else Inr (IndexNode (map (\<lambda>(k, v). (k, le_u64 v 0)) es)))"
proof -
  have "read_virtual_node cr rd om vek xid n oid = Inr (enc_node hdr flags level es free footer)"
    using assms(1-4) by (simp add: read_virtual_node_def enc_node_def)
  moreover have "length hdr = 24" using assms(5) by (simp add: enc_ok_def)
  ultimately show ?thesis
    by (simp add: load_virtual_def node_of_block_def is_leaf_def parse_enc_node node_entries_enc_node [OF assms(5)])
qed

subsection \<open>The records\<close>

definition demo_root_inode :: inode where
  "demo_root_inode = \<lparr> ino_oid = 2, ino_parent_id = 1, ino_private_id = 2, ino_create_time = 1000, ino_mod_time = 2000,
     ino_change_time = 3000, ino_access_time = 4000, ino_internal_flags = 0x8000, ino_nlink_or_nchildren = 1,
     ino_bsd_flags = 0, ino_uid = 99, ino_gid = 99, ino_mode = 0x41ed, ino_name = None, ino_size = None \<rparr>"

definition demo_file_inode :: inode where
  "demo_file_inode = \<lparr> ino_oid = 16, ino_parent_id = 2, ino_private_id = 16, ino_create_time = 1001, ino_mod_time = 2001,
     ino_change_time = 3001, ino_access_time = 4001, ino_internal_flags = 0x8000, ino_nlink_or_nchildren = 1,
     ino_bsd_flags = 0, ino_uid = 501, ino_gid = 20, ino_mode = 0x81a4, ino_name = Some [0x61], ino_size = Some 2100 \<rparr>"

definition enc_extent :: "u64 \<Rightarrow> file_extent \<Rightarrow> entry" where
  "enc_extent oid e =
     (to_le 8 (enc_jkey oid FileExtent) @ to_le 8 (fe_logical_offset e),
      to_le 8 (fe_len e) @ to_le 8 (fe_phys_block_num e) @ to_le 8 (fe_crypto_id e))"

definition demo_extents :: "file_extent list" where
  "demo_extents =
     [\<lparr> fe_logical_offset = 0, fe_len = 1024, fe_phys_block_num = 6, fe_crypto_id = 0 \<rparr>,
      \<lparr> fe_logical_offset = 1024, fe_len = 1024, fe_phys_block_num = 0, fe_crypto_id = 0 \<rparr>,
      \<lparr> fe_logical_offset = 2048, fe_len = 1024, fe_phys_block_num = 7, fe_crypto_id = 0 \<rparr>]"

definition demo_fs_leaf1 :: "entry list" where
  "demo_fs_leaf1 =
     [(to_le 8 (enc_jkey 2 Inode), enc_inode_fixed demo_root_inode (replicate 8 0) (replicate 10 0)),
      (enc_drec_hashed_key 2 0x1234 [0x61], enc_drec_val 16 5000 8),
      (to_le 8 (enc_jkey 16 Inode), enc_inode demo_file_inode (replicate 8 0) (replicate 10 0) (replicate 32 0))]"

definition demo_fs_leaf2 :: "entry list" where
  "demo_fs_leaf2 = (enc_xattr_key 16 [0x78], enc_xattr_val 2 [9]) # map (enc_extent 16) demo_extents"

definition demo_fs_index :: "entry list" where
  "demo_fs_index =
     [(to_le 8 (enc_jkey 2 Inode), to_le 8 (0x405 :: u64)), (enc_xattr_key 16 [0x78], to_le 8 (0x406 :: u64))]"

definition demo_fs_omap :: "entry list" where
  "demo_fs_omap = [(enc_omap_key 0x404 1, enc_omap_val 0 1024 3), (enc_omap_key 0x405 1, enc_omap_val 0 1024 4),
     (enc_omap_key 0x406 1, enc_omap_val 0 1024 5)]"

definition demo_omap_phys :: "u64 \<Rightarrow> bytes" where
  "demo_omap_phys tree =
     seal_block (to_le 8 (1 :: u64) @ to_le 8 (1 :: u64) @ to_le 4 (0x4000000b :: u32) @ replicate 20 0
       @ to_le 8 tree @ replicate 968 0)"

definition demo_blocks :: "bytes list" where
  "demo_blocks =
     [replicate 1024 0, demo_omap_phys 2,
      enc_node (replicate 24 0) 7 0 demo_fs_omap (replicate 820 0) (replicate 40 0),
      enc_node (replicate 24 0) 1 1 demo_fs_index (replicate 876 0) (replicate 40 0),
      enc_node (replicate 24 0) 2 0 demo_fs_leaf1 (replicate 652 0) [],
      enc_node (replicate 24 0) 2 0 demo_fs_leaf2 (replicate 799 0) [],
      replicate 1024 0x41, replicate 1024 0x42]"

definition demo_fs_image :: bytes where
  "demo_fs_image = concat demo_blocks"

definition demo_fs_tree :: tree where
  "demo_fs_tree = Index 0x404
     [(to_le 8 (enc_jkey 2 Inode), Leaf 0x405 demo_fs_leaf1), (enc_xattr_key 16 [0x78], Leaf 0x406 demo_fs_leaf2)]"

definition fs_key_of :: "bytes \<Rightarrow> u64 \<times> u64" where
  "fs_key_of k = (key_oid k, le_u64 k 0)"

definition no_crypto :: crypto where
  "no_crypto = \<lparr> xts_area = (\<lambda>k1 k2 ss n d. d), kw_unwrap = (\<lambda>k w. None), pbkdf2 = (\<lambda>p s n l. None) \<rparr>"

lemmas demo_fs_defs = demo_fs_leaf1_def demo_fs_leaf2_def demo_fs_index_def demo_fs_omap_def demo_extents_def

lemma demo_lengths:
  "length (enc_inode_fixed i (replicate 8 0) (replicate 10 0)) = 92"
  "length (enc_inode demo_file_inode (replicate 8 0) (replicate 10 0) (replicate 32 0)) = 152"
  "length (enc_drec_hashed_key o' h n) = 13 + length n" "length (enc_drec_val a b c) = 18"
  "length (enc_xattr_key o' n) = 11 + length n" "length (enc_xattr_val w d) = 4 + length d"
  "length (fst (enc_extent o' e)) = 16" "length (snd (enc_extent o' e)) = 24"
  by (simp_all add: length_enc_inode_fixed enc_inode_def enc_xfields_def enc_drec_hashed_key_def enc_drec_val_def
      enc_xattr_key_def enc_xattr_val_def enc_extent_def demo_file_inode_def enc_xdesc_def)

lemma demo_nodes_ok:
  "enc_ok Omap (replicate 24 0) 7 0 demo_fs_omap (replicate 40 0)"
  "enc_ok FsTree (replicate 24 0) 1 1 demo_fs_index (replicate 40 0)"
  "enc_ok FsTree (replicate 24 0) 2 0 demo_fs_leaf1 []"
  "enc_ok FsTree (replicate 24 0) 2 0 demo_fs_leaf2 []"
  by (simp_all add: enc_ok_def demo_fs_defs layout_defs demo_lengths)

lemma demo_fs_block_lengths: "\<forall>b\<in>set demo_blocks. length b = 1024"
  by (simp add: demo_blocks_def length_enc_node demo_fs_defs enc_toc_len_def layout_defs demo_lengths
      demo_omap_phys_def length_seal_block)

subsection \<open>The image holds the tree\<close>

abbreviation "demo_rd \<equiv> cursor demo_fs_image"
abbreviation "demo_vol \<equiv> demo_volume 7 1"

definition demo_om_at :: "u64 \<Rightarrow> object_map" where
  "demo_om_at tree = \<lparr> om_flags = 0, om_tree_type = 0, om_tree_oid = tree, om_snapshot_tree_oid = 0 \<rparr>"

abbreviation "demo_om \<equiv> demo_om_at 2"

lemma demo_fs_reads:
  assumes "i < 8"
  shows "cursor demo_fs_image (of_nat i * 1024) 1024 = Inr (demo_blocks ! i)"
    and "read_block_sat demo_rd (of_nat i) 1024 = Inr (demo_blocks ! i)"
  using cursor_blocks [OF demo_fs_block_lengths, of i] assms
  by (simp_all add: demo_fs_image_def demo_blocks_def)

lemma demo_omap_parse: "object_map_parse (demo_omap_phys tree) = Inr (demo_om_at tree)"
  by (simp add: object_map_parse_def demo_omap_phys_def reads_seal_block demo_om_at_def layout_defs obj_phys_parse_def
      obj_type_def le_u32_def le_u64_def arr_seal_block arr_fields arr_in_range [of _ _ "replicate _ _"])

lemma demo_omap_load: "load_physical demo_rd 1024 Omap 2 = Inr (LeafNode demo_fs_omap)"
  using load_enc_node [OF demo_nodes_ok(1), of demo_rd 2 1024 "replicate 820 0"] demo_fs_reads(1) [of 2]
  by (simp add: demo_blocks_def)

lemma demo_resolve:
  "resolve demo_om demo_rd 0x404 7 1024 = Inr \<lparr> oe_oid = 0x404, oe_xid = 1, oe_paddr = 3, oe_size = 1024, oe_flags = 0 \<rparr>"
  "resolve demo_om demo_rd 0x405 7 1024 = Inr \<lparr> oe_oid = 0x405, oe_xid = 1, oe_paddr = 4, oe_size = 1024, oe_flags = 0 \<rparr>"
  "resolve demo_om demo_rd 0x406 7 1024 = Inr \<lparr> oe_oid = 0x406, oe_xid = 1, oe_paddr = 5, oe_size = 1024, oe_flags = 0 \<rparr>"
proof -
  have "load_physical demo_rd 1024 Omap (om_tree_oid demo_om) = Inr (LeafNode demo_fs_omap)"
    by (simp add: demo_om_at_def demo_omap_load)
  note r = resolve_leaf [OF this, of _ 7]
  show "resolve demo_om demo_rd 0x404 7 1024 = Inr \<lparr> oe_oid = 0x404, oe_xid = 1, oe_paddr = 3, oe_size = 1024, oe_flags = 0 \<rparr>"
    "resolve demo_om demo_rd 0x405 7 1024 = Inr \<lparr> oe_oid = 0x405, oe_xid = 1, oe_paddr = 4, oe_size = 1024, oe_flags = 0 \<rparr>"
    "resolve demo_om demo_rd 0x406 7 1024 = Inr \<lparr> oe_oid = 0x406, oe_xid = 1, oe_paddr = 5, oe_size = 1024, oe_flags = 0 \<rparr>"
    by (simp_all add: r demo_fs_omap_def omap_visit_matches omap_matches_def omap_decode_enc)
qed

lemma demo_load:
  "load_virtual cr demo_rd demo_om vek 7 1024 0x404
     = Inr (IndexNode [(to_le 8 (enc_jkey 2 Inode), 0x405), (enc_xattr_key 16 [0x78], 0x406)])"
  "load_virtual cr demo_rd demo_om vek 7 1024 0x405 = Inr (LeafNode demo_fs_leaf1)"
  "load_virtual cr demo_rd demo_om vek 7 1024 0x406 = Inr (LeafNode demo_fs_leaf2)"
  using load_virtual_enc [OF demo_resolve(1) _ refl _ demo_nodes_ok(2)] demo_fs_reads(2) [of 3]
    load_virtual_enc [OF demo_resolve(2) _ refl _ demo_nodes_ok(3)] demo_fs_reads(2) [of 4]
    load_virtual_enc [OF demo_resolve(3) _ refl _ demo_nodes_ok(4)] demo_fs_reads(2) [of 5]
  by (simp_all add: demo_blocks_def BTNODE_LEAF_def demo_fs_index_def le_u64_def arr_full)

lemma demo_stored: "fs_stored cr demo_rd demo_vol 1024 demo_fs_tree"
  using demo_fs_reads(2) [of 1]
  by (simp add: fs_stored_def demo_blocks_def demo_omap_parse demo_fs_tree_def demo_load demo_volume_def)

lemma demo_keys:
  "decode_jkey (le_u64 (to_le 8 (enc_jkey 2 Inode)) 0) = (2, Some Inode)"
  "decode_jkey (le_u64 (to_le 8 (enc_jkey 16 Inode)) 0) = (16, Some Inode)"
  "decode_jkey (le_u64 (enc_drec_hashed_key 2 h n) 0) = (2, Some DirRec)"
  "decode_jkey (le_u64 (enc_xattr_key 16 n) 0) = (16, Some Xattr)"
  "decode_jkey (le_u64 (fst (enc_extent 16 e)) 0) = (16, Some FileExtent)"
  by (simp_all add: le_u64_def arr_fields enc_drec_hashed_key_def enc_xattr_key_def enc_extent_def decode_jkey_enc)

lemma demo_raw_keys:
  "le_u64 (to_le 8 (enc_jkey 2 Inode)) 0 = 0x3000000000000002"
  "le_u64 (to_le 8 (enc_jkey 16 Inode)) 0 = 0x3000000000000010"
  "le_u64 (enc_drec_hashed_key 2 h n) 0 = 0x9000000000000002"
  "le_u64 (enc_xattr_key 16 n) 0 = 0x4000000000000010"
  "le_u64 (fst (enc_extent 16 e)) 0 = 0x8000000000000010"
  by (simp_all add: le_u64_def arr_fields enc_drec_hashed_key_def enc_xattr_key_def enc_extent_def enc_jkey_def
      record_code_def OBJ_TYPE_SHIFT_def push_bit_eq_mult)

lemma fs_key_of_eq: "decode_jkey (le_u64 k 0) = (o', ty) \<Longrightarrow> le_u64 k 0 = w \<Longrightarrow> fs_key_of k = (o', w)"
  by (simp add: fs_key_of_def)

lemma demo_fs_keys:
  "fs_key_of (to_le 8 (enc_jkey 2 Inode)) = (2, 0x3000000000000002)"
  "fs_key_of (to_le 8 (enc_jkey 16 Inode)) = (16, 0x3000000000000010)"
  "fs_key_of (enc_drec_hashed_key 2 h n) = (2, 0x9000000000000002)"
  "fs_key_of (enc_xattr_key 16 n) = (16, 0x4000000000000010)"
  "fs_key_of (fst (enc_extent 16 e)) = (16, 0x8000000000000010)"
  by (rule fs_key_of_eq [OF demo_keys(1) demo_raw_keys(1)] fs_key_of_eq [OF demo_keys(2) demo_raw_keys(2)]
      fs_key_of_eq [OF demo_keys(3) demo_raw_keys(3)] fs_key_of_eq [OF demo_keys(4) demo_raw_keys(4)]
      fs_key_of_eq [OF demo_keys(5) demo_raw_keys(5)])+

lemma demo_ordered: "ordered fs_key_of demo_fs_tree"
  by (simp add: demo_fs_tree_def demo_fs_leaf1_def demo_fs_leaf2_def demo_extents_def demo_fs_keys
      less_prod_def' less_eq_prod_def)

lemma demo_oid_major: "oid_major fs_key_of"
  by (auto simp: oid_major_def fs_key_of_def less_eq_prod_def)

lemmas demo_facts = demo_stored demo_ordered demo_oid_major

subsection \<open>The theorems on stored volumes at the sample\<close>

lemma demo_extent_decode: "decode_extent (fst (enc_extent o' e)) (snd (enc_extent o' e)) = e"
  if "fe_len e AND J_FILE_EXTENT_LEN_MASK = fe_len e"
  using that by (simp add: decode_extent_def enc_extent_def le_u64_def arr_fields layout_defs)

lemma demo_records:
  "records_of demo_fs_tree 2 = take 2 demo_fs_leaf1"
  "records_of demo_fs_tree 16 = drop 2 demo_fs_leaf1 @ demo_fs_leaf2"
  by (simp_all add: records_of_def demo_fs_tree_def demo_fs_leaf1_def demo_fs_leaf2_def demo_extents_def demo_keys)

lemma demo_extent_records:
  "map (\<lambda>(k, v). decode_extent k v)
     (filter (\<lambda>e. key_type (fst e) = Some FileExtent) (records_of demo_fs_tree 16)) = demo_extents"
proof -
  have "map (\<lambda>(k, v). decode_extent k v) (map (enc_extent 16) demo_extents) = demo_extents"
    by (simp add: demo_extents_def case_prod_unfold demo_extent_decode J_FILE_EXTENT_LEN_MASK_def)
  moreover have "filter (\<lambda>e. key_type (fst e) = Some FileExtent) (drop 2 demo_fs_leaf1 @ demo_fs_leaf2)
      = map (enc_extent 16) demo_extents"
    by (simp add: demo_fs_leaf1_def demo_fs_leaf2_def demo_keys demo_extents_def)
  ultimately show ?thesis by (simp add: demo_records)
qed

lemma demo_extents_of: "extents_of demo_fs_tree 16 = demo_extents"
  unfolding extents_of_def demo_extent_records by (simp add: demo_extents_def)

lemma demo_listing:
  "dir_listing demo_fs_tree 2 = [\<lparr> de_name = [0x61], de_file_id = 16, de_date_added = 5000, de_flags = 8 \<rparr>]"
proof -
  have "parse_dir_entry (enc_drec_hashed_key 2 0x1234 [0x61]) (enc_drec_val 16 5000 8)
      = Some \<lparr> de_name = [0x61], de_file_id = 16, de_date_added = 5000, de_flags = 8 \<rparr>"
    by (simp add: parse_dir_entry_def decode_drec_hashed utf8_step_def enc_drec_val_def layout_defs
        le_u64_def le_u16_def arr_fields)
  then show ?thesis
    by (simp add: dir_listing_def demo_records demo_fs_leaf1_def demo_keys List.map_filter_simps)
qed

theorem keyed_walk_complete_witness:
  "for_each_fs_record_for_oid no_crypto demo_rd demo_vol 1024 16 (extent_visit 16) [] = Inr demo_extents
   \<and> walk_fs_tree no_crypto demo_rd demo_vol 1024 None (extent_visit 16) [] = Inr demo_extents"
proof -
  have "fold (\<lambda>(k, v). extent_visit 16 k v) (records_of demo_fs_tree 16) [] = demo_extents"
    unfolding fold_extents [OF records_of_oid] by (simp add: demo_extent_records)
  with keyed_walk_complete [OF demo_facts, where oid = 16 and visit = "extent_visit 16" and s = "[]" and cr = no_crypto]
  show ?thesis by (metis (no_types, lifting) extent_visit_def)
qed

theorem lookup_child_matches_listing_witness:
  "lookup_child no_crypto demo_rd demo_vol 2 [0x61] 1024 = Inr (Some 16)
   \<and> lookup_child no_crypto demo_rd demo_vol 2 [0x62] 1024 = Inr None"
  using lookup_child_matches_listing [OF demo_facts, of no_crypto 2 "[0x61]"]
    lookup_child_matches_listing [OF demo_facts, of no_crypto 2 "[0x62]"]
  by (simp add: demo_listing)

lemma demo_inode_value:
  "inode_value demo_fs_tree 16 = Some (enc_inode demo_file_inode (replicate 8 0) (replicate 10 0) (replicate 32 0))"
  "inode_parse 16 (enc_inode demo_file_inode (replicate 8 0) (replicate 10 0) (replicate 32 0)) = Inr demo_file_inode"
  using inode_parse_enc [of "replicate 8 0" "replicate 10 0" demo_file_inode "[0x61]" 2100 "replicate 32 0"]
  by (simp_all add: inode_value_def demo_records demo_fs_leaf1_def demo_keys) (simp add: demo_file_inode_def utf8_step_def)

theorem open_path_resolves_witness:
  "open_path no_crypto demo_rd demo_vol [0x2F, 0x61] 1024 = Inr demo_file_inode
   \<and> open_path no_crypto demo_rd demo_vol [0x2F, 0x61, 0x2F, 0x62] 1024 = Inl (OmapUnresolved 16 7)"
proof -
  have "child_named demo_fs_tree 2 [0x61] = Some 16" by (simp add: child_named_def demo_listing)
  moreover have "child_named demo_fs_tree 16 [0x62] = None"
    by (simp add: child_named_def dir_listing_def demo_records demo_fs_leaf1_def demo_fs_leaf2_def demo_keys
        demo_extents_def List.map_filter_simps case_prod_unfold)
  moreover note demo_inode_value
  moreover have "path_components [0x2F, 0x61] = [[0x61]]" "path_components [0x2F, 0x61, 0x2F, 0x62] = [[0x61], [0x62]]"
    by (simp_all add: path_components_def)
  ultimately show ?thesis
    using open_path_resolves [OF demo_facts, of no_crypto "[0x2F, 0x61]"]
      open_path_resolves [OF demo_facts, of no_crypto "[0x2F, 0x61, 0x2F, 0x62]"]
    by (simp add: ROOT_DIR_INO_NUM_def demo_volume_def)
qed

lemma demo_image_length: "length demo_fs_image = 8192"
  using length_concat_chunks [of demo_blocks "\<lambda>b. b" 1024] demo_fs_block_lengths
  by (simp add: demo_fs_image_def) (simp add: demo_blocks_def)

lemma demo_data_byte:
  assumes "i < 8" "j < 1024"
  shows "demo_fs_image ! (i * 1024 + j) = demo_blocks ! i ! j"
proof -
  have len: "length demo_blocks = 8" by (simp add: demo_blocks_def)
  then have "map ((!) demo_blocks) [0..<8] = demo_blocks" by (metis map_nth)
  then show ?thesis
    using nth_concat_blocks [of 8 "(!) demo_blocks" 1024 "i * 1024 + j"] demo_fs_block_lengths len assms
    by (simp add: demo_fs_image_def del: upt_Suc)
qed

lemma demo_stream_ok:
  "(\<And>k1 k2 ss n d. length (xts_area no_crypto k1 k2 ss n d) = length d)" "length demo_fs_image < 2 ^ 64"
  "list_all (extent_in_image (vol_vek demo_vol) demo_fs_image 1024 (unat (2100 :: u64))) (extents_of demo_fs_tree 16)"
  by (simp_all add: no_crypto_def demo_image_length demo_extents_of demo_extents_def
      extent_in_image_def extent_span_def demo_volume_def)

theorem read_stream_content_witness:
  "\<exists>out. read_stream no_crypto demo_rd demo_vol 16 2100 1024 = Inr out \<and> length out = 2100
     \<and> out ! 0 = 0x41 \<and> out ! 1023 = 0x41 \<and> out ! 1500 = 0 \<and> out ! 2048 = 0x42 \<and> out ! 2099 = 0x42"
proof -
  have "\<exists>out. read_stream no_crypto demo_rd demo_vol 16 2100 1024 = Inr out \<and> length out = unat (2100 :: u64)
      \<and> (\<forall>i<unat (2100 :: u64). out ! i
          = stream_byte no_crypto (vol_vek demo_vol) demo_fs_image 1024 (extents_of demo_fs_tree 16) i 0)"
    by (rule read_stream_content [OF demo_facts])
      (use demo_stream_ok in \<open>simp_all add: MAX_FILE_BYTES_def\<close>)
  moreover have "demo_fs_image ! 6144 = 0x41" "demo_fs_image ! 7167 = 0x41"
      "demo_fs_image ! 7168 = 0x42" "demo_fs_image ! 7219 = 0x42"
    using demo_data_byte [of 6 0] demo_data_byte [of 6 1023] demo_data_byte [of 7 0] demo_data_byte [of 7 51]
    by (simp_all add: demo_blocks_def)
  ultimately show ?thesis
    by (auto simp: stream_byte_def demo_extents_of demo_extents_def covers_def extent_byte_def demo_volume_def)
qed

end
