(* ===== verification/Sample_Snapshot.thy ===== *)
theory Sample_Snapshot
  imports Snapshot Sample_Volume
begin

text \<open>
  The sample volume at a later time, as an image of thirteen blocks: the object map was rewritten
  elsewhere with a new root in transaction 9, the old map's blocks were reused, and a snapshot
  of transaction 7 is retained with its frozen superblock. A second, small image has a snapshot
  tree whose child's identifier is the root's block address.
\<close>

subsection \<open>The later image\<close>

definition demo_snap :: snapshot where
  "demo_snap = \<lparr> ss_xid = 7, ss_name = [0x73], ss_create_time = 100, ss_change_time = 101, ss_sblock_oid = 8,
     ss_extentref_tree_oid = 0, ss_inum = 20, ss_flags = 0 \<rparr>"

definition demo_snap_records :: "entry list" where
  "demo_snap_records =
     [(to_le 8 (enc_jkey 7 SnapMetadata), enc_snap_metadata demo_snap 0),
      (enc_snap_name_key [0x73], to_le 8 (7 :: u64))]"

definition demo_now_omap :: "entry list" where
  "demo_now_omap = [(enc_omap_key 0x404 1, enc_omap_val 0 1024 3), (enc_omap_key 0x404 9, enc_omap_val 0 1024 12),
     (enc_omap_key 0x405 1, enc_omap_val 0 1024 4), (enc_omap_key 0x406 1, enc_omap_val 0 1024 5)]"

definition demo_now_blocks :: "bytes list" where
  "demo_now_blocks =
     replicate 3 (replicate 1024 0) @ drop 3 demo_blocks
     @ [enc_apsb (demo_volume 7 0) (demo_apsb_rest 64),
        enc_node (replicate 24 0) 3 0 demo_snap_records (replicate 832 0) (replicate 40 0),
        demo_omap_phys 11,
        enc_node (replicate 24 0) 7 0 demo_now_omap (replicate 784 0) (replicate 40 0),
        enc_node (replicate 24 0) 3 0 [] (replicate 928 0) (replicate 40 0)]"

abbreviation "demo_now_rd \<equiv> cursor (concat demo_now_blocks)"

lemma demo_snap_lengths:
  "length (enc_snap_metadata sn ty) = 51 + length (ss_name sn)" "length (enc_snap_name_key n) = 11 + length n"
  by (simp_all add: enc_snap_metadata_def enc_snap_name_key_def)

lemma demo_now_lengths: "\<forall>b\<in>set demo_now_blocks. length b = 1024" "length demo_now_blocks = 13"
proof -
  have "\<forall>b\<in>set (drop 3 demo_blocks). length b = 1024" using demo_fs_block_lengths by (auto dest: in_set_dropD)
  then show "\<forall>b\<in>set demo_now_blocks. length b = 1024"
    by (simp add: demo_now_blocks_def length_enc_node demo_snap_records_def demo_now_omap_def demo_snap_lengths
        demo_snap_def enc_toc_len_def layout_defs demo_omap_phys_def length_seal_block)
  show "length demo_now_blocks = 13" by (simp add: demo_now_blocks_def demo_blocks_def)
qed

lemma demo_now_reads:
  assumes "i < 13"
  shows "cursor (concat demo_now_blocks) (of_nat i * 1024) 1024 = Inr (demo_now_blocks ! i)"
    and "read_block_sat demo_now_rd (of_nat i) 1024 = Inr (demo_now_blocks ! i)"
  using cursor_blocks [OF demo_now_lengths(1), of i] assms by (simp_all add: demo_now_lengths(2))

lemma demo_now_kept: "3 \<le> i \<Longrightarrow> i < 8 \<Longrightarrow> demo_now_blocks ! i = demo_blocks ! i"
  using nth_drop [of 3 demo_blocks "i - 3"]
  by (simp add: demo_now_blocks_def nth_append) (auto simp: demo_blocks_def)

lemma demo_now_nodes_ok:
  "enc_ok Omap (replicate 24 0) 7 0 demo_now_omap (replicate 40 0)"
  "enc_ok FsTree (replicate 24 0) 3 0 demo_snap_records (replicate 40 0)"
  by (simp_all add: enc_ok_def demo_now_omap_def demo_snap_records_def layout_defs demo_snap_lengths demo_snap_def)

lemma demo_now_new:
  "demo_now_blocks ! 8 = enc_apsb (demo_volume 7 0) (demo_apsb_rest 64)"
  "demo_now_blocks ! 9 = enc_node (replicate 24 0) 3 0 demo_snap_records (replicate 832 0) (replicate 40 0)"
  "demo_now_blocks ! 10 = demo_omap_phys 11"
  "demo_now_blocks ! 11 = enc_node (replicate 24 0) 7 0 demo_now_omap (replicate 784 0) (replicate 40 0)"
  by (simp_all add: demo_now_blocks_def demo_blocks_def nth_append)

lemma demo_omap_at:
  "omap_at demo_rd 1 1024 demo_om (Leaf 2 demo_fs_omap)"
  "omap_at demo_now_rd 10 1024 (demo_om_at 11) (Leaf 11 demo_now_omap)"
proof -
  have "load_physical demo_now_rd 1024 Omap 11 = Inr (LeafNode demo_now_omap)"
    using load_enc_node [OF demo_now_nodes_ok(1), of demo_now_rd 11 1024 "replicate 784 0"] demo_now_reads(1) [of 11]
    by (simp add: demo_now_new)
  then show "omap_at demo_now_rd 10 1024 (demo_om_at 11) (Leaf 11 demo_now_omap)"
    using demo_now_reads(2) [of 10]
    by (simp add: omap_at_def demo_now_new demo_omap_parse) (simp add: demo_om_at_def demo_now_omap_def omap_key_of_enc less_prod_def')
  show "omap_at demo_rd 1 1024 demo_om (Leaf 2 demo_fs_omap)"
    using demo_fs_reads(2) [of 1] demo_omap_load
    by (simp add: omap_at_def demo_blocks_def demo_omap_parse) (simp add: demo_om_at_def demo_fs_omap_def omap_key_of_enc less_prod_def')
qed

lemma demo_retains: "retains demo_now_rd demo_rd 7 1024 (Leaf 11 demo_now_omap) (Leaf 2 demo_fs_omap)"
  using demo_now_reads(2) [of 3] demo_now_reads(2) [of 4] demo_now_reads(2) [of 5]
    demo_fs_reads(2) [of 3] demo_fs_reads(2) [of 4] demo_fs_reads(2) [of 5]
    demo_now_kept [of 3] demo_now_kept [of 4] demo_now_kept [of 5]
  by (simp add: retains_def entries_upto_def demo_now_omap_def demo_fs_omap_def omap_key_of_enc omap_decode_enc)

theorem snapshot_reads_past_witness:
  "\<exists>v. mount_snapshot demo_now_rd (demo_volume 9 10) demo_snap 1024 = Inr v
     \<and> list_dir no_crypto demo_now_rd v 2 1024
       = Inr [\<lparr> de_name = [0x61], de_file_id = 16, de_date_added = 5000, de_flags = 8 \<rparr>]
     \<and> open_path no_crypto demo_now_rd v [0x2F, 0x61] 1024 = open_path no_crypto demo_rd demo_vol [0x2F, 0x61] 1024"
proof -
  have "\<exists>v w. mount_snapshot demo_now_rd (demo_volume 9 10) demo_snap 1024 = Inr v \<and> vol_vek v = None
      \<and> w = (case vol_vek demo_vol of None \<Rightarrow> v | Some vek \<Rightarrow> set_vek vek v)
      \<and> (\<forall>parent. list_dir no_crypto demo_now_rd w parent 1024 = list_dir no_crypto demo_rd demo_vol parent 1024)
      \<and> (\<forall>path. open_path no_crypto demo_now_rd w path 1024 = open_path no_crypto demo_rd demo_vol path 1024)"
  proof (rule snapshot_reads_past [OF demo_facts])
    show "read_block_sat demo_now_rd (ss_sblock_oid demo_snap) 1024
        = Inr (enc_apsb (demo_volume 7 0) (demo_apsb_rest 64))"
      using demo_now_reads(2) [of 8] by (simp add: demo_snap_def demo_now_new)
    show "apfs_volume_parse (enc_apsb (demo_volume 7 0) (demo_apsb_rest 64)) = Inr (demo_volume 7 0)"
      by (rule apfs_volume_parse_enc) simp
  qed (use demo_omap_at demo_retains in \<open>simp_all add: demo_volume_def\<close>)
  moreover have "vol_vek demo_vol = None" by (simp add: demo_volume_def)
  ultimately obtain v where "mount_snapshot demo_now_rd (demo_volume 9 10) demo_snap 1024 = Inr v"
      "list_dir no_crypto demo_now_rd v 2 1024 = list_dir no_crypto demo_rd demo_vol 2 1024"
      "open_path no_crypto demo_now_rd v [0x2F, 0x61] 1024 = open_path no_crypto demo_rd demo_vol [0x2F, 0x61] 1024"
    by auto
  then show ?thesis by (simp add: list_dir_stored [OF demo_facts] demo_listing)
qed

lemma load_snap_enc:
  assumes "(if d = 0 then Inr oid else map_sum id oe_paddr (resolve om rd oid xid n)) = Inr p"
    and "read_block_sat rd p n = Inr (enc_node hdr flags level es free footer)"
    and "enc_ok FsTree hdr flags level es footer"
  shows "load_snap rd om xid n d oid =
    (if flags AND BTNODE_LEAF \<noteq> 0 \<or> level = 0 then Inr (LeafNode es)
     else Inr (IndexNode (map (\<lambda>(k, v). (k, le_u64 v 0)) es)))"
proof -
  have "read_snap_node rd om xid n (d = 0) oid = Inr (enc_node hdr flags level es free footer)"
    using assms(1,2) by (simp add: read_snap_node_def enc_node_def)
  moreover have "length hdr = 24" using assms(3) by (simp add: enc_ok_def)
  ultimately show ?thesis
    by (simp add: load_snap_def node_of_block_def is_leaf_def parse_enc_node node_entries_enc_node [OF assms(3)])
qed

lemma demo_snap_stored: "snap_stored demo_now_rd (demo_volume 9 10) 1024 (Leaf 9 demo_snap_records)"
proof -
  have "load_snap demo_now_rd om x 1024 0 9 = Inr (LeafNode demo_snap_records)" for om x
    using load_snap_enc [OF _ _ demo_now_nodes_ok(2), of 0 9 om demo_now_rd x 1024 9] demo_now_reads(2) [of 9]
    by (simp add: demo_now_new)
  then show ?thesis
    using demo_now_reads(2) [of 10]
    by (simp add: snap_stored_def demo_volume_def demo_now_new demo_omap_parse)
qed

lemma demo_snap_listing:
  "list_snapshots demo_now_rd (demo_volume 9 10) 1024 = Inr [demo_snap]"
  "resolve_snapshot_xid demo_now_rd (demo_volume 9 10) [0x73] 1024 = Inr (Some 7)"
proof -
  have k: "decode_jkey (le_u64 (to_le 8 (enc_jkey 7 SnapMetadata)) 0) = (7, Some SnapMetadata)"
    "key_type (enc_snap_name_key [0x73]) = Some SnapName"
    by (simp_all add: le_u64_def arr_fields enc_snap_name_key_def decode_jkey_enc)
  have ok: "snap_name_ok [0x73]" by (simp add: snap_name_ok_def utf8_step_def)
  then have "parse_snap_metadata 7 (enc_snap_metadata demo_snap 0) = demo_snap"
    using parse_snap_metadata_enc [of demo_snap 0] by (simp add: demo_snap_def)
  then show "list_snapshots demo_now_rd (demo_volume 9 10) 1024 = Inr [demo_snap]"
    by (simp add: list_snapshots_stored [OF demo_snap_stored] snaps_of_def demo_snap_records_def k)
  show "resolve_snapshot_xid demo_now_rd (demo_volume 9 10) [0x73] 1024 = Inr (Some 7)"
    by (simp add: resolve_snapshot_xid_stored [OF demo_snap_stored] snap_xid_named_def demo_snap_records_def k
        decode_snap_name_key_enc [OF ok] le_u64_def [of "to_le 8 7"] arr_full)
qed

subsection \<open>A tree the visited set refuses\<close>

definition alias_omap :: "entry list" where
  "alias_omap = [(enc_omap_key 2 1, enc_omap_val 0 1024 3)]"

definition alias_index :: "entry list" where
  "alias_index = [(to_le 8 (enc_jkey 7 SnapMetadata), to_le 8 (2 :: u64))]"

definition alias_blocks :: "bytes list" where
  "alias_blocks =
     [demo_omap_phys 1,
      enc_node (replicate 24 0) 7 0 alias_omap (replicate 892 0) (replicate 40 0),
      enc_node (replicate 24 0) 1 1 alias_index (replicate 904 0) (replicate 40 0),
      enc_node (replicate 24 0) 3 0 demo_snap_records (replicate 832 0) (replicate 40 0)]"

abbreviation "alias_rd \<equiv> cursor (concat alias_blocks)"
abbreviation "alias_vol \<equiv> (demo_volume 7 0)\<lparr> vol_snap_meta_tree_oid := 2 \<rparr>"

lemma alias_reads:
  assumes "i < 4"
  shows "cursor (concat alias_blocks) (of_nat i * 1024) 1024 = Inr (alias_blocks ! i)"
    and "read_block_sat alias_rd (of_nat i) 1024 = Inr (alias_blocks ! i)"
proof -
  have "\<forall>b\<in>set alias_blocks. length b = 1024" "length alias_blocks = 4"
    by (simp_all add: alias_blocks_def length_enc_node demo_snap_records_def alias_omap_def alias_index_def
        demo_snap_lengths demo_snap_def enc_toc_len_def layout_defs demo_omap_phys_def length_seal_block)
  then show "cursor (concat alias_blocks) (of_nat i * 1024) 1024 = Inr (alias_blocks ! i)"
    "read_block_sat alias_rd (of_nat i) 1024 = Inr (alias_blocks ! i)"
    using cursor_blocks [of alias_blocks 1024 i] assms by simp_all
qed

lemma alias_nodes_ok:
  "enc_ok Omap (replicate 24 0) 7 0 alias_omap (replicate 40 0)"
  "enc_ok FsTree (replicate 24 0) 1 1 alias_index (replicate 40 0)"
  by (simp_all add: enc_ok_def alias_omap_def alias_index_def layout_defs)

lemma alias_nodes:
  "load_snap alias_rd (demo_om_at 1) 7 1024 0 2 = Inr (IndexNode [(to_le 8 (enc_jkey 7 SnapMetadata), 2)])"
  "load_snap alias_rd (demo_om_at 1) 7 1024 1 2 = Inr (LeafNode demo_snap_records)"
proof -
  show "load_snap alias_rd (demo_om_at 1) 7 1024 0 2 = Inr (IndexNode [(to_le 8 (enc_jkey 7 SnapMetadata), 2)])"
    using load_snap_enc [OF _ _ alias_nodes_ok(2), of 0 2 "demo_om_at 1" alias_rd 7 1024 2 "replicate 904 0"]
      alias_reads(2) [of 2]
    by (simp add: alias_blocks_def alias_index_def BTNODE_LEAF_def le_u64_def arr_full)
  have "load_physical alias_rd 1024 Omap 1 = Inr (LeafNode alias_omap)"
    using load_enc_node [OF alias_nodes_ok(1), of alias_rd 1 1024 "replicate 892 0"] alias_reads(1) [of 1]
    by (simp add: alias_blocks_def)
  then have "resolve (demo_om_at 1) alias_rd 2 7 1024
      = Inr \<lparr> oe_oid = 2, oe_xid = 1, oe_paddr = 3, oe_size = 1024, oe_flags = 0 \<rparr>"
    using resolve_leaf [of alias_rd 1024 "demo_om_at 1" alias_omap 2 7]
    by (simp add: demo_om_at_def alias_omap_def omap_visit_matches omap_matches_def omap_decode_enc)
  then show "load_snap alias_rd (demo_om_at 1) 7 1024 1 2 = Inr (LeafNode demo_snap_records)"
    using load_snap_enc [OF _ _ demo_now_nodes_ok(2), of 1 2 "demo_om_at 1" alias_rd 7 1024 3] alias_reads(2) [of 3]
    by (simp add: alias_blocks_def)
qed

theorem snap_root_alias_witness:
  "list_snapshots alias_rd alias_vol 1024 = Inl (CycleGuard MAX_SNAP_TREE_DEPTH)
   \<and> load_snap alias_rd (demo_om_at 1) 7 1024 1 2 = Inr (LeafNode demo_snap_records)"
  using snap_root_alias [of alias_rd alias_vol 1024 "demo_omap_phys 1" "demo_om_at 1"
      "[]" "to_le 8 (enc_jkey 7 SnapMetadata)" "[]"]
    alias_reads(2) [of 0] alias_nodes
  by (simp add: demo_omap_parse demo_volume_def) (simp add: alias_blocks_def)

end
