(* ===== verification/Sample_Audit.thy ===== *)
theory Sample_Audit
  imports Auditor Sample_Snapshot
begin

text \<open>
  The small container with a volume superblock, a reaper and a snapshot tree appended: the map
  sends one identifier to two blocks and the reaper has an object in progress. The snapshot tree
  holds three snapshots created at 300, 100 and 200 in transaction order, the first without a name
  record, and a name record that no snapshot bears. A second copy has a damaged volume superblock.
\<close>

definition audit_reaper :: bytes where
  "audit_reaper = seal_block (replicate 40 0 @ to_le 8 (0 :: u64) @ replicate 16 0 @ to_le 4 (2 :: u32)
     @ replicate 12 0 @ to_le 8 (77 :: u64) @ replicate 4000 0)"

definition audit_snap :: "u64 \<Rightarrow> u8 \<Rightarrow> u64 \<Rightarrow> snapshot" where
  "audit_snap xid c time = demo_snap\<lparr> ss_xid := xid, ss_name := [c], ss_create_time := time \<rparr>"

definition audit_snap_leaf :: "entry list" where
  "audit_snap_leaf =
     [(to_le 8 (enc_jkey 7 SnapMetadata), enc_snap_metadata (audit_snap 7 0x73 300) 0),
      (to_le 8 (enc_jkey 8 SnapMetadata), enc_snap_metadata (audit_snap 8 0x74 100) 0),
      (to_le 8 (enc_jkey 9 SnapMetadata), enc_snap_metadata (audit_snap 9 0x75 200) 0),
      (enc_snap_name_key [0x74], to_le 8 (8 :: u64)),
      (enc_snap_name_key [0x75], to_le 8 (9 :: u64)),
      (enc_snap_name_key [0x76], to_le 8 (42 :: u64))]"

definition audit_tail :: "bytes \<Rightarrow> bytes" where
  "audit_tail volume_block = volume_block @ audit_reaper
     @ enc_node (replicate 24 0) 3 0 audit_snap_leaf (replicate 3712 0) (replicate 40 0)"

abbreviation "audit_rd vb \<equiv> cursor (demo_container (audit_tail vb))"
abbreviation "audit_apsb \<equiv> enc_apsb (demo_volume 7 5) (demo_apsb_rest 3136)"

lemma audit_lengths:
  "length audit_reaper = 4096"
  "length (enc_node (replicate 24 0) 3 0 audit_snap_leaf (replicate 3712 0) (replicate 40 0)) = 4096"
  by (simp_all add: audit_reaper_def length_enc_node audit_snap_leaf_def demo_snap_lengths audit_snap_def
      enc_toc_len_def layout_defs)

definition audit_blocks :: "bytes \<Rightarrow> bytes list" where
  "audit_blocks vb =
     [demo_nx_block 5, demo_nx_block 5, demo_map_block, demo_nx_block 7, replicate 4096 0, demo_omap_block,
      demo_tree_block, vb, audit_reaper, enc_node (replicate 24 0) 3 0 audit_snap_leaf (replicate 3712 0) (replicate 40 0)]"

lemma audit_image: "demo_container (audit_tail vb) = concat (audit_blocks vb)"
  by (simp add: demo_container_def audit_tail_def audit_blocks_def)

lemma audit_reads:
  assumes "length vb = 4096" "i < 10"
  shows "read_block_sat (audit_rd vb) (of_nat i) 4096 = Inr (audit_blocks vb ! i)"
proof -
  have "\<forall>b\<in>set (audit_blocks vb). length b = 4096" "length (audit_blocks vb) = 10"
    using assms(1) audit_lengths by (simp_all add: audit_blocks_def)
  then show ?thesis
    unfolding audit_image using cursor_blocks(3) [of "audit_blocks vb" 4096 i] assms(2) by simp
qed

definition audit_c :: apfs_container where
  "audit_c = \<lparr> ac_superblock = demo_nx 7, ac_live_superblock_paddr = 3,
     ac_checkpoint_mappings = block_mappings demo_map_block \<rparr>"

lemma audit_open: "container_open (audit_rd vb) = Inr audit_c"
  unfolding audit_c_def by (rule demo_open)

lemma audit_addrs:
  assumes "length vb = 4096"
  shows "volume_superblock_addrs (audit_rd vb) audit_c = Inr [7]"
proof -
  have p: "object_map_parse demo_omap_block
      = Inr \<lparr> om_flags = 1, om_tree_type = 0x40000002, om_tree_oid = 6, om_snapshot_tree_oid = 0 \<rparr>"
    by (simp add: object_map_parse_def demo_omap_block_def reads_seal_block layout_defs obj_phys_parse_def
        obj_type_def le_u32_def le_u64_def arr_seal_block arr_fields arr_in_range [of _ _ "replicate _ _"])
  have ok: "enc_ok Omap (replicate 24 0) 7 0 demo_volume_leaf (replicate 40 0)"
    by (simp add: enc_ok_def demo_volume_leaf_def layout_defs)
  define om where "om = \<lparr> om_flags = 1 :: u32, om_tree_type = 0x40000002, om_tree_oid = 6, om_snapshot_tree_oid = 0 \<rparr>"
  have "load_physical (audit_rd vb) 4096 Omap 6 = Inr (LeafNode demo_volume_leaf)"
    using load_enc_node [OF ok, of "audit_rd vb" 6 4096 "replicate 3928 0"]
    by (simp add: demo_reads demo_tree_block_def)
  then have "load_physical (audit_rd vb) 4096 Omap (om_tree_oid om) = Inr (LeafNode demo_volume_leaf)"
    by (simp add: om_def)
  note r = resolve_leaf [OF this]
  have "resolve om (audit_rd vb) 0x402 7 4096
      = Inr \<lparr> oe_oid = 0x402, oe_xid = 6, oe_paddr = 7, oe_size = 4096, oe_flags = 0 \<rparr>"
    unfolding r by (simp add: demo_volume_leaf_def omap_visit_matches omap_matches_def omap_decode_enc)
      (simp add: enc_omap_key_def le_u64_def arr_fields)
  then show ?thesis
    using audit_reads [OF assms, of 5]
    by (simp add: audit_c_def volume_superblock_addrs_def demo_nx_fields p om_def audit_blocks_def)
qed

lemma audit_integrity: "integrity_audit audit_c = [XidReuse 0x400 7]"
proof -
  have u: "[0..<3] = [0, 1, 2 :: nat]" by (simp add: upt_rec)
  have "integrity_audit audit_c = duplicate_oid_anomalies [(0x400, 100), (0x401, 8), (0x400, 102)] 7"
    by (simp add: audit_c_def integrity_audit_def demo_nx_fields)
  also have "\<dots> = [XidReuse 0x400 7]"
    unfolding duplicate_oid_anomalies_def by (simp add: u Let_def)
  finally show ?thesis .
qed

lemma audit_pending:
  assumes "length vb = 4096"
  shows "reaper_paddr audit_c = Some 8"
    and "pending_objects (audit_rd vb) 8 (ac_checkpoint_mappings audit_c) 4096 = Inr [\<lparr> rp_oid = 77, rp_obj_type = 2 \<rparr>]"
proof -
  show "reaper_paddr audit_c = Some 8"
    by (simp add: audit_c_def reaper_paddr_def resolve_ephemeral_def) (simp add: demo_nx_def)
  have "read_obj_block (audit_rd vb) 8 4096 = Inr audit_reaper"
    using audit_reads [OF assms, of 8] by (simp add: read_obj_block_def audit_blocks_def) (simp add: audit_reaper_def)
  moreover have "le_u64 audit_reaper 48 = 0" "le_u64 audit_reaper 88 = 77" "le_u32 audit_reaper 72 = 2"
    by (simp_all add: audit_reaper_def le_u64_def le_u32_def arr_seal_block arr_fields)
  ultimately show "pending_objects (audit_rd vb) 8 (ac_checkpoint_mappings audit_c) 4096 = Inr [\<lparr> rp_oid = 77, rp_obj_type = 2 \<rparr>]"
    by (simp add: pending_objects_def in_progress_def layout_defs reap_loop.simps)
qed

lemma audit_volume_fields:
  "vol_omap_oid (demo_volume x om) = om" "vol_snap_meta_tree_oid (demo_volume x om) = 9"
  by (simp_all add: demo_volume_def)

lemma audit_snap_stored: "snap_stored (audit_rd audit_apsb) (demo_volume 7 5) 4096 (Leaf 9 audit_snap_leaf)"
proof -
  have len: "length audit_apsb = 4096" by simp
  have ok: "enc_ok FsTree (replicate 24 0) 3 0 audit_snap_leaf (replicate 40 0)"
    by (simp add: enc_ok_def audit_snap_leaf_def layout_defs demo_snap_lengths audit_snap_def)
  have ld: "load_snap (audit_rd audit_apsb) om x 4096 0 9 = Inr (LeafNode audit_snap_leaf)" for om x
    using load_snap_enc [OF _ _ ok, of 0 9 om "audit_rd audit_apsb" x 4096 9] audit_reads [OF len, of 9]
    by (simp add: audit_blocks_def)
  obtain om where "object_map_parse demo_omap_block = Inr om"
    by (simp add: object_map_parse_def demo_omap_block_def reads_seal_block layout_defs obj_phys_parse_def
        obj_type_def le_u32_def le_u64_def arr_seal_block arr_fields arr_in_range [of _ _ "replicate _ _"])
  moreover have "read_block_sat (audit_rd audit_apsb) 5 4096 = Inr demo_omap_block"
    using audit_reads [OF len, of 5] by (simp add: audit_blocks_def)
  ultimately show ?thesis by (simp add: snap_stored_def audit_volume_fields ld)
qed

lemma audit_snap_parse:
  assumes "c \<in> {0x73, 0x74, 0x75}"
  shows "parse_snap_metadata xid (enc_snap_metadata (audit_snap xid c time) 0) = audit_snap xid c time"
  using parse_snap_metadata_enc [of "audit_snap xid c time" 0] assms
  by (auto simp: audit_snap_def snap_name_ok_def utf8_step_def)

lemma audit_keys:
  "xid \<in> {7, 8, 9} \<Longrightarrow> decode_jkey (le_u64 (to_le 8 (enc_jkey xid SnapMetadata)) 0) = (xid, Some SnapMetadata)"
  "key_type (enc_snap_name_key n) = Some SnapName"
  by (auto simp: le_u64_def arr_fields enc_snap_name_key_def decode_jkey_enc)

lemma audit_names:
  "c \<in> {0x74, 0x75, 0x76} \<Longrightarrow> decode_snap_name_key (enc_snap_name_key [c]) = Some [c]"
  "le_u64 (to_le 8 (8 :: u64)) 0 = 8" "le_u64 (to_le 8 (9 :: u64)) 0 = 9" "le_u64 (to_le 8 (42 :: u64)) 0 = 42"
  by (rule decode_snap_name_key_enc) (auto simp: snap_name_ok_def utf8_step_def le_u64_def arr_full)

lemma audit_snaps:
  "sort_key ss_xid (snaps_of (Leaf 9 audit_snap_leaf)) = [audit_snap 7 0x73 300, audit_snap 8 0x74 100, audit_snap 9 0x75 200]"
  "snap_xid_named (Leaf 9 audit_snap_leaf) [0x73] = None"
  "snap_xid_named (Leaf 9 audit_snap_leaf) [0x74] = Some 8"
  "snap_xid_named (Leaf 9 audit_snap_leaf) [0x75] = Some 9"
  "snap_xid_named (Leaf 9 audit_snap_leaf) [0x76] = Some 42"
proof -
  have "snaps_of (Leaf 9 audit_snap_leaf) = [audit_snap 7 0x73 300, audit_snap 8 0x74 100, audit_snap 9 0x75 200]"
    by (simp add: snaps_of_def audit_snap_leaf_def audit_keys audit_snap_parse)
  then show "sort_key ss_xid (snaps_of (Leaf 9 audit_snap_leaf)) = [audit_snap 7 0x73 300, audit_snap 8 0x74 100, audit_snap 9 0x75 200]"
    by (simp add: audit_snap_def)
qed (simp_all add: snap_xid_named_def audit_snap_leaf_def audit_keys audit_names)

lemma audit_snapshots:
  "snapshots_audit (audit_rd audit_apsb) (demo_volume 7 5) 4096
     = Inr [SnapshotMissingMetadata [0x73], SnapshotXidDisorder 8]"
  unfolding snapshots_audit_stored [OF audit_snap_stored] audit_snaps(1)
  by (simp add: audit_snap_def audit_snaps)

theorem snapshot_audit_exact_witness:
  "\<exists>out. snapshots_audit (audit_rd audit_apsb) (demo_volume 7 5) 4096 = Inr out
     \<and> SnapshotMissingMetadata [0x73] \<in> set out \<and> SnapshotXidDisorder 8 \<in> set out
     \<and> snap_xid_named (Leaf 9 audit_snap_leaf) [0x76] = Some 42 \<and> SnapshotMissingMetadata [0x76] \<notin> set out
     \<and> ss_create_time (audit_snap 9 0x75 200) < ss_create_time (audit_snap 7 0x73 300)
     \<and> SnapshotXidDisorder 9 \<notin> set out"
proof -
  let ?ss = "[audit_snap 7 0x73 300, audit_snap 8 0x74 100, audit_snap 9 0x75 200]"
  obtain out where out: "snapshots_audit (audit_rd audit_apsb) (demo_volume 7 5) 4096 = Inr out"
    and names: "\<forall>n. n \<notin> ss_name ` set ?ss \<longrightarrow> SnapshotMissingMetadata n \<notin> set out"
    and order: "\<forall>i j. i < j \<and> Suc j < length ?ss \<and> ss_create_time (?ss ! Suc j) < ss_create_time (?ss ! i)
          \<and> ss_create_time (?ss ! j) \<le> ss_create_time (?ss ! Suc j) \<and> distinct (map ss_xid ?ss)
          \<longrightarrow> SnapshotXidDisorder (ss_xid (?ss ! Suc j)) \<notin> set out"
    using snapshot_audit_exact [OF audit_snap_stored audit_snaps(1) [symmetric]] by blast
  have "SnapshotMissingMetadata [0x76] \<notin> set out" using names by (simp add: audit_snap_def)
  moreover have "SnapshotXidDisorder 9 \<notin> set out"
    using order [rule_format, of 0 1] by (simp add: audit_snap_def)
  ultimately show ?thesis
    using out audit_snapshots audit_snaps(5) by (auto simp: audit_snap_def)
qed

lemma audit_result:
  "audit_container (audit_rd audit_apsb) 4096
     = Inr [XidReuse 0x400 7, SnapshotMissingMetadata [0x73], SnapshotXidDisorder 8, ReaperPendingObject 77]"
proof -
  have len: "length audit_apsb = 4096" by simp
  have p: "apfs_volume_parse audit_apsb = Inr (demo_volume 7 5)" by (rule apfs_volume_parse_enc) simp
  have "read_block_sat (audit_rd audit_apsb) 7 4096 = Inr audit_apsb"
    using audit_reads [OF len, of 7] by (simp add: audit_blocks_def)
  then show ?thesis
    by (simp add: audit_container_def audit_open audit_snapshots audit_addrs [OF len] audit_integrity audit_pending [OF len] p
        audit_volume_def clones_audit_def clone_anomalies_def recovery_audit_def reaper_anomalies_def)
qed


theorem audit_skips_unparsable_witness:
  "apfs_volume_parse (replicate 4096 0) = Inl (apsb_bad_type (ucast OBJECT_TYPE_FS) 0)
   \<and> audit_container (audit_rd (replicate 4096 0)) 4096 = Inr [XidReuse 0x400 7, ReaperPendingObject 77]"
proof -
  let ?vb = "replicate 4096 0 :: bytes"
  have len: "length ?vb = 4096" by simp
  have bad: "apfs_volume_parse ?vb = Inl (apsb_bad_type (ucast OBJECT_TYPE_FS) 0)"
    by (simp add: apfs_volume_parse_def layout_defs obj_phys_parse_def obj_type_def le_u32_def arr_in_range)
  have "list_all (unparsable_volume (audit_rd ?vb) 4096) [7]"
    using audit_reads [OF len, of 7] bad by (simp add: unparsable_volume_def audit_blocks_def)
  moreover have "recovery_audit (audit_rd ?vb) 8 (ac_checkpoint_mappings audit_c) 4096 = Inr [ReaperPendingObject 77]"
    using audit_pending [OF len] by (simp add: recovery_audit_def reaper_anomalies_def)
  ultimately have "audit_container (audit_rd ?vb) 4096 = Inr [XidReuse 0x400 7, ReaperPendingObject 77]"
    using audit_skips_unparsable [OF audit_open audit_addrs [OF len]] audit_pending [OF len] audit_integrity by simp
  with bad show ?thesis by blast
qed

end
