(* ===== verification/Sample_Handle.thy ===== *)
theory Sample_Handle
  imports Vfs Sample_Snapshot
begin

text \<open>The sample volume behind a mounted handle, for the theorems on the adapter.\<close>

definition demo_host :: host where
  "demo_host = \<lparr> h_crypto = no_crypto, h_codec = demo_lib, h_io_text = (\<lambda>_. []) \<rparr>"

definition demo_fs :: apfs_fs where
  "demo_fs = \<lparr> fs_reader = demo_rd, fs_poisoned = False, fs_volume = demo_vol, fs_block_size = 1024,
     fs_root_xid = 7, fs_spaceman_paddr = None \<rparr>"

lemmas demo_handle_defs = demo_host_def demo_fs_def

lemma demo_load_inode: "load_inode no_crypto demo_rd demo_vol 16 1024 = Inr demo_file_inode"
  by (simp add: load_inode_stored [OF demo_facts] demo_inode_value)

lemma demo_xattrs: "list_xattrs no_crypto demo_rd demo_vol 16 1024
    = Inr [\<lparr> xa_name = [0x78], xa_flags = 2, xa_value = XEmbedded [9] \<rparr>]"
proof -
  have "parse_xattr (enc_xattr_key 16 [0x78]) (enc_xattr_val 2 [9])
      = Some \<lparr> xa_name = [0x78], xa_flags = 2, xa_value = XEmbedded [9] \<rparr>"
    by (simp add: parse_xattr_enc utf8_step_def XATTR_DATA_STREAM_def)
  then show ?thesis
    by (simp add: list_xattrs_stored [OF demo_facts] xattrs_of_def demo_records demo_fs_leaf1_def demo_fs_leaf2_def
        demo_keys demo_extents_def case_prod_unfold List.map_filter_simps)
qed

lemma demo_content:
  "\<exists>data. stream_content demo_host demo_fs 16 DefaultStream = Inr data \<and> length data = 2100"
proof -
  have "\<exists>out. read_stream no_crypto demo_rd demo_vol 16 2100 1024 = Inr out \<and> length out = unat (2100 :: u64)
      \<and> (\<forall>i<unat (2100 :: u64). out ! i
          = stream_byte no_crypto (vol_vek demo_vol) demo_fs_image 1024 (extents_of demo_fs_tree 16) i 0)"
    by (rule read_stream_stored [OF demo_facts]) (use demo_stream_ok in \<open>simp_all add: MAX_FILE_BYTES_def\<close>)
  moreover have "decmpfs_header no_crypto demo_rd demo_vol 16 1024 = Inr None"
    by (simp add: decmpfs_header_def get_xattr_def demo_xattrs XATTR_NAME_DECMPFS_def str_bytes_def)
  ultimately show ?thesis
    by (auto simp: stream_content_def demo_handle_defs demo_load_inode read_data_def) (auto simp: demo_file_inode_def)
qed

theorem vfs_read_windows_witness:
  "\<exists>data. length data = 2100
     \<and> read_to_end demo_host demo_fs (ApfsOid 16 7) DefaultStream 512 0 [] = Some (Inr data, demo_fs)
     \<and> read_to_end demo_host demo_fs (ApfsOid 16 7) (XattrStream 0) 1 0 [] = Some (Inr [9], demo_fs)"
proof -
  obtain data where d: "stream_content demo_host demo_fs 16 DefaultStream = Inr data" "length data = 2100"
    using demo_content by blast
  have "stream_content demo_host demo_fs 16 (XattrStream 0) = Inr [9]"
    by (simp add: stream_content_def demo_handle_defs demo_xattrs get_at_def)
  then have "read_to_end demo_host demo_fs (ApfsOid 16 7) (XattrStream 0) 1 0 [] = Some (Inr [9], demo_fs)"
    by (intro vfs_read_windows) (simp_all add: addressable_def demo_fs_def)
  moreover have "read_to_end demo_host demo_fs (ApfsOid 16 7) DefaultStream 512 0 [] = Some (Inr data, demo_fs)"
    using d by (intro vfs_read_windows) (simp_all add: addressable_def demo_fs_def)
  ultimately show ?thesis using d(2) by blast
qed

theorem stream_sizes_honest_witness:
  "\<exists>infos data. data_streams demo_host demo_fs (ApfsOid 16 7) = (Inr infos, demo_fs)
     \<and> si_size (infos ! 0) = 2100 \<and> si_size (infos ! 1) = 1
     \<and> stream_content demo_host demo_fs 16 (si_id (infos ! 0)) = Inr data \<and> length data = unat (si_size (infos ! 0))"
proof -
  define infos where "infos = [\<lparr> si_id = DefaultStream, si_name = None, si_size = 2100, si_residency = NonResident,
      si_kind = ApfsNamed_Stream \<rparr>, \<lparr> si_id = XattrStream 0, si_name = Some [0x78], si_size = 1,
      si_residency = Resident 1, si_kind = Xattr_Stream \<rparr>]"
  have ds: "data_streams demo_host demo_fs (ApfsOid 16 7) = (Inr infos, demo_fs)"
    by (simp add: data_streams_def oid_of_def with_reader_def demo_handle_defs demo_load_inode demo_xattrs
        xattr_stream_info_def try_u16_def try_u32_def infos_def demo_file_inode_def)
  obtain data where d: "stream_content demo_host demo_fs 16 DefaultStream = Inr data" using demo_content by blast
  have "decmpfs_header no_crypto demo_rd demo_vol 16 1024 = Inr None"
    by (simp add: decmpfs_header_def get_xattr_def demo_xattrs XATTR_NAME_DECMPFS_def str_bytes_def)
  then have "length data = unat (si_size (infos ! 0))"
    using d stream_sizes_honest [of demo_host demo_fs demo_fs_image 16 7 infos demo_fs 0 data] ds
    by (simp add: demo_handle_defs no_crypto_def infos_def)
  then show ?thesis using ds d by (intro exI [of _ infos] exI [of _ data]) (simp add: infos_def)
qed

end
