(* ===== verification/Sample_Panic.thy ===== *)
theory Sample_Panic
  imports Fuzz_Targets Sample_Audit Sample_Handle
begin

text \<open>
  The audited container mounted as a handle, and an image of one sealed superblock whose
  descriptor area begins at the last block address: the pipeline target panics on it.
\<close>

definition audit_fs :: apfs_fs where
  "audit_fs = \<lparr> fs_reader = audit_rd audit_apsb, fs_poisoned = False, fs_volume = demo_volume 7 5,
     fs_block_size = 4096, fs_root_xid = 7, fs_spaceman_paddr = Some 100 \<rparr>"

lemma audit_fs_open: "fs_open (audit_rd audit_apsb) = Inr audit_fs"
proof -
  have len: "length audit_apsb = 4096" by simp
  have "spaceman_paddr audit_c = Some 100"
    by (simp add: audit_c_def spaceman_paddr_def resolve_ephemeral_def) (simp add: demo_nx_def)
  moreover have "nx_block_size (ac_superblock audit_c) = 4096" by (simp add: audit_c_def demo_nx_fields)
  moreover have "apfs_volume_parse audit_apsb = Inr (demo_volume 7 5)" by (rule apfs_volume_parse_enc) simp
  moreover have "read_block_sat (audit_rd audit_apsb) 7 4096 = Inr audit_apsb"
    using audit_reads [OF len, of 7] by (simp add: audit_blocks_def)
  moreover have "vol_xid (demo_volume 7 5) = 7" by (simp add: demo_volume_def)
  ultimately show ?thesis
    by (simp add: fs_open_def open_first_volume_def audit_open audit_addrs [OF len] audit_fs_def)
qed

theorem opened_handle_never_poisoned_witness:
  "serve demo_host audit_fs [CallUnallocated, CallReadDir (ApfsOid 2 7), CallDeleted]
     = ([fst (exec demo_host audit_fs CallUnallocated), fst (exec demo_host audit_fs (CallReadDir (ApfsOid 2 7))),
         ReplyNodes (Inr [])], audit_fs)
   \<and> \<not> fs_poisoned audit_fs"
  using opened_handle_never_poisoned [OF disjI1 [OF audit_fs_open],
      of demo_host "[CallUnallocated, CallReadDir (ApfsOid 2 7), CallDeleted]"]
  by (simp only: list.map exec.simps deleted_def map_prod_simp fst_conv simp_thms)

definition panic_nx :: nx_superblock where
  "panic_nx = (demo_nx 7)\<lparr> nx_xp_desc_base := - 1 \<rparr>"

lemma fuzz_forensic_at_panic_nx:
  "fuzz_forensic (enc_nx panic_nx demo_nx_rest) = Inl (Panic ''attempt to add with overflow'')"
proof -
  have ok: "nx_encodable panic_nx demo_nx_rest"
    using demo_nx_encodable [of 7] by (simp add: panic_nx_def nx_encodable_def)
  have len: "length (enc_nx panic_nx demo_nx_rest) = 4096"
    using length_enc_nx_header [OF ok] by (simp add: enc_nx_def) (simp add: panic_nx_def demo_nx_def demo_nx_rest_def)
  have "scans_ring (enc_nx panic_nx demo_nx_rest) panic_nx"
    using len nx_superblock_parse_enc [OF ok]
    by (simp add: scans_ring_def) (simp add: panic_nx_def demo_nx_def is_fusion_def xp_desc_is_tree_def
        block_size_in_range_def layout_defs)
  moreover have "ring_overflows panic_nx"
    by (simp add: ring_overflows_def panic_nx_def demo_nx_def unsigned_minus_1_eq_mask mask_eq_exp_minus_1)
  ultimately have "\<exists>sb. scans_ring (enc_nx panic_nx demo_nx_rest) sb \<and> ring_overflows sb" by (intro exI conjI)
  then have "audit_container (cursor (enc_nx panic_nx demo_nx_rest)) 4096
      = Inl (Panic ''attempt to add with overflow'')"
    unfolding audit_container_panic container_open_panic by (intro conjI refl)
  then show ?thesis by (simp add: fuzz_forensic_def)
qed

end
