(* ===== verification/Keybag.thy ===== *)
theory Keybag
  imports Encryption
begin

text \<open>
  Keybags as written: an area whose locker header announces its entries and whose entries follow
  one another, 16-byte aligned. What each reader of \<^verbatim>\<open>encryption.rs\<close> makes of such an area, whatever
  precedes the header and follows the last entry: the tag inventory of \<^verbatim>\<open>read_keybag\<close>, the records
  of a volume, the wrapped-KEK object.
\<close>

subsection \<open>Written keybags\<close>

definition keybag_written :: "bytes \<Rightarrow> (bytes \<times> u16 \<times> bytes) list \<Rightarrow> bool" where
  "keybag_written kb es \<longleftrightarrow>
     list_all ke_ok es \<and> length es \<le> 4096
     \<and> (\<exists>pre post. length pre = 48 \<and> le_u16 pre 34 = of_nat (length es) \<and> kb = pre @ concat (map enc_ke es) @ post)"

lemma keybag_nkeys_written:
  assumes "keybag_written kb es"
  shows "keybag_nkeys kb = length es"
proof -
  have "unat (of_nat (length es) :: u16) = length es"
    using assms by (simp add: keybag_written_def unat_of_nat take_bit_nat_eq_self)
  then show ?thesis
    using assms by (auto simp: keybag_written_def keybag_nkeys_def layout_defs le_u16_append)
qed

lemma keybag_entries_written:
  assumes "keybag_written kb es"
  shows "keybag_entries kb (keybag_nkeys kb) KL_ENTRIES_OFF = map (\<lambda>(u, t, d). (u, keybag_tag_from_u16 t, d)) es"
proof -
  obtain pre post where "length pre = 48" "kb = pre @ concat (map enc_ke es) @ post" "list_all ke_ok es"
    using assms by (auto simp: keybag_written_def)
  then show ?thesis
    using keybag_entries_enc [of es pre post] keybag_nkeys_written [OF assms] by (simp add: KL_ENTRIES_OFF_def)
qed

lemma owned_entries_written:
  "keybag_written kb es \<Longrightarrow>
     owned_entries uuid kb = map (\<lambda>(u, t, d). (u, keybag_tag_from_u16 t, d)) (filter (\<lambda>e. fst e = uuid) es)"
  by (simp add: owned_entries_def keybag_entries_written filter_map comp_def case_prod_unfold)

subsection \<open>The tag inventory\<close>

text \<open>The raw tags of the entries with the offsets they are written at.\<close>

primrec placed_tags :: "nat \<Rightarrow> (bytes \<times> u16 \<times> bytes) list \<Rightarrow> (u16 \<times> u64) list" where
  "placed_tags off [] = []"
| "placed_tags off (e # es) =
     (fst (snd e), of_nat off) # placed_tags (off + keybag_step (length (snd (snd e)))) es"

definition collect_tags :: "(u16 \<times> u64) list \<Rightarrow> keybag_tag list \<Rightarrow> keybag_tag list" where
  "collect_tags ps tags =
     fold (\<lambda>p tags. let t = keybag_tag_from_u16 (fst p) in if t \<in> set tags then tags else tags @ [t]) ps tags"

lemma set_collect_tags: "set (collect_tags ps tags) = set tags \<union> (keybag_tag_from_u16 \<circ> fst) ` set ps"
  by (induction ps arbitrary: tags) (auto simp: collect_tags_def Let_def)

lemma distinct_collect_tags: "distinct tags \<Longrightarrow> distinct (collect_tags ps tags)"
  by (induction ps arbitrary: tags) (auto simp: collect_tags_def Let_def)

lemma read_keybag_loop_written:
  "list_all ke_ok es \<Longrightarrow>
     read_keybag_loop (pre @ concat (map enc_ke es) @ post) (length es) (length pre) tags unknown
       = (collect_tags (placed_tags (length pre) es) tags,
          unknown @ filter (\<lambda>p. keybag_tag_from_u16 (fst p) = UnknownTag) (placed_tags (length pre) es))"
proof (induction es arbitrary: pre tags unknown)
  case (Cons e es)
  obtain u t d where e: "e = (u, t, d)" by (cases e) auto
  have ok: "ke_ok (u, t, d)" using Cons.prems e by simp
  note IH = Cons.IH [of "pre @ enc_ke e"]
  show ?case
    using enc_ke_fields [OF ok, of pre "concat (map enc_ke es) @ post"] length_enc_ke [OF ok] IH Cons.prems
    by (simp add: e layout_defs Let_def collect_tags_def)
qed (simp add: collect_tags_def)

lemma placed_tags_fst: "fst ` set (placed_tags off es) = (\<lambda>e. fst (snd e)) ` set es"
  by (induction es arbitrary: off) auto

lemma read_keybag_written:
  assumes "keybag_written kb es"
  shows "\<exists>tags. read_keybag kb = Inr \<lparr>
      es_encrypted = (\<exists>e\<in>set es. fst (snd e) \<in> {1, 2, 3}),
      es_tags_present = tags,
      es_has_passphrase_hint = (\<exists>e\<in>set es. fst (snd e) = 4),
      es_unknown_tags = filter (\<lambda>p. fst p \<notin> {1, 2, 3, 4, 0xf8}) (placed_tags 48 es) \<rparr>
    \<and> distinct tags \<and> set tags = (\<lambda>e. keybag_tag_from_u16 (fst (snd e))) ` set es"
proof -
  obtain pre post where kb: "length pre = 48" "kb = pre @ concat (map enc_ke es) @ post" and ok: "list_all ke_ok es"
    using assms by (auto simp: keybag_written_def)
  let ?tags = "collect_tags (placed_tags 48 es) []"
  have loop: "read_keybag_loop kb (keybag_nkeys kb) KL_ENTRIES_OFF [] []
      = (?tags, filter (\<lambda>p. keybag_tag_from_u16 (fst p) = UnknownTag) (placed_tags 48 es))"
    using read_keybag_loop_written [OF ok, of pre post "[]" "[]"] kb keybag_nkeys_written [OF assms]
    by (simp add: KL_ENTRIES_OFF_def)
  have tags: "set ?tags = keybag_tag_from_u16 ` (\<lambda>e. fst (snd e)) ` set es"
    by (simp only: set_collect_tags image_comp [symmetric] placed_tags_fst) simp
  have unk: "keybag_tag_from_u16 t = UnknownTag \<longleftrightarrow> t \<notin> {1, 2, 3, 4, 0xf8}" for t
    by (simp add: keybag_tag_from_u16_def)
  have kinds: "keybag_tag_from_u16 t = WrappingKey \<longleftrightarrow> t = 1" "keybag_tag_from_u16 t = VolumeKey \<longleftrightarrow> t = 2"
    "keybag_tag_from_u16 t = VolumeUnlockRecords \<longleftrightarrow> t = 3" "keybag_tag_from_u16 t = VolumePassphraseHint \<longleftrightarrow> t = 4" for t
    by (auto simp: keybag_tag_from_u16_def)
  have enc: "list_ex (\<lambda>t. t = WrappingKey \<or> t = VolumeKey \<or> t = VolumeUnlockRecords) ?tags
      \<longleftrightarrow> (\<exists>e\<in>set es. fst (snd e) \<in> {1, 2, 3})"
    by (simp add: list_ex_iff tags kinds)
  have hint: "VolumePassphraseHint \<in> set ?tags \<longleftrightarrow> (\<exists>e\<in>set es. fst (snd e) = 4)"
    unfolding tags kinds [symmetric] by (force simp: image_iff)
  show ?thesis
    using loop enc hint tags distinct_collect_tags [of "[]" "placed_tags 48 es"]
    by (auto simp: read_keybag_def unk image_image)
qed

subsection \<open>The wrapped-KEK object\<close>

primrec first_some :: "('a \<Rightarrow> 'b option) \<Rightarrow> 'a list \<Rightarrow> 'b option" where
  "first_some f [] = None"
| "first_some f (x # xs) = (case f x of None \<Rightarrow> first_some f xs | Some y \<Rightarrow> Some y)"

lemma first_some_map: "first_some f (map g xs) = first_some (f \<circ> g) xs"
  by (induction xs) (simp_all split: option.split)

definition kek_object_of :: "keybag_tag \<times> bytes \<Rightarrow> bytes option" where
  "kek_object_of e =
     (if fst e = WrappingKey \<or> fst e = VolumeUnlockRecords
      then ber_find (option_or (ber_find (snd e) 0x30) (snd e)) 0xa3 else None)"

lemma ber_find_Nil [simp]: "ber_find [] t = None"
  by (subst ber_find_def, subst ber_find_loop.simps) simp

lemma find_kek_loop_entries:
  "find_kek_loop kb n off = first_some (kek_object_of \<circ> snd) (keybag_entries kb n off)"
proof (induction n arbitrary: off)
  case (Suc n)
  show ?case
    by (auto simp: Let_def Suc.IH kek_object_of_def option_or_def split: option.split)
qed simp

lemma find_kek_object_written:
  "keybag_written kb es \<Longrightarrow>
     find_kek_object kb = first_some (\<lambda>(u, t, d). kek_object_of (keybag_tag_from_u16 t, d)) es"
  by (simp add: find_kek_object_def find_kek_loop_entries keybag_entries_written first_some_map comp_def case_prod_unfold)

subsection \<open>Keybag areas of an image\<close>

abbreviation image_block_size :: "bytes \<Rightarrow> nat" where
  "image_block_size img \<equiv> unat (le_u32 img NX_BLOCK_SIZE)"

lemma keybag_extent_area:
  assumes "length img < 2 ^ 64"
  shows "case get_range img (unat paddr * bs) (unat paddr * bs + unat blocks * bs) of
      Some ct \<Rightarrow> keybag_extent bad f1 f2 f3 f4 img paddr blocks bs = Inr (unat paddr * bs, ct)
    | None \<Rightarrow> \<exists>e. keybag_extent bad f1 f2 f3 f4 img paddr blocks bs = Inl e"
proof (cases "get_range img (unat paddr * bs) (unat paddr * bs + unat blocks * bs)")
  case (Some ct)
  then have "unat paddr * bs + unat blocks * bs < 2 ^ 64" using assms by (simp add: get_range_eq_Some)
  then have "unat paddr * bs < 2 ^ 64" "unat blocks * bs < 2 ^ 64" "unat paddr * bs + unat blocks * bs < 2 ^ 64"
    by linarith+
  then show ?thesis using Some by (simp add: keybag_extent_def Let_def)
qed (auto simp: keybag_extent_def Let_def)


subsection \<open>Unlocking a written volume\<close>

text \<open>
  The key chain as a writer stores it. In the container keybag the volume's entries are its wrapped
  volume key, inside two levels of framing, and the block range of its own keybag; in the volume
  keybag the wrapped KEK stands with its iteration count and salt.
\<close>

definition vek_entry :: "bytes \<Rightarrow> bytes" where
  "vek_entry wrapped_vek = enc_tlv (0x30, enc_tlv (0xa3, enc_tlv (0x83, wrapped_vek)))"

definition kek_entry :: "bytes \<Rightarrow> bytes \<Rightarrow> bytes \<Rightarrow> bytes" where
  "kek_entry wrapped_kek iters salt =
     enc_tlv (0x30, enc_tlv (0xa3, enc_tlv (0x83, wrapped_kek) @ enc_tlv (0x84, iters) @ enc_tlv (0x85, salt)))"

lemma ber_find_single: "length v < 2 ^ 16 \<Longrightarrow> ber_find (enc_tlv (t, v)) t' = (if t' = t then Some v else None)"
  using ber_find_round_trip [of "[(t, v)]" t'] by (simp add: tlv_ok_def)

lemma length_enc_tlv: "length (enc_tlv (t, v)) \<le> length v + 4"
  by (simp add: enc_tlv_def ber_len_bytes_def)

lemma vek_entry_read:
  assumes "length w = 40"
  shows "volume_entry VolumeKey (vek_entry w) (x, y) = Inr (Some w, y)"
  using assms length_enc_tlv [of "0x83" w] length_enc_tlv [of "0xa3" "enc_tlv (0x83, w)"]
  by (simp add: vek_entry_def ber_find_single option_or_def)

lemma keybag_location_read:
  "volume_entry VolumeUnlockRecords (to_le 8 blk @ to_le 8 cnt) (x, y) = Inr (x, Some (blk, cnt))"
  by (simp add: le_u64_def arr_fields)

lemma kek_entry_read:
  assumes "t = WrappingKey \<or> t = VolumeUnlockRecords" "length w = 40" "length it \<le> 8" "length sl = 16"
  shows "kek_object_of (t, kek_entry w it sl) = Some (concat (map enc_tlv [(0x83, w), (0x84, it), (0x85, sl)]))"
proof -
  let ?obj = "enc_tlv (0x83, w) @ enc_tlv (0x84, it) @ enc_tlv (0x85, sl)"
  have "length ?obj \<le> 76"
    using assms length_enc_tlv [of "0x83" w] length_enc_tlv [of "0x84" it] length_enc_tlv [of "0x85" sl] by simp
  then show ?thesis
    using assms(1) length_enc_tlv [of "0xa3" ?obj] by (auto simp: kek_object_of_def kek_entry_def ber_find_single option_or_def)
qed

lemma volume_records_of_written:
  assumes "keybag_written kb es"
    and "filter (\<lambda>e. fst e = u) es = [(u, 2, vek_entry w), (u, 3, to_le 8 blk @ to_le 8 cnt)]" "length w = 40"
  shows "volume_records kb u
    = Inr \<lparr> vr_wrapped_vek = w, vr_volume_keybag_block = blk, vr_volume_keybag_blocks = cnt \<rparr>"
proof -
  have "owned_entries u kb = [(u, VolumeKey, vek_entry w), (u, VolumeUnlockRecords, to_le 8 blk @ to_le 8 cnt)]"
    using owned_entries_written [OF assms(1), of u] assms(2) by (simp add: keybag_tag_from_u16_def)
  then show ?thesis
    unfolding volume_records_def volume_records_loop_entries owned_entries_def [symmetric]
    using assms(3) by (simp add: vek_entry_read keybag_location_read del: volume_entry.simps)
qed

lemma find_kek_object_of_written:
  assumes "keybag_written kb (skipped @ (x, t, kek_entry w it sl) # rest)"
    and "list_all (\<lambda>e. fst (snd e) \<notin> {1, 3}) skipped" "t \<in> {1, 3}"
    and "length w = 40" "length it \<le> 8" "length sl = 16"
  shows "find_kek_object kb = Some (concat (map enc_tlv [(0x83, w), (0x84, it), (0x85, sl)]))"
proof -
  have "kek_object_of (keybag_tag_from_u16 a, d) = None" if "a \<notin> {1, 3}" for a d
    using that by (simp add: kek_object_of_def keybag_tag_from_u16_def)
  then have "first_some (\<lambda>(u, t, d). kek_object_of (keybag_tag_from_u16 t, d)) (skipped @ es)
      = first_some (\<lambda>(u, t, d). kek_object_of (keybag_tag_from_u16 t, d)) es" for es
    using assms(2) by (induction skipped) auto
  moreover have "keybag_tag_from_u16 t = WrappingKey \<or> keybag_tag_from_u16 t = VolumeUnlockRecords"
    using assms(3) by (auto simp: keybag_tag_from_u16_def)
  ultimately show ?thesis
    using find_kek_object_written [OF assms(1)] kek_entry_read [OF _ assms(4-6)] by simp
qed

lemma unlock_written_keybag:
  assumes "find_kek_object kb = Some (concat (map enc_tlv [(0x83, w), (0x84, it), (0x85, sl)]))"
    and "length w = 40" "it \<noteq> []" "length it \<le> 8" "length sl = 16"
    and "pbkdf2 cr pw sl (max (iterations_of it) 1) 32 = Some dk" "length dk = 32"
  shows "unlock_with_volume_keybag cr kb rec pw =
    (case aes_key_unwrap cr dk w of
       Inl e \<Rightarrow> Inl e
     | Inr kek \<Rightarrow> if length kek \<noteq> 32 then Inl (bad_vkb ''kek_len'' (of_nat (length kek)) 32)
                  else if length (vr_wrapped_vek rec) \<noteq> 40
                  then Inl (bad_vkb ''wrapped_vek_len'' (of_nat (length (vr_wrapped_vek rec))) 40)
                  else aes_key_unwrap cr kek (vr_wrapped_vek rec))"
proof -
  have "parse_wrapped_kek (concat (map enc_tlv [(0x83, w), (0x84, it), (0x85, sl)]))
      = Inr \<lparr> wk_wrapped_key = w, wk_iterations = iterations_of it, wk_salt = sl \<rparr>"
    using assms(2-5) by (intro parse_wrapped_kek_round_trip) (auto simp: tlv_ok_def)
  then show ?thesis
    using assms by (simp add: unlock_with_volume_keybag_def derive_key_from_password_def Let_def)
qed

text \<open>
  An image that stores the key chain of volume \<open>u\<close>: the container superblock announces a keybag
  area, both keybag areas are the encryption of written keybags under the container's and the
  volume's UUID at their sector numbers, and the keybags hold \<open>wvek\<close> and \<open>(wkek, it, sl)\<close>.
\<close>

definition stored_area :: "(bytes \<Rightarrow> nat \<Rightarrow> bytes \<Rightarrow> bytes) \<Rightarrow> bytes \<Rightarrow> bytes \<Rightarrow> u64 \<Rightarrow> u64 \<Rightarrow> bytes \<Rightarrow> bool" where
  "stored_area xts_enc img uuid blk cnt plain \<longleftrightarrow>
     (let bs = image_block_size img; start = unat blk * bs; len = unat cnt * bs
      in 0 < len \<and> length plain = len
         \<and> get_range img start (start + len) = Some (xts_enc uuid (start div KEYBAG_SECTOR) plain))"

definition stored_key_chain :: "(bytes \<Rightarrow> nat \<Rightarrow> bytes \<Rightarrow> bytes) \<Rightarrow> bytes \<Rightarrow> bytes \<Rightarrow> bytes \<Rightarrow> bytes \<Rightarrow> bytes \<Rightarrow> bytes \<Rightarrow> bool" where
  "stored_key_chain xts_enc img u wvek wkek it sl \<longleftrightarrow>
     length img < 2 ^ 64 \<and> length u = 16
     \<and> get_range img 32 36 = Some [0x4E, 0x58, 0x53, 0x42]
     \<and> KEYBAG_SECTOR dvd image_block_size img \<and> le_u64 img NX_KEYBAG_BLOCK \<noteq> 0
     \<and> length wvek = 40 \<and> length wkek = 40 \<and> it \<noteq> [] \<and> length it \<le> 8 \<and> length sl = 16
     \<and> (\<exists>cu ckb ces blk cnt vkb ves x t.
           get_range img NX_CONTAINER_UUID (NX_CONTAINER_UUID + 16) = Some cu
         \<and> stored_area xts_enc img cu (le_u64 img NX_KEYBAG_BLOCK) (le_u64 img NX_KEYBAG_BLOCKS) ckb
         \<and> keybag_written ckb ces
         \<and> filter (\<lambda>e. fst e = u) ces = [(u, 2, vek_entry wvek), (u, 3, to_le 8 blk @ to_le 8 cnt)]
         \<and> stored_area xts_enc img u blk cnt vkb
         \<and> keybag_written vkb ((x, t, kek_entry wkek it sl) # ves) \<and> t \<in> {1, 3})"

lemma keybag_extent_stored:
  assumes "stored_area xts_enc img uuid blk cnt plain" "length img < 2 ^ 64"
  shows "keybag_extent bad f1 f2 f3 f4 img blk cnt (image_block_size img)
    = Inr (unat blk * image_block_size img, xts_enc uuid (unat blk * image_block_size img div KEYBAG_SECTOR) plain)"
  using assms keybag_extent_area [OF assms(2), where paddr = blk and blocks = cnt and bs = "image_block_size img"]
  by (auto simp: stored_area_def Let_def)

lemma stored_key_chain_opened:
  assumes "\<And>k s d. length k = 16 \<Longrightarrow> KEYBAG_SECTOR dvd length d \<Longrightarrow> xts_area cr k k KEYBAG_SECTOR s (xts_enc k s d) = d"
    and "stored_key_chain xts_enc img u wvek wkek it sl"
  obtains ckb ces rec vkb where "decrypt_container_keybag cr img = Inr ckb" "keybag_written ckb ces"
    and "\<exists>e\<in>set ces. fst (snd e) = 2" "volume_records ckb u = Inr rec" "vr_wrapped_vek rec = wvek"
    and "\<And>pw. unlock_volume cr img u pw = unlock_with_volume_keybag cr vkb rec pw"
    and "find_kek_object vkb = Some (concat (map enc_tlv [(0x83, wkek), (0x84, it), (0x85, sl)]))"
proof -
  obtain cu ckb ces blk cnt vkb ves x t where c:
      "get_range img NX_CONTAINER_UUID (NX_CONTAINER_UUID + 16) = Some cu"
      "stored_area xts_enc img cu (le_u64 img NX_KEYBAG_BLOCK) (le_u64 img NX_KEYBAG_BLOCKS) ckb"
      "keybag_written ckb ces"
      "filter (\<lambda>e. fst e = u) ces = [(u, 2, vek_entry wvek), (u, 3, to_le 8 blk @ to_le 8 cnt)]"
      "stored_area xts_enc img u blk cnt vkb" "keybag_written vkb ((x, t, kek_entry wkek it sl) # ves)" "t \<in> {1, 3}"
    using assms(2) unfolding stored_key_chain_def by blast
  have i: "length img < 2 ^ 64" "length u = 16" "get_range img 32 36 = Some [0x4E, 0x58, 0x53, 0x42]"
      "KEYBAG_SECTOR dvd image_block_size img" "le_u64 img NX_KEYBAG_BLOCK \<noteq> 0"
      "length wvek = 40" "length wkek = 40" "it \<noteq> []" "length it \<le> 8" "length sl = 16"
    using assms(2) by (simp_all add: stored_key_chain_def)
  have pl: "decrypt_keybag_area cr (xts_enc k s plain) k s = plain" if "stored_area xts_enc img k b n plain" "length k = 16"
    for k s b n plain
    using that i(4) assms(1) by (simp add: decrypt_keybag_area_def xts_decrypt_area_def stored_area_def Let_def)
  have cu: "length cu = 16" using get_range_length [OF c(1)] by simp
  have "image_block_size img \<noteq> 0 \<and> image_block_size img mod KEYBAG_SECTOR = 0 \<and> le_u64 img NX_KEYBAG_BLOCKS \<noteq> 0"
    using c(2) i(4) by (auto simp: stored_area_def Let_def)
  then have d: "decrypt_container_keybag cr img = Inr ckb"
    using c(1) i pl [OF c(2) cu] keybag_extent_stored [OF c(2) i(1)]
    by (simp add: decrypt_container_keybag_def decrypt_container_keybag_with_uuid_def Let_def)
  note r = volume_records_of_written [OF c(3,4) i(6)]
  have f: "find_kek_object vkb = Some (concat (map enc_tlv [(0x83, wkek), (0x84, it), (0x85, sl)]))"
    using find_kek_object_of_written [of vkb "[]"] c(6,7) i by simp
  have "(u, 2, vek_entry wvek) \<in> set (filter (\<lambda>e. fst e = u) ces)" using c(4) by simp
  then have "\<exists>e\<in>set ces. fst (snd e) = 2" by force
  moreover have "unlock_volume cr img u pw = unlock_with_volume_keybag cr vkb
      \<lparr> vr_wrapped_vek = wvek, vr_volume_keybag_block = blk, vr_volume_keybag_blocks = cnt \<rparr> pw" for pw
    using d r keybag_extent_stored [OF c(5) i(1)] pl [OF c(5) i(2)] by (simp add: unlock_volume_def)
  ultimately show thesis using d c(3) r f by (intro that) auto
qed

lemma stored_key_chain_unlock:
  assumes "\<And>k s d. length k = 16 \<Longrightarrow> KEYBAG_SECTOR dvd length d \<Longrightarrow> xts_area cr k k KEYBAG_SECTOR s (xts_enc k s d) = d"
    and "stored_key_chain xts_enc img u wvek wkek it sl"
    and "pbkdf2 cr pw sl (max (iterations_of it) 1) 32 = Some dk" "length dk = 32"
  shows "unlock_volume cr img u pw =
    (case aes_key_unwrap cr dk wkek of
       Inl e \<Rightarrow> Inl e
     | Inr kek \<Rightarrow> if length kek \<noteq> 32 then Inl (bad_vkb ''kek_len'' (of_nat (length kek)) 32)
                  else aes_key_unwrap cr kek wvek)"
proof -
  obtain ckb ces rec vkb where c: "vr_wrapped_vek rec = wvek"
      "\<And>pw. unlock_volume cr img u pw = unlock_with_volume_keybag cr vkb rec pw"
      "find_kek_object vkb = Some (concat (map enc_tlv [(0x83, wkek), (0x84, it), (0x85, sl)]))"
    using stored_key_chain_opened [OF assms(1,2)] by metis
  have i: "length wvek = 40" "length wkek = 40" "it \<noteq> []" "length it \<le> 8" "length sl = 16"
    using assms(2) by (simp_all add: stored_key_chain_def)
  show ?thesis
    using unlock_written_keybag [OF c(3) i(2-5) assms(3,4)] i(1) c(1) by (simp add: c(2) split: sum.split)
qed

text \<open>
  C15. The unlock round trip. On an image that stores a volume's key chain, for a cipher library
  whose decryption inverts its encryption and whose key unwrap inverts its key wrap, the password
  whose derived key wrapped the KEK recovers exactly the volume key, and every password whose
  derived key fails the key-wrap integrity check gets the integrity error and no key.
\<close>

theorem unlock_volume_round_trip:
  assumes "\<And>k s d. length k = 16 \<Longrightarrow> KEYBAG_SECTOR dvd length d \<Longrightarrow> xts_area cr k k KEYBAG_SECTOR s (xts_enc k s d) = d"
    and "kw_unwrap cr dk wkek = Some kek" "length kek = 32" "kw_unwrap cr kek wvek = Some vek"
    and "pbkdf2 cr pw sl (max (iterations_of it) 1) 32 = Some dk" "length dk = 32"
    and "stored_key_chain xts_enc img u wvek wkek it sl"
  shows "unlock_volume cr img u pw = Inr vek
    \<and> (\<forall>pw' dk'. pbkdf2 cr pw' sl (max (iterations_of it) 1) 32 = Some dk' \<and> length dk' = 32
        \<and> kw_unwrap cr dk' wkek = None
        \<longrightarrow> unlock_volume cr img u pw' = Inl (FieldOutOfRange ''aes_key_wrap'' ''integrity_check'' 0 1))"
  using stored_key_chain_unlock [OF assms(1,7), of pw] stored_key_chain_unlock [OF assms(1,7)] assms(2-6)
  by (auto simp: aes_key_unwrap_def)

end
