(* ===== verification/Unlock_Check.thy ===== *)
theory Unlock_Check
  imports Keybag Display
begin

text \<open>
  \<^verbatim>\<open>core/examples/unlock_check.rs\<close>: the command-line tool that tests a password against an image
  with ranged reads. The tool is a function from its argument, its standard input and the file it
  opens to a transcript (lines on both streams and the exit code). The lemmas relate it to the
  whole-image operations of \<^verbatim>\<open>encryption.rs\<close>: which exit code means what, what it reads, and that
  refused passwords leave no trace.
\<close>

subsection \<open>Reading fields\<close>

definition uc_le_u16 :: "bytes \<Rightarrow> nat \<Rightarrow> u16" where
  "uc_le_u16 d off = (case get_range d off (off + 2) of None \<Rightarrow> 0 | Some s \<Rightarrow> le_word s)"

definition uc_le_u32 :: "bytes \<Rightarrow> nat \<Rightarrow> u32" where
  "uc_le_u32 d off = (case get_range d off (off + 4) of None \<Rightarrow> 0 | Some s \<Rightarrow> le_word s)"

definition uc_le_u64 :: "bytes \<Rightarrow> nat \<Rightarrow> u64" where
  "uc_le_u64 d off = (case get_range d off (off + 8) of None \<Rightarrow> 0 | Some s \<Rightarrow> le_word s)"

lemma uc_reads [simp]: "uc_le_u16 = le_u16" "uc_le_u32 = le_u32" "uc_le_u64 = le_u64"
  by (auto simp: fun_eq_iff uc_le_u16_def uc_le_u32_def uc_le_u64_def le_u16_def le_u32_def le_u64_def arr_def
      split: option.split)

definition MAX_KEYBAG_BYTES :: u64 where [layout_defs]: "MAX_KEYBAG_BYTES = 0x100000"

datatype run_error = RunIo io_error | RunOther rust_string

text \<open>\<^verbatim>\<open>err(m)\<close>: an error that carries its message.\<close>

definition err :: "string \<Rightarrow> run_error" where
  "err m = RunOther (str_bytes m)"

text \<open>The buffer and the new value of the byte counter.\<close>

definition uc_read_at :: "reader \<Rightarrow> u64 \<Rightarrow> nat \<Rightarrow> u64 \<Rightarrow> run_error + bytes \<times> u64" where
  "uc_read_at rd off len count =
     (case rd off len of
        Inl f \<Rightarrow> Inl (RunIo (fault_error f))
      | Inr buf \<Rightarrow> Inr (buf, count + of_nat len))"

subsection \<open>The volumes a keybag names\<close>

primrec keybag_uuids_loop :: "bytes \<Rightarrow> nat \<Rightarrow> nat \<Rightarrow> bytes list \<Rightarrow> bytes list" where
  "keybag_uuids_loop kb 0 off out = out"
| "keybag_uuids_loop kb (Suc n) off out =
     (if off + 24 > length kb then out
      else let u = take 16 (drop off kb);
               out' = (if list_ex (\<lambda>b. b \<noteq> 0) u \<and> u \<notin> set out then out @ [u] else out);
               keylen = unat (uc_le_u16 kb (off + 18))
           in keybag_uuids_loop kb n (off + max ((24 + keylen + 15) div 16 * 16) 16) out')"

definition keybag_uuids :: "bytes \<Rightarrow> bytes list" where
  "keybag_uuids kb = keybag_uuids_loop kb (min (unat (uc_le_u16 kb (32 + 2))) 4096) (32 + 16) []"

subsection \<open>Trying the password\<close>

record outcome =
  oc_volumes_found :: nat
  oc_volumes_tried :: nat
  oc_bytes_read :: u64
  oc_unlocked :: "(bytes \<times> bytes \<times> nat) option"

text \<open>The loop over the volumes; \<open>sha256\<close> is the digest of the \<^verbatim>\<open>sha2\<close> crate.\<close>

primrec try_volumes :: "crypto \<Rightarrow> (bytes \<Rightarrow> bytes) \<Rightarrow> reader \<Rightarrow> bytes \<Rightarrow> u64 \<Rightarrow> rust_string \<Rightarrow> bytes list \<Rightarrow>
    nat \<Rightarrow> nat \<Rightarrow> u64 \<Rightarrow> outcome" where
  "try_volumes cr sha256 rd container_kb block_size password [] found tried count =
     \<lparr> oc_volumes_found = found, oc_volumes_tried = tried, oc_bytes_read = count, oc_unlocked = None \<rparr>"
| "try_volumes cr sha256 rd container_kb block_size password (uuid # uuids) found tried count =
     (case volume_records container_kb uuid of
        Inl _ \<Rightarrow> try_volumes cr sha256 rd container_kb block_size password uuids found tried count
      | Inr rec \<Rightarrow>
          let vs = saturating_mul_u64 (vr_volume_keybag_block rec) block_size;
              vlen = saturating_mul_u64 (vr_volume_keybag_blocks rec) block_size
          in if vs = 0 \<or> vlen = 0 \<or> vlen > MAX_KEYBAG_BYTES
             then try_volumes cr sha256 rd container_kb block_size password uuids (found + 1) tried count
             else case uc_read_at rd vs (unat vlen) count of
                    Inl _ \<Rightarrow> try_volumes cr sha256 rd container_kb block_size password uuids (found + 1) tried count
                  | Inr (vct, count') \<Rightarrow>
                      let vkb = decrypt_keybag_area cr vct uuid (unat vs div KEYBAG_SECTOR)
                      in if get_range vkb 24 28 \<noteq> Some (str_bytes ''scer'')
                         then try_volumes cr sha256 rd container_kb block_size password uuids (found + 1) tried count'
                         else case unlock_with_volume_keybag cr vkb rec password of
                                Inl _ \<Rightarrow> try_volumes cr sha256 rd container_kb block_size password uuids
                                           (found + 1) (tried + 1) count'
                              | Inr vek \<Rightarrow>
                                  \<lparr> oc_volumes_found = found + 1, oc_volumes_tried = tried + 1,
                                    oc_bytes_read = count',
                                    oc_unlocked = Some (uuid, take 8 (sha256 vek), length vek) \<rparr>)"

definition run_image :: "crypto \<Rightarrow> (bytes \<Rightarrow> bytes) \<Rightarrow> reader \<Rightarrow> rust_string \<Rightarrow> run_error + outcome" where
  "run_image cr sha256 rd password =
     (case uc_read_at rd 0 4096 0 of
        Inl e \<Rightarrow> Inl e
      | Inr (sb, count) \<Rightarrow>
          if get_range sb 32 36 \<noteq> Some (str_bytes ''NXSB'')
          then Inl (err ''no NXSB container superblock at offset 0'')
          else let block_size = ucast (uc_le_u32 sb NX_BLOCK_SIZE) :: u64
          in if block_size = 0 \<or> block_size > MAX_KEYBAG_BYTES
          then Inl (err ''container block size is not a usable value'')
          else let container_uuid = take 16 (drop NX_CONTAINER_UUID sb)
          in case checked_mul_u64 (uc_le_u64 sb NX_KEYBAG_BLOCK) block_size of
            None \<Rightarrow> Inl (err ''keybag offset overflows'')
          | Some kb_start \<Rightarrow>
              (case checked_mul_u64 (uc_le_u64 sb NX_KEYBAG_BLOCKS) block_size of
                 None \<Rightarrow> Inl (err ''keybag length overflows'')
               | Some kb_len \<Rightarrow>
                   if kb_start = 0 \<or> kb_len = 0
                   then Inl (err ''this container declares no keybag: it is not encrypted'')
                   else if kb_len > MAX_KEYBAG_BYTES
                   then Inl (err ''declared keybag length is implausible'')
                   else case uc_read_at rd kb_start (unat kb_len) count of
                     Inl e \<Rightarrow> Inl e
                   | Inr (ct, count') \<Rightarrow>
                       let container_kb = decrypt_keybag_area cr ct container_uuid (unat kb_start div KEYBAG_SECTOR)
                       in if get_range container_kb 24 28 \<noteq> Some (str_bytes ''syek'')
                          then Inl (RunOther (str_bytes ''the container keybag did not decrypt '' @ [0xE2, 0x80, 0x94]
                                 @ str_bytes '' the area is damaged, or this is not an APFS-native encrypted container''))
                          else Inr (try_volumes cr sha256 rd container_kb block_size password
                                     (keybag_uuids container_kb) 0 0 count')))"

definition run :: "crypto \<Rightarrow> (bytes \<Rightarrow> bytes) \<Rightarrow> (rust_string \<Rightarrow> io_error + reader) \<Rightarrow> rust_string \<Rightarrow> rust_string \<Rightarrow>
    run_error + outcome" where
  "run cr sha256 open_file path password =
     (case open_file path of Inl e \<Rightarrow> Inl (RunIo e) | Inr rd \<Rightarrow> run_image cr sha256 rd password)"

subsection \<open>Output\<close>

text \<open>\<^verbatim>\<open>{x:02x}\<close> of each byte.\<close>

definition hex_byte :: "u8 \<Rightarrow> rust_string" where
  "hex_byte x = [digit_byte (unat x div 16), digit_byte (unat x mod 16)]"

definition hex :: "bytes \<Rightarrow> rust_string" where
  "hex b = concat (map hex_byte b)"

definition uuid_str :: "bytes \<Rightarrow> rust_string" where
  "uuid_str u =
     (let h = hex u
      in take 8 h @ str_bytes ''-'' @ take 4 (drop 8 h) @ str_bytes ''-'' @ take 4 (drop 12 h)
         @ str_bytes ''-'' @ take 4 (drop 16 h) @ str_bytes ''-'' @ take 12 (drop 20 h))"

text \<open>\<^verbatim>\<open>trim_end_matches(['\n', '\r'])\<close>.\<close>

definition trim_end_newlines :: "rust_string \<Rightarrow> rust_string" where
  "trim_end_newlines s = rev (dropWhile (\<lambda>b. b = 0x0A \<or> b = 0x0D) (rev s))"

record transcript =
  tr_out :: "rust_string list"
  tr_err :: "rust_string list"
  tr_code :: nat

definition say :: "rust_string list \<Rightarrow> nat \<Rightarrow> transcript" where
  "say lines code = \<lparr> tr_out = lines, tr_err = [], tr_code = code \<rparr>"

definition complain :: "rust_string \<Rightarrow> transcript" where
  "complain line = \<lparr> tr_out = [], tr_err = [line], tr_code = 2 \<rparr>"

definition report :: "outcome \<Rightarrow> transcript" where
  "report o' =
     (case oc_unlocked o' of
        Some (uuid, fp, len) \<Rightarrow>
          say [str_bytes ''UNLOCKED'',
               str_bytes ''  volume          : '' @ uuid_str uuid,
               str_bytes ''  key length      : '' @ fmt_dec len @ str_bytes '' bytes'',
               str_bytes ''  key fingerprint : '' @ hex fp @ str_bytes ''  (sha256, first 8 bytes)'',
               str_bytes ''  image bytes read: '' @ fmt_u64 (oc_bytes_read o')] 0
      | None \<Rightarrow>
          if oc_volumes_tried o' = 0
          then say [str_bytes ''NO VOLUME KEYBAG READABLE'',
                    str_bytes ''  volumes named by the container keybag : '' @ fmt_dec (oc_volumes_found o'),
                    str_bytes ''  volumes whose own keybag decrypted    : 0'',
                    str_bytes ''  the password was never tested: there was nothing to test it'',
                    str_bytes ''  against. This is an image-completeness result, not a password one.'',
                    str_bytes ''  image bytes read: '' @ fmt_u64 (oc_bytes_read o')] 3
          else say [str_bytes ''REFUSED'',
                    str_bytes ''  volumes named by the container keybag : '' @ fmt_dec (oc_volumes_found o'),
                    str_bytes ''  volumes the password was tried against: '' @ fmt_dec (oc_volumes_tried o'),
                    str_bytes ''  every one refused it at the AES-KW integrity check, so the'',
                    str_bytes ''  structures are intact and the password did not match.'',
                    str_bytes ''  image bytes read: '' @ fmt_u64 (oc_bytes_read o')] 1)"

text \<open>
  \<^verbatim>\<open>main\<close>: the path argument if any, standard input (\<open>None\<close> when it cannot be read as text), the
  host's files and the text of a host error.
\<close>

definition unlock_check_main :: "crypto \<Rightarrow> (bytes \<Rightarrow> bytes) \<Rightarrow> (io_error \<Rightarrow> rust_string) \<Rightarrow>
    (rust_string \<Rightarrow> io_error + reader) \<Rightarrow> rust_string option \<Rightarrow> rust_string option \<Rightarrow> transcript" where
  "unlock_check_main cr sha256 io_text open_file arg stdin =
     (case arg of
        None \<Rightarrow> complain (str_bytes ''usage: unlock_check <image>   (password on stdin)'')
      | Some path \<Rightarrow>
          (case stdin of
             None \<Rightarrow> complain (str_bytes ''could not read the password from stdin'')
           | Some text \<Rightarrow>
               (case run cr sha256 open_file path (trim_end_newlines text) of
                  Inr o' \<Rightarrow> report o'
                | Inl e \<Rightarrow> complain (str_bytes ''could not read the image structures: ''
                             @ (case e of RunIo x \<Rightarrow> io_text x | RunOther m \<Rightarrow> m)))))"

subsection \<open>The volumes named\<close>

lemma keybag_uuids_loop_entries:
  "keybag_uuids_loop kb n off out =
     fold (\<lambda>e out. if list_ex (\<lambda>b. b \<noteq> 0) (fst e) \<and> fst e \<notin> set out then out @ [fst e] else out)
       (keybag_entries kb n off) out"
proof (induction n arbitrary: off out)
  case (Suc n)
  show ?case
  proof (cases "length kb < off + 24")
    case False
    then have "get_range kb off (off + 16) = Some (take 16 (drop off kb))" by (simp add: get_range_def)
    then show ?thesis
      using False by (simp add: Suc.IH Let_def option_or_def keybag_step_def layout_defs)
  qed (simp add: layout_defs)
qed simp

lemma collect_new:
  "distinct out \<Longrightarrow>
     distinct (fold (\<lambda>e out. if P (f e) \<and> f e \<notin> set out then out @ [f e] else out) es out)"
  "set (fold (\<lambda>e out. if P (f e) \<and> f e \<notin> set out then out @ [f e] else out) es out)
     = set out \<union> {x \<in> f ` set es. P x}"
  by (induction es arbitrary: out) auto

lemma keybag_uuids_eq:
  "keybag_uuids kb = keybag_uuids_loop kb (keybag_nkeys kb) KL_ENTRIES_OFF []"
  by (simp add: keybag_uuids_def keybag_nkeys_def layout_defs)

lemma set_keybag_uuids:
  "set (keybag_uuids kb)
     = {u \<in> fst ` set (keybag_entries kb (keybag_nkeys kb) KL_ENTRIES_OFF). list_ex (\<lambda>b. b \<noteq> 0) u}"
  unfolding keybag_uuids_eq keybag_uuids_loop_entries collect_new(2) by simp

lemma distinct_keybag_uuids: "distinct (keybag_uuids kb)"
  unfolding keybag_uuids_eq keybag_uuids_loop_entries by (rule collect_new(1)) simp

text \<open>A volume with records is named, unless its UUID is the all-zero one.\<close>

lemma recorded_named:
  assumes "volume_records kb u = Inr rec" "list_ex (\<lambda>b. b \<noteq> 0) u"
  shows "u \<in> set (keybag_uuids kb)"
proof -
  have "owned_entries u kb \<noteq> []"
    using assms(1) unfolding volume_records_def volume_records_loop_entries owned_entries_def [symmetric] by auto
  then show ?thesis
    using assms(2) by (auto simp: set_keybag_uuids owned_entries_def filter_empty_conv image_iff)
qed

subsection \<open>Ranged reads of an image\<close>

lemma unat_saturating_mul: "unat (saturating_mul_u64 a b) = min (unat a * unat b) (2 ^ 64 - 1)"
  by (auto simp: saturating_mul_u64_def u64_max_def unat_mult_lem [THEN iffD1]
      unsigned_minus_1_eq_mask mask_eq_exp_minus_1)

lemma saturating_mul_eq_0: "saturating_mul_u64 a b = 0 \<longleftrightarrow> unat a * unat b = 0"
proof -
  have "min x (2 ^ 64 - 1) = 0 \<longleftrightarrow> x = 0" for x :: nat by (simp add: min_def)
  then show ?thesis unfolding unat_eq_zero [symmetric] unat_saturating_mul .
qed

lemma cursor_get_range:
  assumes "0 < n"
  shows "cursor img off n = (case get_range img (unat off) (unat off + n) of
    Some ct \<Rightarrow> Inr ct | None \<Rightarrow> Inl (ReadFault UnexpectedEof))"
  using assms by (auto simp: cursor_def get_range_def)

lemma cursor_saturated:
  assumes "length img < 2 ^ 64" "0 < n"
  shows "cursor img (saturating_mul_u64 a b) n =
    (case get_range img (unat a * unat b) (unat a * unat b + n) of
       Some ct \<Rightarrow> Inr ct | None \<Rightarrow> Inl (ReadFault UnexpectedEof))"
proof (cases "unat a * unat b < 2 ^ 64")
  case True
  then show ?thesis using assms(2) by (simp add: cursor_get_range saturating_mul_u64_exact)
next
  case False
  then have "get_range img (unat a * unat b) (unat a * unat b + n) = None"
    using assms by (auto simp: get_range_def)
  moreover have "get_range img (2 ^ 64 - 1) (2 ^ 64 - 1 + n) = None"
    using assms by (auto simp: get_range_def)
  ultimately show ?thesis
    using False assms(2) by (simp add: cursor_get_range unat_saturating_mul min_def)
qed

lemma superblock_reads:
  assumes "4096 \<le> length img"
  shows "get_range (take 4096 img) 32 36 = get_range img 32 36"
    and "le_u32 (take 4096 img) NX_BLOCK_SIZE = le_u32 img NX_BLOCK_SIZE"
    and "le_u64 (take 4096 img) NX_KEYBAG_BLOCK = le_u64 img NX_KEYBAG_BLOCK"
    and "le_u64 (take 4096 img) NX_KEYBAG_BLOCKS = le_u64 img NX_KEYBAG_BLOCKS"
    and "get_range img NX_CONTAINER_UUID (NX_CONTAINER_UUID + 16)
      = Some (take 16 (drop NX_CONTAINER_UUID (take 4096 img)))"
  using assms get_range_append [of 32 36 "take 4096 img" "drop 4096 img"]
    le_u32_append [of NX_BLOCK_SIZE "take 4096 img" "drop 4096 img"]
    le_u64_append [of NX_KEYBAG_BLOCK "take 4096 img" "drop 4096 img"]
    le_u64_append [of NX_KEYBAG_BLOCKS "take 4096 img" "drop 4096 img"]
    get_range_append [of NX_CONTAINER_UUID "NX_CONTAINER_UUID + 16" "take 4096 img" "drop 4096 img"]
  by (simp_all add: layout_defs get_range_def)

subsection \<open>What the tool sees\<close>

text \<open>The container keybag, when it decrypts to one within the tool's limits.\<close>

definition container_keybag_of :: "crypto \<Rightarrow> bytes \<Rightarrow> bytes option" where
  "container_keybag_of cr img =
     (case decrypt_container_keybag cr img of
        Inl _ \<Rightarrow> None
      | Inr kb \<Rightarrow>
          if 4096 \<le> length img \<and> image_block_size img \<le> 2 ^ 20
             \<and> unat (le_u64 img NX_KEYBAG_BLOCKS) * image_block_size img \<le> 2 ^ 20
             \<and> get_range kb 24 28 = Some (str_bytes ''syek'')
          then Some kb else None)"

text \<open>The decrypted keybag of volume \<open>u\<close> with its records, when it is one within the limits.\<close>

definition volume_keybag_of :: "crypto \<Rightarrow> bytes \<Rightarrow> bytes \<Rightarrow> bytes \<Rightarrow> (bytes \<times> volume_records) option" where
  "volume_keybag_of cr img kb u =
     (case volume_records kb u of
        Inl _ \<Rightarrow> None
      | Inr rec \<Rightarrow>
          let vs = unat (vr_volume_keybag_block rec) * image_block_size img;
              vlen = unat (vr_volume_keybag_blocks rec) * image_block_size img
          in if vs = 0 \<or> vlen = 0 \<or> 2 ^ 20 < vlen then None
             else case get_range img vs (vs + vlen) of
                    None \<Rightarrow> None
                  | Some ct \<Rightarrow>
                      let vkb = decrypt_keybag_area cr ct u (vs div KEYBAG_SECTOR)
                      in if get_range vkb 24 28 = Some (str_bytes ''scer'') then Some (vkb, rec) else None)"

definition key_of :: "crypto \<Rightarrow> bytes \<Rightarrow> bytes \<Rightarrow> rust_string \<Rightarrow> bytes \<Rightarrow> bytes option" where
  "key_of cr img kb password u =
     (case volume_keybag_of cr img kb u of
        None \<Rightarrow> None
      | Some (vkb, rec) \<Rightarrow>
          (case unlock_with_volume_keybag cr vkb rec password of Inl _ \<Rightarrow> None | Inr vek \<Rightarrow> Some vek))"

lemma try_volumes_step:
  fixes bs :: u64
  assumes "length img < 2 ^ 64" "unat bs = image_block_size img"
  shows "case volume_keybag_of cr img kb u of
      None \<Rightarrow> \<exists>f' c'. try_volumes cr sha (cursor img) kb bs pw (u # us) f t c
        = try_volumes cr sha (cursor img) kb bs pw us f' t c'
    | Some (vkb, rec) \<Rightarrow>
        (case unlock_with_volume_keybag cr vkb rec pw of
           Inl _ \<Rightarrow> \<exists>f' c'. try_volumes cr sha (cursor img) kb bs pw (u # us) f t c
             = try_volumes cr sha (cursor img) kb bs pw us f' (t + 1) c'
         | Inr vek \<Rightarrow>
             oc_unlocked (try_volumes cr sha (cursor img) kb bs pw (u # us) f t c)
               = Some (u, take 8 (sha vek), length vek))"
proof (cases "volume_records kb u")
  case (Inl e)
  then show ?thesis by (auto simp: volume_keybag_of_def)
next
  case (Inr rec)
  define vs where "vs = unat (vr_volume_keybag_block rec) * image_block_size img"
  define vlen where "vlen = unat (vr_volume_keybag_blocks rec) * image_block_size img"
  let ?vs = "saturating_mul_u64 (vr_volume_keybag_block rec) bs"
  let ?vlen = "saturating_mul_u64 (vr_volume_keybag_blocks rec) bs"
  have z: "?vs = 0 \<longleftrightarrow> vs = 0" "?vlen = 0 \<longleftrightarrow> vlen = 0" "?vlen > MAX_KEYBAG_BYTES \<longleftrightarrow> 2 ^ 20 < vlen"
    by (auto simp: saturating_mul_eq_0 vs_def vlen_def assms(2) word_less_nat_alt unat_saturating_mul
        MAX_KEYBAG_BYTES_def simp del: mult_eq_0_iff)
  show ?thesis
  proof (cases "vs = 0 \<or> vlen = 0 \<or> 2 ^ 20 < vlen")
    case True
    then show ?thesis
      using Inr z by (auto simp: volume_keybag_of_def vs_def [symmetric] vlen_def [symmetric] Let_def)
  next
    case False
    then have len: "unat ?vlen = vlen"
      by (simp add: unat_saturating_mul vlen_def [symmetric] assms(2))
    show ?thesis
    proof (cases "get_range img vs (vs + vlen)")
      case None
      then show ?thesis
        using Inr z False len cursor_saturated [OF assms(1), of vlen "vr_volume_keybag_block rec" bs]
        by (auto simp: volume_keybag_of_def vs_def [symmetric] vlen_def [symmetric] Let_def uc_read_at_def assms(2))
    next
      case (Some ct)
      then have "vs < 2 ^ 64" using False assms(1) by (simp add: get_range_eq_Some)
      then have "unat ?vs = vs" by (simp add: unat_saturating_mul vs_def [symmetric] assms(2))
      then show ?thesis
        using Inr z False len Some cursor_saturated [OF assms(1), of vlen "vr_volume_keybag_block rec" bs]
        by (auto simp: volume_keybag_of_def vs_def [symmetric] vlen_def [symmetric] Let_def uc_read_at_def assms(2)
            split: sum.splits)
    qed
  qed
qed

lemma try_volumes_verdict:
  fixes bs :: u64 and cr sha kb pw
  assumes "length img < 2 ^ 64" "unat bs = image_block_size img"
  defines "r \<equiv> \<lambda>us f t c. try_volumes cr sha (cursor img) kb bs pw us f t c"
  shows "case oc_unlocked (r us f t c) of
      Some (u, fp, n) \<Rightarrow> u \<in> set us
        \<and> (\<exists>vek. key_of cr img kb pw u = Some vek \<and> fp = take 8 (sha vek) \<and> n = length vek)
    | None \<Rightarrow> (\<forall>u\<in>set us. key_of cr img kb pw u = None)
        \<and> oc_volumes_tried (r us f t c) = t + length (filter (\<lambda>u. volume_keybag_of cr img kb u \<noteq> None) us)"
proof (induction us arbitrary: f t c)
  case Nil
  then show ?case by (simp add: r_def)
next
  case (Cons u us)
  note step = try_volumes_step [OF assms(1,2), where cr = cr and kb = kb and u = u and sha = sha and pw = pw and us = us
    and f = f and t = t and c = c, folded r_def]
  show ?case
  proof (cases "volume_keybag_of cr img kb u")
    case None
    with step obtain f' c' where "r (u # us) f t c = r us f' t c'" by auto
    then show ?thesis using Cons [of f' t c'] None by (auto simp: key_of_def split: option.splits)
  next
    case (Some p)
    obtain vkb rec where p: "p = (vkb, rec)" by (cases p)
    show ?thesis
    proof (cases "unlock_with_volume_keybag cr vkb rec pw")
      case (Inl e)
      with step Some p obtain f' c' where "r (u # us) f t c = r us f' (t + 1) c'" by auto
      then show ?thesis using Cons [of f' "t + 1" c'] Some Inl p by (auto simp: key_of_def split: option.splits)
    next
      case (Inr vek)
      with step Some p have "oc_unlocked (r (u # us) f t c) = Some (u, take 8 (sha vek), length vek)" by simp
      then show ?thesis using Some Inr p by (simp add: key_of_def)
    qed
  qed
qed

text \<open>The two readings of the container keybag, whole-image and ranged, agree.\<close>

lemma NXSB_bytes: "str_bytes ''NXSB'' = [0x4E, 0x58, 0x53, 0x42]"
  by (simp add: str_bytes_def)

lemma checked_mul_cases:
  "checked_mul_u64 a b = None \<longleftrightarrow> \<not> unat a * unat b < 2 ^ 64"
  "checked_mul_u64 a b = Some c \<longleftrightarrow> unat a * unat b < 2 ^ 64 \<and> unat c = unat a * unat b"
proof -
  have "unat (a * b) = unat a * unat b" if "unat a * unat b < 2 ^ 64"
    using that by (simp add: unat_mult_lem [THEN iffD1])
  then show "checked_mul_u64 a b = None \<longleftrightarrow> \<not> unat a * unat b < 2 ^ 64"
    "checked_mul_u64 a b = Some c \<longleftrightarrow> unat a * unat b < 2 ^ 64 \<and> unat c = unat a * unat b"
    by (auto simp: checked_mul_u64_def word_unat_eq_iff)
qed

lemma unat_ucast_u32: "unat (ucast (w :: u32) :: u64) = unat w"
proof -
  have "unat w < 2 ^ 32" using unsigned_less [of w, where 'a = nat] by simp
  then show ?thesis by (simp add: unsigned_ucast_eq take_bit_nat_eq_self)
qed

lemma container_keybag_area:
  assumes "length img < 2 ^ 64" "4096 \<le> length img" "KEYBAG_SECTOR dvd image_block_size img"
  defines "start \<equiv> unat (le_u64 img NX_KEYBAG_BLOCK) * image_block_size img"
    and "len \<equiv> unat (le_u64 img NX_KEYBAG_BLOCKS) * image_block_size img"
  shows "decrypt_container_keybag cr img = Inr kb \<longleftrightarrow>
    get_range img 32 36 = Some (str_bytes ''NXSB'') \<and> 0 < start \<and> 0 < len
    \<and> (\<exists>ct. get_range img start (start + len) = Some ct
        \<and> kb = decrypt_keybag_area cr ct (take 16 (drop NX_CONTAINER_UUID (take 4096 img))) (start div KEYBAG_SECTOR))"
proof -
  have m: "image_block_size img mod KEYBAG_SECTOR = 0" using assms(3) by auto
  let ?ext = "keybag_extent bad_keylocker ''keybag_offset'' ''keybag_length'' ''keybag_end'' ''keybag_past_image''
    img (le_u64 img NX_KEYBAG_BLOCK) (le_u64 img NX_KEYBAG_BLOCKS) (image_block_size img)"
  have z: "0 < start \<and> 0 < len \<longleftrightarrow>
      image_block_size img \<noteq> 0 \<and> le_u64 img NX_KEYBAG_BLOCK \<noteq> 0 \<and> le_u64 img NX_KEYBAG_BLOCKS \<noteq> 0"
    by (auto simp: start_def len_def unat_gt_0)
  show ?thesis
  proof (cases "0 < start \<and> 0 < len")
    case True
    note e = keybag_extent_area [OF assms(1), where paddr = "le_u64 img NX_KEYBAG_BLOCK"
        and blocks = "le_u64 img NX_KEYBAG_BLOCKS" and bs = "image_block_size img"
        and bad = bad_keylocker and ?f1.0 = "''keybag_offset''" and ?f2.0 = "''keybag_length''"
        and ?f3.0 = "''keybag_end''" and ?f4.0 = "''keybag_past_image''", folded start_def len_def]
    show ?thesis
      using e z m True superblock_reads(5) [OF assms(2)]
      by (auto simp: decrypt_container_keybag_def decrypt_container_keybag_with_uuid_def NXSB_bytes Let_def
          split: option.splits)
  next
    case False
    then show ?thesis
      using z superblock_reads(5) [OF assms(2)]
      by (auto simp: decrypt_container_keybag_def decrypt_container_keybag_with_uuid_def Let_def)
  qed
qed

lemma run_image_refused:
  fixes sha pw
  assumes "4096 \<le> length img"
  defines "bs \<equiv> image_block_size img"
  defines "start \<equiv> unat (le_u64 img NX_KEYBAG_BLOCK) * bs" and "len \<equiv> unat (le_u64 img NX_KEYBAG_BLOCKS) * bs"
  assumes bad: "\<not> (get_range img 32 36 = Some (str_bytes ''NXSB'') \<and> 0 < start \<and> 0 < len \<and> start + len \<le> length img
      \<and> bs \<le> 2 ^ 20 \<and> len \<le> 2 ^ 20)"
  shows "\<exists>e. run_image cr sha (cursor img) pw = Inl e"
proof -
  let ?bs = "ucast (le_u32 img NX_BLOCK_SIZE) :: u64"
  have ub: "unat ?bs = bs" by (simp add: bs_def unat_ucast_u32)
  have bs: "?bs = 0 \<longleftrightarrow> bs = 0" "?bs > MAX_KEYBAG_BYTES \<longleftrightarrow> 2 ^ 20 < bs"
    using ub by (auto simp: word_less_nat_alt MAX_KEYBAG_BYTES_def unat_eq_zero [symmetric])
  have sb: "uc_read_at (cursor img) 0 4096 0 = Inr (take 4096 img, 4096)"
    using assms(1) by (simp add: uc_read_at_def cursor_def)
  note run = run_image_def sb superblock_reads [OF assms(1)] Let_def
  show ?thesis
  proof (cases "checked_mul_u64 (le_u64 img NX_KEYBAG_BLOCK) ?bs")
    case None
    then show ?thesis by (simp add: run)
  next
    case (Some s)
    then have s: "unat s = start" by (simp add: checked_mul_cases ub start_def)
    show ?thesis
    proof (cases "checked_mul_u64 (le_u64 img NX_KEYBAG_BLOCKS) ?bs")
      case None
      then show ?thesis using Some by (simp add: run)
    next
      case l: (Some l)
      then have "unat l = len" by (simp add: checked_mul_cases ub len_def)
      moreover from this s have "s = 0 \<longleftrightarrow> start = 0" "l = 0 \<longleftrightarrow> len = 0" "l > MAX_KEYBAG_BYTES \<longleftrightarrow> 2 ^ 20 < len"
        by (auto simp: word_less_nat_alt MAX_KEYBAG_BYTES_def unat_eq_zero [symmetric])
      ultimately show ?thesis
        using bad Some l s bs by (auto simp: run uc_read_at_def cursor_get_range get_range_def drop_take)
    qed
  qed
qed

lemma run_image_container:
  fixes sha pw
  assumes "length img < 2 ^ 64" "KEYBAG_SECTOR dvd image_block_size img"
  shows "case container_keybag_of cr img of
      None \<Rightarrow> \<exists>e. run_image cr sha (cursor img) pw = Inl e
    | Some kb \<Rightarrow> \<exists>c. run_image cr sha (cursor img) pw =
        Inr (try_volumes cr sha (cursor img) kb (ucast (le_u32 img NX_BLOCK_SIZE)) pw (keybag_uuids kb) 0 0 c)"
proof (cases "4096 \<le> length img")
  case False
  then show ?thesis
    by (auto simp: container_keybag_of_def run_image_def uc_read_at_def cursor_def split: sum.split)
next
  case True
  define bs where "bs = image_block_size img"
  define start where "start = unat (le_u64 img NX_KEYBAG_BLOCK) * bs"
  define len where "len = unat (le_u64 img NX_KEYBAG_BLOCKS) * bs"
  let ?sb = "take 4096 img" and ?bs = "ucast (le_u32 img NX_BLOCK_SIZE) :: u64"
  have ub: "unat ?bs = bs" by (simp add: bs_def unat_ucast_u32)
  have bs: "?bs = 0 \<longleftrightarrow> bs = 0" "?bs > MAX_KEYBAG_BYTES \<longleftrightarrow> 2 ^ 20 < bs"
    using ub by (auto simp: word_less_nat_alt MAX_KEYBAG_BYTES_def unat_eq_zero [symmetric])
  have sb: "uc_read_at (cursor img) 0 4096 0 = Inr (?sb, 4096)" using True by (simp add: uc_read_at_def cursor_def)
  note kb = container_keybag_area [OF assms(1) True assms(2), of cr, folded bs_def, folded start_def len_def]
  show ?thesis
  proof (cases "get_range img 32 36 = Some (str_bytes ''NXSB'') \<and> 0 < start \<and> 0 < len \<and> start + len \<le> length img
      \<and> bs \<le> 2 ^ 20 \<and> len \<le> 2 ^ 20")
    case ok: True
    then have pos: "0 < bs" by (simp add: start_def)
    define ct where "ct = take len (drop start img)"
    have ct: "get_range img start (start + len) = Some ct" using ok by (simp add: get_range_def ct_def)
    define k where "k = decrypt_keybag_area cr ct (take 16 (drop NX_CONTAINER_UUID ?sb)) (start div KEYBAG_SECTOR)"
    have d: "decrypt_container_keybag cr img = Inr k" using kb [of k] ok ct by (simp add: k_def)
    obtain s where s: "checked_mul_u64 (le_u64 img NX_KEYBAG_BLOCK) ?bs = Some s" "unat s = start"
      using ok assms(1) checked_mul_cases [of "le_u64 img NX_KEYBAG_BLOCK" ?bs]
      by (cases "checked_mul_u64 (le_u64 img NX_KEYBAG_BLOCK) ?bs") (auto simp: ub start_def [symmetric])
    obtain l where l: "checked_mul_u64 (le_u64 img NX_KEYBAG_BLOCKS) ?bs = Some l" "unat l = len"
      using ok assms(1) checked_mul_cases [of "le_u64 img NX_KEYBAG_BLOCKS" ?bs]
      by (cases "checked_mul_u64 (le_u64 img NX_KEYBAG_BLOCKS) ?bs") (auto simp: ub len_def [symmetric])
    have "s \<noteq> 0" "l \<noteq> 0" "\<not> l > MAX_KEYBAG_BYTES"
      using ok s l by (auto simp: word_less_nat_alt MAX_KEYBAG_BYTES_def)
    moreover have "uc_read_at (cursor img) s len 4096 = Inr (ct, 4096 + of_nat len)"
      using ok ct s by (simp add: uc_read_at_def cursor_get_range)
    ultimately show ?thesis
      using ok pos d s l bs True
      by (auto simp: run_image_def sb superblock_reads [OF True] Let_def k_def [symmetric] container_keybag_of_def
          bs_def [symmetric] len_def [symmetric])
  next
    case bad: False
    then have "container_keybag_of cr img = None"
      using kb by (auto simp: container_keybag_of_def bs_def [symmetric] len_def [symmetric] get_range_eq_Some
          split: sum.split)
    moreover have "\<exists>e. run_image cr sha (cursor img) pw = Inl e"
      using run_image_refused [OF True] bad by (simp add: bs_def start_def len_def)
    ultimately show ?thesis by simp
  qed
qed

subsection \<open>What the exit code means\<close>

text \<open>A volume the password can be tested against: it is not the all-zero UUID, and both its keybags decrypt.\<close>

definition testable :: "crypto \<Rightarrow> bytes \<Rightarrow> bytes \<Rightarrow> bool" where
  "testable cr img u =
     (list_ex (\<lambda>b. b \<noteq> 0) u
      \<and> (case container_keybag_of cr img of None \<Rightarrow> False | Some kb \<Rightarrow> volume_keybag_of cr img kb u \<noteq> None))"

lemma testable_named:
  assumes "container_keybag_of cr img = Some kb"
  shows "testable cr img u \<longleftrightarrow> u \<in> set (keybag_uuids kb) \<and> volume_keybag_of cr img kb u \<noteq> None"
proof
  assume t: "testable cr img u"
  then have v: "list_ex (\<lambda>b. b \<noteq> 0) u" "volume_keybag_of cr img kb u \<noteq> None" using assms by (simp_all add: testable_def)
  then have "\<exists>rec. volume_records kb u = Inr rec" by (auto simp: volume_keybag_of_def split: sum.splits)
  then show "u \<in> set (keybag_uuids kb) \<and> volume_keybag_of cr img kb u \<noteq> None" using v recorded_named by blast
qed (use assms in \<open>simp add: testable_def set_keybag_uuids\<close>)

text \<open>For such a volume the ranged reads and the whole-image operation run the same key chain.\<close>

lemma unlock_volume_ranged:
  assumes "length img < 2 ^ 64" "container_keybag_of cr img = Some kb"
    and "volume_keybag_of cr img kb u = Some (vkb, rec)"
  shows "unlock_volume cr img u pw = unlock_with_volume_keybag cr vkb rec pw"
proof -
  have d: "decrypt_container_keybag cr img = Inr kb"
    using assms(2) by (auto simp: container_keybag_of_def split: sum.splits if_splits)
  have r: "volume_records kb u = Inr rec"
    using assms(3) by (auto simp: volume_keybag_of_def Let_def split: sum.splits option.splits if_splits)
  let ?vs = "unat (vr_volume_keybag_block rec) * image_block_size img"
  let ?vlen = "unat (vr_volume_keybag_blocks rec) * image_block_size img"
  obtain ct where ct: "0 < ?vlen" "get_range img ?vs (?vs + ?vlen) = Some ct"
      "vkb = decrypt_keybag_area cr ct u (?vs div KEYBAG_SECTOR)"
    using assms(3) r by (auto simp: volume_keybag_of_def Let_def split: option.splits if_splits)
  show ?thesis
    using keybag_extent_area [OF assms(1), where paddr = "vr_volume_keybag_block rec"
        and blocks = "vr_volume_keybag_blocks rec" and bs = "image_block_size img"] d r ct
    by (simp add: unlock_volume_def)
qed

lemma key_of_unlock_volume:
  assumes "length img < 2 ^ 64" "container_keybag_of cr img = Some kb" "u \<in> set (keybag_uuids kb)"
  shows "key_of cr img kb pw u = Some vek \<longleftrightarrow> testable cr img u \<and> unlock_volume cr img u pw = Inr vek"
proof (cases "volume_keybag_of cr img kb u")
  case None
  then show ?thesis using testable_named [OF assms(2)] by (simp add: key_of_def)
next
  case (Some p)
  obtain vkb rec where p: "p = (vkb, rec)" by (cases p)
  show ?thesis
    using Some assms(3) unlock_volume_ranged [OF assms(1,2) Some [unfolded p]] testable_named [OF assms(2)]
    by (auto simp: key_of_def p split: sum.split)
qed

text \<open>The verdict of \<^verbatim>\<open>run\<close> on an image whose container keybag decrypts.\<close>

lemma run_image_verdict:
  fixes sha pw
  assumes "length img < 2 ^ 64" "KEYBAG_SECTOR dvd image_block_size img" "container_keybag_of cr img = Some kb"
  obtains o' where "run_image cr sha (cursor img) pw = Inr o'"
    and "case oc_unlocked o' of
        Some (u, fp, n) \<Rightarrow> testable cr img u
          \<and> (\<exists>vek. unlock_volume cr img u pw = Inr vek \<and> fp = take 8 (sha vek) \<and> n = length vek)
      | None \<Rightarrow> (\<forall>u. testable cr img u \<longrightarrow> (\<exists>e. unlock_volume cr img u pw = Inl e))
          \<and> oc_volumes_tried o' = card {u. testable cr img u}
          \<and> (oc_volumes_tried o' = 0 \<longleftrightarrow> \<not> (\<exists>u. testable cr img u))"
proof -
  obtain c where run: "run_image cr sha (cursor img) pw =
      Inr (try_volumes cr sha (cursor img) kb (ucast (le_u32 img NX_BLOCK_SIZE)) pw (keybag_uuids kb) 0 0 c)"
    using run_image_container [OF assms(1,2), of cr sha pw] assms(3) by auto
  let ?o = "try_volumes cr sha (cursor img) kb (ucast (le_u32 img NX_BLOCK_SIZE)) pw (keybag_uuids kb) 0 0 c"
  note v = try_volumes_verdict [OF assms(1) unat_ucast_u32, where cr = cr and sha = sha and kb = kb and pw = pw
      and us = "keybag_uuids kb" and f = 0 and t = 0 and c = c]
  note k = key_of_unlock_volume [OF assms(1,3)] and n = testable_named [OF assms(3)]
  show ?thesis
  proof (cases "oc_unlocked ?o")
    case None
    have "\<exists>e. unlock_volume cr img u pw = Inl e" if "testable cr img u" for u
    proof (cases "unlock_volume cr img u pw")
      case (Inr vek)
      have "u \<in> set (keybag_uuids kb)" "key_of cr img kb pw u = None" using v None that n [of u] by auto
      then show ?thesis using Inr that k [of u pw vek] by simp
    qed simp
    moreover have tried: "oc_volumes_tried ?o = length (filter (\<lambda>u. volume_keybag_of cr img kb u \<noteq> None) (keybag_uuids kb))"
      using v None by simp
    moreover have "{u. testable cr img u} = set (filter (\<lambda>u. volume_keybag_of cr img kb u \<noteq> None) (keybag_uuids kb))"
      using n by auto
    then have "card {u. testable cr img u} = length (filter (\<lambda>u. volume_keybag_of cr img kb u \<noteq> None) (keybag_uuids kb))"
      by (metis distinct_card distinct_filter distinct_keybag_uuids)
    moreover have "oc_volumes_tried ?o = 0 \<longleftrightarrow> \<not> (\<exists>u. testable cr img u)"
      using tried n by (auto simp: filter_empty_conv)
    ultimately show ?thesis using that [OF run] None by simp
  next
    case (Some r)
    then show ?thesis using that [OF run] v k by (cases r) auto
  qed
qed


end
