(* ===== verification/Locked.thy ===== *)
theory Locked
  imports Compression
begin

text \<open>
  Volumes read without their key. Every name, inode, attribute and file read starts at the root of
  the filesystem tree, and that node is checked after decryption; when the bytes the key (or its
  absence) leaves do not carry their checksum, every read operation of \<^verbatim>\<open>dir.rs\<close>, \<^verbatim>\<open>xattr.rs\<close> and
  \<^verbatim>\<open>extent.rs\<close> ends in that one checksum error.
\<close>

subsection \<open>The root node as read\<close>

text \<open>The object map entry of the tree root and its raw block, by the first steps of \<^verbatim>\<open>walk_fs_tree\<close>.\<close>

definition fs_root_block :: "reader \<Rightarrow> apfs_volume \<Rightarrow> nat \<Rightarrow> (omap_entry \<times> bytes) res" where
  "fs_root_block rd volume block_size =
     (case read_block_sat rd (vol_omap_oid volume) block_size of
        Inl e \<Rightarrow> Inl e
      | Inr buf \<Rightarrow>
          (case object_map_parse buf of
             Inl e \<Rightarrow> Inl e
           | Inr omap \<Rightarrow>
               (case resolve omap rd (vol_root_tree_oid volume) (vol_xid volume) block_size of
                  Inl e \<Rightarrow> Inl e
                | Inr entry \<Rightarrow> map_sum id (Pair entry) (read_block_sat rd (oe_paddr entry) block_size))))"

text \<open>The bytes of a node after the decryption step.\<close>

definition node_plain :: "crypto \<Rightarrow> bytes option \<Rightarrow> omap_entry \<Rightarrow> nat \<Rightarrow> bytes \<Rightarrow> bytes" where
  "node_plain cr vek entry block_size raw =
     (if oe_flags entry AND OMAP_VAL_ENCRYPTED = 0 then raw
      else case vek of None \<Rightarrow> raw | Some k \<Rightarrow> decrypt_volume_area cr raw k (oe_paddr entry) block_size)"

definition root_refusal :: "crypto \<Rightarrow> reader \<Rightarrow> apfs_volume \<Rightarrow> nat \<Rightarrow> apfs_error option" where
  "root_refusal cr rd volume block_size =
     (case fs_root_block rd volume block_size of
        Inl _ \<Rightarrow> None
      | Inr (entry, raw) \<Rightarrow>
          (let buf = node_plain cr (vol_vek volume) entry block_size raw
           in if fletcher64_stored buf = fletcher64_checksum buf then None
              else Some (ChecksumMismatch
                (case obj_phys_parse buf of None \<Rightarrow> oe_paddr entry | Some h \<Rightarrow> o_oid h)
                (fletcher64_stored buf) (fletcher64_checksum buf))))"

lemma walk_fs_tree_refused:
  assumes "root_refusal cr rd volume block_size = Some e"
  shows "walk_fs_tree cr rd volume block_size target visit s = Inl e"
proof -
  obtain buf omap entry raw where r: "read_block_sat rd (vol_omap_oid volume) block_size = Inr buf"
      "object_map_parse buf = Inr omap"
      "resolve omap rd (vol_root_tree_oid volume) (vol_xid volume) block_size = Inr entry"
      "read_block_sat rd (oe_paddr entry) block_size = Inr raw"
      "fs_root_block rd volume block_size = Inr (entry, raw)"
    using assms by (auto simp: root_refusal_def fs_root_block_def res_simps split: sum.splits)
  have "read_virtual_node cr rd omap (vol_vek volume) (vol_xid volume) block_size (vol_root_tree_oid volume) = Inl e"
    using assms r by (auto simp: root_refusal_def read_virtual_node_def node_plain_def Let_def split: if_splits)
  then show ?thesis
    using r by (simp add: walk_fs_tree_def descend_virtual.simps MAX_FSTREE_DEPTH_def)
qed

lemma records_refused:
  assumes "root_refusal cr rd volume block_size = Some e"
  shows "for_each_fs_record_for_oid cr rd volume block_size oid visit s = Inl e"
  using walk_fs_tree_refused [OF assms] by (simp add: for_each_fs_record_for_oid_def)

lemma navigation_refused:
  assumes "root_refusal cr rd volume block_size = Some e"
  shows "list_dir cr rd volume oid block_size = Inl e" "lookup_child cr rd volume oid name block_size = Inl e"
    "load_inode cr rd volume oid block_size = Inl e" "open_path cr rd volume path block_size = Inl e"
proof -
  note r = records_refused [OF assms]
  show "list_dir cr rd volume oid block_size = Inl e" by (simp add: list_dir_def r)
  show l: "lookup_child cr rd volume oid name block_size = Inl e" for oid name by (simp add: lookup_child_def r)
  show i: "load_inode cr rd volume oid block_size = Inl e" for oid by (simp add: load_inode_def r)
  show "open_path cr rd volume path block_size = Inl e"
    by (cases "path_components path") (simp_all add: open_path_def l i)
qed

lemma content_refused:
  assumes "root_refusal cr rd volume block_size = Some e"
  shows "list_xattrs cr rd volume oid block_size = Inl e" "symlink_target cr rd volume oid block_size = Inl e"
    "list_extents cr rd volume oid block_size = Inl e" "read_data lib cr rd volume ino block_size = Inl e"
proof -
  note r = records_refused [OF assms]
  show x: "list_xattrs cr rd volume oid block_size = Inl e" for oid by (simp add: list_xattrs_def r)
  show "list_extents cr rd volume oid block_size = Inl e" by (simp add: list_extents_def r)
  show "symlink_target cr rd volume oid block_size = Inl e" by (simp add: symlink_target_def get_xattr_def x)
  show "read_data lib cr rd volume ino block_size = Inl e" by (simp add: read_data_def decmpfs_header_def get_xattr_def x)
qed

text \<open>
  C17. A locked volume is refused, not answered. When the root node of the filesystem tree, after
  the decryption step with whatever key the volume holds (none, or a wrong one), does not carry its
  own checksum, there is one checksum error, with the stored and the computed value of those bytes,
  in which every operation ends, whatever its arguments: listing, lookup, inode, path, attributes,
  symlink target, extents and file contents. No operation returns a value.
\<close>

theorem locked_volume_refuses:
  assumes "fs_root_block rd volume block_size = Inr (entry, raw)"
    and "fletcher64_stored (node_plain cr (vol_vek volume) entry block_size raw)
      \<noteq> fletcher64_checksum (node_plain cr (vol_vek volume) entry block_size raw)"
  shows "\<exists>b. let e = ChecksumMismatch b (fletcher64_stored (node_plain cr (vol_vek volume) entry block_size raw))
        (fletcher64_checksum (node_plain cr (vol_vek volume) entry block_size raw))
    in (\<forall>oid. list_dir cr rd volume oid block_size = Inl e \<and> load_inode cr rd volume oid block_size = Inl e
          \<and> list_xattrs cr rd volume oid block_size = Inl e \<and> symlink_target cr rd volume oid block_size = Inl e
          \<and> list_extents cr rd volume oid block_size = Inl e)
      \<and> (\<forall>oid name. lookup_child cr rd volume oid name block_size = Inl e)
      \<and> (\<forall>path. open_path cr rd volume path block_size = Inl e)
      \<and> (\<forall>lib ino. read_data lib cr rd volume ino block_size = Inl e)"
proof -
  obtain b where "root_refusal cr rd volume block_size
      = Some (ChecksumMismatch b (fletcher64_stored (node_plain cr (vol_vek volume) entry block_size raw))
          (fletcher64_checksum (node_plain cr (vol_vek volume) entry block_size raw)))"
    using assms by (simp add: root_refusal_def Let_def)
  note r = navigation_refused [OF this] content_refused [OF this]
  show ?thesis unfolding Let_def by (intro exI [of _ b] conjI allI) (rule r)+
qed

end
