(* ===== verification/Fixture.thy ===== *)
theory Fixture
  imports Extent Display
begin

text \<open>
  Buffers the way the unit tests of the sources build them: a zeroed vector, field stores with
  \<^verbatim>\<open>copy_from_slice\<close> at literal offsets, and a Fletcher-64 stamp. The laws below are those of an
  array with sub-range stores: a read of the stored range gives the stored bytes, a read of a
  disjoint range is unaffected, and a block of an image sees exactly the stores that fall into it.
  A test is a proposition: the conjunction of its assertions, false where an \<^verbatim>\<open>expect\<close> would panic.
\<close>

named_theorems store_simps \<open>reads of buffers built by range stores\<close>

declare length_overlay [store_simps]

lemma length_str_bytes [store_simps]: "length (str_bytes s) = length s"
  by (simp add: str_bytes_def)

subsection \<open>Ranges of a buffer\<close>

definition slice :: "bytes \<Rightarrow> nat \<Rightarrow> nat \<Rightarrow> bytes" where
  "slice d off n = take n (drop off d)"

lemma length_slice [store_simps]: "off + n \<le> length d \<Longrightarrow> length (slice d off n) = n"
  by (simp add: slice_def)

lemma slice_zeros [store_simps]: "off + n \<le> m \<Longrightarrow> slice (replicate m x) off n = replicate n x"
  by (simp add: slice_def)

lemma slice_all [store_simps]: "length d = n \<Longrightarrow> slice d 0 n = d"
  by (simp add: slice_def)

lemma slice_append [store_simps]:
  "off + n \<le> length xs \<Longrightarrow> slice (xs @ ys) off n = slice xs off n"
  "length xs \<le> off \<Longrightarrow> slice (xs @ ys) off n = slice ys (off - length xs) n"
  by (simp_all add: slice_def)

lemma slice_overlay_inside [store_simps]:
  assumes "off \<le> a" "a + length s \<le> off + n" "off + n \<le> length d"
  shows "slice (overlay d a s) off n = overlay (slice d off n) (a - off) s"
proof (rule nth_equalityI)
  fix i assume "i < length (slice (overlay d a s) off n)"
  then have "i < n" using assms by (simp add: length_slice length_overlay)
  then show "slice (overlay d a s) off n ! i = overlay (slice d off n) (a - off) s ! i"
    using assms by (subst nth_overlay) (auto simp: slice_def nth_overlay length_overlay add.commute)
qed (use assms in \<open>simp add: length_slice length_overlay\<close>)

lemma slice_overlay_outside [store_simps]:
  assumes "off + n \<le> a \<or> a + length s \<le> off" "a + length s \<le> length d"
  shows "slice (overlay d a s) off n = slice d off n"
proof (cases "off + n \<le> a")
  case True
  then show ?thesis using assms by (simp add: slice_def overlay_def drop_take)
next
  case False
  then have "a + length s \<le> off" using assms by simp
  then show ?thesis using assms by (simp add: slice_def overlay_def)
qed

lemma overlay_all [store_simps]: "length s = length d \<Longrightarrow> overlay d 0 s = s"
  by (simp add: overlay_def)

subsection \<open>Field reads\<close>

lemma arr_slice: "off + n \<le> length d \<Longrightarrow> arr n d off = slice d off n"
  by (simp add: arr_in_range slice_def)

lemma get_range_slice: "get_range d a b = (if a \<le> b \<and> b \<le> length d then Some (slice d a (b - a)) else None)"
  by (simp add: get_range_def slice_def)

lemma arr_overlay_same [store_simps]:
  "a + n \<le> length d \<Longrightarrow> length s = n \<Longrightarrow> arr n (overlay d a s) a = s"
  by (simp add: arr_slice length_overlay slice_overlay_inside overlay_all length_slice)

lemma arr_overlay_outside [store_simps]:
  "off + n \<le> a \<or> a + length s \<le> off \<Longrightarrow> a + length s \<le> length d \<Longrightarrow> arr n (overlay d a s) off = arr n d off"
  by (cases "off + n \<le> length d")
    (simp_all add: arr_slice length_overlay slice_overlay_outside arr_out_of_range)

lemma arr_zeros [store_simps]: "arr n (replicate m 0) off = replicate n 0"
  by (cases "off + n \<le> m") (simp_all add: arr_slice slice_zeros arr_out_of_range)

lemma reads_overlay_same [store_simps]:
  "a + 2 \<le> length d \<Longrightarrow> le_u16 (overlay d a (to_le 2 w16)) a = w16"
  "a + 4 \<le> length d \<Longrightarrow> le_u32 (overlay d a (to_le 4 w32)) a = w32"
  "a + 8 \<le> length d \<Longrightarrow> le_u64 (overlay d a (to_le 8 w64)) a = w64"
  by (simp_all add: le_u16_def le_u32_def le_u64_def arr_overlay_same)

lemma reads_overlay_outside [store_simps]:
  "off + 2 \<le> a \<or> a + length s \<le> off \<Longrightarrow> a + length s \<le> length d \<Longrightarrow> le_u16 (overlay d a s) off = le_u16 d off"
  "off + 4 \<le> a \<or> a + length s \<le> off \<Longrightarrow> a + length s \<le> length d \<Longrightarrow> le_u32 (overlay d a s) off = le_u32 d off"
  "off + 8 \<le> a \<or> a + length s \<le> off \<Longrightarrow> a + length s \<le> length d \<Longrightarrow> le_u64 (overlay d a s) off = le_u64 d off"
  by (simp_all add: le_u16_def le_u32_def le_u64_def arr_overlay_outside)

lemma reads_zeros [store_simps]:
  "le_u16 (replicate m 0) off = 0" "le_u32 (replicate m 0) off = 0" "le_u64 (replicate m 0) off = 0"
  by (simp_all add: le_u16_def le_u32_def le_u64_def arr_zeros)

subsection \<open>Stamped blocks\<close>

text \<open>\<^verbatim>\<open>let c = fletcher64_checksum(block); block[0..8].copy_from_slice(&c.to_le_bytes())\<close>.\<close>

definition stamp_block :: "bytes \<Rightarrow> bytes" where
  "stamp_block b = overlay b 0 (to_le 8 (fletcher64_checksum b))"

lemma stamp_block_eq_seal:
  assumes "8 \<le> length b"
  shows "stamp_block b = seal_block (drop 8 b)"
proof -
  have "fletcher64_checksum b = fletcher64_checksum (replicate 8 0 @ drop 8 b)"
    using fletcher64_field_ignored [of "take 8 b" "drop 8 b"] assms by simp
  then show ?thesis by (simp add: stamp_block_def overlay_def seal_block_def)
qed

lemma length_stamp_block [store_simps]: "8 \<le> length b \<Longrightarrow> length (stamp_block b) = length b"
  by (simp add: stamp_block_eq_seal)

lemma stamp_block_verifies [store_simps]:
  "8 \<le> length b \<Longrightarrow> fletcher64_checksum (stamp_block b) = fletcher64_stored (stamp_block b)"
  by (simp add: stamp_block_eq_seal)

lemma reads_stamp_block [store_simps]:
  "8 \<le> off \<Longrightarrow> 8 \<le> length b \<Longrightarrow> arr n (stamp_block b) off = arr n b off"
  "8 \<le> off \<Longrightarrow> 8 \<le> length b \<Longrightarrow> le_u16 (stamp_block b) off = le_u16 b off"
  "8 \<le> off \<Longrightarrow> 8 \<le> length b \<Longrightarrow> le_u32 (stamp_block b) off = le_u32 b off"
  "8 \<le> off \<Longrightarrow> 8 \<le> length b \<Longrightarrow> le_u64 (stamp_block b) off = le_u64 b off"
  by (simp_all add: stamp_block_def store_simps)

subsection \<open>Corrupted blocks\<close>

text \<open>\<^verbatim>\<open>block[i] = x\<close>: changing one byte of a verified block past its checksum is always detected.\<close>

lemma byte_change_detected:
  assumes v: "fletcher64_checksum b = fletcher64_stored b" and i: "8 \<le> i" "i < length b" "length b mod 4 = 0"
    and x: "x \<noteq> b ! i"
  shows "fletcher64_checksum (b[i := x]) \<noteq> fletcher64_stored (b[i := x])"
proof -
  define k where "k = i div 4 * 4"
  define pre w post where "pre = take k b" and "w = take 4 (drop k b)" and "post = drop (k + 4) b"
  have k: "k \<le> i" "i < k + 4" "k mod 4 = 0" "8 \<le> k" using i(1) by (simp_all add: k_def)
  then have k4: "k + 4 \<le> length b" using i(2,3) by presburger
  have len: "length pre = k" "length w = 4" using k4 by (simp_all add: pre_def w_def)
  have b: "b = pre @ w @ post"
    by (simp add: pre_def w_def post_def) (metis append_take_drop_id drop_drop add.commute)
  define v' where "v' = w[i - k := x]"
  have b': "b[i := x] = pre @ v' @ post"
    using k len by (subst b) (auto simp: v'_def list_update_append)
  have "w ! (i - k) = b ! i" "v' ! (i - k) = x" using k len k4 by (simp_all add: w_def v'_def)
  then have w': "v' \<noteq> w" using x by auto
  define j where "j = (if i = k then 1 else 0 :: nat)"
  have j: "j < 4" "j \<noteq> i - k" using k by (simp_all add: j_def)
  have "v' ! j = w ! j" using j by (simp add: v'_def)
  then have "{w, v'} \<noteq> {replicate 4 0, replicate 4 0xff}"
    using j by (auto simp: doubleton_eq_iff)
  then have "fletcher64_checksum (b[i := x]) \<noteq> fletcher64_checksum b"
    using fletcher64_word_change [of pre w v' post] k len w' by (simp add: b' v'_def) (metis b)
  moreover have "fletcher64_stored (b[i := x]) = fletcher64_stored b"
    using i by (simp add: fletcher64_stored_def le_u64_def arr_in_range take_update_cancel)
  ultimately show ?thesis using v by simp
qed

lemma byte_flip_changes: "(x :: u8) XOR 0xff \<noteq> x"
proof
  assume "x XOR 0xff = x"
  then have "(x XOR 0xff) XOR x = x XOR x" by simp
  then show False by (simp add: xor.left_commute xor.commute)
qed

subsection \<open>Blocks of an image\<close>

lemma cursor_slice:
  assumes "unat off + n \<le> length img" "0 < n"
  shows "cursor img off n = Inr (slice img (unat off) n)"
  using assms by (auto simp: cursor_def slice_def)

lemma read_block_slice:
  assumes "unat p * bs + bs \<le> length img" "0 < bs" "length img < 2 ^ 64"
  shows "read_block_sat (cursor img) p bs = Inr (slice img (unat p * bs) bs)"
proof -
  have "unat (of_nat bs :: u64) = bs" using assms by (intro unat_of_nat_u64) auto
  then have "unat (saturating_mul_u64 p (of_nat bs)) = unat p * bs"
    using assms by (subst saturating_mul_u64_exact) auto
  then show ?thesis using assms by (simp add: read_block_sat_def read_exact_at_def cursor_slice)
qed

subsection \<open>Assertions\<close>

text \<open>\<^verbatim>\<open>.expect(..)\<close> and \<^verbatim>\<open>.expect_err(..)\<close>, followed by assertions on the value.\<close>

definition expect :: "'e + 'a \<Rightarrow> ('a \<Rightarrow> bool) \<Rightarrow> bool" where
  "expect r P \<longleftrightarrow> (case r of Inl _ \<Rightarrow> False | Inr x \<Rightarrow> P x)"

definition expect_err :: "'e + 'a \<Rightarrow> ('e \<Rightarrow> bool) \<Rightarrow> bool" where
  "expect_err r P \<longleftrightarrow> (case r of Inl e \<Rightarrow> P e | Inr _ \<Rightarrow> False)"

lemma expect_simps [simp]:
  "expect (Inl e) P \<longleftrightarrow> False" "expect (Inr x) P \<longleftrightarrow> P x" "expect_err (Inl e) Q \<longleftrightarrow> Q e" "expect_err (Inr x) Q \<longleftrightarrow> False"
  by (simp_all add: expect_def expect_err_def)

text \<open>A value later steps depend on; \<open>None\<close> where \<^verbatim>\<open>.expect(..)\<close> panics.\<close>

definition unwrapped :: "'e + 'a \<Rightarrow> 'a option" where
  "unwrapped r = (case r of Inl _ \<Rightarrow> None | Inr x \<Rightarrow> Some x)"

lemma unwrapped_eq_Some [simp]: "unwrapped r = Some x \<longleftrightarrow> r = Inr x"
  by (cases r) (simp_all add: unwrapped_def)

text \<open>\<^verbatim>\<open>str::contains\<close>.\<close>

primrec contains :: "rust_string \<Rightarrow> rust_string \<Rightarrow> bool" where
  "contains [] needle \<longleftrightarrow> needle = []"
| "contains (h # hs) needle \<longleftrightarrow> take (length needle) (h # hs) = needle \<or> contains hs needle"

lemma contains_prefix: "contains (needle @ post) needle"
proof (cases "needle @ post")
  case (Cons a list)
  then have "take (length needle) (a # list) = needle" by (metis append_eq_conv_conj)
  then show ?thesis using Cons by simp
qed simp

lemma contains_mid: "contains (pre @ needle @ post) needle"
  by (induction pre) (simp_all add: contains_prefix)

text \<open>The \<^verbatim>\<open>{:?}\<close> form that \<^verbatim>\<open>#[derive(Debug)]\<close> gives an \<^verbatim>\<open>ApfsError\<close>; the host's form of an I/O error is an argument.\<close>

fun debug_error :: "(io_error \<Rightarrow> rust_string) \<Rightarrow> apfs_error \<Rightarrow> rust_string" where
  "debug_error io_debug (Io e) = str_bytes ''Io('' @ io_debug e @ str_bytes '')''"
| "debug_error io_debug (NoValidSuperblock checked last_magic) =
     str_bytes ''NoValidSuperblock { checked: '' @ fmt_dec checked @ str_bytes '', last_magic: ''
     @ fmt_dec (unat last_magic) @ str_bytes '' }''"
| "debug_error io_debug (ChecksumMismatch block stored computed) =
     str_bytes ''ChecksumMismatch { block: '' @ fmt_u64 block @ str_bytes '', stored: '' @ fmt_u64 stored
     @ str_bytes '', computed: '' @ fmt_u64 computed @ str_bytes '' }''"
| "debug_error io_debug (OmapUnresolved oid xid) =
     str_bytes ''OmapUnresolved { oid: '' @ fmt_u64 oid @ str_bytes '', xid: '' @ fmt_u64 xid @ str_bytes '' }''"
| "debug_error io_debug (UnexpectedObjectType structure expected found) =
     str_bytes ''UnexpectedObjectType { structure: \"'' @ str_bytes structure @ str_bytes ''\", expected: ''
     @ fmt_dec (unat expected) @ str_bytes '', found: '' @ fmt_dec (unat found) @ str_bytes '' }''"
| "debug_error io_debug UnsupportedFusion = str_bytes ''UnsupportedFusion''"
| "debug_error io_debug (UnsupportedSpacemanCab count) =
     str_bytes ''UnsupportedSpacemanCab { count: '' @ fmt_u64 count @ str_bytes '' }''"
| "debug_error io_debug (FieldOutOfRange structure field val cap) =
     str_bytes ''FieldOutOfRange { structure: \"'' @ str_bytes structure @ str_bytes ''\", field: \"'' @ str_bytes field
     @ str_bytes ''\", value: '' @ fmt_u64 val @ str_bytes '', cap: '' @ fmt_u64 cap @ str_bytes '' }''"
| "debug_error io_debug (CycleGuard cap) = str_bytes ''CycleGuard { cap: '' @ fmt_dec cap @ str_bytes '' }''"
| "debug_error io_debug (CheckpointTreeUnsupported area) =
     str_bytes ''CheckpointTreeUnsupported { area: \"'' @ str_bytes area @ str_bytes ''\" }''"
| "debug_error io_debug (SnapshotNotFound xid) = str_bytes ''SnapshotNotFound { xid: '' @ fmt_u64 xid @ str_bytes '' }''"
| "debug_error io_debug (Decmpfs msg) = str_bytes ''Decmpfs(\"'' @ str_bytes msg @ str_bytes ''\")''"
| "debug_error io_debug (Panic msg) = str_bytes msg"

lemma debug_names_field [simp]:
  "contains (debug_error io_debug (FieldOutOfRange structure field val cap)) (str_bytes field)"
  using contains_mid [of "str_bytes ''FieldOutOfRange { structure: \"'' @ str_bytes structure @ str_bytes ''\", field: \"''"]
  by simp

lemma display_names_field [simp]:
  "contains (display_error io_text (FieldOutOfRange structure field val cap)) (str_bytes field)"
  using contains_mid [of "str_bytes ''structural field out of range in '' @ str_bytes structure @ str_bytes '': ''"]
  by simp

end
