(* ===== verification/Test_Encryption.thy ===== *)
theory Test_Encryption
  imports Unlock_Check Locked Container Fixture
begin

text \<open>
  The test module of \<^verbatim>\<open>core/src/encryption.rs\<close>. Its builders \<^verbatim>\<open>keybag\<close> and \<^verbatim>\<open>container_keybag_for\<close>
  write keybags in the sense of the theory \<open>Keybag\<close>, so what its tests assert follows from the
  general facts there; the tests on malformed input are evaluated. The tests that read a committed
  disk image are stated over an arbitrary image and cipher library, with what they amount to there.
\<close>

subsection \<open>Builders\<close>

text \<open>\<^verbatim>\<open>Vec::resize(n, 0)\<close>.\<close>

definition resize :: "bytes \<Rightarrow> nat \<Rightarrow> bytes" where
  "resize v n = take n v @ replicate (n - length v) 0"

definition keybag_header :: "string \<Rightarrow> nat \<Rightarrow> bytes" where
  "keybag_header magic nkeys =
     (let data = replicate (OBJ_PHYS_LEN + 16) 0;
          data = overlay data 24 (str_bytes magic);
          data = overlay data OBJ_PHYS_LEN (to_le 2 (1 :: u16))
      in overlay data KL_NKEYS (to_le 2 (of_nat nkeys :: u16)))"

definition keybag_entry :: "u16 \<times> nat \<Rightarrow> bytes" where
  "keybag_entry te =
     (let e = replicate (24 + snd te) 0;
          e = overlay e 16 (to_le 2 (fst te));
          e = overlay e 18 (to_le 2 (of_nat (snd te) :: u16))
      in resize e ((length e + 15) div 16 * 16))"

definition keybag :: "(u16 \<times> nat) list \<Rightarrow> bytes" where
  "keybag items =
     (let data = keybag_header ''keys'' (length items);
          data = fold (\<lambda>te data. data @ keybag_entry te) items data;
          nbytes = of_nat (length data) :: u32
      in overlay data 4 (to_le 4 nbytes))"

definition container_keybag_entry :: "bytes \<Rightarrow> u16 \<times> bytes \<Rightarrow> bytes" where
  "container_keybag_entry uuid tp =
     (let e = replicate (KE_HEADER_LEN + length (snd tp)) 0;
          e = overlay e 0 uuid;
          e = overlay e KE_TAG (to_le 2 (fst tp));
          e = overlay e KE_KEYLEN (to_le 2 (of_nat (length (snd tp)) :: u16));
          e = overlay e KE_HEADER_LEN (snd tp)
      in resize e ((length e + 15) div 16 * 16))"

definition container_keybag_for :: "bytes \<Rightarrow> (u16 \<times> bytes) list \<Rightarrow> bytes" where
  "container_keybag_for uuid items =
     fold (\<lambda>tp data. data @ container_keybag_entry uuid tp) items (keybag_header ''syek'' (length items))"

lemma length_keybag_header: "length magic = 4 \<Longrightarrow> length (keybag_header magic n) = 48"
  by (simp add: keybag_header_def layout_defs str_bytes_def length_overlay)

lemma nkeys_keybag_header: "length magic = 4 \<Longrightarrow> le_u16 (keybag_header magic n) 34 = of_nat n"
  by (simp add: keybag_header_def layout_defs str_bytes_def store_simps)

lemma keybag_step_eq: "(39 + n) div 16 * 16 = keybag_step n"
  by (simp add: keybag_step_def KE_HEADER_LEN_def)

lemma fold_append: "fold (\<lambda>x d. d @ f x) xs d = d @ concat (map f xs)"
  by (induction xs arbitrary: d) auto

lemma resize_larger: "length v \<le> n \<Longrightarrow> resize v n = v @ replicate (n - length v) 0"
  by (simp add: resize_def)

lemma keybag_entry_eq: "keybag_entry (t, n) = enc_ke (replicate 16 0, t, replicate n 0)"
proof -
  define e where "e = overlay (overlay (replicate (24 + n) (0 :: u8)) 16 (to_le 2 t)) 18 (to_le 2 (of_nat n :: u16))"
  have "e = replicate 16 0 @ to_le 2 t @ to_le 2 (of_nat n :: u16) @ replicate 4 0 @ replicate n 0"
    by (simp add: e_def overlay_def take_replicate drop_replicate min_def)
      (simp add: replicate_add [symmetric])
  moreover have "resize e (keybag_step n) = e @ replicate (keybag_step n - 24 - n) 0"
    using keybag_step_ge [of n] by (subst resize_larger) (simp_all add: e_def length_overlay)
  moreover have "length e = 24 + n" by (simp add: e_def length_overlay)
  ultimately show ?thesis
    by (simp add: keybag_entry_def Let_def e_def [symmetric] keybag_step_eq enc_ke_def)
qed

lemma container_keybag_entry_eq:
  assumes "length u = 16"
  shows "container_keybag_entry u (t, p) = enc_ke (u, t, p)"
proof -
  define e where "e = overlay (overlay (overlay (overlay (replicate (24 + length p) (0 :: u8)) 0 u) 16 (to_le 2 t)) 18
    (to_le 2 (of_nat (length p) :: u16))) 24 p"
  have "e = u @ to_le 2 t @ to_le 2 (of_nat (length p) :: u16) @ replicate 4 0 @ p"
    using assms by (simp add: e_def overlay_def take_replicate drop_replicate min_def)
  moreover have "resize e (keybag_step (length p)) = e @ replicate (keybag_step (length p) - 24 - length p) 0"
    using keybag_step_ge [of "length p"] assms by (subst resize_larger) (simp_all add: e_def length_overlay)
  moreover have "length e = 24 + length p" using assms by (simp add: e_def length_overlay)
  ultimately show ?thesis
    by (simp add: container_keybag_entry_def Let_def layout_defs e_def [symmetric] keybag_step_eq enc_ke_def)
qed

text \<open>Both builders write keybags.\<close>

lemma keybag_is_written:
  assumes "list_all (\<lambda>te. snd te < 2 ^ 16) items" "length items \<le> 4096"
  shows "keybag_written (keybag items) (map (\<lambda>(t, n). (replicate 16 0, t, replicate n 0)) items)"
proof -
  let ?h = "keybag_header ''keys'' (length items)" and ?es = "map (\<lambda>(t, n). (replicate 16 0, t, replicate n 0)) items"
  have h: "length ?h = 48" by (simp add: length_keybag_header)
  have "concat (map keybag_entry items) = concat (map enc_ke ?es)"
    by (rule arg_cong [where f = concat]) (auto simp: keybag_entry_eq)
  then have "keybag items = overlay (?h @ concat (map enc_ke ?es)) 4
      (to_le 4 (of_nat (length (?h @ concat (map enc_ke ?es))) :: u32))"
    by (simp add: keybag_def fold_append Let_def)
  also have "\<dots> = overlay ?h 4 (to_le 4 (of_nat (length (?h @ concat (map enc_ke ?es))) :: u32)) @ concat (map enc_ke ?es)"
    using h by (simp add: overlay_def)
  finally obtain w :: u32 where kb: "keybag items = overlay ?h 4 (to_le 4 w) @ concat (map enc_ke ?es)" by blast
  have "length (overlay ?h 4 (to_le 4 w)) = 48 \<and> le_u16 (overlay ?h 4 (to_le 4 w)) 34 = of_nat (length ?es)"
    using h nkeys_keybag_header [of "''keys''" "length items"] by (simp add: store_simps)
  moreover have "list_all ke_ok ?es" using assms(1) by (auto simp: list_all_iff ke_ok_def)
  ultimately show ?thesis
    using kb assms(2) unfolding keybag_written_def by (metis append_Nil2 length_map)
qed

lemma container_keybag_is_written:
  assumes "length u = 16" "list_all (\<lambda>tp. length (snd tp) < 2 ^ 16) items" "length items \<le> 4096"
  shows "keybag_written (container_keybag_for u items @ post) (map (\<lambda>(t, p). (u, t, p)) items)"
proof -
  let ?h = "keybag_header ''syek'' (length items)" and ?es = "map (\<lambda>(t, p). (u, t, p)) items"
  have "concat (map (container_keybag_entry u) items) = concat (map enc_ke ?es)"
    using assms(1) by (intro arg_cong [where f = concat]) (auto simp: container_keybag_entry_eq)
  then have "container_keybag_for u items @ post = ?h @ concat (map enc_ke ?es) @ post"
    by (simp add: container_keybag_for_def fold_append)
  moreover have "list_all ke_ok ?es" using assms(1,2) by (auto simp: list_all_iff ke_ok_def)
  moreover have "length ?h = 48" "le_u16 ?h 34 = of_nat (length ?es)"
    by (simp_all add: length_keybag_header nkeys_keybag_header)
  ultimately show ?thesis
    using assms(3) unfolding keybag_written_def by (metis length_map)
qed

subsection \<open>The tag inventory\<close>

definition reads_volume_key_and_hint_tags :: bool where
  "reads_volume_key_and_hint_tags \<longleftrightarrow>
     expect (read_keybag (keybag [(0x02, 32), (0x04, 8)])) (\<lambda>st.
       es_encrypted st \<and> VolumeKey \<in> set (es_tags_present st)
       \<and> VolumePassphraseHint \<in> set (es_tags_present st) \<and> es_has_passphrase_hint st)"

definition from_u16_maps_every_known_tag :: bool where
  "from_u16_maps_every_known_tag \<longleftrightarrow>
     keybag_tag_from_u16 0x01 = WrappingKey \<and> keybag_tag_from_u16 0x02 = VolumeKey
     \<and> keybag_tag_from_u16 0x03 = VolumeUnlockRecords \<and> keybag_tag_from_u16 0x04 = VolumePassphraseHint
     \<and> keybag_tag_from_u16 0xf8 = UserPayload \<and> keybag_tag_from_u16 0x99 = UnknownTag"

definition wrapping_key_and_unlock_records_are_encrypted :: bool where
  "wrapping_key_and_unlock_records_are_encrypted \<longleftrightarrow>
     expect (read_keybag (keybag [(0x01, 32), (0x03, 16)])) (\<lambda>st.
       es_encrypted st \<and> WrappingKey \<in> set (es_tags_present st) \<and> VolumeUnlockRecords \<in> set (es_tags_present st))"

definition empty_keybag_reports_not_encrypted :: bool where
  "empty_keybag_reports_not_encrypted \<longleftrightarrow>
     expect (read_keybag (keybag [])) (\<lambda>st.
       \<not> es_encrypted st \<and> es_tags_present st = [] \<and> \<not> es_has_passphrase_hint st)"

definition unknown_tag_maps_to_unknown_and_records_raw_value :: bool where
  "unknown_tag_maps_to_unknown_and_records_raw_value \<longleftrightarrow>
     expect (read_keybag (keybag [(0x55, 4)])) (\<lambda>st.
       UnknownTag \<in> set (es_tags_present st) \<and> es_unknown_tags st = [(0x55, of_nat KL_ENTRIES_OFF)])"

definition header_claiming_more_entries_than_the_blob_stops_early :: bool where
  "header_claiming_more_entries_than_the_blob_stops_early \<longleftrightarrow>
     (let data = replicate 24 0;
          data = overlay data 0 (to_le 2 (1 :: u16));
          data = overlay data 2 (to_le 2 (4 :: u16))
      in expect (read_keybag data) (\<lambda>st. es_tags_present st = []))"

text \<open>What the inventory of any keybag the builder writes is.\<close>

lemma read_keybag_of_keybag:
  assumes "list_all (\<lambda>te. snd te < 2 ^ 16) items" "length items \<le> 4096"
  obtains tags where "read_keybag (keybag items) = Inr \<lparr>
      es_encrypted = (\<exists>te\<in>set items. fst te \<in> {1, 2, 3}),
      es_tags_present = tags,
      es_has_passphrase_hint = (\<exists>te\<in>set items. fst te = 4),
      es_unknown_tags = filter (\<lambda>p. fst p \<notin> {1, 2, 3, 4, 0xf8})
        (placed_tags 48 (map (\<lambda>(t, n). (replicate 16 0, t, replicate n 0)) items)) \<rparr>"
    and "set tags = (\<lambda>te. keybag_tag_from_u16 (fst te)) ` set items"
proof -
  let ?es = "map (\<lambda>(t, n). (replicate 16 (0 :: u8), t, replicate n (0 :: u8))) items"
  obtain tags where r: "read_keybag (keybag items) = Inr \<lparr>
      es_encrypted = (\<exists>e\<in>set ?es. fst (snd e) \<in> {1, 2, 3}), es_tags_present = tags,
      es_has_passphrase_hint = (\<exists>e\<in>set ?es. fst (snd e) = 4),
      es_unknown_tags = filter (\<lambda>p. fst p \<notin> {1, 2, 3, 4, 0xf8}) (placed_tags 48 ?es) \<rparr>"
    "set tags = (\<lambda>e. keybag_tag_from_u16 (fst (snd e))) ` set ?es"
    using read_keybag_written [OF keybag_is_written [OF assms]] by blast
  have e: "(\<exists>e\<in>set ?es. Q (fst (snd e))) \<longleftrightarrow> (\<exists>te\<in>set items. Q (fst te))" for Q by (auto simp: case_prod_unfold)
  show thesis
    using r(2) by (intro that [of tags, OF r(1) [unfolded e [of "\<lambda>t. t \<in> {1, 2, 3}"] e [of "\<lambda>t. t = 4"]]])
      (simp add: image_image case_prod_unfold)
qed

lemma inventory_tests_hold:
  "reads_volume_key_and_hint_tags" "from_u16_maps_every_known_tag"
  "wrapping_key_and_unlock_records_are_encrypted" "empty_keybag_reports_not_encrypted"
  "unknown_tag_maps_to_unknown_and_records_raw_value"
  "header_claiming_more_entries_than_the_blob_stops_early"
proof -
  obtain tags where "read_keybag (keybag [(2, 32), (4, 8)]) = Inr \<lparr> es_encrypted = True, es_tags_present = tags,
      es_has_passphrase_hint = True, es_unknown_tags = [] \<rparr>" "set tags = {VolumeKey, VolumePassphraseHint}"
    by (rule read_keybag_of_keybag [of "[(2, 32), (4, 8)]"]) (auto simp: keybag_tag_from_u16_def)
  then show "reads_volume_key_and_hint_tags" by (simp add: reads_volume_key_and_hint_tags_def)
  show "from_u16_maps_every_known_tag" by (simp add: from_u16_maps_every_known_tag_def keybag_tag_from_u16_def)
  obtain tags where "read_keybag (keybag [(1, 32), (3, 16)]) = Inr \<lparr> es_encrypted = True, es_tags_present = tags,
      es_has_passphrase_hint = False, es_unknown_tags = [] \<rparr>" "set tags = {WrappingKey, VolumeUnlockRecords}"
    by (rule read_keybag_of_keybag [of "[(1, 32), (3, 16)]"]) (auto simp: keybag_tag_from_u16_def)
  then show "wrapping_key_and_unlock_records_are_encrypted"
    by (simp add: wrapping_key_and_unlock_records_are_encrypted_def)
  obtain tags where "read_keybag (keybag []) = Inr \<lparr> es_encrypted = False, es_tags_present = tags,
      es_has_passphrase_hint = False, es_unknown_tags = [] \<rparr>" "set tags = {}"
    by (rule read_keybag_of_keybag [of "[]"]) auto
  then show "empty_keybag_reports_not_encrypted" by (simp add: empty_keybag_reports_not_encrypted_def)
  obtain tags where "read_keybag (keybag [(0x55, 4)]) = Inr \<lparr> es_encrypted = False, es_tags_present = tags,
      es_has_passphrase_hint = False, es_unknown_tags = [(0x55, 48)] \<rparr>" "set tags = {UnknownTag}"
    by (rule read_keybag_of_keybag [of "[(0x55, 4)]"]) (auto simp: keybag_tag_from_u16_def)
  then show "unknown_tag_maps_to_unknown_and_records_raw_value"
    by (simp add: unknown_tag_maps_to_unknown_and_records_raw_value_def KL_ENTRIES_OFF_def)
  show "header_claiming_more_entries_than_the_blob_stops_early"
    by (simp add: header_claiming_more_entries_than_the_blob_stops_early_def read_keybag_def keybag_nkeys_def
        layout_defs store_simps le_reads_out_of_range length_overlay)
qed

subsection \<open>The wrapped-KEK object\<close>

definition wrapped_kek_object_yields_salt_iterations_and_wrapped_key :: bool where
  "wrapped_kek_object_yields_salt_iterations_and_wrapped_key \<longleftrightarrow>
     (let wrapped = map (\<lambda>i. of_nat i * 7 + 3) [0..<40];
          salt = map (\<lambda>i. of_nat i XOR 0x5A) [0..<16];
          blob = [0x82, 8] @ [2, 0, 0, 0, 0, 0, 0, 0] @ [0x83, 0x81, 40] @ wrapped
            @ [0x84, 3] @ [0x01, 0xE8, 0x48] @ [0x85, 16] @ salt
      in expect (parse_wrapped_kek blob) (\<lambda>kek.
           wk_wrapped_key kek = wrapped \<and> wk_iterations kek = 125000 \<and> wk_salt kek = salt))"

definition wrapped_kek_object_rejects_a_wrong_sized_wrapped_key :: "(io_error \<Rightarrow> rust_string) \<Rightarrow> bool" where
  "wrapped_kek_object_rejects_a_wrong_sized_wrapped_key io_text \<longleftrightarrow>
     (let blob = [0x83, 32] @ replicate 32 0 @ [0x84, 2] @ [0x27, 0x10] @ [0x85, 16] @ replicate 16 0
      in expect_err (parse_wrapped_kek blob) (\<lambda>err. contains (display_error io_text err) (str_bytes ''wrapped_kek_len'')))"

definition wrapped_kek_accepts_a_two_byte_ber_length :: bool where
  "wrapped_kek_accepts_a_two_byte_ber_length \<longleftrightarrow>
     (let blob = [0x83, 0x82, 0x00, 40] @ replicate 40 0xAA @ [0x84, 0x01, 0x0A] @ [0x85] @ [16] @ replicate 16 0xBB
      in expect (parse_wrapped_kek blob) (\<lambda>k.
           length (wk_wrapped_key k) = 40 \<and> wk_iterations k = 10 \<and> length (wk_salt k) = 16))"

definition wrapped_kek_rejects_an_unsupported_ber_length_form :: "(io_error \<Rightarrow> rust_string) \<Rightarrow> bool" where
  "wrapped_kek_rejects_an_unsupported_ber_length_form io_debug \<longleftrightarrow>
     expect_err (parse_wrapped_kek [0x83, 0x84, 0, 0, 0, 40]) (\<lambda>e.
       contains (debug_error io_debug e) (str_bytes ''ber_length_form''))"

definition wrapped_kek_rejects_a_truncated_two_byte_length :: bool where
  "wrapped_kek_rejects_a_truncated_two_byte_length \<longleftrightarrow>
     expect_err (parse_wrapped_kek [0x83, 0x82, 0x00]) (\<lambda>_. True)"

lemmas kek_eval = parse_wrapped_kek_def kek_loop.simps kek_ber_length_def get_at_def get_range_def Let_def nth_append
  iterations_of_def be_u64_def bad_kek_def

lemma wrapped_kek_tests_hold:
  "wrapped_kek_object_yields_salt_iterations_and_wrapped_key"
  "wrapped_kek_object_rejects_a_wrong_sized_wrapped_key io_text"
  "wrapped_kek_accepts_a_two_byte_ber_length"
  "wrapped_kek_rejects_an_unsupported_ber_length_form io_debug"
  "wrapped_kek_rejects_a_truncated_two_byte_length"
proof -
  show "wrapped_kek_object_yields_salt_iterations_and_wrapped_key"
    unfolding wrapped_kek_object_yields_salt_iterations_and_wrapped_key_def Let_def
    by (simp add: kek_eval)
  show "wrapped_kek_object_rejects_a_wrong_sized_wrapped_key io_text"
    by (simp add: wrapped_kek_object_rejects_a_wrong_sized_wrapped_key_def kek_eval del: display_error.simps)
  show "wrapped_kek_accepts_a_two_byte_ber_length"
    by (simp add: wrapped_kek_accepts_a_two_byte_ber_length_def kek_eval)
  show "wrapped_kek_rejects_an_unsupported_ber_length_form io_debug"
    by (simp add: wrapped_kek_rejects_an_unsupported_ber_length_form_def kek_eval del: debug_error.simps)
  show "wrapped_kek_rejects_a_truncated_two_byte_length"
    by (simp add: wrapped_kek_rejects_a_truncated_two_byte_length_def kek_eval)
qed

subsection \<open>Malformed containers\<close>

definition container_keybag_rejects_a_non_apfs_image :: "crypto \<Rightarrow> (io_error \<Rightarrow> rust_string) \<Rightarrow> bool" where
  "container_keybag_rejects_a_non_apfs_image cr io_debug \<longleftrightarrow>
     expect_err (decrypt_container_keybag cr (replicate 4096 0)) (\<lambda>e.
       contains (debug_error io_debug e) (str_bytes ''magic''))"

definition container_keybag_rejects_an_unusable_block_size :: "crypto \<Rightarrow> (io_error \<Rightarrow> rust_string) \<Rightarrow> bool" where
  "container_keybag_rejects_an_unusable_block_size cr io_debug \<longleftrightarrow>
     (let img = replicate 8192 0;
          img = overlay img 32 (str_bytes ''NXSB'');
          img = overlay img NX_BLOCK_SIZE (to_le 4 (777 :: u32))
      in expect_err (decrypt_container_keybag cr img) (\<lambda>e.
           contains (debug_error io_debug e) (str_bytes ''block_size'')))"

definition container_keybag_rejects_an_absent_keylocker :: "crypto \<Rightarrow> (io_error \<Rightarrow> rust_string) \<Rightarrow> bool" where
  "container_keybag_rejects_an_absent_keylocker cr io_debug \<longleftrightarrow>
     (let img = replicate 8192 0;
          img = overlay img 32 (str_bytes ''NXSB'');
          img = overlay img NX_BLOCK_SIZE (to_le 4 (4096 :: u32))
      in expect_err (decrypt_container_keybag cr img) (\<lambda>e.
           contains (debug_error io_debug e) (str_bytes ''keylocker_extent'')))"

definition container_keybag_rejects_an_extent_past_the_image :: "crypto \<Rightarrow> bool" where
  "container_keybag_rejects_an_extent_past_the_image cr \<longleftrightarrow>
     (let img = replicate 8192 0;
          img = overlay img 32 (str_bytes ''NXSB'');
          img = overlay img NX_BLOCK_SIZE (to_le 4 (4096 :: u32));
          img = overlay img NX_KEYBAG_BLOCK (to_le 8 (9999 :: u64));
          img = overlay img NX_KEYBAG_BLOCKS (to_le 8 (1 :: u64))
      in expect_err (decrypt_container_keybag cr img) (\<lambda>_. True))"

definition unlock_volume_rejects_an_unparseable_image :: "crypto \<Rightarrow> bool" where
  "unlock_volume_rejects_an_unparseable_image cr \<longleftrightarrow>
     expect_err (unlock_volume cr (replicate 4096 0) (replicate 16 0x22) (str_bytes ''pw'')) (\<lambda>_. True)"

definition volume_area_decryption_is_a_no_op_for_the_sentinel_and_short_blocks :: "crypto \<Rightarrow> bool" where
  "volume_area_decryption_is_a_no_op_for_the_sentinel_and_short_blocks cr \<longleftrightarrow>
     (let original = replicate 4096 0x5A
      in decrypt_volume_area cr original (replicate 32 7) 0 4096 = original
         \<and> decrypt_volume_area cr original (replicate 32 7) 5 256 = original)"

definition key_derivation_with_zero_iterations_is_floored_not_zero :: "crypto \<Rightarrow> bool" where
  "key_derivation_with_zero_iterations_is_floored_not_zero cr \<longleftrightarrow>
     (let k = derive_key_from_password cr (str_bytes ''pw'') (replicate 16 0) 0 32
      in length k = 32 \<and> list_ex (\<lambda>b. b \<noteq> 0) k)"

lemmas nxsb_eval = decrypt_container_keybag_def decrypt_container_keybag_with_uuid_def Let_def bad_keylocker_def
  get_range_slice layout_defs NXSB_bytes store_simps

lemma no_nxsb: "decrypt_container_keybag cr (replicate 4096 0) = Inl (FieldOutOfRange ''nx_keylocker'' ''magic'' 0 1)"
  by (simp add: nxsb_eval replicate_four)

lemma malformed_container_tests_hold:
  "container_keybag_rejects_a_non_apfs_image cr io_debug"
  "container_keybag_rejects_an_unusable_block_size cr io_debug"
  "container_keybag_rejects_an_absent_keylocker cr io_debug"
  "container_keybag_rejects_an_extent_past_the_image cr"
  "unlock_volume_rejects_an_unparseable_image cr"
proof -
  show "container_keybag_rejects_a_non_apfs_image cr io_debug"
    by (simp add: container_keybag_rejects_a_non_apfs_image_def no_nxsb del: debug_error.simps)
  show "container_keybag_rejects_an_unusable_block_size cr io_debug"
    by (simp add: container_keybag_rejects_an_unusable_block_size_def nxsb_eval del: debug_error.simps)
  show "container_keybag_rejects_an_absent_keylocker cr io_debug"
    by (simp add: container_keybag_rejects_an_absent_keylocker_def nxsb_eval del: debug_error.simps)
  show "container_keybag_rejects_an_extent_past_the_image cr"
    by (simp add: container_keybag_rejects_an_extent_past_the_image_def keybag_extent_def nxsb_eval)
  show "unlock_volume_rejects_an_unparseable_image cr"
    by (simp add: unlock_volume_rejects_an_unparseable_image_def unlock_volume_def no_nxsb)
qed

lemma decryption_guard_tests_hold:
  "volume_area_decryption_is_a_no_op_for_the_sentinel_and_short_blocks cr"
  "key_derivation_with_zero_iterations_is_floored_not_zero cr \<longleftrightarrow>
     (\<exists>k. pbkdf2 cr (str_bytes ''pw'') (replicate 16 0) 1 32 = Some k \<and> length k = 32 \<and> list_ex (\<lambda>b. b \<noteq> 0) k)"
  by (auto simp: volume_area_decryption_is_a_no_op_for_the_sentinel_and_short_blocks_def decrypt_volume_area_def
      key_derivation_with_zero_iterations_is_floored_not_zero_def derive_key_from_password_def layout_defs Let_def
      split: option.split)

subsection \<open>Malformed keybag entries\<close>

definition volume_records_stops_at_the_end_of_a_short_keybag :: bool where
  "volume_records_stops_at_the_end_of_a_short_keybag \<longleftrightarrow>
     (let kb = replicate (OBJ_PHYS_LEN + 16) 0;
          kb = overlay kb KL_NKEYS (to_le 2 (50 :: u16))
      in expect_err (volume_records kb (replicate 16 0x11)) (\<lambda>_. True))"

definition unlock_with_volume_keybag_reports_a_missing_kek_object :: "crypto \<Rightarrow> (io_error \<Rightarrow> rust_string) \<Rightarrow> bool" where
  "unlock_with_volume_keybag_reports_a_missing_kek_object cr io_debug \<longleftrightarrow>
     (let records = \<lparr> vr_wrapped_vek = replicate 40 0, vr_volume_keybag_block = 1, vr_volume_keybag_blocks = 1 \<rparr>;
          empty = replicate (OBJ_PHYS_LEN + 16) 0
      in expect_err (unlock_with_volume_keybag cr empty records (str_bytes ''pw'')) (\<lambda>e.
           contains (debug_error io_debug e) (str_bytes ''kek_object_absent'')))"

definition volume_records_rejects_a_wrong_sized_wrapped_vek :: "(io_error \<Rightarrow> rust_string) \<Rightarrow> bool" where
  "volume_records_rejects_a_wrong_sized_wrapped_vek io_debug \<longleftrightarrow>
     (let uuid = replicate 16 0x33;
          inner = [0x83, 8, 0, 0, 0, 0, 0, 0, 0, 0];
          a3 = [0xa3, of_nat (length inner)] @ inner;
          sq = [0x30, of_nat (length a3)] @ a3;
          kb = container_keybag_for uuid [(0x02, sq)]
      in expect_err (volume_records kb uuid) (\<lambda>e. contains (debug_error io_debug e) (str_bytes ''wrapped_vek_len'')))"

definition volume_records_rejects_short_unlock_records :: "(io_error \<Rightarrow> rust_string) \<Rightarrow> bool" where
  "volume_records_rejects_short_unlock_records io_debug \<longleftrightarrow>
     (let uuid = replicate 16 0x44;
          kb = container_keybag_for uuid [(0x03, replicate 4 0)]
      in expect_err (volume_records kb uuid) (\<lambda>e. contains (debug_error io_debug e) (str_bytes ''unlock_records_len'')))"

definition volume_records_rejects_a_volume_key_entry_with_no_wrapped_key :: bool where
  "volume_records_rejects_a_volume_key_entry_with_no_wrapped_key \<longleftrightarrow>
     (let uuid = replicate 16 0x55;
          a3 = [0xa3, 2, 0x99, 0];
          sq = [0x30, of_nat (length a3)] @ a3;
          kb = container_keybag_for uuid [(0x02, sq)]
      in expect_err (volume_records kb uuid) (\<lambda>_. True))"

definition a_volume_keybag_with_an_unsupported_ber_length_yields_no_kek ::
    "crypto \<Rightarrow> (io_error \<Rightarrow> rust_string) \<Rightarrow> bool" where
  "a_volume_keybag_with_an_unsupported_ber_length_yields_no_kek cr io_debug \<longleftrightarrow>
     (let uuid = replicate 16 0x66;
          sq = [0x30, 0x84, 0, 0, 0, 4, 0xa3, 2, 0x83, 0];
          kb = container_keybag_for uuid [(0x01, sq)];
          records = \<lparr> vr_wrapped_vek = replicate 40 0, vr_volume_keybag_block = 1, vr_volume_keybag_blocks = 1 \<rparr>
      in expect_err (unlock_with_volume_keybag cr kb records (str_bytes ''pw'')) (\<lambda>e.
           contains (debug_error io_debug e) (str_bytes ''kek_object_absent'')))"

definition a_volume_keybag_with_a_two_byte_ber_length_is_walked :: "crypto \<Rightarrow> (io_error \<Rightarrow> rust_string) \<Rightarrow> bool" where
  "a_volume_keybag_with_a_two_byte_ber_length_is_walked cr io_debug \<longleftrightarrow>
     (let uuid = replicate 16 0x77;
          a3 = [0xa3, 0x81, 44] @ [0x83, 40] @ replicate 40 0xCC @ [0x84, 0x01, 0x05];
          sq = [0x30, 0x82, 0x00, of_nat (length a3)] @ a3;
          kb = container_keybag_for uuid [(0x01, sq)];
          records = \<lparr> vr_wrapped_vek = replicate 40 0, vr_volume_keybag_block = 1, vr_volume_keybag_blocks = 1 \<rparr>
      in expect_err (unlock_with_volume_keybag cr kb records (str_bytes ''pw'')) (\<lambda>e.
           \<not> contains (debug_error io_debug e) (str_bytes ''kek_object_absent'')))"

lemma volume_records_of_fixture:
  assumes "length u = 16" "list_all (\<lambda>tp. length (snd tp) < 2 ^ 16) items" "length items \<le> 4096"
  shows "volume_records_loop (container_keybag_for u items) u (keybag_nkeys (container_keybag_for u items)) KL_ENTRIES_OFF st
    = volume_entries (map (\<lambda>(t, p). (u, keybag_tag_from_u16 t, p)) items) st"
  unfolding volume_records_loop_entries owned_entries_def [symmetric]
  using owned_entries_written [OF container_keybag_is_written [OF assms, of "[]"], of u]
  by (simp add: filter_map comp_def case_prod_unfold)

lemma find_kek_object_of_fixture:
  assumes "length u = 16" "list_all (\<lambda>tp. length (snd tp) < 2 ^ 16) items" "length items \<le> 4096"
  shows "find_kek_object (container_keybag_for u items)
    = first_some (\<lambda>(t, p). kek_object_of (keybag_tag_from_u16 t, p)) items"
  using find_kek_object_written [OF container_keybag_is_written [OF assms, of "[]"]]
  by (simp add: first_some_map comp_def case_prod_unfold)

lemmas ber_eval = ber_find_def ber_find_loop.simps ber_length_def get_at_def get_range_def option_or_def Let_def nth_append
  keybag_tag_from_u16_def bad_container_kb_def bad_vkb_def

lemma volume_records_loop_short: "length kb < off + 24 \<Longrightarrow> volume_records_loop kb u n off st = Inr st"
  by (cases n) (simp_all add: layout_defs)

lemma malformed_entry_tests_hold:
  "volume_records_stops_at_the_end_of_a_short_keybag"
  "unlock_with_volume_keybag_reports_a_missing_kek_object cr io_debug"
  "volume_records_rejects_a_wrong_sized_wrapped_vek io_debug"
  "volume_records_rejects_short_unlock_records io_debug"
  "volume_records_rejects_a_volume_key_entry_with_no_wrapped_key"
  "a_volume_keybag_with_an_unsupported_ber_length_yields_no_kek cr io_debug"
proof -
  show "volume_records_stops_at_the_end_of_a_short_keybag"
    by (simp add: volume_records_stops_at_the_end_of_a_short_keybag_def volume_records_def volume_records_loop_short
        layout_defs store_simps)
  show "unlock_with_volume_keybag_reports_a_missing_kek_object cr io_debug"
    by (simp add: unlock_with_volume_keybag_reports_a_missing_kek_object_def unlock_with_volume_keybag_def
        find_kek_object_def keybag_nkeys_def layout_defs store_simps bad_vkb_def del: debug_error.simps)
  show "volume_records_rejects_a_wrong_sized_wrapped_vek io_debug"
    by (simp add: volume_records_rejects_a_wrong_sized_wrapped_vek_def volume_records_def volume_records_of_fixture
        ber_eval del: debug_error.simps)
  show "volume_records_rejects_short_unlock_records io_debug"
    by (simp add: volume_records_rejects_short_unlock_records_def volume_records_def volume_records_of_fixture
        ber_eval del: debug_error.simps)
  show "volume_records_rejects_a_volume_key_entry_with_no_wrapped_key"
    by (simp add: volume_records_rejects_a_volume_key_entry_with_no_wrapped_key_def volume_records_def
        volume_records_of_fixture ber_eval)
  show "a_volume_keybag_with_an_unsupported_ber_length_yields_no_kek cr io_debug"
    by (simp add: a_volume_keybag_with_an_unsupported_ber_length_yields_no_kek_def unlock_with_volume_keybag_def
        find_kek_object_of_fixture kek_object_of_def ber_eval del: debug_error.simps)
qed

lemma two_byte_length_test_holds: "a_volume_keybag_with_a_two_byte_ber_length_is_walked cr io_debug"
  by (simp add: a_volume_keybag_with_a_two_byte_ber_length_is_walked_def unlock_with_volume_keybag_def
    find_kek_object_of_fixture kek_object_of_def ber_eval kek_eval str_bytes_Cons fmt_dec_def digits.simps digit_byte_def)

subsection \<open>Ranged reads against the whole image\<close>

definition FIXTURE_VOLUME_UUID :: bytes where
  "FIXTURE_VOLUME_UUID =
     [0x75, 0xAA, 0xF7, 0xF9, 0xBF, 0x5A, 0x4A, 0x4F, 0x86, 0xC0, 0x3E, 0xF9, 0x09, 0x36, 0xBD, 0x7C]"

text \<open>
  The slice of the container keybag as the tests take it; \<open>None\<close> where indexing panics. The products
  are \<^verbatim>\<open>usize\<close> ones, whose overflow also panics: they are then beyond the image in \<open>nat\<close>.
\<close>

definition keybag_range :: "bytes \<Rightarrow> (nat \<times> nat \<times> bytes \<times> bytes) option" where
  "keybag_range img =
     (let block_size = unat (le_u32 img NX_BLOCK_SIZE);
          paddr = unat (le_u64 img NX_KEYBAG_BLOCK);
          blocks = unat (le_u64 img NX_KEYBAG_BLOCKS)
      in case get_range img NX_CONTAINER_UUID (NX_CONTAINER_UUID + 16) of
           None \<Rightarrow> None
         | Some uuid \<Rightarrow>
             (let start = paddr * block_size; end' = start + blocks * block_size
              in case get_range img start end' of None \<Rightarrow> None | Some area \<Rightarrow> Some (start, end', uuid, area)))"

definition keybag_area_decrypts_identically_from_a_ranged_read :: "crypto \<Rightarrow> bytes \<Rightarrow> bool" where
  "keybag_area_decrypts_identically_from_a_ranged_read cr img \<longleftrightarrow>
     (case keybag_range img of
        None \<Rightarrow> False
      | Some (start, end', uuid, area) \<Rightarrow>
          (let ranged = decrypt_keybag_area cr area uuid (start div KEYBAG_SECTOR)
           in expect (decrypt_container_keybag cr img) (\<lambda>whole.
                ranged = whole \<and> get_range ranged 24 28 = Some (str_bytes ''syek''))))"

definition ranged_unlock :: "crypto \<Rightarrow> bytes \<Rightarrow> bytes \<Rightarrow> rust_string \<Rightarrow> (bytes \<times> nat) option" where
  "ranged_unlock cr img volume_uuid password =
     (case get_range img 0 4096 of
        None \<Rightarrow> None
      | Some sb \<Rightarrow>
          (let block_size = unat (le_u32 sb NX_BLOCK_SIZE);
               uuid = take 16 (drop NX_CONTAINER_UUID sb);
               cs = unat (le_u64 sb NX_KEYBAG_BLOCK) * block_size;
               ce = cs + unat (le_u64 sb NX_KEYBAG_BLOCKS) * block_size
           in case get_range img cs ce of
                None \<Rightarrow> None
              | Some area \<Rightarrow>
                  (let ckb = decrypt_keybag_area cr area uuid (cs div KEYBAG_SECTOR)
                   in case volume_records ckb volume_uuid of
                        Inl _ \<Rightarrow> None
                      | Inr rec \<Rightarrow>
                          (let vs = unat (vr_volume_keybag_block rec) * block_size;
                               ve = vs + unat (vr_volume_keybag_blocks rec) * block_size
                           in case get_range img vs ve of
                                None \<Rightarrow> None
                              | Some varea \<Rightarrow>
                                  (let vkb = decrypt_keybag_area cr varea volume_uuid (vs div KEYBAG_SECTOR);
                                       vek = (case unlock_with_volume_keybag cr vkb rec password of
                                                Inl _ \<Rightarrow> [] | Inr vek \<Rightarrow> vek)
                                   in Some (vek, length sb + (ce - cs) + (ve - vs)))))))"

definition hex_literal_vek_fingerprint :: bytes where
  "hex_literal_vek_fingerprint =
     [0x12, 0xed, 0x22, 0xee, 0x47, 0xf9, 0x27, 0x28, 0x8c, 0x6e, 0xb2, 0x44, 0xf6, 0xa6, 0xd3, 0x54,
      0xa2, 0xb5, 0xed, 0x14, 0x18, 0xa6, 0x34, 0x11, 0x64, 0x9d, 0x4e, 0x4a, 0xbc, 0xa5, 0xb1, 0x43]"

definition the_full_unlock_chain_works_from_ranged_reads_alone :: "crypto \<Rightarrow> (bytes \<Rightarrow> bytes) \<Rightarrow> bytes \<Rightarrow> bool" where
  "the_full_unlock_chain_works_from_ranged_reads_alone cr sha256 img \<longleftrightarrow>
     (case ranged_unlock cr img FIXTURE_VOLUME_UUID (str_bytes ''apfs-FV-TEST-2026'') of
        None \<Rightarrow> False
      | Some (got, bytes_read) \<Rightarrow>
          expect (unlock_volume cr img FIXTURE_VOLUME_UUID (str_bytes ''apfs-FV-TEST-2026'')) (\<lambda>want.
            got = want \<and> bytes_read \<le> 64 * 1024 \<and> sha256 got = hex_literal_vek_fingerprint))"

definition the_ranged_chain_refuses_a_wrong_password :: "crypto \<Rightarrow> bytes \<Rightarrow> bool" where
  "the_ranged_chain_refuses_a_wrong_password cr img \<longleftrightarrow>
     (case ranged_unlock cr img FIXTURE_VOLUME_UUID (str_bytes ''not-the-password'') of
        None \<Rightarrow> False | Some (vek, _) \<Rightarrow> vek = [])"

lemma keybag_extent_range:
  assumes "keybag_extent bad f1 f2 f3 f4 img paddr blocks bs = Inr (start, ct)"
  shows "start = unat paddr * bs" "get_range img start (start + unat blocks * bs) = Some ct"
  using assms by (auto simp: keybag_extent_def Let_def split: if_splits option.splits)

lemma decrypt_container_keybag_range:
  assumes "decrypt_container_keybag cr img = Inr kb"
  obtains start uuid area where
    "keybag_range img = Some (start, start + unat (le_u64 img NX_KEYBAG_BLOCKS) * image_block_size img, uuid, area)"
    and "get_range img NX_CONTAINER_UUID (NX_CONTAINER_UUID + 16) = Some uuid"
    and "start = unat (le_u64 img NX_KEYBAG_BLOCK) * image_block_size img"
    and "get_range img start (start + unat (le_u64 img NX_KEYBAG_BLOCKS) * image_block_size img) = Some area"
    and "kb = decrypt_keybag_area cr area uuid (start div KEYBAG_SECTOR)"
proof -
  obtain uuid start area where u: "get_range img NX_CONTAINER_UUID (NX_CONTAINER_UUID + 16) = Some uuid"
      and e: "keybag_extent bad_keylocker ''keybag_offset'' ''keybag_length'' ''keybag_end'' ''keybag_past_image'' img
        (le_u64 img NX_KEYBAG_BLOCK) (le_u64 img NX_KEYBAG_BLOCKS) (image_block_size img) = Inr (start, area)"
      and "kb = decrypt_keybag_area cr area uuid (start div KEYBAG_SECTOR)"
    using assms by (auto simp: decrypt_container_keybag_def decrypt_container_keybag_with_uuid_def Let_def
        split: option.splits if_splits sum.splits)
  then show thesis
    using keybag_extent_range [OF e] by (intro that [of start uuid area]) (auto simp: keybag_range_def Let_def)
qed

text \<open>
  On every image whose container keybag decrypts, the ranged read of the keybag area decrypts to
  the same bytes.
\<close>

lemma ranged_read_test:
  assumes "decrypt_container_keybag cr img = Inr kb"
  shows "keybag_area_decrypts_identically_from_a_ranged_read cr img \<longleftrightarrow> get_range kb 24 28 = Some (str_bytes ''syek'')"
  using assms by (rule decrypt_container_keybag_range)
    (simp add: keybag_area_decrypts_identically_from_a_ranged_read_def assms)

text \<open>The ranged chain and \<^verbatim>\<open>unlock_volume\<close> recover the same key, for every image, volume and password.\<close>

lemma ranged_unlock_agrees:
  assumes "unlock_volume cr img u pw = Inr vek" "4096 \<le> length img"
  shows "\<exists>n. ranged_unlock cr img u pw = Some (vek, n)"
proof -
  obtain kb rec start ct where d: "decrypt_container_keybag cr img = Inr kb" and r: "volume_records kb u = Inr rec"
      and e: "keybag_extent bad_unlock ''vkb_offset'' ''vkb_length'' ''vkb_end'' ''vkb_past_image'' img
        (vr_volume_keybag_block rec) (vr_volume_keybag_blocks rec) (image_block_size img) = Inr (start, ct)"
      and v: "unlock_with_volume_keybag cr (decrypt_keybag_area cr ct u (start div KEYBAG_SECTOR)) rec pw = Inr vek"
    using assms(1) by (auto simp: unlock_volume_def split: sum.splits)
  obtain cs uuid area where c: "get_range img NX_CONTAINER_UUID (NX_CONTAINER_UUID + 16) = Some uuid"
      "cs = unat (le_u64 img NX_KEYBAG_BLOCK) * image_block_size img"
      "get_range img cs (cs + unat (le_u64 img NX_KEYBAG_BLOCKS) * image_block_size img) = Some area"
      "kb = decrypt_keybag_area cr area uuid (cs div KEYBAG_SECTOR)"
    using decrypt_container_keybag_range [OF d] by metis
  have "get_range img 0 4096 = Some (take 4096 img)" using assms(2) by (simp add: get_range_def)
  moreover have "uuid = take 16 (drop NX_CONTAINER_UUID (take 4096 img))"
    using superblock_reads(5) [OF assms(2)] c(1) by simp
  ultimately show ?thesis
    using c r v keybag_extent_range [OF e] superblock_reads(2-4) [OF assms(2)] by (simp add: ranged_unlock_def Let_def)
qed

lemma ranged_unlock_only:
  assumes "ranged_unlock cr img u pw = Some (k, n)" "k \<noteq> []" "length img < 2 ^ 64" "decrypt_container_keybag cr img = Inr kb"
  shows "unlock_volume cr img u pw = Inr k"
proof -
  have len: "4096 \<le> length img" using assms(1) by (auto simp: ranged_unlock_def get_range_def split: if_splits)
  obtain cs uuid area where c: "get_range img NX_CONTAINER_UUID (NX_CONTAINER_UUID + 16) = Some uuid"
      "cs = unat (le_u64 img NX_KEYBAG_BLOCK) * image_block_size img"
      "get_range img cs (cs + unat (le_u64 img NX_KEYBAG_BLOCKS) * image_block_size img) = Some area"
      "kb = decrypt_keybag_area cr area uuid (cs div KEYBAG_SECTOR)"
    using decrypt_container_keybag_range [OF assms(4)] by metis
  have "get_range img 0 4096 = Some (take 4096 img)" using len by (simp add: get_range_def)
  moreover have "uuid = take 16 (drop NX_CONTAINER_UUID (take 4096 img))"
    using superblock_reads(5) [OF len] c(1) by simp
  ultimately obtain rec ct where "volume_records kb u = Inr rec"
      "get_range img (unat (vr_volume_keybag_block rec) * image_block_size img)
        (unat (vr_volume_keybag_block rec) * image_block_size img
         + unat (vr_volume_keybag_blocks rec) * image_block_size img) = Some ct"
      "unlock_with_volume_keybag cr (decrypt_keybag_area cr ct u
        (unat (vr_volume_keybag_block rec) * image_block_size img div KEYBAG_SECTOR)) rec pw = Inr k"
    using assms(1,2) c superblock_reads(2-4) [OF len]
    by (auto simp: ranged_unlock_def Let_def split: sum.splits option.splits)
  then show ?thesis
    using assms(4) keybag_extent_area [OF assms(3), where paddr = "vr_volume_keybag_block rec"
        and blocks = "vr_volume_keybag_blocks rec" and bs = "image_block_size img"]
    by (simp add: unlock_volume_def)
qed

text \<open>What the two chain tests amount to on an arbitrary image.\<close>

lemma full_chain_test:
  assumes "unlock_volume cr img FIXTURE_VOLUME_UUID (str_bytes ''apfs-FV-TEST-2026'') = Inr vek" "4096 \<le> length img"
  shows "the_full_unlock_chain_works_from_ranged_reads_alone cr sha256 img \<longleftrightarrow>
    sha256 vek = hex_literal_vek_fingerprint
    \<and> snd (the (ranged_unlock cr img FIXTURE_VOLUME_UUID (str_bytes ''apfs-FV-TEST-2026''))) \<le> 64 * 1024"
  using ranged_unlock_agrees [OF assms] assms(1)
  by (auto simp: the_full_unlock_chain_works_from_ranged_reads_alone_def)

lemma wrong_password_test:
  assumes "unlock_volume cr img FIXTURE_VOLUME_UUID (str_bytes ''not-the-password'') = Inl e" "length img < 2 ^ 64"
    and "decrypt_container_keybag cr img = Inr kb"
    and "ranged_unlock cr img FIXTURE_VOLUME_UUID (str_bytes ''not-the-password'') \<noteq> None"
  shows "the_ranged_chain_refuses_a_wrong_password cr img"
  using assms ranged_unlock_only
  by (fastforce simp: the_ranged_chain_refuses_a_wrong_password_def)

subsection \<open>The tree of an encrypted volume\<close>

definition read_block_at :: "bytes \<Rightarrow> u64 \<Rightarrow> nat \<Rightarrow> bytes option" where
  "read_block_at img paddr block_size =
     (let start = unat paddr * block_size in get_range img start (start + block_size))"

text \<open>\<open>None\<close> where an \<^verbatim>\<open>expect\<close> or an index panics.\<close>

definition fs_tree_root :: "bytes \<Rightarrow> nat \<Rightarrow> (omap_entry \<times> apfs_volume) option" where
  "fs_tree_root img block_size =
     Option.bind (get_range img 0 block_size) (\<lambda>sb.
     Option.bind (unwrapped (nx_superblock_parse sb)) (\<lambda>nx.
     Option.bind (read_block_at img (nx_omap_oid nx) block_size) (\<lambda>ob.
     Option.bind (unwrapped (object_map_parse ob)) (\<lambda>nx_omap.
     Option.bind (case nx_fs_oids nx of [] \<Rightarrow> None | fs_oid # _ \<Rightarrow> Some fs_oid) (\<lambda>fs_oid.
     Option.bind (unwrapped (resolve nx_omap (cursor img) fs_oid u64_max block_size)) (\<lambda>vol_entry.
     Option.bind (read_block_at img (oe_paddr vol_entry) block_size) (\<lambda>vb.
     Option.bind (unwrapped (apfs_volume_parse vb)) (\<lambda>vol.
     Option.bind (read_block_at img (vol_omap_oid vol) block_size) (\<lambda>vob.
     Option.bind (unwrapped (object_map_parse vob)) (\<lambda>vol_omap.
     Option.bind (unwrapped (resolve vol_omap (cursor img) (vol_root_tree_oid vol) u64_max block_size)) (\<lambda>entry.
     Some (entry, vol))))))))))))"

definition the_encrypted_fs_tree_root_decrypts_to_a_checksum_valid_node :: "crypto \<Rightarrow> bytes \<Rightarrow> bool" where
  "the_encrypted_fs_tree_root_decrypts_to_a_checksum_valid_node cr img \<longleftrightarrow>
     expect (unlock_volume cr img FIXTURE_VOLUME_UUID (str_bytes ''apfs-FV-TEST-2026'')) (\<lambda>vek.
       length vek = 32
       \<and> (let block_size = unat (le_u32 img NX_BLOCK_SIZE)
          in case fs_tree_root img block_size of
               None \<Rightarrow> False
             | Some (entry, _) \<Rightarrow>
                 oe_flags entry AND OMAP_VAL_ENCRYPTED \<noteq> 0
                 \<and> (case read_block_at img (oe_paddr entry) block_size of
                      None \<Rightarrow> False
                    | Some node \<Rightarrow>
                        fletcher64_checksum node \<noteq> fletcher64_stored node
                        \<and> (let node' = decrypt_volume_area cr node vek (oe_paddr entry) block_size
                           in fletcher64_checksum node' = fletcher64_stored node' \<and> parse_node_header node' \<noteq> None))))"

definition the_same_file_is_unreadable_without_the_key :: "decmpfs_lib \<Rightarrow> crypto \<Rightarrow> bytes \<Rightarrow> bool" where
  "the_same_file_is_unreadable_without_the_key lib cr img \<longleftrightarrow>
     (let block_size = unat (le_u32 img NX_BLOCK_SIZE)
      in case fs_tree_root img block_size of
           None \<Rightarrow> False
         | Some (_, vol) \<Rightarrow>
             (case open_path cr (cursor img) vol (str_bytes ''marker.txt'') block_size of
                Inl _ \<Rightarrow> True
              | Inr i \<Rightarrow> expect_err (read_data lib cr (cursor img) vol i block_size) (\<lambda>_. True)))"

lemma read_block_at_cursor:
  assumes "read_block_at img p bs = Some b" "length img < 2 ^ 64" "0 < bs"
  shows "read_block_sat (cursor img) p bs = Inr b"
  using assms read_block_slice [of p bs img] by (auto simp: read_block_at_def get_range_slice Let_def split: if_splits)

lemma fs_tree_root_volume:
  assumes "fs_tree_root img bs = Some (entry, vol)" "length img < 2 ^ 64"
  obtains vob omap where "read_block_sat (cursor img) (vol_omap_oid vol) bs = Inr vob" "object_map_parse vob = Inr omap"
    and "vol_vek vol = None" "0 < bs"
proof -
  obtain sb nx vb vob omap where v: "apfs_volume_parse vb = Inr vol" "read_block_at img (vol_omap_oid vol) bs = Some vob"
      "object_map_parse vob = Inr omap" and sb: "get_range img 0 bs = Some sb" "nx_superblock_parse sb = Inr nx"
    using assms(1) by (auto simp: fs_tree_root_def bind_eq_Some_conv)
  have "sb \<noteq> []" using sb(2) by (auto simp: nx_superblock_parse_def layout_defs)
  then have bs: "0 < bs" using sb(1) by (cases bs) (auto simp: get_range_def)
  have "vol_vek vol = None"
    using v(1) by (auto simp: apfs_volume_parse_def apsb_bad_type_def Let_def split: if_splits option.splits)
  then show thesis using that v read_block_at_cursor [OF v(2) assms(2) bs] bs by blast
qed

text \<open>
  The locked read is refused on every image that passes the first test, provided the volume's own
  transaction finds the same root.
\<close>

lemma locked_read_test:
  assumes "the_encrypted_fs_tree_root_decrypts_to_a_checksum_valid_node cr img" "length img < 2 ^ 64"
    and "fs_tree_root img (image_block_size img) = Some (entry, vol)"
    and "\<And>vob omap. read_block_sat (cursor img) (vol_omap_oid vol) (image_block_size img) = Inr vob
      \<Longrightarrow> object_map_parse vob = Inr omap
      \<Longrightarrow> resolve omap (cursor img) (vol_root_tree_oid vol) (vol_xid vol) (image_block_size img) = Inr entry"
  shows "the_same_file_is_unreadable_without_the_key lib cr img"
proof -
  let ?bs = "image_block_size img"
  obtain node where node: "read_block_at img (oe_paddr entry) ?bs = Some node" "fletcher64_checksum node \<noteq> fletcher64_stored node"
    using assms(1,3) by (auto simp: the_encrypted_fs_tree_root_decrypts_to_a_checksum_valid_node_def expect_def Let_def
        split: sum.splits option.splits)
  obtain vob omap where v: "read_block_sat (cursor img) (vol_omap_oid vol) ?bs = Inr vob" "object_map_parse vob = Inr omap"
      "vol_vek vol = None" and bs: "0 < ?bs"
    using fs_tree_root_volume [OF assms(3,2)] by blast
  have "root_refusal cr (cursor img) vol ?bs \<noteq> None"
    using v assms(4) [OF v(1,2)] read_block_at_cursor [OF node(1) assms(2) bs] node(2)
    by (simp add: root_refusal_def fs_root_block_def node_plain_def Let_def)
  then obtain e where "root_refusal cr (cursor img) vol ?bs = Some e" by blast
  then show ?thesis
    using navigation_refused(4) assms(3) by (simp add: the_same_file_is_unreadable_without_the_key_def Let_def)
qed

subsection \<open>The chain of a stored volume\<close>

definition container_keybag_decrypts_to_a_parseable_keybag :: "crypto \<Rightarrow> bytes \<Rightarrow> bool" where
  "container_keybag_decrypts_to_a_parseable_keybag cr img \<longleftrightarrow>
     get_range (take 4096 img) 32 36 = Some (str_bytes ''NXSB'')
     \<and> expect (decrypt_container_keybag cr img) (\<lambda>kb.
         expect (read_keybag kb) (\<lambda>state.
           VolumeKey \<in> set (es_tags_present state) \<or> VolumeUnlockRecords \<in> set (es_tags_present state)))"

definition container_keybag_yields_this_volumes_wrapped_vek_and_keybag_extent :: "crypto \<Rightarrow> bytes \<Rightarrow> bool" where
  "container_keybag_yields_this_volumes_wrapped_vek_and_keybag_extent cr img \<longleftrightarrow>
     expect (decrypt_container_keybag cr img) (\<lambda>kb.
       expect (volume_records kb FIXTURE_VOLUME_UUID) (\<lambda>rec.
         length (vr_wrapped_vek rec) = 40 \<and> vr_volume_keybag_block rec > 0 \<and> vr_volume_keybag_blocks rec > 0
         \<and> (unat (vr_volume_keybag_block rec) + unat (vr_volume_keybag_blocks rec)) * 4096 \<le> length img))"

definition container_keybag_refuses_an_unknown_volume_uuid :: "crypto \<Rightarrow> bytes \<Rightarrow> bool" where
  "container_keybag_refuses_an_unknown_volume_uuid cr img \<longleftrightarrow>
     expect (decrypt_container_keybag cr img) (\<lambda>kb.
       expect_err (volume_records kb (replicate 16 0x11)) (\<lambda>_. True))"

definition unlock_volume_recovers_the_vek_with_the_correct_password :: "crypto \<Rightarrow> bytes \<Rightarrow> bool" where
  "unlock_volume_recovers_the_vek_with_the_correct_password cr img \<longleftrightarrow>
     expect (unlock_volume cr img FIXTURE_VOLUME_UUID (str_bytes ''apfs-FV-TEST-2026'')) (\<lambda>vek.
       length vek = 32 \<and> list_ex (\<lambda>b. b \<noteq> 0) vek)"

definition unlock_volume_refuses_a_wrong_password :: "crypto \<Rightarrow> bytes \<Rightarrow> bool" where
  "unlock_volume_refuses_a_wrong_password cr img \<longleftrightarrow>
     expect_err (unlock_volume cr img FIXTURE_VOLUME_UUID (str_bytes ''not-the-password'')) (\<lambda>_. True)"

definition unlock_with_volume_keybag_rejects_a_wrong_sized_wrapped_vek ::
    "crypto \<Rightarrow> (io_error \<Rightarrow> rust_string) \<Rightarrow> bytes \<Rightarrow> bool" where
  "unlock_with_volume_keybag_rejects_a_wrong_sized_wrapped_vek cr io_debug img \<longleftrightarrow>
     (let block_size = unat (le_u32 img NX_BLOCK_SIZE)
      in expect (decrypt_container_keybag cr img) (\<lambda>container_kb.
         expect (volume_records container_kb FIXTURE_VOLUME_UUID) (\<lambda>rec0.
         let rec = rec0\<lparr> vr_wrapped_vek := take 8 (vr_wrapped_vek rec0) \<rparr>;
             vs = unat (vr_volume_keybag_block rec) * block_size;
             ve = vs + unat (vr_volume_keybag_blocks rec) * block_size
         in case get_range img vs ve of
              None \<Rightarrow> False
            | Some area \<Rightarrow>
                (let vkb = decrypt_keybag_area cr area FIXTURE_VOLUME_UUID (vs div KEYBAG_SECTOR)
                 in expect_err (unlock_with_volume_keybag cr vkb rec (str_bytes ''apfs-FV-TEST-2026'')) (\<lambda>e.
                      contains (debug_error io_debug e) (str_bytes ''wrapped_vek_len''))))))"

lemma truncated_vek_error:
  assumes "unlock_with_volume_keybag cr vkb rec pw = Inr vek"
  shows "unlock_with_volume_keybag cr vkb (rec\<lparr> vr_wrapped_vek := take 8 (vr_wrapped_vek rec) \<rparr>) pw
    = Inl (bad_vkb ''wrapped_vek_len'' (of_nat (min (length (vr_wrapped_vek rec)) 8)) 40)"
  using assms by (auto simp: unlock_with_volume_keybag_def Let_def split: option.splits sum.splits if_splits)

text \<open>A volume that unlocks is refused with the named error once its wrapped key is cut short.\<close>

lemma truncated_vek_test:
  assumes "unlock_volume cr img FIXTURE_VOLUME_UUID (str_bytes ''apfs-FV-TEST-2026'') = Inr vek"
  shows "unlock_with_volume_keybag_rejects_a_wrong_sized_wrapped_vek cr io_debug img"
proof -
  obtain kb rec start ct where "decrypt_container_keybag cr img = Inr kb" "volume_records kb FIXTURE_VOLUME_UUID = Inr rec"
      and e: "keybag_extent bad_unlock ''vkb_offset'' ''vkb_length'' ''vkb_end'' ''vkb_past_image'' img
        (vr_volume_keybag_block rec) (vr_volume_keybag_blocks rec) (image_block_size img) = Inr (start, ct)"
      and v: "unlock_with_volume_keybag cr (decrypt_keybag_area cr ct FIXTURE_VOLUME_UUID (start div KEYBAG_SECTOR)) rec
        (str_bytes ''apfs-FV-TEST-2026'') = Inr vek"
    using assms by (auto simp: unlock_volume_def split: sum.splits)
  then show ?thesis
    using keybag_extent_range [OF e] truncated_vek_error [OF v]
    by (simp add: unlock_with_volume_keybag_rejects_a_wrong_sized_wrapped_vek_def Let_def bad_vkb_def del: debug_error.simps)
qed

text \<open>On every image that stores the key chain of the fixture's volume, the tests of the chain hold.\<close>

lemma chain_tests_hold:
  assumes xts: "\<And>k s d. length k = 16 \<Longrightarrow> KEYBAG_SECTOR dvd length d \<Longrightarrow> xts_area cr k k KEYBAG_SECTOR s (xts_enc k s d) = d"
    and img: "stored_key_chain xts_enc img FIXTURE_VOLUME_UUID wvek wkek it sl" "4096 \<le> length img"
    and right: "pbkdf2 cr (str_bytes ''apfs-FV-TEST-2026'') sl (max (iterations_of it) 1) 32 = Some dk" "length dk = 32"
      "kw_unwrap cr dk wkek = Some kek" "length kek = 32" "kw_unwrap cr kek wvek = Some vek" "length vek = 32"
      "list_ex (\<lambda>b. b \<noteq> 0) vek"
    and wrong: "pbkdf2 cr (str_bytes ''not-the-password'') sl (max (iterations_of it) 1) 32 = Some dk'" "length dk' = 32"
      "kw_unwrap cr dk' wkek = None"
  shows "container_keybag_decrypts_to_a_parseable_keybag cr img"
    and "unlock_volume_recovers_the_vek_with_the_correct_password cr img"
    and "unlock_volume_refuses_a_wrong_password cr img"
    and "unlock_with_volume_keybag_rejects_a_wrong_sized_wrapped_vek cr io_debug img"
proof -
  obtain ckb ces rec vkb where c: "decrypt_container_keybag cr img = Inr ckb" "keybag_written ckb ces"
      "\<exists>e\<in>set ces. fst (snd e) = 2" "vr_wrapped_vek rec = wvek"
      "\<And>pw. unlock_volume cr img FIXTURE_VOLUME_UUID pw = unlock_with_volume_keybag cr vkb rec pw"
      "find_kek_object vkb = Some (concat (map enc_tlv [(0x83, wkek), (0x84, it), (0x85, sl)]))"
    using stored_key_chain_opened [OF xts img(1)] by metis
  have i: "length wvek = 40" "length wkek = 40" "it \<noteq> []" "length it \<le> 8" "length sl = 16"
      "get_range img 32 36 = Some (str_bytes ''NXSB'')"
    using img(1) by (simp_all add: stored_key_chain_def NXSB_bytes)
  obtain st where "read_keybag ckb = Inr st" "VolumeKey \<in> set (es_tags_present st)"
    using read_keybag_written [OF c(2)] c(3) by (force simp: keybag_tag_from_u16_def)
  then show "container_keybag_decrypts_to_a_parseable_keybag cr img"
    using c(1) i(6) superblock_reads(1) [OF img(2)] by (simp add: container_keybag_decrypts_to_a_parseable_keybag_def)
  have u: "unlock_volume cr img FIXTURE_VOLUME_UUID (str_bytes ''apfs-FV-TEST-2026'') = Inr vek"
    using unlock_written_keybag [OF c(6) i(2-5) right(1,2)] right(3-5) i(1) by (simp add: c aes_key_unwrap_def)
  then show "unlock_volume_recovers_the_vek_with_the_correct_password cr img"
    using right(6,7) by (simp add: unlock_volume_recovers_the_vek_with_the_correct_password_def)
  show "unlock_with_volume_keybag_rejects_a_wrong_sized_wrapped_vek cr io_debug img" by (rule truncated_vek_test [OF u])
  show "unlock_volume_refuses_a_wrong_password cr img"
    using unlock_written_keybag [OF c(6) i(2-5) wrong(1,2)] wrong(3)
    by (simp add: unlock_volume_refuses_a_wrong_password_def c aes_key_unwrap_def)
qed

text \<open>A volume the keybag does not name is refused, and a wrapped key that is handed out has 40 bytes.\<close>

lemma volume_entries_vek:
  "volume_entries es st = Inr st' \<Longrightarrow> (\<forall>w. fst st = Some w \<longrightarrow> length w = 40) \<Longrightarrow> fst st' = Some w \<Longrightarrow> length w = 40"
proof (induction es arbitrary: st)
  case (Cons e es)
  obtain x y where st: "st = (x, y)" by (cases st)
  obtain st1 where st1: "volume_entry (fst (snd e)) (snd (snd e)) st = Inr st1" "volume_entries es st1 = Inr st'"
    using Cons.prems(1) by (auto split: sum.splits)
  have "\<forall>w. fst st1 = Some w \<longrightarrow> length w = 40"
    using st1(1) Cons.prems(2) by (auto simp: st Let_def split: if_splits option.splits)
  then show ?case using Cons.IH [OF st1(2)] Cons.prems(3) by blast
qed simp

lemma volume_records_vek: "volume_records kb u = Inr rec \<Longrightarrow> length (vr_wrapped_vek rec) = 40"
  unfolding volume_records_def volume_records_loop_entries
  by (auto split: sum.splits option.splits dest!: volume_entries_vek)

lemma records_tests:
  assumes "decrypt_container_keybag cr img = Inr kb"
  shows "volume_records kb FIXTURE_VOLUME_UUID = Inr rec \<Longrightarrow>
      container_keybag_yields_this_volumes_wrapped_vek_and_keybag_extent cr img \<longleftrightarrow>
        0 < vr_volume_keybag_block rec \<and> 0 < vr_volume_keybag_blocks rec
        \<and> (unat (vr_volume_keybag_block rec) + unat (vr_volume_keybag_blocks rec)) * 4096 \<le> length img"
    and "keybag_written kb es \<Longrightarrow> \<forall>e\<in>set es. fst e \<noteq> replicate 16 0x11 \<Longrightarrow>
      container_keybag_refuses_an_unknown_volume_uuid cr img"
proof -
  show "volume_records kb FIXTURE_VOLUME_UUID = Inr rec \<Longrightarrow>
      container_keybag_yields_this_volumes_wrapped_vek_and_keybag_extent cr img \<longleftrightarrow>
        0 < vr_volume_keybag_block rec \<and> 0 < vr_volume_keybag_blocks rec
        \<and> (unat (vr_volume_keybag_block rec) + unat (vr_volume_keybag_blocks rec)) * 4096 \<le> length img"
    using assms volume_records_vek
    by (simp add: container_keybag_yields_this_volumes_wrapped_vek_and_keybag_extent_def)
  assume "keybag_written kb es" "\<forall>e\<in>set es. fst e \<noteq> replicate 16 0x11"
  then have "owned_entries (replicate 16 0x11) kb = []" by (simp add: owned_entries_written filter_empty_conv)
  then show "container_keybag_refuses_an_unknown_volume_uuid cr img"
    using assms unfolding container_keybag_refuses_an_unknown_volume_uuid_def volume_records_def
      volume_records_loop_entries owned_entries_def [symmetric] by simp
qed

end
