(* ===== verification/Sample_Unlock.thy ===== *)
theory Sample_Unlock
  imports Test_Encryption Sample_Volume
begin

text \<open>
  Two small encrypted images with a concrete cipher library: a container with its two keybags, on
  which the password recovers the volume key, and a volume whose tree root is stored encrypted.
  They instantiate the hypotheses of the theorems on the key chain, on the command-line tool and on
  locked volumes.
\<close>

subsection \<open>A cipher library\<close>

definition pad_cipher :: "bytes \<Rightarrow> bytes" where
  "pad_cipher d = map (\<lambda>b. b XOR 0x5A) d"

definition toy_crypto :: crypto where
  "toy_crypto = \<lparr>
     xts_area = (\<lambda>k1 k2 ss n d. pad_cipher d),
     kw_unwrap = (\<lambda>k w. if take 8 w = take 8 k then Some (drop 8 w) else None),
     pbkdf2 = (\<lambda>pw sl n l. Some (take l (pw @ replicate l 0))) \<rparr>"

lemma pad_cipher_inverse [simp]: "pad_cipher (pad_cipher d) = d"
  by (simp add: pad_cipher_def comp_def xor.assoc)

lemma length_pad_cipher [simp]: "length (pad_cipher d) = length d"
  by (simp add: pad_cipher_def)

subsection \<open>The container\<close>

definition unlock_uuid :: bytes where "unlock_uuid = replicate 16 7"
definition unlock_vek :: bytes where "unlock_vek = replicate 32 2"
definition unlock_pw :: rust_string where "unlock_pw = [0x70, 0x77]"
definition unlock_wvek :: bytes where "unlock_wvek = replicate 8 1 @ unlock_vek"
definition unlock_wkek :: bytes where "unlock_wkek = [0x70, 0x77, 0, 0, 0, 0, 0, 0] @ replicate 32 1"

definition sample_keybag :: "string \<Rightarrow> (bytes \<times> u16 \<times> bytes) list \<Rightarrow> bytes" where
  "sample_keybag magic es = (let kb = keybag_header magic (length es) @ concat (map enc_ke es) in kb @ replicate (512 - length kb) 0)"

definition unlock_container_entries :: "(bytes \<times> u16 \<times> bytes) list" where
  "unlock_container_entries =
     [(unlock_uuid, 2, vek_entry unlock_wvek), (unlock_uuid, 3, to_le 8 (9 :: u64) @ to_le 8 (1 :: u64))]"

definition unlock_volume_entries :: "(bytes \<times> u16 \<times> bytes) list" where
  "unlock_volume_entries = [(unlock_uuid, 3, kek_entry unlock_wkek [5] (replicate 16 3))]"

definition unlock_nx :: bytes where
  "unlock_nx =
     (let b = replicate 4096 0;
          b = overlay b 32 (str_bytes ''NXSB'');
          b = overlay b NX_BLOCK_SIZE (to_le 4 (512 :: u32));
          b = overlay b NX_KEYBAG_BLOCK (to_le 8 (8 :: u64))
      in overlay b NX_KEYBAG_BLOCKS (to_le 8 (1 :: u64)))"

definition unlock_image :: bytes where
  "unlock_image = unlock_nx @ pad_cipher (sample_keybag ''syek'' unlock_container_entries)
     @ pad_cipher (sample_keybag ''scer'' unlock_volume_entries)"

lemmas unlock_defs = unlock_container_entries_def unlock_volume_entries_def unlock_uuid_def unlock_wvek_def unlock_vek_def
  unlock_wkek_def

lemma entry_lengths: "length (vek_entry unlock_wvek) = 46" "length (kek_entry unlock_wkek [5] (replicate 16 3)) = 67"
  by (simp_all add: vek_entry_def kek_entry_def enc_tlv_def ber_len_bytes_def unlock_defs)

lemma sample_entries_ok:
  "list_all ke_ok unlock_container_entries" "list_all ke_ok unlock_volume_entries"
  by (simp_all add: unlock_container_entries_def unlock_volume_entries_def ke_ok_def entry_lengths unlock_uuid_def)

lemma length_sample_keybag:
  "length (sample_keybag ''syek'' unlock_container_entries) = 512" "length (sample_keybag ''scer'' unlock_volume_entries) = 512"
  using sample_entries_ok
  by (simp_all add: sample_keybag_def Let_def length_keybag_header unlock_container_entries_def unlock_volume_entries_def
      length_enc_ke entry_lengths keybag_step_def KE_HEADER_LEN_def)

lemma sample_keybag_written:
  assumes "list_all ke_ok es" "length es \<le> 4096" "length magic = 4"
  shows "keybag_written (sample_keybag magic es) es"
  using assms length_keybag_header [OF assms(3)] nkeys_keybag_header [OF assms(3)]
  by (auto simp: keybag_written_def sample_keybag_def Let_def)

lemma length_unlock_nx: "length unlock_nx = 4096"
  by (simp add: unlock_nx_def Let_def layout_defs store_simps)

lemma unlock_image_fields:
  "length unlock_image = 5120" "get_range unlock_image 32 36 = Some (str_bytes ''NXSB'')"
  "le_u32 unlock_image NX_BLOCK_SIZE = 512" "le_u64 unlock_image NX_KEYBAG_BLOCK = 8" "le_u64 unlock_image NX_KEYBAG_BLOCKS = 1"
  "get_range unlock_image NX_CONTAINER_UUID (NX_CONTAINER_UUID + 16) = Some (replicate 16 0)"
proof -
  show len: "length unlock_image = 5120" by (simp add: unlock_image_def length_unlock_nx length_sample_keybag)
  have nx: "get_range unlock_nx 32 36 = Some (str_bytes ''NXSB'')" "le_u32 unlock_nx NX_BLOCK_SIZE = 512"
      "le_u64 unlock_nx NX_KEYBAG_BLOCK = 8" "le_u64 unlock_nx NX_KEYBAG_BLOCKS = 1"
      "get_range unlock_nx NX_CONTAINER_UUID (NX_CONTAINER_UUID + 16) = Some (replicate 16 0)"
    by (simp_all add: unlock_nx_def Let_def get_range_slice layout_defs store_simps)
  then show "get_range unlock_image 32 36 = Some (str_bytes ''NXSB'')" "le_u32 unlock_image NX_BLOCK_SIZE = 512"
      "le_u64 unlock_image NX_KEYBAG_BLOCK = 8" "le_u64 unlock_image NX_KEYBAG_BLOCKS = 1"
      "get_range unlock_image NX_CONTAINER_UUID (NX_CONTAINER_UUID + 16) = Some (replicate 16 0)"
    by (simp_all add: unlock_image_def get_range_append le_reads_append length_unlock_nx layout_defs)
qed

lemma unlock_image_areas:
  "get_range unlock_image 4096 4608 = Some (pad_cipher (sample_keybag ''syek'' unlock_container_entries))"
  "get_range unlock_image 4608 5120 = Some (pad_cipher (sample_keybag ''scer'' unlock_volume_entries))"
  by (simp_all add: unlock_image_def get_range_def length_unlock_nx length_sample_keybag)

lemma unlock_image_stores:
  "stored_key_chain (\<lambda>k s d. pad_cipher d) unlock_image unlock_uuid unlock_wvek unlock_wkek [5] (replicate 16 3)"
proof -
  have c: "stored_area (\<lambda>k s d. pad_cipher d) unlock_image (replicate 16 0) 8 1 (sample_keybag ''syek'' unlock_container_entries)"
    and v: "stored_area (\<lambda>k s d. pad_cipher d) unlock_image unlock_uuid 9 1 (sample_keybag ''scer'' unlock_volume_entries)"
    by (simp_all add: stored_area_def unlock_image_fields length_sample_keybag unlock_image_areas)
  have w: "keybag_written (sample_keybag ''syek'' unlock_container_entries) unlock_container_entries"
      "keybag_written (sample_keybag ''scer'' unlock_volume_entries) unlock_volume_entries"
    using sample_entries_ok by (auto intro!: sample_keybag_written simp: unlock_container_entries_def unlock_volume_entries_def)
  let ?ckb = "sample_keybag ''syek'' unlock_container_entries" and ?vkb = "sample_keybag ''scer'' unlock_volume_entries"
  have "get_range unlock_image NX_CONTAINER_UUID (NX_CONTAINER_UUID + 16) = Some (replicate 16 0)
      \<and> stored_area (\<lambda>k s d. pad_cipher d) unlock_image (replicate 16 0) (le_u64 unlock_image NX_KEYBAG_BLOCK)
          (le_u64 unlock_image NX_KEYBAG_BLOCKS) ?ckb
      \<and> keybag_written ?ckb unlock_container_entries
      \<and> filter (\<lambda>e. fst e = unlock_uuid) unlock_container_entries
          = [(unlock_uuid, 2, vek_entry unlock_wvek), (unlock_uuid, 3, to_le 8 (9 :: u64) @ to_le 8 (1 :: u64))]
      \<and> stored_area (\<lambda>k s d. pad_cipher d) unlock_image unlock_uuid 9 1 ?vkb
      \<and> keybag_written ?vkb ((unlock_uuid, 3, kek_entry unlock_wkek [5] (replicate 16 3)) # []) \<and> (3 :: u16) \<in> {1, 3}"
    using c v w by (simp add: unlock_image_fields unlock_container_entries_def unlock_volume_entries_def)
  then show ?thesis
    unfolding stored_key_chain_def
    by (intro conjI exI; (assumption | simp add: unlock_image_fields NXSB_bytes KEYBAG_SECTOR_def unlock_uuid_def
      unlock_wvek_def unlock_wkek_def unlock_vek_def)?) blast+
qed

lemma toy_xts: "xts_area toy_crypto k1 k2 ss n (pad_cipher d) = d"
  by (simp add: toy_crypto_def)

lemma toy_unwrap: "kw_unwrap toy_crypto k w = (if take 8 w = take 8 k then Some (drop 8 w) else None)"
  by (simp add: toy_crypto_def)

lemma toy_kdf: "pbkdf2 toy_crypto pw sl n l = Some (take l (pw @ replicate l 0))"
  by (simp add: toy_crypto_def)

theorem unlock_volume_round_trip_witness:
  "unlock_volume toy_crypto unlock_image unlock_uuid unlock_pw = Inr unlock_vek
   \<and> unlock_volume toy_crypto unlock_image unlock_uuid [0x78]
       = Inl (FieldOutOfRange ''aes_key_wrap'' ''integrity_check'' 0 1)"
proof -
  have eight: "take 8 (unlock_pw @ replicate 30 0) = [0x70, 0x77, 0, 0, 0, 0, 0, 0]"
    by (simp add: unlock_pw_def numeral_eq_Suc)
  have "unlock_volume toy_crypto unlock_image unlock_uuid unlock_pw = Inr unlock_vek
      \<and> (\<forall>pw' dk'. pbkdf2 toy_crypto pw' (replicate 16 3) (max (iterations_of [5]) 1) 32 = Some dk' \<and> length dk' = 32
          \<and> kw_unwrap toy_crypto dk' unlock_wkek = None
          \<longrightarrow> unlock_volume toy_crypto unlock_image unlock_uuid pw'
            = Inl (FieldOutOfRange ''aes_key_wrap'' ''integrity_check'' 0 1))"
    using unlock_image_stores eight
    by (intro unlock_volume_round_trip [where xts_enc = "\<lambda>k s d. pad_cipher d" and dk = "unlock_pw @ replicate 30 0"
          and kek = "replicate 32 1" and wkek = unlock_wkek and wvek = unlock_wvek])
      (simp_all add: toy_xts toy_unwrap toy_kdf unlock_wkek_def unlock_wvek_def unlock_pw_def)
  then show ?thesis by (simp add: toy_kdf toy_unwrap unlock_wkek_def)
qed

subsection \<open>The command-line tool on the container\<close>

lemma sample_magic:
  "get_range (sample_keybag ''syek'' es) 24 28 = Some (str_bytes ''syek'')"
  "get_range (sample_keybag ''scer'' es) 24 28 = Some (str_bytes ''scer'')"
  by (simp_all add: sample_keybag_def Let_def keybag_header_def get_range_slice layout_defs store_simps)

lemma unlock_image_container:
  "container_keybag_of toy_crypto unlock_image = Some (sample_keybag ''syek'' unlock_container_entries)"
proof -
  have "decrypt_container_keybag toy_crypto unlock_image = Inr (sample_keybag ''syek'' unlock_container_entries)"
    by (simp add: decrypt_container_keybag_def decrypt_container_keybag_with_uuid_def unlock_image_fields NXSB_bytes Let_def
        KEYBAG_SECTOR_def keybag_extent_def unlock_image_areas decrypt_keybag_area_def xts_decrypt_area_def toy_xts)
  then show ?thesis by (simp add: container_keybag_of_def unlock_image_fields sample_magic)
qed

lemma unlock_image_testable: "testable toy_crypto unlock_image unlock_uuid"
proof -
  have "keybag_written (sample_keybag ''syek'' unlock_container_entries) unlock_container_entries"
    using sample_entries_ok by (intro sample_keybag_written) (simp_all add: unlock_container_entries_def)
  then have "volume_records (sample_keybag ''syek'' unlock_container_entries) unlock_uuid
      = Inr \<lparr> vr_wrapped_vek = unlock_wvek, vr_volume_keybag_block = 9, vr_volume_keybag_blocks = 1 \<rparr>"
    by (rule volume_records_of_written) (simp_all add: unlock_container_entries_def unlock_wvek_def unlock_vek_def)
  then have "volume_keybag_of toy_crypto unlock_image (sample_keybag ''syek'' unlock_container_entries) unlock_uuid \<noteq> None"
    by (simp add: volume_keybag_of_def unlock_image_fields unlock_image_areas decrypt_keybag_area_def xts_decrypt_area_def
        toy_xts sample_magic)
  then show ?thesis by (simp add: testable_def unlock_image_container unlock_uuid_def list_ex_iff)
qed


subsection \<open>A locked volume\<close>

text \<open>A volume whose tree root is flagged encrypted; its ciphertext is a zeroed block.\<close>

definition locked_omap :: "entry list" where
  "locked_omap = [(enc_omap_key 0x404 1, enc_omap_val 4 1024 3)]"

definition locked_blocks :: "bytes list" where
  "locked_blocks =
     [replicate 1024 0, demo_omap_phys 2,
      enc_node (replicate 24 0) 7 0 locked_omap (replicate 892 0) (replicate 40 0), replicate 1024 0]"

abbreviation "locked_rd \<equiv> cursor (concat locked_blocks)"

lemma locked_node_ok: "enc_ok Omap (replicate 24 0) 7 0 locked_omap (replicate 40 0)"
  by (simp add: enc_ok_def locked_omap_def layout_defs)

lemma locked_reads:
  assumes "i < 4"
  shows "cursor (concat locked_blocks) (of_nat i * 1024) 1024 = Inr (locked_blocks ! i)"
    and "read_block_sat locked_rd (of_nat i) 1024 = Inr (locked_blocks ! i)"
proof -
  have "\<forall>b\<in>set locked_blocks. length b = 1024"
    by (simp add: locked_blocks_def length_enc_node locked_omap_def enc_toc_len_def layout_defs demo_omap_phys_def)
  from cursor_blocks [OF this, of i] assms
  show "cursor (concat locked_blocks) (of_nat i * 1024) 1024 = Inr (locked_blocks ! i)"
    "read_block_sat locked_rd (of_nat i) 1024 = Inr (locked_blocks ! i)"
    by (simp_all add: locked_blocks_def)
qed

lemma locked_root:
  "fs_root_block locked_rd demo_vol 1024
     = Inr (\<lparr> oe_oid = 0x404, oe_xid = 1, oe_paddr = 3, oe_size = 1024, oe_flags = 4 \<rparr>, replicate 1024 0)"
proof -
  have "load_physical locked_rd 1024 Omap (om_tree_oid demo_om) = Inr (LeafNode locked_omap)"
    using load_enc_node [OF locked_node_ok, of locked_rd 2 1024 "replicate 892 0"] locked_reads(1) [of 2]
    by (simp add: locked_blocks_def demo_om_at_def)
  from resolve_leaf [OF this, of "0x404" 7]
  have "resolve demo_om locked_rd 0x404 7 1024
      = Inr \<lparr> oe_oid = 0x404, oe_xid = 1, oe_paddr = 3, oe_size = 1024, oe_flags = 4 \<rparr>"
    by (simp add: locked_omap_def omap_visit_matches omap_matches_def omap_decode_enc)
  then show ?thesis
    using locked_reads(2) [of 1] locked_reads(2) [of 3]
    by (simp add: fs_root_block_def locked_blocks_def demo_omap_parse demo_volume_def)
qed

theorem locked_volume_refuses_witness:
  "\<exists>b s c. open_path toy_crypto locked_rd demo_vol [0x61] 1024 = Inl (ChecksumMismatch b s c)"
proof -
  have "node_plain toy_crypto (vol_vek demo_vol)
      \<lparr> oe_oid = 0x404, oe_xid = 1, oe_paddr = 3, oe_size = 1024, oe_flags = 4 \<rparr> 1024 (replicate 1024 0) = replicate 1024 0"
    by (simp add: node_plain_def demo_volume_def)
  then show ?thesis
    using locked_volume_refuses [OF locked_root, of toy_crypto] zero_block_never_verifies [of 1024]
    by (simp only: Let_def) metis
qed

end
