(* ===== verification/Well_Typed.thy ===== *)
theory Well_Typed
  imports Vfs
begin

text \<open>
  The type invariant of the strings the reader returns. A \<^verbatim>\<open>String\<close> of the source is valid UTF-8 by
  its type; the model has it as bytes (\<open>rust_string\<close>), and every name that comes out of an image has
  to be shown to be one. Names are also free of NUL bytes, since each is cut at its first one.
\<close>

definition is_str :: "rust_string \<Rightarrow> bool" where
  "is_str s \<longleftrightarrow> utf8_valid s \<and> 0 \<notin> set s"

abbreviation on_ok :: "('a \<Rightarrow> bool) \<Rightarrow> 'e + 'a \<Rightarrow> bool" where
  "on_ok P r \<equiv> (case r of Inl _ \<Rightarrow> True | Inr x \<Rightarrow> P x)"

named_theorems typed \<open>operations whose strings are well formed\<close>

subsection \<open>Decoding\<close>

lemma from_utf8_lossy_bytes: "set (from_utf8_lossy bs) \<subseteq> set bs \<union> set replacement"
proof (induction bs rule: from_utf8_lossy.induct)
  case (2 b bs)
  obtain n ok where s: "utf8_step b bs = (n, ok)" by fastforce
  have "set (take n (b # bs)) \<subseteq> set (b # bs)" "set (drop n (b # bs)) \<subseteq> set (b # bs)"
    by (rule set_take_subset set_drop_subset)+
  then show ?case using 2 [OF s [symmetric]] s by (cases ok) auto
qed simp

lemma lossy_is_str [typed]: "is_str (from_utf8_lossy (until_nul bs))"
  using from_utf8_lossy_bytes [of "until_nul bs"] until_nul_no_nul [of 0 bs]
  by (auto simp: is_str_def from_utf8_lossy_valid replacement_def)

lemma decoded_names_are_str [typed]:
  "is_str (decode_cstr bs)" "is_str []"
  "decode_drec_name key = Some name \<Longrightarrow> is_str name"
  by (auto simp: decode_cstr_def decode_drec_name_def decode_drec_unhashed_def typed is_str_def [of "[]"] Let_def
      split: option.splits if_splits)

lemma parsed_names_are_str [typed]:
  "parse_dir_entry key val = Some e \<Longrightarrow> is_str (de_name e)"
  "parse_xattr key val = Some x \<Longrightarrow> is_str (xa_name x)"
  "is_str (ss_name (parse_snap_metadata xid val))"
  by (auto simp: parse_dir_entry_def parse_xattr_def parse_snap_metadata_def typed Let_def
      split: option.splits if_splits)

lemma xfields_name_is_str [typed]:
  "pred_option is_str (fst acc) \<Longrightarrow> pred_option is_str (fst (fold xfield_step xs acc))"
proof (induction xs arbitrary: acc)
  case (Cons x xs)
  obtain name sz ty data where "acc = (name, sz)" "x = (ty, data)" by (metis surj_pair)
  with Cons show ?case by (simp add: typed)
qed simp

lemma inode_name_is_str [typed]: "inode_parse oid val = Inr i \<Longrightarrow> pred_option is_str (ino_name i)"
  using xfields_name_is_str [of "(None, None)" "parse_xfields (drop OFF_XFIELDS val)"]
  by (auto simp: inode_parse_def split: prod.splits if_splits)

lemma volume_name_is_str [typed]: "apfs_volume_parse block = Inr v \<Longrightarrow> is_str (vol_name v)"
  by (auto simp: apfs_volume_parse_def decode_volname_def typed Let_def split: option.splits if_splits)

subsection \<open>Walks\<close>

lemma fs_records_keep:
  assumes "for_each_fs_record_for_oid cr rd vol bs oid visit s = Inr s'"
    and "I s" "\<And>k v s. I s \<Longrightarrow> I (visit k v s)"
  shows "I s'"
  using assms(1)
  by (auto simp: for_each_fs_record_for_oid_def walk_fs_tree_def split: sum.splits
      elim!: virt.walk_keeps intro: assms(2,3))

lemma snap_records_keep:
  assumes "for_each_snap_record rd vol bs visit s = Inr s'"
    and "I s" "\<And>k v s. I s \<Longrightarrow> I (visit k v s)"
  shows "I s'"
  using assms(1)
  by (auto simp: for_each_snap_record_def split: sum.splits
      elim!: snap.walk_keeps [where d = 0, simplified] intro: assms(2,3))

lemma listings_typed [typed]:
  "list_dir cr rd vol oid bs = Inr es \<Longrightarrow> list_all (\<lambda>e. is_str (de_name e)) es"
  "list_xattrs cr rd vol oid bs = Inr xs \<Longrightarrow> list_all (\<lambda>x. is_str (xa_name x)) xs"
  unfolding list_dir_def list_xattrs_def
  by (erule fs_records_keep; auto simp: list_dir_visit_def xattr_visit_def typed split: option.splits)+

lemma snapshots_typed [typed]:
  "for_each_snap_record rd vol bs snap_visit [] = Inr ss \<Longrightarrow> list_all (\<lambda>s. is_str (ss_name s)) ss"
  by (erule snap_records_keep) (auto simp: snap_visit_def typed)

text \<open>
  C18. Every string the reader takes out of an image, whatever the image holds, is valid UTF-8 without
  a NUL byte: the names of directory entries, of attributes and of snapshots, the name in an inode,
  the name of a volume and the target of a link, and through a mounted handle the names of a
  directory.
\<close>

theorem returned_strings_typed:
  "on_ok (list_all (\<lambda>e. is_str (de_name e))) (list_dir cr rd vol oid bs)
   \<and> on_ok (list_all (\<lambda>x. is_str (xa_name x))) (list_xattrs cr rd vol oid bs)
   \<and> on_ok (list_all (\<lambda>s. is_str (ss_name s))) (list_snapshots rd vol bs)
   \<and> on_ok (\<lambda>i. pred_option is_str (ino_name i)) (load_inode cr rd vol oid bs)
   \<and> on_ok (\<lambda>v. is_str (vol_name v)) (apfs_volume_parse block)
   \<and> on_ok (pred_option is_str) (symlink_target cr rd vol oid bs)
   \<and> on_ok (list_all (\<lambda>e. is_str (vde_name e))) (fst (read_dir h fs ino))"
proof (intro conjI)
  show "on_ok (list_all (\<lambda>e. is_str (vde_name e))) (fst (read_dir h fs ino))"
    using listings_typed(1) [of "h_crypto h" "fs_reader fs" "fs_volume fs" _ "fs_block_size fs"]
    by (auto simp: read_dir_def with_reader_def list_all_iff map_sum_id_eq split: sum.splits apfs_error.splits if_splits)
qed (auto simp: list_snapshots_def load_inode_def symlink_target_def typed list_all_iff map_sum_id_eq
    dest!: listings_typed snapshots_typed split: sum.splits option.splits xattr_value.splits)

end
