(* ===== verification/Test_Image.thy ===== *)
theory Test_Image
  imports Test_Encryption "HOL-Library.List_Lexorder" "HOL-Library.Multiset"
begin

text \<open>
  The tests of \<^verbatim>\<open>core/src/encryption.rs\<close> that check published answers of the ciphers or read the
  committed encrypted images for their known content. The cipher library and the bytes of the images
  are arguments; the lemmas say what each test amounts to for an image that stores a file-system tree
  under the unlocked key.
\<close>

subsection \<open>Published vectors\<close>

definition rfc3394_wrapped :: bytes where
  "rfc3394_wrapped =
     [0x28, 0xC9, 0xF4, 0x04, 0xC4, 0xB8, 0x10, 0xF4, 0xCB, 0xCC, 0xB3, 0x5C, 0xFB, 0x87,
      0xF8, 0x26, 0x3F, 0x57, 0x86, 0xE2, 0xD8, 0x0E, 0xD3, 0x26, 0xCB, 0xC7, 0xF0, 0xE7,
      0x1A, 0x99, 0xF4, 0x3B, 0xFB, 0x98, 0x8B, 0x9B, 0x7A, 0x02, 0xDD, 0x21]"

definition aes_key_unwrap_matches_rfc3394_vector :: "crypto \<Rightarrow> bool" where
  "aes_key_unwrap_matches_rfc3394_vector cr \<longleftrightarrow>
     (let kek = [0x00, 0x01, 0x02, 0x03, 0x04, 0x05, 0x06, 0x07, 0x08, 0x09, 0x0A, 0x0B, 0x0C, 0x0D,
                 0x0E, 0x0F, 0x10, 0x11, 0x12, 0x13, 0x14, 0x15, 0x16, 0x17, 0x18, 0x19, 0x1A, 0x1B,
                 0x1C, 0x1D, 0x1E, 0x1F];
          expected = [0x00, 0x11, 0x22, 0x33, 0x44, 0x55, 0x66, 0x77, 0x88, 0x99, 0xAA, 0xBB, 0xCC, 0xDD,
                      0xEE, 0xFF, 0x00, 0x01, 0x02, 0x03, 0x04, 0x05, 0x06, 0x07, 0x08, 0x09, 0x0A, 0x0B,
                      0x0C, 0x0D, 0x0E, 0x0F]
      in expect (aes_key_unwrap cr kek rfc3394_wrapped) (\<lambda>got. got = expected))"

definition aes_key_unwrap_rejects_a_wrong_kek :: "crypto \<Rightarrow> bool" where
  "aes_key_unwrap_rejects_a_wrong_kek cr \<longleftrightarrow>
     expect_err (aes_key_unwrap cr (replicate 32 0xAA) rfc3394_wrapped) (\<lambda>_. True)"

definition pbkdf2_sha256_matches_rfc7914_vector :: "crypto \<Rightarrow> bool" where
  "pbkdf2_sha256_matches_rfc7914_vector cr \<longleftrightarrow>
     (let got = derive_key_from_password cr (str_bytes ''Password'') (str_bytes ''NaCl'') 80000 64;
          expected = [0x4D, 0xDC, 0xD8, 0xF6, 0x0B, 0x98, 0xBE, 0x21, 0x83, 0x0C, 0xEE, 0x5E, 0xF2, 0x27,
                      0x01, 0xF9, 0x64, 0x1A, 0x44, 0x18, 0xD0, 0x4C, 0x04, 0x14, 0xAE, 0xFF, 0x08, 0x87,
                      0x6B, 0x34, 0xAB, 0x56, 0xA1, 0xD4, 0x25, 0xA1, 0x22, 0x58, 0x33, 0x54, 0x9A, 0xDB,
                      0x84, 0x1B, 0x51, 0xC9, 0xB3, 0x17, 0x6A, 0x27, 0x2B, 0xDE, 0xBB, 0xA1, 0xD0, 0x78,
                      0x47, 0x8F, 0x62, 0xB3, 0x97, 0xF3, 0x3C, 0x8D]
      in got = expected)"

text \<open>
  The unwrap keeps the integrity check of the cipher library: the two unwrap tests are answers of
  the library itself, and no key comes out where it has none.
\<close>

lemma unwrap_vector_tests:
  assumes "aes_key_unwrap_matches_rfc3394_vector cr"
  shows "kw_unwrap cr (map of_nat [0..<32]) rfc3394_wrapped
      = Some (map (\<lambda>i. of_nat (i * 0x11)) [0..<16] @ map of_nat [0..<16])"
    and "aes_key_unwrap_rejects_a_wrong_kek cr \<longleftrightarrow> kw_unwrap cr (replicate 32 0xAA) rfc3394_wrapped = None"
  using assms by (auto simp: aes_key_unwrap_matches_rfc3394_vector_def aes_key_unwrap_rejects_a_wrong_kek_def
      aes_key_unwrap_def upt_conv_Cons split: option.splits)

subsection \<open>Wrong keys\<close>

definition container_keybag_with_a_wrong_uuid_does_not_parse_as_a_keybag :: "crypto \<Rightarrow> bytes \<Rightarrow> bool" where
  "container_keybag_with_a_wrong_uuid_does_not_parse_as_a_keybag cr img \<longleftrightarrow>
     expect (decrypt_container_keybag_with_uuid cr img (replicate 16 0xAA)) (\<lambda>kb.
       case read_keybag kb of
         Inl _ \<Rightarrow> True
       | Inr s \<Rightarrow> VolumeKey \<notin> set (es_tags_present s) \<and> VolumeUnlockRecords \<notin> set (es_tags_present s))"

definition keybag_area_with_a_wrong_sector_index_yields_noise :: "crypto \<Rightarrow> bytes \<Rightarrow> bool" where
  "keybag_area_with_a_wrong_sector_index_yields_noise cr img \<longleftrightarrow>
     (case keybag_range img of
        None \<Rightarrow> False
      | Some (start, end', uuid, area) \<Rightarrow>
          (let wrong = decrypt_keybag_area cr area uuid (start div KEYBAG_SECTOR + 1)
           in length wrong = end' - start \<and> get_range wrong 24 28 \<noteq> Some (str_bytes ''syek'')))"

definition a_wrong_vek_does_not_produce_a_checksum_valid_node :: "crypto \<Rightarrow> bytes \<Rightarrow> bool" where
  "a_wrong_vek_does_not_produce_a_checksum_valid_node cr img \<longleftrightarrow>
     (let block_size = unat (le_u32 img NX_BLOCK_SIZE)
      in case fs_tree_root img block_size of
           None \<Rightarrow> False
         | Some (entry, _) \<Rightarrow>
             (case read_block_at img (oe_paddr entry) block_size of
                None \<Rightarrow> False
              | Some node \<Rightarrow>
                  (let node' = decrypt_volume_area cr node (replicate 32 0xAB) (oe_paddr entry) block_size
                   in fletcher64_checksum node' \<noteq> fletcher64_stored node')))"

text \<open>
  A keybag decrypted under the wrong identifier passes the test exactly when it shows none of the two
  tags; a keybag written without them does.
\<close>

lemma wrong_uuid_test:
  assumes "decrypt_container_keybag_with_uuid cr img (replicate 16 0xAA) = Inr kb" "keybag_written kb es"
  shows "container_keybag_with_a_wrong_uuid_does_not_parse_as_a_keybag cr img \<longleftrightarrow>
    (\<forall>e\<in>set es. fst (snd e) \<notin> {2, 3})"
proof -
  obtain s where s: "read_keybag kb = Inr s"
      "set (es_tags_present s) = (\<lambda>e. keybag_tag_from_u16 (fst (snd e))) ` set es"
    using read_keybag_written [OF assms(2)] by force
  have "VolumeKey = keybag_tag_from_u16 n \<longleftrightarrow> n = 2" "VolumeUnlockRecords = keybag_tag_from_u16 n \<longleftrightarrow> n = 3" for n
    by (auto simp: keybag_tag_from_u16_def)
  then show ?thesis
    using assms(1) s by (auto simp: container_keybag_with_a_wrong_uuid_does_not_parse_as_a_keybag_def image_iff)
qed

lemma wrong_sector_test:
  assumes "\<And>d s uuid. length (decrypt_keybag_area cr d uuid s) = length d"
    and "keybag_range img = Some (start, end', uuid, area)"
  shows "keybag_area_with_a_wrong_sector_index_yields_noise cr img \<longleftrightarrow>
    get_range (decrypt_keybag_area cr area uuid (start div KEYBAG_SECTOR + 1)) 24 28 \<noteq> Some (str_bytes ''syek'')"
proof -
  have "length area = end' - start"
    using assms(2) by (auto simp: keybag_range_def get_range_def Let_def split: option.splits if_splits)
  then show ?thesis
    using assms by (simp add: keybag_area_with_a_wrong_sector_index_yields_noise_def Let_def)
qed

text \<open>
  On an image that passes the test, the volume holding the wrong key refuses every path, provided its
  root is flagged encrypted and the volume's own transaction finds the same root.
\<close>

lemma wrong_vek_refuses:
  assumes "a_wrong_vek_does_not_produce_a_checksum_valid_node cr img" "length img < 2 ^ 64"
    and "fs_tree_root img (image_block_size img) = Some (entry, vol)" "oe_flags entry AND OMAP_VAL_ENCRYPTED \<noteq> 0"
    and "\<And>vob omap. read_block_sat (cursor img) (vol_omap_oid vol) (image_block_size img) = Inr vob
      \<Longrightarrow> object_map_parse vob = Inr omap
      \<Longrightarrow> resolve omap (cursor img) (vol_root_tree_oid vol) (vol_xid vol) (image_block_size img) = Inr entry"
  shows "\<exists>b s c. \<forall>path. open_path cr (cursor img) (set_vek (replicate 32 0xAB) vol) path (image_block_size img)
    = Inl (ChecksumMismatch b s c)"
proof -
  let ?bs = "image_block_size img" and ?v = "set_vek (replicate 32 0xAB) vol"
  obtain node where node: "read_block_at img (oe_paddr entry) ?bs = Some node"
      "fletcher64_checksum (decrypt_volume_area cr node (replicate 32 0xAB) (oe_paddr entry) ?bs)
        \<noteq> fletcher64_stored (decrypt_volume_area cr node (replicate 32 0xAB) (oe_paddr entry) ?bs)"
    using assms(1,3) by (auto simp: a_wrong_vek_does_not_produce_a_checksum_valid_node_def Let_def split: option.splits)
  obtain vob omap where v: "read_block_sat (cursor img) (vol_omap_oid vol) ?bs = Inr vob" "object_map_parse vob = Inr omap"
      and bs: "0 < ?bs"
    using fs_tree_root_volume [OF assms(3,2)] by blast
  have "\<exists>b s c. root_refusal cr (cursor img) ?v ?bs = Some (ChecksumMismatch b s c)"
    using v assms(4) assms(5) [OF v] read_block_at_cursor [OF node(1) assms(2) bs] node(2)
    by (simp add: root_refusal_def fs_root_block_def node_plain_def set_vek_def Let_def)
  then show ?thesis using navigation_refused(4) by blast
qed

subsection \<open>Known content\<close>

text \<open>\<^verbatim>\<open>str::trim_end\<close>: the UTF-8 encodings of the white-space characters, stripped from the end.\<close>

definition white_space :: "bytes list" where
  "white_space =
     map (\<lambda>b. [b]) [0x09, 0x0A, 0x0B, 0x0C, 0x0D, 0x20] @ [[0xC2, 0x85], [0xC2, 0xA0], [0xE1, 0x9A, 0x80]]
     @ map (\<lambda>b. [0xE2, 0x80, b]) [0x80, 0x81, 0x82, 0x83, 0x84, 0x85, 0x86, 0x87, 0x88, 0x89, 0x8A, 0xA8, 0xA9, 0xAF]
     @ [[0xE2, 0x81, 0x9F], [0xE3, 0x80, 0x80]]"

lemma white_space_nonempty: "w \<in> set white_space \<Longrightarrow> w \<noteq> []"
  by (auto simp: white_space_def)

function trim_end :: "rust_string \<Rightarrow> rust_string" where
  "trim_end s = (case find (\<lambda>w. suffix w s) white_space of
     None \<Rightarrow> s | Some w \<Rightarrow> trim_end (take (length s - length w) s))"
  by auto
termination
proof (relation "measure length", goal_cases)
  case (2 s w)
  then have "w \<noteq> []" "suffix w s" using white_space_nonempty by (auto simp: find_Some_iff in_set_conv_nth)
  then show ?case by (cases s) (auto simp: suffix_length_le)
qed simp

declare trim_end.simps [simp del]

definition MARKER :: rust_string where
  "MARKER = str_bytes ''APFS-FILEVAULT-GROUND-TRUTH-MARKER-0123456789''"

definition a_file_on_an_encrypted_volume_reads_back_as_its_known_plaintext :: "decmpfs_lib \<Rightarrow> crypto \<Rightarrow> bytes \<Rightarrow> bool" where
  "a_file_on_an_encrypted_volume_reads_back_as_its_known_plaintext lib cr img \<longleftrightarrow>
     \<not> contains img MARKER
     \<and> expect (unlock_volume cr img FIXTURE_VOLUME_UUID (str_bytes ''apfs-FV-TEST-2026'')) (\<lambda>vek.
         length vek = 32
         \<and> (let block_size = unat (le_u32 img NX_BLOCK_SIZE)
            in case fs_tree_root img block_size of
                 None \<Rightarrow> False
               | Some (_, vol0) \<Rightarrow>
                   (let vol = set_vek vek vol0
                    in expect (open_path cr (cursor img) vol (str_bytes ''marker.txt'') block_size) (\<lambda>inode.
                       expect (read_data lib cr (cursor img) vol inode block_size) (\<lambda>data.
                         trim_end (from_utf8_lossy data) = MARKER)))))"

definition DFVFS_CONTAINER_OFFSET :: nat where
  "DFVFS_CONTAINER_OFFSET = 20480"

text \<open>The container within the decompressed image; \<^verbatim>\<open>split_off\<close> panics on a shorter one.\<close>

definition dfvfs_container :: "bytes \<Rightarrow> bytes option" where
  "dfvfs_container raw = (if DFVFS_CONTAINER_OFFSET \<le> length raw then Some (drop DFVFS_CONTAINER_OFFSET raw) else None)"

text \<open>The steps the tests on this image share: the volume's UUID from its keybag, its key, the volume with the key.\<close>

definition dfvfs_uuid :: "crypto \<Rightarrow> bytes \<Rightarrow> bytes option" where
  "dfvfs_uuid cr img = Option.bind (unwrapped (decrypt_container_keybag cr img)) (\<lambda>container_kb. get_range container_kb 48 64)"

definition dfvfs_volume :: "crypto \<Rightarrow> bytes \<Rightarrow> (nat \<times> apfs_volume) option" where
  "dfvfs_volume cr img =
     (let block_size = unat (le_u32 img NX_BLOCK_SIZE)
      in Option.bind (dfvfs_uuid cr img) (\<lambda>volume_uuid.
         Option.bind (unwrapped (unlock_volume cr img volume_uuid (str_bytes ''apfs-TEST''))) (\<lambda>vek.
         if length vek \<noteq> 32 then None
         else map_option (\<lambda>(_, vol). (block_size, set_vek vek vol)) (fs_tree_root img block_size))))"

definition tier1_third_party_encrypted_image_reads_against_a_third_party_answer_key ::
    "decmpfs_lib \<Rightarrow> crypto \<Rightarrow> bytes \<Rightarrow> bool" where
  "tier1_third_party_encrypted_image_reads_against_a_third_party_answer_key lib cr raw \<longleftrightarrow>
     (case dfvfs_container raw of
        None \<Rightarrow> False
      | Some img \<Rightarrow>
          \<not> contains img (str_bytes ''passwords.txt'') \<and> \<not> contains img (str_bytes ''another_file'')
          \<and> (case dfvfs_volume cr img of
               None \<Rightarrow> False
             | Some (block_size, vol) \<Rightarrow>
                 expect (list_dir cr (cursor img) vol 2 block_size) (\<lambda>es.
                   sort (map de_name es) = [str_bytes ''.fseventsd'', str_bytes ''a_directory'', str_bytes ''a_link'',
                                            str_bytes ''passwords.txt''])
                 \<and> expect (open_path cr (cursor img) vol (str_bytes ''a_directory/another_file'') block_size) (\<lambda>inode.
                     ino_oid inode = 21
                     \<and> expect (read_data lib cr (cursor img) vol inode block_size) (\<lambda>data.
                         data = str_bytes ''This is another file.'' @ [0x0A]))
                 \<and> expect (open_path cr (cursor img) vol (str_bytes ''passwords.txt'') block_size) (\<lambda>pw.
                     expect (read_data lib cr (cursor img) vol pw block_size) (\<lambda>pw_data.
                       prefix (str_bytes ''place,user,password'' @ [0x0A]) pw_data
                       \<and> contains pw_data (str_bytes ''bank,joesmith,superrich'')))))"

definition tier1_third_party_image_refuses_a_wrong_password :: "crypto \<Rightarrow> bytes \<Rightarrow> bool" where
  "tier1_third_party_image_refuses_a_wrong_password cr raw \<longleftrightarrow>
     (case Option.bind (dfvfs_container raw) (\<lambda>img. map_option (Pair img) (dfvfs_uuid cr img)) of
        None \<Rightarrow> False
      | Some (img, volume_uuid) \<Rightarrow>
          expect_err (unlock_volume cr img volume_uuid (str_bytes ''apfs-WRONG'')) (\<lambda>_. True))"

definition tier1_symlink_target_reads_through_decryption :: "crypto \<Rightarrow> bytes \<Rightarrow> bool" where
  "tier1_symlink_target_reads_through_decryption cr raw \<longleftrightarrow>
     (case dfvfs_container raw of
        None \<Rightarrow> False
      | Some img \<Rightarrow>
          (case dfvfs_volume cr img of
             None \<Rightarrow> False
           | Some (block_size, vol) \<Rightarrow>
               expect (open_path cr (cursor img) vol (str_bytes ''a_link'') block_size) (\<lambda>link.
                 ino_oid link = 22
                 \<and> expect (symlink_target cr (cursor img) vol (ino_oid link) block_size) (\<lambda>target.
                     target = Some (str_bytes ''a_directory/a_file'')))))"

definition the_encrypted_corpus_carries_no_xattrs_or_resource_fork :: "crypto \<Rightarrow> bytes \<Rightarrow> bool" where
  "the_encrypted_corpus_carries_no_xattrs_or_resource_fork cr raw \<longleftrightarrow>
     (case dfvfs_container raw of
        None \<Rightarrow> False
      | Some img \<Rightarrow>
          (case dfvfs_volume cr img of
             None \<Rightarrow> False
           | Some (block_size, vol) \<Rightarrow>
               expect (open_path cr (cursor img) vol (str_bytes ''a_directory'') block_size) (\<lambda>dir.
                 expect (list_dir cr (cursor img) vol (ino_oid dir) block_size) (\<lambda>es.
                   sort (map de_name es) = [str_bytes ''a_file'', str_bytes ''another_file'']))))"

subsection \<open>What they amount to\<close>

text \<open>The inode a path leads to in a stored tree.\<close>

definition tree_inode :: "tree \<Rightarrow> rust_string list \<Rightarrow> inode option" where
  "tree_inode t cs =
     (case namei t cs ROOT_DIR_INO_NUM of
        Inl _ \<Rightarrow> None
      | Inr oid \<Rightarrow> Option.bind (inode_value t oid) (\<lambda>v. unwrapped (inode_parse oid v)))"

lemma expect_open_path:
  assumes "fs_stored cr rd vol bs t" "ordered f t" "oid_major f"
  shows "expect (open_path cr rd vol path bs) P \<longleftrightarrow> (\<exists>i. tree_inode t (path_components path) = Some i \<and> P i)"
  by (auto simp: open_path_stored [OF assms] tree_inode_def unwrapped_def expect_def split: sum.splits option.splits)

lemma sort_names_iff: "sorted ys \<Longrightarrow> sort xs = ys \<longleftrightarrow> mset xs = mset ys"
  by (metis mset_sort properties_for_sort)

lemma answer_paths:
  "path_components (str_bytes ''a_directory/another_file'') = [str_bytes ''a_directory'', str_bytes ''another_file'']"
  "path_components (str_bytes ''a_directory'') = [str_bytes ''a_directory'']"
  "path_components (str_bytes ''a_link'') = [str_bytes ''a_link'']"
  "path_components (str_bytes ''passwords.txt'') = [str_bytes ''passwords.txt'']"
  "path_components (str_bytes ''marker.txt'') = [str_bytes ''marker.txt'']"
  by (simp_all add: path_components_def str_bytes_def)

lemma answer_names_sorted:
  "sorted [str_bytes ''.fseventsd'', str_bytes ''a_directory'', str_bytes ''a_link'', str_bytes ''passwords.txt'']"
  "sorted [str_bytes ''a_file'', str_bytes ''another_file'']"
  by (simp_all add: str_bytes_def)

lemma expect_symlink_target:
  assumes "fs_stored cr rd vol bs t" "ordered f t" "oid_major f"
  shows "expect (symlink_target cr rd vol oid bs) (\<lambda>target. target = Some x) \<longleftrightarrow>
    (\<exists>b. xattr_of t oid XATTR_NAME_SYMLINK = Some (XEmbedded b) \<and> decode_cstr b = x)"
  by (auto simp: symlink_target_def get_xattr_stored [OF assms] split: option.splits xattr_value.splits)

lemma read_data_plain:
  assumes "fs_stored cr rd vol bs t" "ordered f t" "oid_major f" "xattr_of t (ino_oid i) XATTR_NAME_DECMPFS = None"
  shows "read_data lib cr rd vol i bs = read_stream cr rd vol (ino_private_id i) (case ino_size i of None \<Rightarrow> 0 | Some n \<Rightarrow> n) bs"
  by (simp add: read_data_def decmpfs_header_def get_xattr_stored [OF assms(1-3)] assms(4))

text \<open>
  On a third-party image whose volume stores a tree under the unlocked key, the directory and link
  tests are statements about that tree alone.
\<close>

lemma tree_answers:
  assumes "dfvfs_container raw = Some img" "dfvfs_volume cr img = Some (bs, vol)"
    and stored: "fs_stored cr (cursor img) vol bs t" "ordered f t" "oid_major f"
  shows "tier1_symlink_target_reads_through_decryption cr raw \<longleftrightarrow>
      (\<exists>i b. tree_inode t [str_bytes ''a_link''] = Some i \<and> ino_oid i = 22
        \<and> xattr_of t 22 XATTR_NAME_SYMLINK = Some (XEmbedded b) \<and> decode_cstr b = str_bytes ''a_directory/a_file'')"
    and "the_encrypted_corpus_carries_no_xattrs_or_resource_fork cr raw \<longleftrightarrow>
      (\<exists>i. tree_inode t [str_bytes ''a_directory''] = Some i
        \<and> mset (map de_name (dir_listing t (ino_oid i))) = {# str_bytes ''a_file'', str_bytes ''another_file'' #})"
proof -
  note st = expect_open_path [OF stored] list_dir_stored [OF stored] expect_symlink_target [OF stored] answer_paths
  show "tier1_symlink_target_reads_through_decryption cr raw \<longleftrightarrow>
      (\<exists>i b. tree_inode t [str_bytes ''a_link''] = Some i \<and> ino_oid i = 22
        \<and> xattr_of t 22 XATTR_NAME_SYMLINK = Some (XEmbedded b) \<and> decode_cstr b = str_bytes ''a_directory/a_file'')"
    using assms(1,2) by (auto simp: tier1_symlink_target_reads_through_decryption_def st)
  show "the_encrypted_corpus_carries_no_xattrs_or_resource_fork cr raw \<longleftrightarrow>
      (\<exists>i. tree_inode t [str_bytes ''a_directory''] = Some i
        \<and> mset (map de_name (dir_listing t (ino_oid i))) = {# str_bytes ''a_file'', str_bytes ''another_file'' #})"
    using assms(1,2) by (simp add: the_encrypted_corpus_carries_no_xattrs_or_resource_fork_def st
        sort_names_iff [OF answer_names_sorted(2)])
qed

text \<open>
  The answer-key test passes when no name of the key stands in the image, the tree has the listed
  names, and the two files are plain streams with the published content.
\<close>

lemma answer_key_test:
  assumes "dfvfs_container raw = Some img" "dfvfs_volume cr img = Some (bs, vol)"
    and stored: "fs_stored cr (cursor img) vol bs t" "ordered f t" "oid_major f"
    and hidden: "\<not> contains img (str_bytes ''passwords.txt'')" "\<not> contains img (str_bytes ''another_file'')"
    and names: "mset (map de_name (dir_listing t 2))
      = {# str_bytes ''.fseventsd'', str_bytes ''a_directory'', str_bytes ''a_link'', str_bytes ''passwords.txt'' #}"
    and another: "tree_inode t [str_bytes ''a_directory'', str_bytes ''another_file''] = Some i" "ino_oid i = 21"
      "xattr_of t 21 XATTR_NAME_DECMPFS = None" "ino_size i = Some sz"
      "read_stream cr (cursor img) vol (ino_private_id i) sz bs = Inr (str_bytes ''This is another file.'' @ [0x0A])"
    and pw: "tree_inode t [str_bytes ''passwords.txt''] = Some j" "xattr_of t (ino_oid j) XATTR_NAME_DECMPFS = None"
      "ino_size j = Some psz"
      "read_stream cr (cursor img) vol (ino_private_id j) psz bs = Inr (str_bytes ''place,user,password'' @ [0x0A] @ rest)"
      "contains (str_bytes ''place,user,password'' @ [0x0A] @ rest) (str_bytes ''bank,joesmith,superrich'')"
  shows "tier1_third_party_encrypted_image_reads_against_a_third_party_answer_key lib cr raw"
proof -
  have "sort (map de_name (dir_listing t 2))
      = [str_bytes ''.fseventsd'', str_bytes ''a_directory'', str_bytes ''a_link'', str_bytes ''passwords.txt'']"
    unfolding sort_names_iff [OF answer_names_sorted(1)] using names by simp
  moreover have "prefix (str_bytes ''place,user,password'' @ [0x0A]) (str_bytes ''place,user,password'' @ [0x0A] @ rest)"
    by simp
  ultimately show ?thesis
    unfolding tier1_third_party_encrypted_image_reads_against_a_third_party_answer_key_def
    using assms(1,2) hidden another pw read_data_plain [OF stored, of i lib] read_data_plain [OF stored, of j lib]
    by (simp add: expect_open_path [OF stored] list_dir_stored [OF stored] answer_paths)
qed

lemma trim_end_none:
  assumes "s \<noteq> []" "last s \<notin> last ` set white_space"
  shows "trim_end s = s"
proof -
  have "\<not> suffix w s" if "w \<in> set white_space" for w
    using that assms white_space_nonempty [OF that] by (auto simp: suffix_def)
  then have "find (\<lambda>w. suffix w s) white_space = None" by (simp add: find_None_iff)
  then show ?thesis by (simp add: trim_end.simps)
qed

lemma trim_end_newline: "trim_end (s @ [0x0A]) = trim_end s"
proof -
  have "find (\<lambda>w. suffix w (s @ [0x0A])) white_space = Some [0x0A]"
    by (simp add: white_space_def suffix_def)
  then show ?thesis by (subst trim_end.simps) simp
qed

lemma MARKER_text: "trim_end MARKER = MARKER" "utf8_valid (MARKER @ [0x0A])"
proof -
  have "last MARKER = 0x39" "MARKER \<noteq> []" by (simp_all add: MARKER_def str_bytes_def)
  then show "trim_end MARKER = MARKER" by (intro trim_end_none) (auto simp: white_space_def)
  show "utf8_valid (MARKER @ [0x0A])" by (simp add: MARKER_def str_bytes_def utf8_step_def)
qed

text \<open>The marker test passes on an image that stores the file as the marker and a newline.\<close>

lemma marker_test:
  assumes "unlock_volume cr img FIXTURE_VOLUME_UUID (str_bytes ''apfs-FV-TEST-2026'') = Inr vek" "length vek = 32"
    and "fs_tree_root img (image_block_size img) = Some (entry, vol)" "\<not> contains img MARKER"
    and stored: "fs_stored cr (cursor img) (set_vek vek vol) (image_block_size img) t" "ordered f t" "oid_major f"
    and marker: "tree_inode t [str_bytes ''marker.txt''] = Some i" "xattr_of t (ino_oid i) XATTR_NAME_DECMPFS = None"
      "ino_size i = Some sz"
      "read_stream cr (cursor img) (set_vek vek vol) (ino_private_id i) sz (image_block_size img) = Inr (MARKER @ [0x0A])"
  shows "a_file_on_an_encrypted_volume_reads_back_as_its_known_plaintext lib cr img"
  using assms(1-4) marker read_data_plain [OF stored marker(2), of lib]
  by (simp add: a_file_on_an_encrypted_volume_reads_back_as_its_known_plaintext_def Let_def expect_open_path [OF stored]
      answer_paths from_utf8_lossy_id MARKER_text trim_end_newline)

text \<open>A volume the keybag names, whose key the other password does not derive, is refused.\<close>

lemma wrong_password_image_test:
  assumes "dfvfs_container raw = Some img" "dfvfs_uuid cr img = Some u"
    and xts: "\<And>k s d. length k = 16 \<Longrightarrow> KEYBAG_SECTOR dvd length d \<Longrightarrow> xts_area cr k k KEYBAG_SECTOR s (xts_enc k s d) = d"
    and img: "stored_key_chain xts_enc img u wvek wkek it sl"
    and wrong: "pbkdf2 cr (str_bytes ''apfs-WRONG'') sl (max (iterations_of it) 1) 32 = Some dk" "length dk = 32"
      "kw_unwrap cr dk wkek = None"
  shows "tier1_third_party_image_refuses_a_wrong_password cr raw"
proof -
  obtain rec vkb where c: "\<And>pw. unlock_volume cr img u pw = unlock_with_volume_keybag cr vkb rec pw"
      "find_kek_object vkb = Some (concat (map enc_tlv [(0x83, wkek), (0x84, it), (0x85, sl)]))"
    using stored_key_chain_opened [OF xts img] by metis
  have "length wkek = 40" "it \<noteq> []" "length it \<le> 8" "length sl = 16" using img by (simp_all add: stored_key_chain_def)
  then show ?thesis
    using unlock_written_keybag [OF c(2) _ _ _ _ wrong(1,2)] wrong(3) assms(1,2)
    by (simp add: tier1_third_party_image_refuses_a_wrong_password_def c aes_key_unwrap_def)
qed

end
