(* ===== verification/Test_Spaceman.thy ===== *)
theory Test_Spaceman
  imports Spaceman Fixture
begin

text \<open>
  The test module of \<^verbatim>\<open>core/src/spaceman.rs\<close>: images whose space manager, chunk-info block and
  bitmap are written field by field. The builders are characterised once, for every geometry and
  every bitmap byte, and the tests are instances.
\<close>

subsection \<open>Builders\<close>

definition BS :: nat where [layout_defs]: "BS = 4096"

definition spaceman_fields :: "u32 \<Rightarrow> u32 \<Rightarrow> u64 \<Rightarrow> u64 \<Rightarrow> u32 \<Rightarrow> u32 \<Rightarrow> u32 \<Rightarrow> u64 \<Rightarrow> bytes \<Rightarrow> bytes" where
  "spaceman_fields bpc cpc bc cc cibs cabs ao cib0 sm =
     (let sm = overlay sm 24 (to_le 4 (5 :: u32));
          sm = overlay sm SM_BLOCKS_PER_CHUNK (to_le 4 bpc);
          sm = overlay sm SM_CHUNKS_PER_CIB (to_le 4 cpc);
          d = SM_DEV0;
          sm = overlay sm (d + DEV_BLOCK_COUNT) (to_le 8 bc);
          sm = overlay sm (d + DEV_CHUNK_COUNT) (to_le 8 cc);
          sm = overlay sm (d + DEV_CIB_COUNT) (to_le 4 cibs);
          sm = overlay sm (d + DEV_CAB_COUNT) (to_le 4 cabs);
          sm = overlay sm (d + DEV_ADDR_OFFSET) (to_le 4 ao)
      in overlay sm (unat ao) (to_le 8 cib0))"

definition spaceman_image :: "u32 \<Rightarrow> u32 \<Rightarrow> u64 \<Rightarrow> u64 \<Rightarrow> u32 \<Rightarrow> u32 \<Rightarrow> u32 \<Rightarrow> u64 \<Rightarrow> bytes" where
  "spaceman_image bpc cpc bc cc cibs cabs ao cib0 =
     (let img = replicate (BS * 4) 0
      in overlay img 0 (stamp_block (spaceman_fields bpc cpc bc cc cibs cabs ao cib0 (slice img 0 BS))))"

text \<open>The block at \<^verbatim>\<open>BS..2 * BS\<close>, changed and stamped in place.\<close>

definition store_cib :: "bytes \<Rightarrow> (bytes \<Rightarrow> bytes) \<Rightarrow> bytes" where
  "store_cib img f = overlay img BS (stamp_block (f (slice img BS BS)))"

definition two_chunk_image :: "u8 \<Rightarrow> bytes" where
  "two_chunk_image chunk0_bitmap_byte =
     (let img = spaceman_image 8 4 16 2 1 0 256 1;
          img = store_cib img (\<lambda>cib.
            overlay (overlay cib CIB_CHUNK_INFO_COUNT (to_le 4 (2 :: u32)))
              (CIB_CHUNK_INFO + CI_BITMAP_ADDR) (to_le 8 (2 :: u64)))
      in img[2 * BS := chunk0_bitmap_byte])"

definition overcounted_cib_image :: "u64 \<Rightarrow> u64 \<Rightarrow> u32 \<Rightarrow> bytes" where
  "overcounted_cib_image bc cc chunk_info_count =
     (let img = spaceman_image 8 4 bc cc 1 0 256 1;
          img = store_cib img (\<lambda>cib.
            overlay (overlay cib CIB_CHUNK_INFO_COUNT (to_le 4 chunk_info_count))
              (CIB_CHUNK_INFO + CI_BITMAP_ADDR) (to_le 8 (2 :: u64)))
      in img[2 * BS := 0x00])"

subsection \<open>What the builders write\<close>

lemma list_update_overlay: "i < length d \<Longrightarrow> d[i := x] = overlay d i [x]"
  by (simp add: overlay_def upd_conv_take_nth_drop)

lemma read_obj_block_slice:
  assumes "unat p * bs + bs \<le> length img" "8 \<le> bs" "length img < 2 ^ 64"
    and "slice img (unat p * bs) bs = stamp_block b" "8 \<le> length b"
  shows "read_obj_block (cursor img) p bs = Inr (stamp_block b)"
  using assms by (simp add: read_obj_block_def read_block_slice stamp_block_verifies)

text \<open>The space-manager block, with an address array that follows the geometry fields.\<close>

abbreviation sm_block :: "u32 \<Rightarrow> u32 \<Rightarrow> u64 \<Rightarrow> u64 \<Rightarrow> u32 \<Rightarrow> u32 \<Rightarrow> u64 \<Rightarrow> bytes" where
  "sm_block bpc cpc bc cc cibs cabs cib0 \<equiv>
     stamp_block (spaceman_fields bpc cpc bc cc cibs cabs 256 cib0 (replicate 4096 0))"

lemma spaceman_image_reads [store_simps]:
  "length (spaceman_fields bpc cpc bc cc cibs cabs 256 cib0 (replicate 4096 0)) = 4096"
  "length (spaceman_image bpc cpc bc cc cibs cabs 256 cib0) = 16384"
  "slice (spaceman_image bpc cpc bc cc cibs cabs 256 cib0) 0 4096 = sm_block bpc cpc bc cc cibs cabs cib0"
  "4096 \<le> off \<Longrightarrow> off + n \<le> 16384 \<Longrightarrow>
   slice (spaceman_image bpc cpc bc cc cibs cabs 256 cib0) off n = replicate n 0"
  "sm_geometry_of (sm_block bpc cpc bc cc cibs cabs cib0) =
     \<lparr> blocks_per_chunk = unat bpc, chunks_per_cib = unat cpc, block_count = unat bc, chunk_count = unat cc,
       cib_count = unat cibs, cab_count = ucast cabs, addr_offset = 256 \<rparr>"
  "le_u64 (sm_block bpc cpc bc cc cibs cabs cib0) 256 = cib0"
  by (simp_all add: spaceman_image_def spaceman_fields_def sm_geometry_of_def layout_defs store_simps)

lemma spaceman_image_sm:
  "read_obj_block (cursor (spaceman_image bpc cpc bc cc cibs cabs 256 cib0)) 0 4096
     = Inr (sm_block bpc cpc bc cc cibs cabs cib0)"
  by (rule read_obj_block_slice) (simp_all add: store_simps)

lemma store_cib_reads [store_simps]:
  assumes "length img = 16384" "length (f (slice img 4096 4096)) = 4096"
  shows "length (store_cib img f) = 16384"
    and "slice (store_cib img f) 0 4096 = slice img 0 4096"
    and "slice (store_cib img f) 4096 4096 = stamp_block (f (slice img 4096 4096))"
    and "8192 \<le> off \<Longrightarrow> off + n \<le> 16384 \<Longrightarrow> slice (store_cib img f) off n = slice img off n"
  using assms by (simp_all add: store_cib_def BS_def store_simps)

subsection \<open>Queries of one block\<close>

definition read_obj_block_rejects_a_bad_checksum :: bool where
  "read_obj_block_rejects_a_bad_checksum \<longleftrightarrow>
     (let img = replicate BS 0; img = overlay img 8 (to_le 8 (0x1234 :: u64))
      in case read_obj_block (cursor img) 0 BS of
           Inl (ChecksumMismatch block _ _) \<Rightarrow> block = 0x1234 | _ \<Rightarrow> False)"

definition is_out_of_range :: "'a res \<Rightarrow> (string \<Rightarrow> u64 \<Rightarrow> bool) \<Rightarrow> bool" where
  "is_out_of_range r P \<longleftrightarrow> (case r of Inl (FieldOutOfRange _ field val _) \<Rightarrow> P field val | _ \<Rightarrow> False)"

definition is_unsupported_cab :: "'a res \<Rightarrow> (u64 \<Rightarrow> bool) \<Rightarrow> bool" where
  "is_unsupported_cab r P \<longleftrightarrow> (case r of Inl (UnsupportedSpacemanCab count) \<Rightarrow> P count | _ \<Rightarrow> False)"

definition zero_geometry_is_out_of_range :: bool where
  "zero_geometry_is_out_of_range \<longleftrightarrow>
     is_out_of_range (is_block_free (cursor (spaceman_image 0 0 100 10 1 0 256 0)) 0 0 BS) (\<lambda>_ _. True)"

definition block_past_device_is_out_of_range :: bool where
  "block_past_device_is_out_of_range \<longleftrightarrow>
     is_out_of_range (is_block_free (cursor (spaceman_image 8 4 100 10 1 0 256 0)) 0 999 BS)
       (\<lambda>field val. field = ''block'' \<and> val = 999)"

definition cab_tier_is_unsupported_and_loud :: bool where
  "cab_tier_is_unsupported_and_loud \<longleftrightarrow>
     is_unsupported_cab (is_block_free (cursor (spaceman_image 8 4 100 10 1 3 256 0)) 0 0 BS) (\<lambda>count. count = 3)"

definition chunk_index_past_chunk_count_is_out_of_range :: bool where
  "chunk_index_past_chunk_count_is_out_of_range \<longleftrightarrow>
     is_out_of_range (is_block_free (cursor (spaceman_image 8 4 1000 2 1 0 256 0)) 0 64 BS)
       (\<lambda>field _. field = ''chunk_index'')"

definition cib_index_past_cib_count_is_out_of_range :: bool where
  "cib_index_past_cib_count_is_out_of_range \<longleftrightarrow>
     is_out_of_range (is_block_free (cursor (spaceman_image 8 4 1000 100 1 0 256 0)) 0 32 BS)
       (\<lambda>field _. field = ''cib_index'')"

definition zero_bitmap_addr_means_whole_chunk_free :: bool where
  "zero_bitmap_addr_means_whole_chunk_free \<longleftrightarrow>
     (let img = spaceman_image 8 4 1000 10 1 0 256 1;
          img = store_cib img (\<lambda>cib. overlay cib CIB_CHUNK_INFO_COUNT (to_le 4 (1 :: u32)))
      in expect (is_block_free (cursor img) 0 0 BS) (\<lambda>free. free))"

definition chunk_info_index_past_count_is_out_of_range :: bool where
  "chunk_info_index_past_count_is_out_of_range \<longleftrightarrow>
     (let img = spaceman_image 8 4 1000 10 1 0 256 1; img = store_cib img (\<lambda>cib. cib)
      in is_out_of_range (is_block_free (cursor img) 0 0 BS) (\<lambda>field _. field = ''chunk_info_index''))"

lemma stored_cib_reads:
  assumes "length (f (replicate 4096 0)) = 4096"
  shows "read_obj_block (cursor (store_cib (spaceman_image bpc cpc bc cc cibs cabs 256 cib0) f)) 0 4096
      = Inr (sm_block bpc cpc bc cc cibs cabs cib0)"
    and "read_obj_block (cursor (store_cib (spaceman_image bpc cpc bc cc cibs cabs 256 cib0) f)) 1 4096
      = Inr (stamp_block (f (replicate 4096 0)))"
  by (rule read_obj_block_slice; use assms in \<open>simp add: store_simps\<close>)+

lemma query_tests_hold:
  "read_obj_block_rejects_a_bad_checksum" "zero_geometry_is_out_of_range" "block_past_device_is_out_of_range"
  "cab_tier_is_unsupported_and_loud" "chunk_index_past_chunk_count_is_out_of_range"
  "cib_index_past_cib_count_is_out_of_range" "zero_bitmap_addr_means_whole_chunk_free"
  "chunk_info_index_past_count_is_out_of_range"
proof -
  show "read_obj_block_rejects_a_bad_checksum"
    by (simp add: read_obj_block_rejects_a_bad_checksum_def read_obj_block_def read_block_slice fletcher64_stored_def
        fletcher64_checksum_nonzero Let_def BS_def store_simps)
qed (simp_all add: is_out_of_range_def is_unsupported_cab_def is_block_free_def sm_range_def Let_def BS_def
    zero_geometry_is_out_of_range_def block_past_device_is_out_of_range_def cab_tier_is_unsupported_and_loud_def
    chunk_index_past_chunk_count_is_out_of_range_def cib_index_past_cib_count_is_out_of_range_def
    zero_bitmap_addr_means_whole_chunk_free_def chunk_info_index_past_count_is_out_of_range_def
    spaceman_image_sm stored_cib_reads cib_paddr_def ci_count_def ci_bitmap_addr_def CIB_CHUNK_INFO_COUNT_def
    CIB_CHUNK_INFO_def CI_BITMAP_ADDR_def store_simps)

subsection \<open>Runs of one bitmap\<close>

definition free_runs_apfs_polarity_clear_bit_is_free :: bool where
  "free_runs_apfs_polarity_clear_bit_is_free \<longleftrightarrow> free_runs [0x1E] 8 False = [(0, 1), (5, 3)]"

definition free_runs_inverse_polarity_set_bit_is_free :: bool where
  "free_runs_inverse_polarity_set_bit_is_free \<longleftrightarrow> free_runs [0x1E] 8 True = [(1, 4)]"

definition free_runs_honors_blocks_cap_and_ignores_padding :: bool where
  "free_runs_honors_blocks_cap_and_ignores_padding \<longleftrightarrow> free_runs [0x00, 0x00] 3 False = [(0, 3)]"

definition free_runs_missing_bytes_are_allocated_never_fabricated :: bool where
  "free_runs_missing_bytes_are_allocated_never_fabricated \<longleftrightarrow>
     free_runs [0x00] 16 False = [(0, 8)] \<and> free_runs [0xFF] 16 True = [(0, 8)]"

definition free_runs_empty_when_all_allocated :: bool where
  "free_runs_empty_when_all_allocated \<longleftrightarrow> free_runs [0xFF, 0xFF] 16 False = []"

lemma free_runs_loop_numeral:
  "free_runs_loop bitmap one i (numeral k) st =
     free_runs_loop bitmap one (Suc i) (pred_numeral k)
       (case (bit_is_free bitmap one i, snd st) of
          (True, None) \<Rightarrow> (fst st, Some i)
        | (False, Some s) \<Rightarrow> (fst st @ [(s, i - s)], None)
        | _ \<Rightarrow> st)"
  by (subst numeral_eq_Suc) simp

lemmas free_runs_eval = free_runs_def free_runs_loop_numeral bit_is_free_def bit_of_def get_at_def Let_def

lemma free_runs_tests_hold:
  "free_runs_apfs_polarity_clear_bit_is_free" "free_runs_inverse_polarity_set_bit_is_free"
  "free_runs_honors_blocks_cap_and_ignores_padding" "free_runs_missing_bytes_are_allocated_never_fabricated"
  "free_runs_empty_when_all_allocated"
  by (simp_all add: free_runs_apfs_polarity_clear_bit_is_free_def free_runs_inverse_polarity_set_bit_is_free_def
      free_runs_honors_blocks_cap_and_ignores_padding_def free_runs_missing_bytes_are_allocated_never_fabricated_def
      free_runs_empty_when_all_allocated_def free_runs_eval)

subsection \<open>The enumeration\<close>

definition free_block_runs_merges_across_chunk_boundary :: bool where
  "free_block_runs_merges_across_chunk_boundary \<longleftrightarrow>
     expect (free_block_runs (cursor (two_chunk_image 0x1E)) 0 BS) (\<lambda>runs. runs = [(0, 1), (5, 11)])"

definition free_block_runs_all_allocated_chunk0_keeps_chunk1_free :: bool where
  "free_block_runs_all_allocated_chunk0_keeps_chunk1_free \<longleftrightarrow>
     expect (free_block_runs (cursor (two_chunk_image 0xFF)) 0 BS) (\<lambda>runs. runs = [(8, 8)])"

definition free_block_runs_rejects_cab_tier_loud :: bool where
  "free_block_runs_rejects_cab_tier_loud \<longleftrightarrow>
     is_unsupported_cab (free_block_runs (cursor (spaceman_image 8 4 16 2 1 3 256 1)) 0 BS) (\<lambda>count. count = 3)"

definition free_block_runs_rejects_zero_geometry_loud :: bool where
  "free_block_runs_rejects_zero_geometry_loud \<longleftrightarrow>
     is_out_of_range (free_block_runs (cursor (spaceman_image 0 0 16 2 1 0 256 1)) 0 BS) (\<lambda>_ _. True)"

definition free_block_runs_stops_when_cib_overcounts_chunks :: bool where
  "free_block_runs_stops_when_cib_overcounts_chunks \<longleftrightarrow>
     expect (free_block_runs (cursor (overcounted_cib_image 8 1 2)) 0 BS) (\<lambda>runs. runs = [(0, 8)])"

definition free_block_runs_stops_when_chunk_base_exceeds_block_count :: bool where
  "free_block_runs_stops_when_chunk_base_exceeds_block_count \<longleftrightarrow>
     expect (free_block_runs (cursor (overcounted_cib_image 8 2 2)) 0 BS) (\<lambda>runs. runs = [(0, 8)])"

text \<open>An image with one chunk-info block of two entries, the first with the bitmap at block 2.\<close>

definition bitmap_image :: "u64 \<Rightarrow> u64 \<Rightarrow> u8 \<Rightarrow> bytes" where
  "bitmap_image bc cc b = (store_cib (spaceman_image 8 4 bc cc 1 0 256 1) (\<lambda>cib.
     overlay (overlay cib 36 (to_le 4 (2 :: u32))) 64 (to_le 8 (2 :: u64))))[8192 := b]"

lemma fixture_images:
  "two_chunk_image b = bitmap_image 16 2 b" "overcounted_cib_image bc cc 2 = bitmap_image bc cc 0"
  by (simp_all add: two_chunk_image_def overcounted_cib_image_def bitmap_image_def layout_defs)

definition bitmap_cib :: bytes where
  "bitmap_cib = stamp_block (overlay (overlay (replicate 4096 0) 36 (to_le 4 (2 :: u32))) 64 (to_le 8 (2 :: u64)))"

lemma bitmap_image_reads:
  "read_obj_block (cursor (bitmap_image bc cc b)) 0 4096 = Inr (sm_block 8 4 bc cc 1 0 1)"
  "read_obj_block (cursor (bitmap_image bc cc b)) 1 4096 = Inr bitmap_cib"
  "read_block_sat (cursor (bitmap_image bc cc b)) 2 4096 = Inr (b # replicate 4095 0)"
  "ci_count bitmap_cib = 2" "ci_bitmap_addr bitmap_cib 0 = 2" "ci_bitmap_addr bitmap_cib (Suc 0) = 0"
proof -
  show "read_obj_block (cursor (bitmap_image bc cc b)) 0 4096 = Inr (sm_block 8 4 bc cc 1 0 1)"
    "read_obj_block (cursor (bitmap_image bc cc b)) 1 4096 = Inr bitmap_cib"
    unfolding bitmap_cib_def
    by (rule read_obj_block_slice; simp add: bitmap_image_def list_update_overlay store_simps)+
  have "overlay (replicate 4096 0) 0 [b] = b # replicate 4095 0" by (simp add: overlay_def)
  then show "read_block_sat (cursor (bitmap_image bc cc b)) 2 4096 = Inr (b # replicate 4095 0)"
    by (simp add: read_block_slice bitmap_image_def list_update_overlay store_simps)
qed (simp_all add: bitmap_cib_def ci_count_def ci_bitmap_addr_def layout_defs store_simps)

lemma free_runs_loop_cong:
  "(\<And>j. j < i + n \<Longrightarrow> bit_is_free bm one j = bit_is_free bm' one j) \<Longrightarrow>
   free_runs_loop bm one i n st = free_runs_loop bm' one i n st"
  by (induction n arbitrary: i st) (auto split: option.splits bool.splits)

lemma free_runs_one_byte: "free_runs (b # bs) 8 one = free_runs [b] 8 one"
proof -
  have "free_runs_loop (b # bs) one 0 8 st = free_runs_loop [b] one 0 8 st" for st
    by (rule free_runs_loop_cong) (simp add: bit_is_free_def get_at_def)
  then show ?thesis by (simp add: free_runs_def)
qed

text \<open>
  For every bitmap byte: the free runs of the first chunk, followed by the second chunk where the
  device has one.
\<close>

lemma bitmap_image_runs:
  assumes "unat bc = 8 \<or> unat bc = 16" "cc = 1 \<or> cc = 2"
  shows "free_block_runs (cursor (bitmap_image bc cc b)) 0 4096 =
    Inr (let rs = fold (\<lambda>(start, len) rs. push_free_run rs start len) (free_runs [b] 8 False) []
         in if unat bc = 16 \<and> cc = 2 then push_free_run rs 8 8 else rs)"
proof -
  define rd where "rd = cursor (bitmap_image bc cc b)"
  define g where "g = sm_geometry_of (sm_block 8 4 bc cc 1 0 1)"
  define bm where "bm = b # replicate 4095 (0 :: u8)"
  have g: "blocks_per_chunk g = 8" "chunks_per_cib g = 4" "block_count g = unat bc" "chunk_count g = unat cc"
      "cib_count g = 1" "cab_count g = 0" "cib_paddr (sm_block 8 4 bc cc 1 0 1) g 0 = 1"
    by (simp_all add: g_def cib_paddr_def store_simps)
  have runs: "free_runs bm 8 False = free_runs [b] 8 False" unfolding bm_def by (rule free_runs_one_byte)
  note reads = bitmap_image_reads(1,2,3) [of bc cc b, folded bm_def rd_def] bitmap_image_reads(4-6)
  have "chunk_loop rd 4096 g bitmap_cib 0 0 (Suc (Suc 0)) [] =
    Inr (let rs = fold (\<lambda>(start, len) rs. push_free_run rs start len) (free_runs [b] 8 False) []
         in if unat bc = 16 \<and> cc = 2 then push_free_run rs 8 8 else rs)"
    using assms by (elim disjE) (simp_all add: g reads runs Let_def sat_u64_def)
  then have "cib_loop rd 4096 g (sm_block 8 4 bc cc 1 0 1) 0 (Suc 0) [] =
    Inr (let rs = fold (\<lambda>(start, len) rs. push_free_run rs start len) (free_runs [b] 8 False) []
         in if unat bc = 16 \<and> cc = 2 then push_free_run rs 8 8 else rs)"
    by (simp add: g reads numeral_2_eq_2)
  then show ?thesis unfolding rd_def [symmetric] by (simp add: free_block_runs_def reads g g_def [symmetric])
qed

lemma enumeration_tests_hold:
  "free_block_runs_merges_across_chunk_boundary" "free_block_runs_all_allocated_chunk0_keeps_chunk1_free"
  "free_block_runs_rejects_cab_tier_loud" "free_block_runs_rejects_zero_geometry_loud"
  "free_block_runs_stops_when_cib_overcounts_chunks" "free_block_runs_stops_when_chunk_base_exceeds_block_count"
proof -
  show "free_block_runs_rejects_cab_tier_loud" "free_block_runs_rejects_zero_geometry_loud"
    by (simp_all add: free_block_runs_rejects_cab_tier_loud_def free_block_runs_rejects_zero_geometry_loud_def
        is_unsupported_cab_def is_out_of_range_def free_block_runs_def sm_range_def BS_def spaceman_image_sm store_simps)
qed (simp_all add: free_block_runs_merges_across_chunk_boundary_def
    free_block_runs_all_allocated_chunk0_keeps_chunk1_free_def free_block_runs_stops_when_cib_overcounts_chunks_def
    free_block_runs_stops_when_chunk_base_exceeds_block_count_def fixture_images bitmap_image_runs BS_def
    push_free_run_def sat_u64_def free_runs_eval)

end
