(* ===== verification/Test_Blocks.thy ===== *)
theory Test_Blocks
  imports Test_Spaceman Reaper Sealed Container
begin

text \<open>
  The test modules of \<^verbatim>\<open>core/src/bytes.rs\<close>, \<^verbatim>\<open>core/src/fusion.rs\<close>, \<^verbatim>\<open>core/src/reaper.rs\<close> and
  \<^verbatim>\<open>core/src/sealed.rs\<close>.
\<close>

subsection \<open>Field reads\<close>

definition le_reads_in_bounds :: bool where
  "le_reads_in_bounds \<longleftrightarrow>
     (let d = [0x01, 0x02, 0x03, 0x04, 0x05, 0x06, 0x07, 0x08]
      in le_u32 d 0 = 0x04030201 \<and> le_u64 d 0 = 0x0807060504030201 \<and> arr 4 d 2 = [0x03, 0x04, 0x05, 0x06])"

definition out_of_range_yields_zero :: bool where
  "out_of_range_yields_zero \<longleftrightarrow>
     (let d = replicate 3 0xAA in le_u32 d 0 = 0 \<and> le_u64 d 0 = 0 \<and> arr 8 d 0 = replicate 8 0)"

definition offset_past_end_yields_zero :: bool where
  "offset_past_end_yields_zero \<longleftrightarrow>
     (let d = [0x11, 0x22] in le_u32 d 100 = 0 \<and> arr 2 d 100 = replicate 2 0)"

lemma bytes_tests_hold: "le_reads_in_bounds" "out_of_range_yields_zero" "offset_past_end_yields_zero"
proof -
  show "le_reads_in_bounds" by (simp add: le_reads_in_bounds_def arr_in_range le_u32_def le_u64_def)
qed (simp_all add: out_of_range_yields_zero_def offset_past_end_yields_zero_def le_reads_out_of_range arr_out_of_range)

subsection \<open>Fusion addresses\<close>

definition translate_address_fails_loud_not_panics :: bool where
  "translate_address_fails_loud_not_panics \<longleftrightarrow>
     (let tier2 = drop_bit 12 FUSION_TIER2_DEVICE_BYTE_ADDR
      in translate_address tier2 = Inl UnsupportedFusion \<and> translate_address 5 = Inl UnsupportedFusion)"

lemma fusion_test_holds: "translate_address_fails_loud_not_panics"
  by (simp add: translate_address_fails_loud_not_panics_def translate_address_def)

subsection \<open>Reap lists\<close>

definition stamp :: "bytes \<Rightarrow> nat \<Rightarrow> bytes" where
  "stamp img b =
     (let blk = slice img (b * BS) BS; cks = to_le 8 (fletcher64_checksum blk)
      in overlay img (b * BS) cks)"

definition put_u64 :: "bytes \<Rightarrow> nat \<Rightarrow> nat \<Rightarrow> u64 \<Rightarrow> bytes" where
  "put_u64 img b off v = overlay img (b * BS + off) (to_le 8 v)"

definition put_u32 :: "bytes \<Rightarrow> nat \<Rightarrow> nat \<Rightarrow> u32 \<Rightarrow> bytes" where
  "put_u32 img b off v = overlay img (b * BS + off) (to_le 4 v)"

definition walks_reap_list_entries_via_mappings :: bool where
  "walks_reap_list_entries_via_mappings \<longleftrightarrow>
     (let img = replicate (BS * 4) 0; reaper_b = 1; list_b = 2; list_oid = 0x4001;
          img = put_u64 img reaper_b 48 list_oid;
          img = put_u64 img reaper_b 56 list_oid;
          img = stamp img reaper_b;
          img = put_u64 img list_b 32 0;
          img = put_u32 img list_b 48 2;
          img = put_u32 img list_b (64 + 8) 0x4000000d;
          img = put_u64 img list_b (64 + 24) 500;
          img = put_u32 img list_b (104 + 8) 0x40000002;
          img = put_u64 img list_b (104 + 24) 600;
          img = stamp img list_b;
          mappings = [\<lparr> cm_oid = list_oid, cm_paddr = of_nat list_b, cm_obj_type = 0x80000012, cm_subtype = 0 \<rparr>]
      in expect (pending_objects (cursor img) (of_nat reaper_b) mappings BS) (\<lambda>pending.
           map (\<lambda>p. (rp_oid p, rp_obj_type p)) pending = [(500, 0x4000000d), (600, 0x40000002)]))"

definition cyclic_reap_list_chain_is_caught :: bool where
  "cyclic_reap_list_chain_is_caught \<longleftrightarrow>
     (let img = replicate (BS * 3) 0; reaper_b = 1; list_b = 2; list_oid = 0x4001;
          img = put_u64 img reaper_b 48 list_oid;
          img = stamp img reaper_b;
          img = put_u64 img list_b 32 list_oid;
          img = put_u32 img list_b 48 0;
          img = stamp img list_b;
          mappings = [\<lparr> cm_oid = list_oid, cm_paddr = of_nat list_b, cm_obj_type = 0x80000012, cm_subtype = 0 \<rparr>]
      in case pending_objects (cursor img) (of_nat reaper_b) mappings BS of
           Inl (CycleGuard cap) \<Rightarrow> cap = 4096 | _ \<Rightarrow> False)"

definition reports_in_progress_object :: bool where
  "reports_in_progress_object \<longleftrightarrow>
     (let img = replicate (BS * 2) 0; reaper_b = 1;
          img = put_u64 img reaper_b 48 0;
          img = put_u32 img reaper_b 72 0x4000000d;
          img = put_u64 img reaper_b 88 777;
          img = stamp img reaper_b
      in expect (pending_objects (cursor img) (of_nat reaper_b) [] BS) (\<lambda>pending.
           length pending = 1 \<and> (rp_oid (pending ! 0), rp_obj_type (pending ! 0)) = (777, 0x4000000d)))"

text \<open>Stamping in place stamps the block and leaves the others alone.\<close>

lemma stamp_reads [store_simps]:
  assumes "b * 4096 + 4096 \<le> length img"
  shows "length (stamp img b) = length img"
    and "off = b * 4096 \<Longrightarrow> slice (stamp img b) off 4096 = stamp_block (slice img off 4096)"
    and "off + n \<le> b * 4096 \<or> b * 4096 + 4096 \<le> off \<Longrightarrow> slice (stamp img b) off n = slice img off n"
  using assms by (auto simp: stamp_def stamp_block_def BS_def store_simps)

lemma reap_tests_hold:
  "walks_reap_list_entries_via_mappings" "cyclic_reap_list_chain_is_caught" "reports_in_progress_object"
proof -
  note reap_eval = Let_def BS_def put_u64_def put_u32_def pending_objects_def read_obj_block_def read_block_slice
    reap_loop.simps reap_entries_def reap_entry_def in_progress_def layout_defs store_simps
  show "reports_in_progress_object"
    by (simp add: reports_in_progress_object_def reap_eval)
  show "cyclic_reap_list_chain_is_caught"
    by (simp add: cyclic_reap_list_chain_is_caught_def reap_eval)
  show "walks_reap_list_entries_via_mappings"
    by (simp add: walks_reap_list_entries_via_mappings_def reap_eval map_filter_simps upt_conv_Cons)
qed

subsection \<open>Integrity metadata\<close>

definition integrity_block :: "u32 \<Rightarrow> u32 \<Rightarrow> u32 \<Rightarrow> u64 \<Rightarrow> bytes" where
  "integrity_block version flags hash_type broken_xid =
     (let b = replicate 4096 0;
          b = overlay b 32 (to_le 4 version);
          b = overlay b 36 (to_le 4 flags);
          b = overlay b 40 (to_le 4 hash_type);
          b = overlay b 48 (to_le 8 broken_xid)
      in stamp_block b)"

definition parses_fields_including_broken_xid :: bool where
  "parses_fields_including_broken_xid \<longleftrightarrow>
     expect (integrity_meta_parse (integrity_block 1 0 1 42)) (\<lambda>im.
       im_version im = 1 \<and> im_hash_type im = 1 \<and> im_broken_xid im = 42)"

definition unbroken_seal_has_zero_broken_xid :: bool where
  "unbroken_seal_has_zero_broken_xid \<longleftrightarrow>
     expect (integrity_meta_parse (integrity_block 1 0 1 0)) (\<lambda>im. im_broken_xid im = 0)"

definition rejects_corrupted_block :: bool where
  "rejects_corrupted_block \<longleftrightarrow>
     (let block = integrity_block 1 0 1 0; block = block[100 := (block ! 100) XOR 0xff]
      in expect_err (integrity_meta_parse block) (\<lambda>_. True))"

definition rejects_a_block_too_short_for_the_structure :: bool where
  "rejects_a_block_too_short_for_the_structure \<longleftrightarrow>
     is_out_of_range (integrity_meta_parse (replicate 16 0)) (\<lambda>field val. field = ''block.len'' \<and> val = 16)"

lemma integrity_block_parse:
  "integrity_meta_parse (integrity_block version flags hash_type broken_xid) =
     Inr \<lparr> im_version = version, im_flags = flags, im_hash_type = hash_type, im_broken_xid = broken_xid \<rparr>"
  by (simp add: integrity_meta_parse_def integrity_block_def layout_defs store_simps)

lemma integrity_block_verifies:
  "length (integrity_block version flags hash_type broken_xid) = 4096"
  "fletcher64_checksum (integrity_block version flags hash_type broken_xid)
     = fletcher64_stored (integrity_block version flags hash_type broken_xid)"
  by (simp_all add: integrity_block_def store_simps)

lemma sealed_tests_hold:
  "parses_fields_including_broken_xid" "unbroken_seal_has_zero_broken_xid" "rejects_corrupted_block"
  "rejects_a_block_too_short_for_the_structure"
proof -
  let ?b = "integrity_block 1 0 1 0"
  have "fletcher64_checksum (?b[100 := ?b ! 100 XOR 0xff]) \<noteq> fletcher64_stored (?b[100 := ?b ! 100 XOR 0xff])"
    by (rule byte_change_detected) (simp_all add: integrity_block_verifies byte_flip_changes)
  then show "rejects_corrupted_block"
    by (simp add: rejects_corrupted_block_def integrity_meta_parse_def integrity_block_verifies layout_defs Let_def)
  show "rejects_a_block_too_short_for_the_structure"
    by (simp add: rejects_a_block_too_short_for_the_structure_def is_out_of_range_def integrity_meta_parse_def layout_defs)
qed (simp_all add: parses_fields_including_broken_xid_def unbroken_seal_has_zero_broken_xid_def integrity_block_parse)

end
