(* ===== verification/Node_Stores.thy ===== *)
theory Node_Stores
  imports Node_Encoding Fixture
begin

text \<open>
  Nodes written in place, entry by entry: the table-of-contents slot of an entry, its key after the
  keys already there and its value before the values already there, all stores into a zeroed
  block. After the last entry the block is the node the encoder of the theory \<open>Node_Encoding\<close>
  lays out, so reading it back gives the entries.
\<close>

subsection \<open>Stores into the middle of a buffer\<close>

lemma overlay_mid: "length z = length s \<Longrightarrow> off = length a \<Longrightarrow> overlay (a @ z @ b) off s = a @ s @ b"
  by (simp add: overlay_def)

lemma overlay_in_prefix: "off + length s \<le> length a \<Longrightarrow> overlay (a @ b) off s = overlay a off s @ b"
  by (simp add: overlay_def)

lemma overlay_join: "off' = off + length s \<Longrightarrow> off + length s + length t \<le> length d \<Longrightarrow>
    overlay (overlay d off s) off' t = overlay d off (s @ t)"
  by (simp add: overlay_def ac_simps)

lemma overlay_commute:
  assumes "off + length s \<le> off'" "off' + length t \<le> length d"
  shows "overlay (overlay d off' t) off s = overlay (overlay d off s) off' t"
proof (rule nth_equalityI)
  fix i assume "i < length (overlay (overlay d off' t) off s)"
  then have "i < length d" using assms by (simp add: length_overlay)
  then show "overlay (overlay d off' t) off s ! i = overlay (overlay d off s) off' t ! i"
    using assms by (simp add: nth_overlay length_overlay)
qed (use assms in \<open>simp add: length_overlay\<close>)

subsection \<open>A node with its first entries written\<close>

definition node_upto :: "bool \<Rightarrow> entry list \<Rightarrow> bytes \<Rightarrow> bytes \<Rightarrow> nat \<Rightarrow> nat \<Rightarrow> bytes" where
  "node_upto fixed es pre footer room i =
     pre @ concat (map (enc_toc fixed es) [0..<i])
     @ replicate (enc_toc_len fixed * (length es - i)) 0
     @ concat (map fst (take i es))
     @ replicate (room - length (concat (map fst (take i es))) - length (concat (map snd (take i es)))) 0
     @ concat (rev (map snd (take i es))) @ footer"

text \<open>\<open>room\<close> is the space for keys and values together.\<close>

definition entries_fit :: "entry list \<Rightarrow> nat \<Rightarrow> bool" where
  "entries_fit es room \<longleftrightarrow> length (concat (map fst es)) + length (concat (map snd es)) \<le> room"

lemma entries_fit_upto:
  assumes "entries_fit es room" "i < length es"
  shows "length (concat (map fst (take i es))) + length (fst (es ! i))
    + (length (concat (map snd (take i es))) + length (snd (es ! i))) \<le> room"
proof -
  have "length (concat (map f (take i es))) + length (f (es ! i)) \<le> length (concat (map f es))" for f :: "entry \<Rightarrow> bytes"
    using assms(2) le_length_concat(1) [of f "Suc i" es] by (simp add: take_Suc_conv_app_nth)
  from this [of fst] this [of snd] show ?thesis using assms(1) by (simp add: entries_fit_def)
qed

lemma length_toc_upto: "length (concat (map (enc_toc fixed es) [0..<i])) = enc_toc_len fixed * i"
  by (subst length_concat_chunks [of _ _ "enc_toc_len fixed"]) simp_all

text \<open>One more entry: three stores.\<close>

lemma node_upto_Suc:
  assumes fit: "entries_fit es room" "i < length es"
    and ko: "ko = length (concat (map fst (take i es)))" and vo: "vo = length (concat (map snd (take i es)))"
    and e: "e = length pre + i * enc_toc_len fixed" and ka: "ka = length pre + enc_toc_len fixed * length es"
    and vb: "vb = ka + room"
  shows "overlay (overlay (overlay (node_upto fixed es pre footer room i) e (enc_toc fixed es i))
      (ka + ko) (fst (es ! i))) (vb - (vo + length (snd (es ! i)))) (snd (es ! i)) = node_upto fixed es pre footer room (Suc i)"
proof -
  define tl where "tl = enc_toc_len fixed"
  define k v where "k = fst (es ! i)" and "v = snd (es ! i)"
  define toc keys vals where "toc = pre @ concat (map (enc_toc fixed es) [0..<i])"
    and "keys = concat (map fst (take i es))" and "vals = concat (rev (map snd (take i es)))"
  define m where "m = length es - Suc i"
  define gap where "gap = room - (ko + length k) - (vo + length v)"
  have le: "ko + length k + (vo + length v) \<le> room"
    using entries_fit_upto [OF fit] by (simp add: ko vo k_def v_def)
  have lv: "length vals = vo" "length keys = ko" by (simp_all add: vals_def vo keys_def ko length_concat rev_map [symmetric])
  have lt: "length toc = e" by (simp add: toc_def e length_toc_upto mult.commute)
  have ka': "ka = e + tl + tl * m"
  proof -
    have "length es = i + Suc m" using fit(2) by (simp add: m_def)
    then show ?thesis by (simp add: ka e tl_def add_mult_distrib2 algebra_simps)
  qed
  have "tl * (length es - i) = tl + tl * m" using fit(2) by (simp add: m_def Suc_diff_Suc [symmetric])
  then have z1: "replicate (tl * (length es - i)) (0 :: u8) = replicate tl 0 @ replicate (tl * m) 0"
    by (simp only: replicate_add)
  have "room - (ko + vo) = length k + (gap + length v)" using le by (simp add: gap_def)
  then have z2: "replicate (room - (ko + vo)) (0 :: u8) = replicate (length k) 0 @ replicate gap 0 @ replicate (length v) 0"
    by (simp only: replicate_add)
  have "node_upto fixed es pre footer room i = toc @ replicate tl 0 @ replicate (tl * m) 0 @ keys
      @ (replicate (length k) 0 @ replicate gap 0 @ replicate (length v) 0) @ vals @ footer"
    by (simp add: node_upto_def toc_def keys_def vals_def ko [symmetric] vo [symmetric] tl_def [symmetric] z1 z2)
  then have "overlay (node_upto fixed es pre footer room i) e (enc_toc fixed es i) =
      (toc @ enc_toc fixed es i @ replicate (tl * m) 0 @ keys) @ replicate (length k) 0
        @ (replicate gap 0 @ replicate (length v) 0 @ vals @ footer)"
    using lt by (simp add: overlay_mid tl_def)
  then have "overlay (overlay (node_upto fixed es pre footer room i) e (enc_toc fixed es i)) (ka + ko) k =
      (toc @ enc_toc fixed es i @ replicate (tl * m) 0 @ keys @ k @ replicate gap 0) @ replicate (length v) 0 @ (vals @ footer)"
    by (simp only:) (subst overlay_mid; use lt lv ka' in \<open>simp add: tl_def\<close>)
  then have "overlay (overlay (overlay (node_upto fixed es pre footer room i) e (enc_toc fixed es i)) (ka + ko) k)
      (vb - (vo + length v)) v =
      (toc @ enc_toc fixed es i @ replicate (tl * m) 0 @ keys @ k @ replicate gap 0) @ v @ vals @ footer"
    by (simp only:) (subst overlay_mid; use lt lv ka' le vb in \<open>simp add: tl_def gap_def\<close>)
  also have "\<dots> = node_upto fixed es pre footer room (Suc i)"
    using fit(2) by (simp add: node_upto_def toc_def keys_def vals_def k_def v_def take_Suc_conv_app_nth tl_def m_def
        gap_def ko vo diff_diff_left add.assoc)
  finally show ?thesis by (simp add: k_def v_def)
qed

lemma node_upto_0: "node_upto fixed es pre footer room 0 =
    pre @ replicate (enc_toc_len fixed * length es + room) 0 @ footer"
  by (simp add: node_upto_def replicate_add)

lemma node_upto_all:
  "node_upto fixed es pre footer room (length es) = pre @ concat (map (enc_toc fixed es) [0..<length es])
     @ concat (map fst es) @ replicate (room - length (concat (map fst es)) - length (concat (map snd es))) 0
     @ concat (rev (map snd es)) @ footer"
  by (simp add: node_upto_def)

lemma length_node_upto:
  assumes "entries_fit es room" "i \<le> length es"
  shows "length (node_upto fixed es pre footer room i) = length pre + enc_toc_len fixed * length es + room + length footer"
proof -
  have "length (concat (map fst (take i es))) + length (concat (map snd (take i es))) \<le> room"
    using assms(1) le_length_concat(1) [of fst i es] le_length_concat(1) [of snd i es] by (simp add: entries_fit_def)
  moreover have "length (concat (rev (map snd (take i es)))) = length (concat (map snd (take i es)))"
    by (simp add: length_concat rev_map [symmetric])
  moreover have "enc_toc_len fixed * i + enc_toc_len fixed * (length es - i) = enc_toc_len fixed * length es"
    using assms(2) by (simp add: add_mult_distrib2 [symmetric])
  ultimately show ?thesis by (simp add: node_upto_def length_toc_upto)
qed

text \<open>The four fields of a variable-size slot, and the two of a fixed-size one, as one store.\<close>

lemma store_slot:
  assumes "e + 8 \<le> length d"
  shows "overlay (overlay (overlay (overlay d e (to_le 2 a)) (e + 2) (to_le 2 b)) (e + 4) (to_le 2 c)) (e + 6) (to_le 2 f)
    = overlay d e (to_le 2 a @ to_le 2 b @ to_le 2 c @ to_le 2 f)"
  using assms by (simp add: overlay_join)

lemma sealed_node:
  assumes "b = hdr8 @ hdr @ enc_node_fields flags level es @ rest" "length hdr8 = 8" "length hdr = 24"
    and "fixed = (flags AND BTNODE_FIXED_KV_SIZE \<noteq> 0)"
    and "node_upto fixed es (hdr8 @ hdr @ enc_node_fields flags level es) footer room (length es)
      = hdr8 @ hdr @ enc_node_fields flags level es @ rest"
  shows "stamp_block b = enc_node hdr flags level es
      (replicate (room - length (concat (map fst es)) - length (concat (map snd es))) 0) footer"
proof -
  have "rest = concat (map (enc_toc fixed es) [0..<length es])
     @ concat (map fst es) @ replicate (room - length (concat (map fst es)) - length (concat (map snd es))) 0
     @ concat (rev (map snd es)) @ footer"
    using assms(5) by (simp add: node_upto_all)
  then show ?thesis
    using assms(1-4) by (simp add: stamp_block_eq_seal enc_node_def)
qed

end
