(* ===== verification/Test_Snapshot.thy ===== *)
theory Test_Snapshot
  imports Snapshot Node_Stores Test_Spaceman
begin

text \<open>
  The test module of \<^verbatim>\<open>core/src/snapshot.rs\<close>. Its builders write whole volumes: a superblock, an
  object map with its tree and a snapshot-metadata tree, each block sealed. The node builders are
  shown to lay out exactly the records they are given, for any records that fit a block, and the
  listing and the name lookup are then the general facts of the theory \<open>Snapshot\<close>. The tests that
  read the committed image are stated over an arbitrary image.
\<close>

subsection \<open>Builders\<close>

definition jkey :: "u64 \<Rightarrow> u64 \<Rightarrow> bytes" where
  "jkey ty oid = to_le 8 (push_bit 60 ty OR oid)"

definition obj_hdr :: "bytes \<Rightarrow> u64 \<Rightarrow> u64 \<Rightarrow> u32 \<Rightarrow> u32 \<Rightarrow> bytes" where
  "obj_hdr block oid xid ty subtype =
     (let block = overlay block 8 (to_le 8 oid);
          block = overlay block 16 (to_le 8 xid);
          block = overlay block 24 (to_le 4 ty)
      in overlay block 28 (to_le 4 subtype))"

definition seal :: "bytes \<Rightarrow> bytes" where
  "seal block = (let c = fletcher64_checksum block in overlay block 0 (to_le 8 c))"

text \<open>The loop of \<^verbatim>\<open>btree_node\<close> over the records, with its counters.\<close>

fun store_records :: "nat \<Rightarrow> nat \<Rightarrow> nat \<Rightarrow> nat \<Rightarrow> nat \<Rightarrow> nat \<Rightarrow> (bytes \<times> bytes) list \<Rightarrow> bytes \<Rightarrow> bytes" where
  "store_records toc_at keys_at val_end i key_off val_off [] b = b"
| "store_records toc_at keys_at val_end i key_off val_off ((k, v) # records) b =
     (let e = toc_at + i * 8;
          b = overlay b e (to_le 2 (of_nat key_off :: u16));
          b = overlay b (e + 2) (to_le 2 (of_nat (length k) :: u16));
          this_val = length v;
          v_reversed = val_off + this_val;
          b = overlay b (e + 4) (to_le 2 (of_nat v_reversed :: u16));
          b = overlay b (e + 6) (to_le 2 (of_nat this_val :: u16));
          ks = keys_at + key_off;
          b = overlay b ks k;
          vs = val_end - v_reversed;
          b = overlay b vs v
      in store_records toc_at keys_at val_end (Suc i) (key_off + length k) (val_off + this_val) records b)"

definition btree_node :: "u64 \<Rightarrow> u64 \<Rightarrow> bool \<Rightarrow> (bytes \<times> bytes) list \<Rightarrow> bytes" where
  "btree_node oid xid leaf records =
     (let b = replicate BS 0;
          flags = 0x1 OR (if leaf then 0x2 else 0) :: u16;
          b = overlay b 32 (to_le 2 flags);
          level = (if leaf then 0 else 1) :: u16;
          b = overlay b 34 (to_le 2 level);
          b = overlay b 36 (to_le 4 (of_nat (length records) :: u32));
          toc_len = length records * 8;
          b = overlay b 40 (to_le 2 (0 :: u16));
          b = overlay b 42 (to_le 2 (of_nat toc_len :: u16));
          toc_at = 56;
          keys_at = toc_at + toc_len;
          val_end = BS - 40;
          b = store_records toc_at keys_at val_end 0 0 0 records b
      in seal (obj_hdr b oid xid 0x40000002 0x10))"

definition snap_jkey :: "u64 \<Rightarrow> u64 \<Rightarrow> bytes" where
  "snap_jkey ty i = to_le 8 (push_bit 60 ty OR i)"

definition snap_meta_val :: "u64 \<Rightarrow> u64 \<Rightarrow> rust_string \<Rightarrow> bytes" where
  "snap_meta_val sblock create name =
     (let v = replicate OFF_SNAP_NAME 0;
          v = overlay v OFF_SNAP_SBLOCK_OID (to_le 8 sblock);
          v = overlay v OFF_SNAP_CREATE_TIME (to_le 8 create);
          name_b = name @ [0];
          v = overlay v OFF_SNAP_NAME_LEN (to_le 2 (of_nat (length name_b) :: u16))
      in v @ name_b)"

definition snap_name_key :: "rust_string \<Rightarrow> bytes" where
  "snap_name_key name =
     (let k = snap_jkey 11 0; name_b = name @ [0]
      in k @ to_le 2 (of_nat (length name_b) :: u16) @ name_b)"

definition apsb :: "u64 \<Rightarrow> u64 \<Rightarrow> u64 \<Rightarrow> u64 \<Rightarrow> bytes" where
  "apsb oid xid omap_oid snap_meta_oid =
     (let b = replicate BS 0;
          b = overlay b 32 (to_le 4 (0x42535041 :: u32));
          b = overlay b 128 (to_le 8 omap_oid);
          b = overlay b 152 (to_le 8 snap_meta_oid)
      in seal (obj_hdr b oid xid 0x0d 0))"

definition omap_block :: "u64 \<Rightarrow> u64 \<Rightarrow> bytes" where
  "omap_block oid tree_block =
     (let b = replicate BS 0;
          b = overlay b 40 (to_le 4 (0x40000002 :: u32));
          b = overlay b 48 (to_le 8 tree_block)
      in seal (obj_hdr b oid 0 0x0b 0))"

fun store_mappings :: "nat \<Rightarrow> nat \<Rightarrow> nat \<Rightarrow> nat \<Rightarrow> nat \<Rightarrow> nat \<Rightarrow> (u64 \<times> u64 \<times> u64) list \<Rightarrow> bytes \<Rightarrow> bytes" where
  "store_mappings toc_at keys_at val_end i key_off val_off [] b = b"
| "store_mappings toc_at keys_at val_end i key_off val_off ((virt, xid, phys) # ms) b =
     (let e = toc_at + i * 4;
          b = overlay b e (to_le 2 (of_nat key_off :: u16));
          k = replicate 16 0;
          k = overlay k 0 (to_le 8 virt);
          k = overlay k 8 (to_le 8 xid);
          ks = keys_at + key_off;
          b = overlay b ks k;
          v = replicate 16 0;
          v = overlay v 8 (to_le 8 phys);
          v_reversed = val_off + 16;
          b = overlay b (e + 2) (to_le 2 (of_nat v_reversed :: u16));
          vs = val_end - v_reversed;
          b = overlay b vs v
      in store_mappings toc_at keys_at val_end (Suc i) (key_off + 16) (val_off + 16) ms b)"

definition omap_leaf :: "u64 \<Rightarrow> (u64 \<times> u64 \<times> u64) list \<Rightarrow> bytes" where
  "omap_leaf oid ms =
     (let b = replicate BS 0;
          flags = 0x1 OR 0x2 OR 0x4 :: u16;
          b = overlay b 32 (to_le 2 flags);
          b = overlay b 36 (to_le 4 (of_nat (length ms) :: u32));
          toc_len = length ms * 4;
          b = overlay b 40 (to_le 2 (0 :: u16));
          b = overlay b 42 (to_le 2 (of_nat toc_len :: u16));
          toc_at = 56;
          keys_at = toc_at + toc_len;
          val_end = BS - 40;
          b = store_mappings toc_at keys_at val_end 0 0 0 ms b
      in seal (obj_hdr b oid 0 0x40000002 0x0b))"

definition image_of_blocks :: "(nat \<times> bytes) list \<Rightarrow> bytes" where
  "image_of_blocks blocks =
     (let max_block = foldr max (map fst blocks) 0;
          buf = replicate ((max_block + 1) * BS) 0
      in fold (\<lambda>(i, b) buf. overlay buf (i * BS) b) blocks buf)"

subsection \<open>The nodes the builders write\<close>

lemma seal_eq: "seal b = stamp_block b"
  by (simp add: seal_def stamp_block_def)

lemma obj_hdr_zeros:
  "obj_hdr (replicate 32 0 @ r) oid xid ty subtype
     = replicate 8 0 @ (to_le 8 oid @ to_le 8 xid @ to_le 4 ty @ to_le 4 subtype) @ r"
  by (simp add: obj_hdr_def overlay_def take_replicate drop_replicate)

lemma store_records_upto:
  assumes "entries_fit es room" "records = drop i es" "i \<le> length es" "length pre = 56"
    and "key_off = length (concat (map fst (take i es)))" "val_off = length (concat (map snd (take i es)))"
  shows "store_records 56 (56 + length es * 8) (56 + length es * 8 + room) i key_off val_off records
      (node_upto False es pre footer room i) = node_upto False es pre footer room (length es)"
  using assms(2,3,5,6)
proof (induction records arbitrary: i key_off val_off)
  case (Cons kv records)
  obtain k v where kv: "kv = (k, v)" by (cases kv)
  from Cons.prems have i: "i < length es" by (metis drop_all list.distinct(1) not_le)
  then have es: "es ! i = (k, v)" "records = drop (Suc i) es"
    using Cons.prems(1) kv by (simp_all add: Cons_nth_drop_Suc [symmetric])
  have fits: "56 + i * 8 + 8 \<le> length (node_upto False es pre footer room i)"
    using assms(1,4) i by (simp add: length_node_upto enc_toc_len_def TOC_VAR_LEN_def)
  have slot: "to_le 2 (of_nat key_off :: u16) @ to_le 2 (of_nat (length k) :: u16)
      @ to_le 2 (of_nat (val_off + length v) :: u16) @ to_le 2 (of_nat (length v) :: u16) = enc_toc False es i"
    using Cons.prems(3,4) i es by (simp add: enc_toc_def Let_def take_Suc_conv_app_nth)
  have step: "node_upto False es pre footer room (Suc i) =
     overlay (overlay (overlay (node_upto False es pre footer room i) (56 + i * 8) (enc_toc False es i))
      (56 + length es * 8 + key_off) k) (56 + length es * 8 + room - (val_off + length v)) v"
    using node_upto_Suc [where pre = pre and fixed = False and footer = footer, OF assms(1) i Cons.prems(3,4) refl refl refl] assms(4) es
    by (simp add: enc_toc_len_def TOC_VAR_LEN_def mult.commute)
  have "store_records 56 (56 + length es * 8) (56 + length es * 8 + room) i key_off val_off (kv # records)
      (node_upto False es pre footer room i) =
    store_records 56 (56 + length es * 8) (56 + length es * 8 + room) (Suc i) (key_off + length k) (val_off + length v)
      records (node_upto False es pre footer room (Suc i))"
    unfolding kv store_records.simps Let_def by (simp only: store_slot [OF fits] slot step)
  also have "\<dots> = node_upto False es pre footer room (length es)"
    using Cons.prems(3,4) i es by (intro Cons.IH) (simp_all add: take_Suc_conv_app_nth)
  finally show ?case .
qed simp

definition mapping_entry :: "u64 \<times> u64 \<times> u64 \<Rightarrow> entry" where
  "mapping_entry m = (case m of (virt, xid, phys) \<Rightarrow> (to_le 8 virt @ to_le 8 xid, replicate 8 0 @ to_le 8 phys))"

lemma mapping_buffers:
  "overlay (overlay (replicate 16 0) 0 (to_le 8 (a :: u64))) 8 (to_le 8 (b :: u64)) = to_le 8 a @ to_le 8 b"
  "overlay (replicate 16 0) 8 (to_le 8 (a :: u64)) = replicate 8 0 @ to_le 8 a"
  by (simp_all add: overlay_def take_replicate drop_replicate)

lemma length_mapping_parts:
  "length (concat (map fst (map mapping_entry ms))) = 16 * length ms"
  "length (concat (map snd (map mapping_entry ms))) = 16 * length ms"
  by (induction ms) (auto simp: mapping_entry_def split: prod.split)

lemma store_mappings_upto:
  fixes all :: "(u64 \<times> u64 \<times> u64) list"
  defines "es \<equiv> map mapping_entry all"
  assumes "entries_fit es room" "ms = drop i all" "i \<le> length all" "length pre = 56"
  shows "store_mappings 56 (56 + length es * 4) (56 + length es * 4 + room) i (16 * i) (16 * i) ms
      (node_upto True es pre footer room i) = node_upto True es pre footer room (length es)"
  using assms(3,4)
proof (induction ms arbitrary: i)
  case Nil
  then show ?case by (simp add: es_def)
next
  case (Cons m ms)
  obtain virt xid phys where m: "m = (virt, xid, phys)" by (cases m)
  from Cons.prems have i: "i < length all" by (metis drop_all list.distinct(1) not_le)
  then have all: "all ! i = m" "ms = drop (Suc i) all"
    using Cons.prems(1) by (simp_all add: Cons_nth_drop_Suc [symmetric])
  then have es: "es ! i = (to_le 8 virt @ to_le 8 xid, replicate 8 0 @ to_le 8 phys)" "i < length es"
    using i m by (simp_all add: es_def mapping_entry_def)
  have tk: "take j es = map mapping_entry (take j all)" for j by (simp add: es_def take_map)
  have off: "length (concat (map fst (take i es))) = 16 * i" "length (concat (map snd (take i es))) = 16 * i"
    using i unfolding tk length_mapping_parts by simp_all
  define b where "b = node_upto True es pre footer room i"
  have len: "length b = 56 + 4 * length es + room + length footer"
    using assms(2,5) es(2) by (simp add: b_def length_node_upto enc_toc_len_def TOC_FIXED_LEN_def)
  have room: "16 * i + 32 + 16 * i \<le> room"
    using entries_fit_upto [OF assms(2) es(2)] by (simp add: off es(1))
  define slot where "slot = to_le 2 (of_nat (16 * i) :: u16) @ to_le 2 (of_nat (16 * i + 16) :: u16)"
  have slot: "slot = enc_toc True es i"
    using off es by (simp add: slot_def enc_toc_def Let_def take_Suc_conv_app_nth)
  have step: "node_upto True es pre footer room (Suc i) =
     overlay (overlay (overlay b (56 + i * 4) slot)
      (56 + length es * 4 + 16 * i) (to_le 8 virt @ to_le 8 xid)) (56 + length es * 4 + room - (16 * i + 16))
      (replicate 8 0 @ to_le 8 phys)"
    using node_upto_Suc [where pre = pre and fixed = True and footer = footer, OF assms(2) es(2) refl refl refl refl refl]
      assms(5) es slot by (simp add: off b_def enc_toc_len_def TOC_FIXED_LEN_def mult.commute)
  have slots: "overlay (overlay (overlay b (56 + i * 4) (to_le 2 (of_nat (16 * i) :: u16)))
        (56 + length es * 4 + 16 * i) (to_le 8 virt @ to_le 8 xid)) (56 + i * 4 + 2) (to_le 2 (of_nat (16 * i + 16) :: u16))
      = overlay (overlay b (56 + i * 4) slot) (56 + length es * 4 + 16 * i) (to_le 8 virt @ to_le 8 xid)"
    using len room es(2) by (simp add: overlay_commute overlay_join slot_def length_overlay)
  have "store_mappings 56 (56 + length es * 4) (56 + length es * 4 + room) i (16 * i) (16 * i) (m # ms) b =
    store_mappings 56 (56 + length es * 4) (56 + length es * 4 + room) (Suc i) (16 * Suc i) (16 * Suc i) ms
      (node_upto True es pre footer room (Suc i))"
    unfolding m store_mappings.simps Let_def mapping_buffers slots step by (simp add: add.commute)
  also have "\<dots> = node_upto True es pre footer room (length es)"
    using i all(2) by (intro Cons.IH) simp_all
  finally show ?case by (simp add: b_def)
qed

lemma to_le_zero: "to_le n 0 = replicate n 0"
  by (induction n) simp_all

text \<open>The header fields, stored into zeros.\<close>

lemma node_fields_stored:
  "overlay (overlay (overlay (overlay (overlay (replicate 4096 0) 32 (to_le 2 flags)) 34 (to_le 2 level))
      36 (to_le 4 (of_nat (length es) :: u32))) 40 (to_le 2 (0 :: u16)))
      42 (to_le 2 (of_nat (enc_toc_len (flags AND BTNODE_FIXED_KV_SIZE \<noteq> 0) * length es) :: u16))
    = replicate 32 0 @ enc_node_fields flags level es @ replicate 4040 0"
  using replicate_add [of 12 4040 "0 :: u8"]
  by (simp add: enc_node_fields_def overlay_def take_replicate drop_replicate)

lemma node_block_sealed:
  assumes "enc_toc_len fixed * length es \<le> 4000" "fixed = (flags AND BTNODE_FIXED_KV_SIZE \<noteq> 0)"
    and "room = 4000 - enc_toc_len fixed * length es"
    and "stored = node_upto fixed es (replicate 32 0 @ enc_node_fields flags level es) (replicate 40 0) room (length es)"
  shows "seal (obj_hdr stored oid xid ty subtype)
    = enc_node (to_le 8 oid @ to_le 8 xid @ to_le 4 ty @ to_le 4 subtype) flags level es
        (replicate (room - length (concat (map fst es)) - length (concat (map snd es))) 0) (replicate 40 0)"
proof -
  let ?hdr = "to_le 8 oid @ to_le 8 xid @ to_le 4 ty @ to_le 4 subtype" and ?fields = "enc_node_fields flags level es"
  define rest where "rest = concat (map (enc_toc fixed es) [0..<length es]) @ concat (map fst es)
     @ replicate (room - length (concat (map fst es)) - length (concat (map snd es))) 0
     @ concat (rev (map snd es)) @ replicate 40 0"
  have "stored = replicate 32 0 @ ?fields @ rest" by (simp add: assms(4) node_upto_all rest_def)
  then have "obj_hdr stored oid xid ty subtype = replicate 8 0 @ ?hdr @ ?fields @ rest" by (simp add: obj_hdr_zeros)
  then show ?thesis
    unfolding seal_eq by (rule sealed_node) (use assms(2) in \<open>simp_all add: node_upto_all rest_def\<close>)
qed

lemma btree_node_eq:
  assumes "8 * length records \<le> 4000" "entries_fit records (4000 - 8 * length records)"
  shows "btree_node oid xid leaf records =
    enc_node (to_le 8 oid @ to_le 8 xid @ to_le 4 (0x40000002 :: u32) @ to_le 4 (0x10 :: u32))
      (if leaf then 3 else 1) (if leaf then 0 else 1) records
      (replicate (4000 - 8 * length records - length (concat (map fst records)) - length (concat (map snd records))) 0)
      (replicate 40 0)"
proof -
  define flags level where "flags = (if leaf then 3 else 1 :: u16)" and "level = (if leaf then 0 else 1 :: u16)"
  have fixed: "\<not> (flags AND BTNODE_FIXED_KV_SIZE \<noteq> 0)" "0x1 OR (if leaf then 0x2 else 0) = flags"
    by (simp_all add: flags_def BTNODE_FIXED_KV_SIZE_def)
  have toc: "enc_toc_len False = 8" by (simp add: enc_toc_len_def TOC_VAR_LEN_def)
  define pre where "pre = replicate 32 0 @ enc_node_fields flags level records"
  have "replicate 4040 (0 :: u8) = replicate (8 * length records + (4000 - 8 * length records)) 0 @ replicate 40 0"
    using assms(1) by (simp add: replicate_add [symmetric])
  then have "pre @ replicate 4040 0 = node_upto False records pre (replicate 40 0) (4000 - 8 * length records) 0"
    by (simp add: node_upto_0 toc)
  moreover have "store_records 56 (56 + length records * 8) (56 + length records * 8 + (4000 - 8 * length records)) 0 0 0 records
      (node_upto False records pre (replicate 40 0) (4000 - 8 * length records) 0)
    = node_upto False records pre (replicate 40 0) (4000 - 8 * length records) (length records)"
    by (rule store_records_upto) (use assms(2) in \<open>simp_all add: pre_def\<close>)
  ultimately have stored: "store_records 56 (56 + length records * 8) 4056 0 0 0 records (pre @ replicate 4040 0)
    = node_upto False records pre (replicate 40 0) (4000 - 8 * length records) (length records)"
    using assms(1) by (simp add: mult.commute)
  have fields: "overlay (overlay (overlay (overlay (overlay (replicate 4096 0) 32 (to_le 2 flags)) 34 (to_le 2 level))
      36 (to_le 4 (of_nat (length records) :: u32))) 40 (to_le 2 (0 :: u16)))
      42 (to_le 2 (of_nat (length records * 8) :: u16)) = pre @ replicate 4040 0"
    using node_fields_stored [of flags level records] fixed(1) by (simp add: toc pre_def mult.commute)
  have "btree_node oid xid leaf records = seal (obj_hdr (node_upto False records pre (replicate 40 0)
      (4000 - 8 * length records) (length records)) oid xid 0x40000002 0x10)"
    unfolding btree_node_def Let_def BS_def fixed(2) level_def [symmetric] fields by (simp add: stored)
  also have "\<dots> = enc_node (to_le 8 oid @ to_le 8 xid @ to_le 4 (0x40000002 :: u32) @ to_le 4 (0x10 :: u32)) flags level records
      (replicate (4000 - 8 * length records - length (concat (map fst records)) - length (concat (map snd records))) 0)
      (replicate 40 0)"
    by (rule node_block_sealed) (use assms fixed(1) in \<open>simp_all add: toc pre_def\<close>)
  finally show ?thesis by (simp add: flags_def level_def)
qed

lemma omap_leaf_eq:
  assumes "length ms \<le> 100"
  shows "omap_leaf oid ms =
    enc_node (to_le 8 oid @ to_le 8 (0 :: u64) @ to_le 4 (0x40000002 :: u32) @ to_le 4 (0x0b :: u32)) 7 0
      (map mapping_entry ms) (replicate (4000 - 36 * length ms) 0) (replicate 40 0)"
proof -
  define es where "es = map mapping_entry ms"
  have lens: "length es = length ms" "length (concat (map fst es)) = 16 * length ms"
      "length (concat (map snd es)) = 16 * length ms"
    unfolding es_def length_mapping_parts by simp_all
  have fixed: "(7 :: u16) AND BTNODE_FIXED_KV_SIZE \<noteq> 0" by (simp add: BTNODE_FIXED_KV_SIZE_def)
  have toc: "enc_toc_len True = 4" by (simp add: enc_toc_len_def TOC_FIXED_LEN_def)
  define room where "room = 4000 - 4 * length ms"
  have fit: "entries_fit es room" using assms lens by (simp add: entries_fit_def room_def)
  define pre where "pre = replicate 32 0 @ enc_node_fields 7 0 es"
  have "replicate 4040 (0 :: u8) = replicate (4 * length es + room) 0 @ replicate 40 0"
    using assms by (simp add: lens room_def replicate_add [symmetric])
  then have zeros: "pre @ replicate 4040 0 = node_upto True es pre (replicate 40 0) room 0"
    by (simp add: node_upto_0 toc)
  have "store_mappings 56 (56 + length es * 4) (56 + length es * 4 + room) 0 (16 * 0) (16 * 0) ms
      (node_upto True es pre (replicate 40 0) room 0) = node_upto True es pre (replicate 40 0) room (length es)"
    unfolding es_def by (rule store_mappings_upto) (use fit in \<open>simp_all add: pre_def es_def\<close>)
  then have stored: "store_mappings 56 (56 + length ms * 4) 4056 0 0 0 ms (pre @ replicate 4040 0)
      = node_upto True es pre (replicate 40 0) room (length es)"
    using assms unfolding zeros by (simp add: lens room_def)
  have "replicate 4062 (0 :: u8) = replicate 2 0 @ replicate 4060 0" by (simp add: replicate_add [symmetric])
  then have "overlay (overlay (replicate 4096 0) 32 (to_le 2 (7 :: u16))) 34 (to_le 2 (0 :: u16))
      = overlay (replicate 4096 0) 32 (to_le 2 (7 :: u16))"
    by (simp add: overlay_def take_replicate drop_replicate to_le_zero)
  then have fields: "overlay (overlay (overlay (overlay (replicate 4096 0) 32 (to_le 2 (7 :: u16)))
      36 (to_le 4 (of_nat (length ms) :: u32))) 40 (to_le 2 (0 :: u16)))
      42 (to_le 2 (of_nat (length ms * 4) :: u16)) = pre @ replicate 4040 0"
    using node_fields_stored [of 7 0 es] fixed
    by (simp add: toc pre_def lens mult.commute)
  have "omap_leaf oid ms = seal (obj_hdr (node_upto True es pre (replicate 40 0) room (length es)) oid 0 0x40000002 0x0b)"
    unfolding omap_leaf_def Let_def BS_def using fields stored by simp
  also have "\<dots> = enc_node (to_le 8 oid @ to_le 8 (0 :: u64) @ to_le 4 (0x40000002 :: u32) @ to_le 4 (0x0b :: u32)) 7 0 es
      (replicate (room - length (concat (map fst es)) - length (concat (map snd es))) 0) (replicate 40 0)"
    by (rule node_block_sealed) (use assms fixed in \<open>simp_all add: toc pre_def lens room_def\<close>)
  also have "room - length (concat (map fst es)) - length (concat (map snd es)) = 4000 - 36 * length ms"
    unfolding lens room_def using assms by simp
  finally show ?thesis unfolding es_def .
qed

subsection \<open>Reading the blocks of an image\<close>

lemma fold_stores:
  assumes "list_all (\<lambda>(i, b). length b = 4096 \<and> i * 4096 + 4096 \<le> length buf) blocks"
  shows "length (fold (\<lambda>(i, b) buf. overlay buf (i * 4096) b) blocks buf) = length buf
    \<and> (j \<notin> fst ` set blocks \<longrightarrow>
        slice (fold (\<lambda>(i, b) buf. overlay buf (i * 4096) b) blocks buf) (j * 4096) 4096 = slice buf (j * 4096) 4096)
    \<and> (distinct (map fst blocks) \<longrightarrow> (j, c) \<in> set blocks \<longrightarrow>
        slice (fold (\<lambda>(i, b) buf. overlay buf (i * 4096) b) blocks buf) (j * 4096) 4096 = c)"
  using assms
proof (induction blocks arbitrary: buf)
  case (Cons ib blocks)
  obtain i b where ib: "ib = (i, b)" by (cases ib)
  have b: "length b = 4096" "i * 4096 + 4096 \<le> length buf" using Cons.prems ib by simp_all
  let ?buf = "overlay buf (i * 4096) b"
  have len: "length ?buf = length buf" using b by (simp add: length_overlay)
  have here: "slice ?buf (i * 4096) 4096 = b" using b by (simp add: slice_overlay_inside overlay_all length_slice)
  have other: "slice ?buf (j * 4096) 4096 = slice buf (j * 4096) 4096" if "j \<noteq> i"
    using that b by (intro slice_overlay_outside) auto
  have "list_all (\<lambda>(i, b). length b = 4096 \<and> i * 4096 + 4096 \<le> length ?buf) blocks"
    using Cons.prems by (simp add: len)
  from Cons.IH [OF this] show ?case using here other len ib by (cases "j = i") (force simp: image_iff)+
qed simp

lemma image_read:
  assumes "list_all (\<lambda>(i, b). length b = 4096) blocks" "distinct (map fst blocks)" "(j, c) \<in> set blocks"
  shows "slice (image_of_blocks blocks) (j * 4096) 4096 = c" "j * 4096 + 4096 \<le> length (image_of_blocks blocks)"
proof -
  define m where "m = foldr max (map fst blocks) 0"
  have le: "i \<le> m" if "(i, b) \<in> set blocks" for i b
    using that unfolding m_def by (induction blocks) (auto simp: max.coboundedI1 max.coboundedI2)
  have "list_all (\<lambda>(i, b). length b = 4096 \<and> i * 4096 + 4096 \<le> length (replicate ((m + 1) * 4096) (0 :: u8))) blocks"
    using assms(1) le by (auto simp: list_all_iff)
  note f = fold_stores [OF this, of j c]
  show "slice (image_of_blocks blocks) (j * 4096) 4096 = c"
    using f assms(2,3) by (simp add: image_of_blocks_def BS_def m_def [symmetric])
  show "j * 4096 + 4096 \<le> length (image_of_blocks blocks)"
    using f le [OF assms(3)] by (simp add: image_of_blocks_def BS_def m_def [symmetric])
qed

text \<open>What the readers make of a block of an image.\<close>

lemma image_block_reads:
  assumes "slice img (unat p * 4096) 4096 = c" "unat p * 4096 + 4096 \<le> length img" "length img < 2 ^ 64"
  shows "read_block_sat (cursor img) p 4096 = Inr c"
    and "fletcher64_checksum c = fletcher64_stored c \<Longrightarrow> read_verified_node (cursor img) p 4096 = Inr (Some c)"
proof -
  show "read_block_sat (cursor img) p 4096 = Inr c" using assms by (simp add: read_block_slice)
  have "unat p * 4096 < 2 ^ 64" using assms(2,3) by simp
  then have "unat (p * 4096) = unat p * 4096" by (simp add: unat_word_ariths)
  then have "cursor img (p * 4096) 4096 = Inr c" using assms by (simp add: cursor_slice)
  then show "fletcher64_checksum c = fletcher64_stored c \<Longrightarrow> read_verified_node (cursor img) p 4096 = Inr (Some c)"
    using \<open>unat p * 4096 < 2 ^ 64\<close> by (simp add: read_verified_node_def checked_mul_u64_def read_exact_at_def)
qed

lemma apsb_parse:
  "length (apsb oid xid om sm) = 4096"
  "\<exists>v. apfs_volume_parse (apsb oid xid om sm) = Inr v \<and> vol_omap_oid v = om \<and> vol_snap_meta_tree_oid v = sm
     \<and> vol_xid v = xid \<and> vol_oid v = oid"
  by (simp_all add: apsb_def seal_eq obj_hdr_def apfs_volume_parse_def obj_phys_parse_def obj_type_def layout_defs store_simps)

lemma omap_block_parse:
  "length (omap_block oid tb) = 4096"
  "\<exists>om. object_map_parse (omap_block oid tb) = Inr om \<and> om_tree_oid om = tb"
  by (simp_all add: omap_block_def seal_eq obj_hdr_def object_map_parse_def obj_phys_parse_def obj_type_def layout_defs store_simps)

lemma btree_node_read:
  assumes "8 * length records \<le> 4000" "entries_fit records (4000 - 8 * length records)"
  shows "length (btree_node oid xid leaf records) = 4096"
    and "fletcher64_checksum (btree_node oid xid leaf records) = fletcher64_stored (btree_node oid xid leaf records)"
    and "node_of_block (btree_node oid xid leaf records) =
      (if leaf then LeafNode records else IndexNode (map (\<lambda>(k, v). (k, le_u64 v 0)) records))"
proof -
  let ?hdr = "to_le 8 oid @ to_le 8 xid @ to_le 4 (0x40000002 :: u32) @ to_le 4 (0x10 :: u32)"
    and ?free = "replicate (4000 - 8 * length records - length (concat (map fst records)) - length (concat (map snd records))) 0"
  have "enc_ok FsTree ?hdr (if leaf then 3 else 1) (if leaf then 0 else 1) records (replicate 40 0)"
    using assms unfolding entries_fit_def by (auto simp: enc_ok_def layout_defs)
  then have "node_entries (btree_node oid xid leaf records) FsTree = records"
    unfolding btree_node_eq [OF assms] by (rule node_entries_enc_node)
  moreover have "parse_node_header (btree_node oid xid leaf records) =
      Some \<lparr> btn_flags = (if leaf then 3 else 1), btn_level = (if leaf then 0 else 1), btn_nkeys = of_nat (length records) \<rparr>"
    unfolding btree_node_eq [OF assms] by (rule parse_enc_node) simp
  ultimately show "node_of_block (btree_node oid xid leaf records) =
      (if leaf then LeafNode records else IndexNode (map (\<lambda>(k, v). (k, le_u64 v 0)) records))"
    by (cases leaf) (simp_all add: node_of_block_def is_leaf_def BTNODE_LEAF_def)
  have "length (concat (rev (map snd records))) = length (concat (map snd records))"
    by (simp add: length_concat rev_map [symmetric])
  then show "length (btree_node oid xid leaf records) = 4096"
    unfolding btree_node_eq [OF assms] using assms
    by (simp add: enc_node_def length_toc_upto enc_toc_len_def layout_defs entries_fit_def)
  show "fletcher64_checksum (btree_node oid xid leaf records) = fletcher64_stored (btree_node oid xid leaf records)"
    unfolding btree_node_eq [OF assms] enc_node_def by (rule seal_block_verifies)
qed

lemma omap_leaf_read:
  assumes "length ms \<le> 100"
  shows "length (omap_leaf oid ms) = 4096"
    and "fletcher64_checksum (omap_leaf oid ms) = fletcher64_stored (omap_leaf oid ms)"
    and "read_verified_node rd p 4096 = Inr (Some (omap_leaf oid ms)) \<Longrightarrow>
      load_physical rd 4096 Omap p = Inr (LeafNode (map mapping_entry ms))"
proof -
  let ?hdr = "to_le 8 oid @ to_le 8 (0 :: u64) @ to_le 4 (0x40000002 :: u32) @ to_le 4 (0x0b :: u32)"
    and ?es = "map mapping_entry ms"
  have len: "length (concat (map fst ?es)) = 16 * length ms" "length (concat (map snd ?es)) = 16 * length ms"
    by (rule length_mapping_parts)+
  have "enc_ok Omap ?hdr 7 0 ?es (replicate 40 0)"
    unfolding enc_ok_def len using assms by (auto simp: layout_defs list_all_iff mapping_entry_def)
  then have "node_entries (omap_leaf oid ms) Omap = ?es"
    unfolding omap_leaf_eq [OF assms] by (rule node_entries_enc_node)
  moreover have "parse_node_header (omap_leaf oid ms) =
      Some \<lparr> btn_flags = 7, btn_level = 0, btn_nkeys = of_nat (length ?es) \<rparr>"
    unfolding omap_leaf_eq [OF assms] by (rule parse_enc_node) simp
  ultimately show "read_verified_node rd p 4096 = Inr (Some (omap_leaf oid ms)) \<Longrightarrow>
      load_physical rd 4096 Omap p = Inr (LeafNode ?es)"
    by (simp add: load_physical_def is_leaf_def)
  have "length (concat (rev (map snd ?es))) = 16 * length ms"
    unfolding len(2) [symmetric] by (simp add: length_concat rev_map [symmetric])
  then show "length (omap_leaf oid ms) = 4096"
    unfolding omap_leaf_eq [OF assms] enc_node_def length_seal_block length_append len
    using assms by (simp add: length_toc_upto enc_toc_len_def layout_defs)
  show "fletcher64_checksum (omap_leaf oid ms) = fletcher64_stored (omap_leaf oid ms)"
    unfolding omap_leaf_eq [OF assms] enc_node_def by (rule seal_block_verifies)
qed

lemma resolve_single_leaf:
  assumes "load_physical rd 4096 Omap (om_tree_oid om) = Inr (LeafNode es)"
  shows "resolve om rd oid xid 4096 =
    (case omap_scan oid xid es None of None \<Rightarrow> Inl (OmapUnresolved oid xid) | Some b \<Rightarrow> Inr b)"
proof -
  have depth: "MAX_BTREE_DEPTH = Suc 63" by (simp add: MAX_BTREE_DEPTH_def)
  have "find_leaf rd (om_tree_oid om) 4096 Omap (omap_cmp oid xid) (omap_visit oid xid) None = Inr (omap_scan oid xid es None)"
    unfolding find_leaf_def depth find_leaf_loop_unfold by (simp add: assms)
  then show ?thesis by (simp add: resolve_def split: option.split)
qed

subsection \<open>Fixture volumes\<close>

text \<open>
  The images of the tests: an object map at block 40 with its leaf at 41, the root of the
  snapshot tree at 50, the superblock at 1026 and possibly more nodes.
\<close>

definition fixture_blocks :: "(u64 \<times> u64 \<times> u64) list \<Rightarrow> bytes \<Rightarrow> (nat \<times> bytes) list \<Rightarrow> (nat \<times> bytes) list" where
  "fixture_blocks ms root extra =
     [(40, omap_block 40 41), (41, omap_leaf 41 ms), (50, root)] @ extra @ [(1026, apsb 1026 7 40 50)]"

text \<open>An image as a volume: its superblock parsed, as the tests do, with the panic of \<^verbatim>\<open>expect\<close> as \<open>None\<close>.\<close>

definition parsed_at :: "bytes \<Rightarrow> nat \<Rightarrow> apfs_volume option" where
  "parsed_at buf b = unwrapped (apfs_volume_parse (slice buf (b * BS) BS))"

definition single_leaf_volume :: "(bytes \<times> bytes) list \<Rightarrow> (bytes \<times> apfs_volume) option" where
  "single_leaf_volume snap_records =
     (let snap_leaf = btree_node 50 7 True snap_records;
          omap = omap_block 40 41;
          omap_tree = omap_leaf 41 [];
          apsb_b = apsb 1026 7 40 50;
          buf = image_of_blocks [(40, omap), (41, omap_tree), (50, snap_leaf), (1026, apsb_b)]
      in map_option (\<lambda>vol. (buf, vol)) (parsed_at buf 1026))"

definition fixture_ok :: "(u64 \<times> u64 \<times> u64) list \<Rightarrow> bytes \<Rightarrow> (nat \<times> bytes) list \<Rightarrow> bool" where
  "fixture_ok ms root extra \<longleftrightarrow> length ms \<le> 100 \<and> length root = 4096
     \<and> list_all (\<lambda>(i, b). length b = 4096 \<and> i \<notin> {40, 41, 50, 1026} \<and> i < 1026) extra \<and> distinct (map fst extra)"

lemma length_image: "list_all (\<lambda>(i, b). length b = 4096) blocks \<Longrightarrow>
    length (image_of_blocks blocks) = (foldr max (map fst blocks) 0 + 1) * 4096"
proof -
  assume a: "list_all (\<lambda>(i, b). length b = 4096) blocks"
  define m where "m = foldr max (map fst blocks) 0"
  have le: "i \<le> m" if "(i, b) \<in> set blocks" for i b
    using that unfolding m_def by (induction blocks) (auto simp: max.coboundedI1 max.coboundedI2)
  have "list_all (\<lambda>(i, b). length b = 4096 \<and> i * 4096 + 4096 \<le> length (replicate ((m + 1) * 4096) (0 :: u8))) blocks"
    using a le by (auto simp: list_all_iff)
  from fold_stores [OF this] show ?thesis by (simp add: image_of_blocks_def BS_def m_def [symmetric])
qed

lemma foldr_max_le: "list_all (\<lambda>x. x \<le> n) xs \<Longrightarrow> foldr max xs (0 :: nat) \<le> n"
  by (induction xs) auto

lemma fixture_reads:
  assumes "fixture_ok ms root extra"
  defines "buf \<equiv> image_of_blocks (fixture_blocks ms root extra)"
  shows "(i, c) \<in> set (fixture_blocks ms root extra) \<Longrightarrow> slice buf (i * 4096) 4096 = c \<and> i * 4096 + 4096 \<le> length buf"
    and "length buf < 2 ^ 64"
proof -
  have l: "list_all (\<lambda>(i, b). length b = 4096) (fixture_blocks ms root extra)"
    using assms(1) by (auto simp: fixture_blocks_def fixture_ok_def omap_block_parse omap_leaf_read apsb_parse list_all_iff)
  have d: "distinct (map fst (fixture_blocks ms root extra))"
    using assms(1) by (auto simp: fixture_blocks_def fixture_ok_def list_all_iff)
  show "(i, c) \<in> set (fixture_blocks ms root extra) \<Longrightarrow> slice buf (i * 4096) 4096 = c \<and> i * 4096 + 4096 \<le> length buf"
    unfolding buf_def using image_read [OF l d] by blast
  have "foldr max (map fst (fixture_blocks ms root extra)) 0 \<le> 1026"
    using assms(1) by (intro foldr_max_le) (auto simp: fixture_blocks_def fixture_ok_def list_all_iff)
  then show "length buf < 2 ^ 64" unfolding buf_def length_image [OF l] by simp
qed

text \<open>What the snapshot reader sees of such an image.\<close>

lemma fixture_volume:
  assumes "fixture_ok ms root extra"
  defines "buf \<equiv> image_of_blocks (fixture_blocks ms root extra)"
  obtains v om where "parsed_at buf 1026 = Some v" "vol_omap_oid v = 40" "vol_snap_meta_tree_oid v = 50" "vol_xid v = 7"
    "read_block_sat (cursor buf) 40 4096 = Inr (omap_block 40 41)" "object_map_parse (omap_block 40 41) = Inr om"
    "\<And>oid xid. resolve om (cursor buf) oid xid 4096 =
       (case omap_scan oid xid (map mapping_entry ms) None of None \<Rightarrow> Inl (OmapUnresolved oid xid) | Some b \<Rightarrow> Inr b)"
    "\<And>p c. (unat p, c) \<in> set (fixture_blocks ms root extra) \<Longrightarrow> read_block_sat (cursor buf) p 4096 = Inr c"
proof -
  note rds = fixture_reads [OF assms(1), folded buf_def]
  have rd: "(unat p, c) \<in> set (fixture_blocks ms root extra) \<Longrightarrow> read_block_sat (cursor buf) p 4096 = Inr c" for p c
    using rds by (intro image_block_reads) blast+
  obtain v where v: "apfs_volume_parse (apsb 1026 7 40 50) = Inr v" "vol_omap_oid v = 40" "vol_snap_meta_tree_oid v = 50"
      "vol_xid v = 7" using apsb_parse by blast
  obtain om where om: "object_map_parse (omap_block 40 41) = Inr om" "om_tree_oid om = 41" using omap_block_parse by blast
  have ms: "length ms \<le> 100" using assms(1) by (simp add: fixture_ok_def)
  have "(unat (41 :: u64), omap_leaf 41 ms) \<in> set (fixture_blocks ms root extra)" by (simp add: fixture_blocks_def)
  then have "read_verified_node (cursor buf) 41 4096 = Inr (Some (omap_leaf 41 ms))"
    using rds omap_leaf_read(2) [OF ms] by (intro image_block_reads(2)) blast+
  then have "resolve om (cursor buf) oid xid 4096 =
       (case omap_scan oid xid (map mapping_entry ms) None of None \<Rightarrow> Inl (OmapUnresolved oid xid) | Some b \<Rightarrow> Inr b)" for oid xid
    using omap_leaf_read(3) [OF ms] om(2) by (intro resolve_single_leaf) simp
  moreover have "slice buf (1026 * 4096) 4096 = apsb 1026 7 40 50" using rds(1) [of 1026] by (simp add: fixture_blocks_def)
  then have "parsed_at buf 1026 = Some v" using v(1) by (simp add: parsed_at_def BS_def)
  moreover have "read_block_sat (cursor buf) 40 4096 = Inr (omap_block 40 41)" by (rule rd) (simp add: fixture_blocks_def)
  ultimately show thesis using that v om rd by blast
qed

subsection \<open>The walk tests\<close>

definition lists_snapshots_from_populated_leaf :: bool where
  "lists_snapshots_from_populated_leaf \<longleftrightarrow>
     (let records = [(snap_jkey 1 5, snap_meta_val 0x200 1000 (str_bytes ''snapA'')),
                     (snap_jkey 1 9, snap_meta_val 0x300 2000 (str_bytes ''snapB'')),
                     (snap_name_key (str_bytes ''snapA''), to_le 8 (5 :: u64))]
      in case single_leaf_volume records of
           None \<Rightarrow> False
         | Some (buf, vol) \<Rightarrow> expect (list_snapshots (cursor buf) vol BS) (\<lambda>snaps.
             length snaps = 2 \<and> ss_xid (snaps ! 0) = 5 \<and> ss_name (snaps ! 0) = str_bytes ''snapA''
             \<and> ss_sblock_oid (snaps ! 0) = 0x200 \<and> ss_create_time (snaps ! 0) = 1000
             \<and> ss_xid (snaps ! 1) = 9 \<and> ss_name (snaps ! 1) = str_bytes ''snapB''))"

definition resolves_snap_name_from_populated_leaf :: bool where
  "resolves_snap_name_from_populated_leaf \<longleftrightarrow>
     (let records = [(snap_jkey 1 5, snap_meta_val 0x200 1000 (str_bytes ''snapA'')),
                     (snap_name_key (str_bytes ''snapA''), to_le 8 (5 :: u64)),
                     (snap_name_key (str_bytes ''snapB''), to_le 8 (9 :: u64))]
      in case single_leaf_volume records of
           None \<Rightarrow> False
         | Some (buf, vol) \<Rightarrow>
             expect (resolve_snapshot_xid (cursor buf) vol (str_bytes ''snapB'') BS) (\<lambda>r. r = Some 9)
             \<and> expect (resolve_snapshot_xid (cursor buf) vol (str_bytes ''snapA'') BS) (\<lambda>r. r = Some 5)
             \<and> expect (resolve_snapshot_xid (cursor buf) vol (str_bytes ''absent'') BS) (\<lambda>r. r = None))"

definition walks_index_node_resolving_child_virtually :: bool where
  "walks_index_node_resolving_child_virtually \<longleftrightarrow>
     (let leaf = btree_node 60 7 True [(snap_jkey 1 3, snap_meta_val 0x99 500 (str_bytes ''s''))];
          index = btree_node 50 7 False [(snap_jkey 1 3, to_le 8 (1500 :: u64))];
          omap = omap_block 40 41;
          omap_tree = omap_leaf 41 [(1500, 7, 60)];
          apsb_b = apsb 1026 7 40 50;
          buf = image_of_blocks [(40, omap), (41, omap_tree), (50, index), (60, leaf), (1026, apsb_b)]
      in case parsed_at buf 1026 of
           None \<Rightarrow> False
         | Some vol \<Rightarrow> expect (list_snapshots (cursor buf) vol BS) (\<lambda>snaps.
             length snaps = 1 \<and> ss_xid (snaps ! 0) = 3 \<and> ss_sblock_oid (snaps ! 0) = 0x99))"

definition snap_tree_checksum_mismatch_is_loud :: bool where
  "snap_tree_checksum_mismatch_is_loud \<longleftrightarrow>
     (let records = [(snap_jkey 1 5, snap_meta_val 0x200 1000 (str_bytes ''snapA''))]
      in case single_leaf_volume records of
           None \<Rightarrow> False
         | Some (buf, vol) \<Rightarrow>
             let buf = buf[50 * BS + 100 := buf ! (50 * BS + 100) XOR 0xff]
             in (case list_snapshots (cursor buf) vol BS of Inl (ChecksumMismatch _ _ _) \<Rightarrow> True | _ \<Rightarrow> False))"

definition snap_tree_cycle_is_rejected :: bool where
  "snap_tree_cycle_is_rejected \<longleftrightarrow>
     (let index = btree_node 50 7 False [(snap_jkey 1 3, to_le 8 (1500 :: u64))];
          omap = omap_block 40 41;
          omap_tree = omap_leaf 41 [(1500, 7, 50)];
          apsb_b = apsb 1026 7 40 50;
          buf = image_of_blocks [(40, omap), (41, omap_tree), (50, index), (1026, apsb_b)]
      in case parsed_at buf 1026 of
           None \<Rightarrow> False
         | Some vol \<Rightarrow>
             (case list_snapshots (cursor buf) vol BS of Inl (CycleGuard _) \<Rightarrow> True | _ \<Rightarrow> False))"

text \<open>Records that fit a node, and the snapshots of a single leaf.\<close>

definition records_fit :: "(bytes \<times> bytes) list \<Rightarrow> bool" where
  "records_fit records \<longleftrightarrow> 8 * length records \<le> 4000 \<and> entries_fit records (4000 - 8 * length records)"

lemma single_leaf_stored:
  assumes "records_fit records"
  obtains buf v where "single_leaf_volume records = Some (buf, v)" "snap_stored (cursor buf) v 4096 (Leaf 50 records)"
proof -
  note fit = assms [unfolded records_fit_def, THEN conjunct1] assms [unfolded records_fit_def, THEN conjunct2]
  define root where "root = btree_node 50 7 True records"
  note node = btree_node_read [OF fit, where oid = 50 and xid = 7 and leaf = True, folded root_def]
  have ok: "fixture_ok [] root []" by (simp add: fixture_ok_def node(1))
  define buf where "buf = image_of_blocks (fixture_blocks [] root [])"
  obtain v om where v: "parsed_at buf 1026 = Some v" "vol_omap_oid v = 40" "vol_snap_meta_tree_oid v = 50"
      "read_block_sat (cursor buf) 40 4096 = Inr (omap_block 40 41)" "object_map_parse (omap_block 40 41) = Inr om"
      "\<And>p c. (unat p, c) \<in> set (fixture_blocks [] root []) \<Longrightarrow> read_block_sat (cursor buf) p 4096 = Inr c"
    unfolding buf_def by (rule fixture_volume [OF ok]) blast
  have "read_block_sat (cursor buf) 50 4096 = Inr root" by (rule v(6)) (simp add: fixture_blocks_def)
  then have "load_snap (cursor buf) om (vol_xid v) 4096 0 50 = Inr (LeafNode records)"
    by (simp add: load_snap_def read_snap_node_def node)
  then have "snap_stored (cursor buf) v 4096 (Leaf 50 records)" using v by (simp add: snap_stored_def)
  moreover have "single_leaf_volume records = Some (buf, v)"
    using v(1) by (simp add: single_leaf_volume_def buf_def fixture_blocks_def root_def)
  ultimately show thesis using that by blast
qed

lemma snap_meta_val_eq:
  "snap_meta_val sblock create name = replicate 8 0 @ to_le 8 sblock @ to_le 8 create @ replicate 24 0
     @ to_le 2 (of_nat (Suc (length name)) :: u16) @ name @ [0]"
  by (simp add: snap_meta_val_def layout_defs overlay_def take_replicate drop_replicate)

lemma parse_snap_meta_val:
  assumes "snap_name_ok name"
  shows "parse_snap_metadata xid (snap_meta_val sblock create name) =
    \<lparr> ss_xid = xid, ss_name = name, ss_create_time = create, ss_change_time = 0, ss_sblock_oid = sblock,
      ss_extentref_tree_oid = 0, ss_inum = 0, ss_flags = 0 \<rparr>"
proof -
  let ?s = "\<lparr> ss_xid = xid, ss_name = name, ss_create_time = create, ss_change_time = 0, ss_sblock_oid = sblock,
      ss_extentref_tree_oid = 0, ss_inum = 0, ss_flags = 0 \<rparr>"
  have "replicate 24 (0 :: u8) = replicate 8 0 @ replicate 8 0 @ replicate 4 0 @ replicate 4 0"
    by (simp add: replicate_add [symmetric])
  then have "snap_meta_val sblock create name = enc_snap_metadata ?s 0"
    by (simp add: snap_meta_val_eq enc_snap_metadata_def to_le_zero)
  with parse_snap_metadata_enc [of ?s 0] assms show ?thesis by simp
qed

lemma snap_keys:
  "le_u64 (snap_jkey ty x) 0 = push_bit 60 ty OR x" "le_u64 (snap_name_key name) 0 = push_bit 60 11"
  using le_u64_field [of "[]" 0 "push_bit 60 ty OR x" "[]"]
    le_u64_field [of "[]" 0 "push_bit 60 11" "to_le 2 (of_nat (Suc (length name)) :: u16) @ name @ [0]"]
  by (simp_all add: snap_jkey_def snap_name_key_def)

lemma decode_snap_name_key_written:
  assumes "snap_name_ok name"
  shows "decode_snap_name_key (snap_name_key name) = Some name"
proof -
  have n: "unat (of_nat (Suc (length name)) :: u16) = Suc (length name)"
    using assms by (intro unat_of_nat_u16) (simp add: snap_name_ok_def)
  have "le_u16 (snap_name_key name) 8 = of_nat (Suc (length name))"
    by (simp add: snap_name_key_def snap_jkey_def le_u16_def arr_fields del: of_nat_Suc)
  moreover have "get_range (snap_name_key name) 10 (10 + Suc (length name)) = Some (name @ [0])"
    by (simp add: snap_name_key_def snap_jkey_def get_range_def)
  ultimately show ?thesis
    using assms by (simp add: decode_snap_name_key_def n layout_defs decode_cstr_terminated snap_name_ok_def
        min_absorb1 del: of_nat_Suc)
qed

lemma test_names: "snap_name_ok (str_bytes ''snapA'')" "snap_name_ok (str_bytes ''snapB'')" "snap_name_ok (str_bytes ''s'')"
  "snap_name_ok (str_bytes ''snap1'')"
  by (simp_all add: snap_name_ok_def str_bytes_def utf8_step_def)

lemma test_names_distinct:
  "str_bytes ''snapA'' \<noteq> str_bytes ''snapB''" "str_bytes ''snapA'' \<noteq> str_bytes ''absent''"
  "str_bytes ''snapB'' \<noteq> str_bytes ''absent''"
  by (simp_all add: str_bytes_def)

lemma le_u64_to_le: "le_u64 (to_le 8 w) 0 = w"
  using le_u64_field [of "[]" 0 w "[]"] by simp

lemma record_lengths:
  "length (snap_jkey ty x) = 8" "length (snap_meta_val sblock create name) = 51 + length name"
  "length (snap_name_key name) = 11 + length name"
  by (simp_all add: snap_jkey_def snap_meta_val_eq snap_name_key_def)

lemmas record_eval = snap_keys decode_jkey_def OBJ_ID_MASK_def OBJ_TYPE_SHIFT_def from_u4_def parse_snap_meta_val
  decode_snap_name_key_written test_names

lemma leaf_walk_tests_hold: "lists_snapshots_from_populated_leaf" "resolves_snap_name_from_populated_leaf"
proof -
  note fit = records_fit_def entries_fit_def record_lengths length_str_bytes
  let ?r = "[(snap_jkey 1 5, snap_meta_val 0x200 1000 (str_bytes ''snapA'')),
    (snap_jkey 1 9, snap_meta_val 0x300 2000 (str_bytes ''snapB'')), (snap_name_key (str_bytes ''snapA''), to_le 8 (5 :: u64))]"
  have "records_fit ?r" by (simp add: fit)
  then obtain buf v where v: "single_leaf_volume ?r = Some (buf, v)" "snap_stored (cursor buf) v 4096 (Leaf 50 ?r)"
    by (rule single_leaf_stored)
  show "lists_snapshots_from_populated_leaf"
    by (simp add: lists_snapshots_from_populated_leaf_def v(1) BS_def list_snapshots_stored [OF v(2)] snaps_of_def record_eval)
  let ?n = "[(snap_jkey 1 5, snap_meta_val 0x200 1000 (str_bytes ''snapA'')),
    (snap_name_key (str_bytes ''snapA''), to_le 8 (5 :: u64)), (snap_name_key (str_bytes ''snapB''), to_le 8 (9 :: u64))]"
  have "records_fit ?n" by (simp add: fit)
  then obtain buf v where n: "single_leaf_volume ?n = Some (buf, v)" "snap_stored (cursor buf) v 4096 (Leaf 50 ?n)"
    by (rule single_leaf_stored)
  show "resolves_snap_name_from_populated_leaf"
    by (simp add: resolves_snap_name_from_populated_leaf_def n(1) BS_def resolve_snapshot_xid_stored [OF n(2)]
        snap_xid_named_def record_eval test_names_distinct test_names_distinct [symmetric] le_u64_to_le)
qed

lemma corrupt_image_reads:
  assumes "length img = n * 4096" "i < 4096" "b < n" "c < n"
  defines "img' \<equiv> img[b * 4096 + i := img ! (b * 4096 + i) XOR 0xff]"
  shows "slice img' (b * 4096) 4096 = (slice img (b * 4096) 4096)[i := slice img (b * 4096) 4096 ! i XOR 0xff]"
    and "c \<noteq> b \<Longrightarrow> slice img' (c * 4096) 4096 = slice img (c * 4096) 4096"
proof -
  have le: "b * 4096 + 4096 \<le> length img" "c * 4096 + 4096 \<le> length img"
    using assms(1,3,4) by (metis add.commute mult_Suc mult_le_mono1 Suc_leI)+
  have "img' = overlay img (b * 4096 + i) [img ! (b * 4096 + i) XOR 0xff]"
    unfolding img'_def using le assms(2) by (intro list_update_overlay) simp
  moreover have "slice img (b * 4096) 4096 ! i = img ! (b * 4096 + i)" using le assms(2) by (simp add: slice_def)
  ultimately show "slice img' (b * 4096) 4096 = (slice img (b * 4096) 4096)[i := slice img (b * 4096) 4096 ! i XOR 0xff]"
    using le assms(2) by (simp add: slice_overlay_inside list_update_overlay length_slice)
  show "c \<noteq> b \<Longrightarrow> slice img' (c * 4096) 4096 = slice img (c * 4096) 4096"
    using \<open>img' = _\<close> le assms(2) by (simp only:) (rule slice_overlay_outside; auto simp: nat_neq_iff dest!: Suc_leI)
qed

lemma index_walk_test_holds: "walks_index_node_resolving_child_virtually"
proof -
  let ?r = "[(snap_jkey 1 3, snap_meta_val 0x99 500 (str_bytes ''s''))]" and ?i = "[(snap_jkey 1 3, to_le 8 (1500 :: u64))]"
  define leaf root where "leaf = btree_node 60 7 True ?r" and "root = btree_node 50 7 False ?i"
  have leaf: "length leaf = 4096" "fletcher64_checksum leaf = fletcher64_stored leaf" "node_of_block leaf = LeafNode ?r"
    unfolding leaf_def by (subst btree_node_read; simp add: entries_fit_def record_lengths length_str_bytes)+
  have root: "length root = 4096" "fletcher64_checksum root = fletcher64_stored root"
      "node_of_block root = IndexNode [(snap_jkey 1 3, 1500)]"
    unfolding root_def by (subst btree_node_read; simp add: entries_fit_def record_lengths le_u64_to_le)+
  have ok: "fixture_ok [(1500, 7, 60)] root [(60, leaf)]" by (simp add: fixture_ok_def leaf root)
  define buf where "buf = image_of_blocks (fixture_blocks [(1500, 7, 60)] root [(60, leaf)])"
  obtain v om where v: "parsed_at buf 1026 = Some v" "vol_omap_oid v = 40" "vol_snap_meta_tree_oid v = 50" "vol_xid v = 7"
      "read_block_sat (cursor buf) 40 4096 = Inr (omap_block 40 41)" "object_map_parse (omap_block 40 41) = Inr om"
      "\<And>oid xid. resolve om (cursor buf) oid xid 4096 = (case omap_scan oid xid (map mapping_entry [(1500, 7, 60)]) None of
         None \<Rightarrow> Inl (OmapUnresolved oid xid) | Some b \<Rightarrow> Inr b)"
      "\<And>p c. (unat p, c) \<in> set (fixture_blocks [(1500, 7, 60)] root [(60, leaf)]) \<Longrightarrow> read_block_sat (cursor buf) p 4096 = Inr c"
    unfolding buf_def by (rule fixture_volume [OF ok]) blast
  have rd: "read_block_sat (cursor buf) 50 4096 = Inr root" "read_block_sat (cursor buf) 60 4096 = Inr leaf"
    by (rule v(8), simp add: fixture_blocks_def)+
  have "\<exists>e. resolve om (cursor buf) 1500 7 4096 = Inr e \<and> oe_paddr e = 60"
    using le_u64_field [of "replicate 8 0" 8 60 "[]"] le_u64_field [of "[]" 0 1500] le_u64_field [of "to_le 8 (1500 :: u64)" 8 7 "[]"]
    by (simp add: v(7) mapping_entry_def omap_visit_def Let_def)
  then have "snap_stored (cursor buf) v 4096 (Index 50 [(snap_jkey 1 3, Leaf 1500 ?r)])"
    using v(2-6) rd leaf root by (auto simp: snap_stored_def load_snap_def read_snap_node_def)
  note ls = list_snapshots_stored [OF this]
  show ?thesis
    unfolding walks_index_node_resolving_child_virtually_def Let_def leaf_def [symmetric] root_def [symmetric] BS_def
    using v(1) ls by (simp add: buf_def fixture_blocks_def snaps_of_def record_eval)
qed

lemma corrupt_node_test_holds: "snap_tree_checksum_mismatch_is_loud"
proof -
  let ?r = "[(snap_jkey 1 5, snap_meta_val 0x200 1000 (str_bytes ''snapA''))]"
  define root where "root = btree_node 50 7 True ?r"
  have root: "length root = 4096" "fletcher64_checksum root = fletcher64_stored root"
    unfolding root_def by (subst btree_node_read; simp add: entries_fit_def record_lengths length_str_bytes)+
  have ok: "fixture_ok [] root []" by (simp add: fixture_ok_def root)
  define buf where "buf = image_of_blocks (fixture_blocks [] root [])"
  note rds = fixture_reads [OF ok, folded buf_def]
  obtain v om where v: "parsed_at buf 1026 = Some v" "vol_omap_oid v = 40" "vol_snap_meta_tree_oid v = 50"
      "object_map_parse (omap_block 40 41) = Inr om"
    unfolding buf_def by (rule fixture_volume [OF ok]) blast
  define buf' where "buf' = buf[50 * 4096 + 100 := buf ! (50 * 4096 + 100) XOR 0xff]"
  define bad where "bad = root[100 := root ! 100 XOR 0xff]"
  have len: "length buf = 1027 * 4096"
    unfolding buf_def by (subst length_image) (simp_all add: fixture_blocks_def omap_block_parse omap_leaf_read apsb_parse root)
  have sl: "slice buf (40 * 4096) 4096 = omap_block 40 41" "slice buf (50 * 4096) 4096 = root"
    using rds(1) [of 40] rds(1) [of 50] by (simp_all add: fixture_blocks_def)
  note ci = corrupt_image_reads [OF len, of 100 50 40, folded buf'_def]
  have sl': "slice buf' (40 * 4096) 4096 = omap_block 40 41" "slice buf' (50 * 4096) 4096 = bad"
    using ci sl by (simp_all add: bad_def)
  have rd: "read_block_sat (cursor buf') 40 4096 = Inr (omap_block 40 41)" "read_block_sat (cursor buf') 50 4096 = Inr bad"
    by (rule image_block_reads(1), use sl' len in \<open>simp_all add: buf'_def\<close>)+
  have "fletcher64_checksum bad \<noteq> fletcher64_stored bad"
    unfolding bad_def by (rule byte_change_detected) (simp_all add: root byte_flip_changes)
  then have "\<exists>b st c. list_snapshots (cursor buf') v 4096 = Inl (ChecksumMismatch b st c)"
    using v rd by (simp add: list_snapshots_def for_each_snap_record_def descend_snap.simps read_snap_node_def Let_def MAX_SNAP_TREE_DEPTH_def)
  moreover have "single_leaf_volume ?r = Some (buf, v)"
    using v(1) by (simp add: single_leaf_volume_def buf_def fixture_blocks_def root_def)
  ultimately show ?thesis
    unfolding snap_tree_checksum_mismatch_is_loud_def Let_def BS_def by (auto simp: buf'_def)
qed

text \<open>
  The cyclic tree: the root's block is met again under the child's identifier, and the guard
  fires when that identifier itself comes up a second time.
\<close>

lemma cyclic_tree_test_holds: "snap_tree_cycle_is_rejected"
proof -
  let ?i = "[(snap_jkey 1 3, to_le 8 (1500 :: u64))]"
  define root where "root = btree_node 50 7 False ?i"
  have root: "length root = 4096" "fletcher64_checksum root = fletcher64_stored root"
      "node_of_block root = IndexNode [(snap_jkey 1 3, 1500)]"
    unfolding root_def by (subst btree_node_read; simp add: entries_fit_def record_lengths le_u64_to_le)+
  have ok: "fixture_ok [(1500, 7, 50)] root []" by (simp add: fixture_ok_def root)
  define buf where "buf = image_of_blocks (fixture_blocks [(1500, 7, 50)] root [])"
  obtain v om where v: "parsed_at buf 1026 = Some v" "vol_omap_oid v = 40" "vol_snap_meta_tree_oid v = 50" "vol_xid v = 7"
      "read_block_sat (cursor buf) 40 4096 = Inr (omap_block 40 41)" "object_map_parse (omap_block 40 41) = Inr om"
      "\<And>oid xid. resolve om (cursor buf) oid xid 4096 = (case omap_scan oid xid (map mapping_entry [(1500, 7, 50)]) None of
         None \<Rightarrow> Inl (OmapUnresolved oid xid) | Some b \<Rightarrow> Inr b)"
      "\<And>p c. (unat p, c) \<in> set (fixture_blocks [(1500, 7, 50)] root []) \<Longrightarrow> read_block_sat (cursor buf) p 4096 = Inr c"
    unfolding buf_def by (rule fixture_volume [OF ok]) blast
  have rd: "read_block_sat (cursor buf) 50 4096 = Inr root" by (rule v(8)) (simp add: fixture_blocks_def)
  obtain e where e: "resolve om (cursor buf) 1500 7 4096 = Inr e" "oe_paddr e = 50"
    using le_u64_field [of "replicate 8 0" 8 50 "[]"] le_u64_field [of "[]" 0 1500] le_u64_field [of "to_le 8 (1500 :: u64)" 8 7 "[]"]
    by (simp add: v(7) mapping_entry_def omap_visit_def Let_def)
  obtain hdr where hdr: "parse_node_header root = Some hdr" "\<not> is_leaf hdr"
      "map (\<lambda>(k, v). le_u64 v 0) (node_entries root FsTree) = [1500]"
    using root(3) by (auto simp: node_of_block_def comp_def case_prod_unfold split: option.splits if_splits)
  have node: "read_snap_node (cursor buf) om 7 4096 True 50 = Inr root" "read_snap_node (cursor buf) om 7 4096 False 1500 = Inr root"
    using rd root e by (simp_all add: read_snap_node_def)
  have step2: "descend_snap (cursor buf) om 7 4096 snap_visit False 2 {1500, 50} 1500 s = Inl (CycleGuard 64)" for s
    by (subst descend_snap.simps) (simp add: MAX_SNAP_TREE_DEPTH_def)
  have step1: "descend_snap (cursor buf) om 7 4096 snap_visit False 1 {50} 1500 s = Inl (CycleGuard 64)" for s
    by (subst descend_snap.simps) (simp add: MAX_SNAP_TREE_DEPTH_def node hdr step2 numeral_2_eq_2 [symmetric])
  have "descend_snap (cursor buf) om 7 4096 snap_visit True 0 {} 50 s = Inl (CycleGuard 64)" for s
    by (subst descend_snap.simps) (simp add: MAX_SNAP_TREE_DEPTH_def node hdr step1 [unfolded One_nat_def])
  then have "list_snapshots (cursor buf) v 4096 = Inl (CycleGuard 64)"
    using v by (simp add: list_snapshots_def for_each_snap_record_def)
  then show ?thesis
    unfolding snap_tree_cycle_is_rejected_def Let_def root_def [symmetric] BS_def
    using v(1) by (simp add: buf_def fixture_blocks_def)
qed

subsection \<open>Decoding records\<close>

definition parse_snap_metadata_value_decodes_all_fields :: bool where
  "parse_snap_metadata_value_decodes_all_fields \<longleftrightarrow>
     (let v = to_le 8 (0x11 :: u64) @ to_le 8 (0x22 :: u64) @ to_le 8 (1000 :: u64) @ to_le 8 (2000 :: u64)
            @ to_le 8 (99 :: u64) @ to_le 4 (0x40000002 :: u32) @ to_le 4 (0x1 :: u32) @ to_le 2 (6 :: u16)
            @ str_bytes ''snap1'' @ [0];
          s = parse_snap_metadata 42 v
      in ss_xid s = 42 \<and> ss_extentref_tree_oid s = 0x11 \<and> ss_sblock_oid s = 0x22 \<and> ss_create_time s = 1000
         \<and> ss_change_time s = 2000 \<and> ss_inum s = 99 \<and> ss_flags s = 0x1 \<and> ss_name s = str_bytes ''snap1'')"

definition parse_snap_metadata_clamps_overlong_name :: bool where
  "parse_snap_metadata_clamps_overlong_name \<longleftrightarrow>
     (let v = replicate OFF_SNAP_NAME 0; v = overlay v OFF_SNAP_NAME_LEN (to_le 2 (50000 :: u16));
          s = parse_snap_metadata 1 v
      in ss_name s = [])"

definition parse_snap_metadata_truncated_value_reads_zero :: bool where
  "parse_snap_metadata_truncated_value_reads_zero \<longleftrightarrow>
     (let s = parse_snap_metadata 7 (replicate 4 0)
      in ss_sblock_oid s = 0 \<and> ss_create_time s = 0 \<and> ss_name s = [])"

definition snap_meta_tree_subtype_is_snapmetatree :: bool where
  "snap_meta_tree_subtype_is_snapmetatree \<longleftrightarrow> snap_meta_tree_subtype = 0x10"

definition decode_snap_name_key_reads_name :: bool where
  "decode_snap_name_key_reads_name \<longleftrightarrow>
     (let key = jkey 11 0 @ to_le 2 (6 :: u16) @ str_bytes ''snap1'' @ [0]
      in decode_snap_name_key key = Some (str_bytes ''snap1''))"

definition decode_snap_name_key_rejects_zero_and_overlong :: bool where
  "decode_snap_name_key_rejects_zero_and_overlong \<longleftrightarrow>
     (let zero = jkey 11 0 @ to_le 2 (0 :: u16);
          overlong = jkey 11 0 @ to_le 2 (200 :: u16) @ str_bytes ''z''
      in decode_snap_name_key zero = None \<and> decode_snap_name_key overlong = None)"

lemma snap_record_tests_hold:
  "parse_snap_metadata_value_decodes_all_fields" "parse_snap_metadata_clamps_overlong_name"
  "parse_snap_metadata_truncated_value_reads_zero" "snap_meta_tree_subtype_is_snapmetatree"
  "decode_snap_name_key_reads_name" "decode_snap_name_key_rejects_zero_and_overlong"
proof -
  let ?s = "\<lparr> ss_xid = 42, ss_name = str_bytes ''snap1'', ss_create_time = 1000, ss_change_time = 2000, ss_sblock_oid = 0x22,
      ss_extentref_tree_oid = 0x11, ss_inum = 99, ss_flags = 1 \<rparr>"
  show "parse_snap_metadata_value_decodes_all_fields"
    using parse_snap_metadata_enc [where sn = ?s and ty = "0x40000002"] test_names
    by (simp add: parse_snap_metadata_value_decodes_all_fields_def enc_snap_metadata_def length_str_bytes)
  show "decode_snap_name_key_reads_name"
    using decode_snap_name_key_written [of "str_bytes ''snap1''"] test_names
    by (simp add: decode_snap_name_key_reads_name_def snap_name_key_def snap_jkey_def jkey_def length_str_bytes)
  show "parse_snap_metadata_clamps_overlong_name" "parse_snap_metadata_truncated_value_reads_zero"
    "snap_meta_tree_subtype_is_snapmetatree"
    by (simp_all add: parse_snap_metadata_clamps_overlong_name_def parse_snap_metadata_truncated_value_reads_zero_def
        snap_meta_tree_subtype_is_snapmetatree_def snap_meta_tree_subtype_def parse_snap_metadata_def get_range_def
        layout_defs store_simps decode_cstr_def)
  have "le_u16 (jkey 11 0 @ to_le 2 (0 :: u16)) 8 = 0" "le_u16 (jkey 11 0 @ to_le 2 (200 :: u16) @ str_bytes ''z'') 8 = 200"
    using le_u16_field [of "jkey 11 0" 8 0 "[]"] le_u16_field [of "jkey 11 0" 8 200] by (simp_all add: jkey_def)
  then show "decode_snap_name_key_rejects_zero_and_overlong"
    by (simp add: decode_snap_name_key_rejects_zero_and_overlong_def decode_snap_name_key_def layout_defs get_range_def
        jkey_def str_bytes_def)
qed

subsection \<open>Mounting\<close>

definition P4_BLOCK_SIZE :: nat where [layout_defs]: "P4_BLOCK_SIZE = 4096"
definition P4_APSB_BLOCK :: u64 where [layout_defs]: "P4_APSB_BLOCK = 438"

definition snapshot_pointing_at :: "u64 \<Rightarrow> snapshot" where
  "snapshot_pointing_at sblock_oid =
     \<lparr> ss_xid = 0, ss_name = str_bytes ''synthetic-pointer'', ss_create_time = 0, ss_change_time = 0,
       ss_sblock_oid = sblock_oid, ss_extentref_tree_oid = 0, ss_inum = 0, ss_flags = 0 \<rparr>"

text \<open>The committed image is the argument \<open>content\<close>.\<close>

definition mount_snapshot_reads_sblock_as_volume :: "bytes \<Rightarrow> bool" where
  "mount_snapshot_reads_sblock_as_volume content \<longleftrightarrow>
     (let start = unat P4_APSB_BLOCK * P4_BLOCK_SIZE
      in expect (apfs_volume_parse (slice content start P4_BLOCK_SIZE)) (\<lambda>live.
           let snap = snapshot_pointing_at P4_APSB_BLOCK
           in expect (mount_snapshot (cursor content) live snap P4_BLOCK_SIZE) (\<lambda>mounted.
                vol_oid mounted = vol_oid live \<and> vol_xid mounted = vol_xid live
                \<and> vol_omap_oid mounted = vol_omap_oid live \<and> vol_root_tree_oid mounted = vol_root_tree_oid live
                \<and> vol_name mounted = vol_name live \<and> vol_name mounted = str_bytes ''APFSP4'')))"

definition mount_snapshot_grafts_live_omap_over_snapshot_zero :: "bytes \<Rightarrow> bool" where
  "mount_snapshot_grafts_live_omap_over_snapshot_zero content \<longleftrightarrow>
     (let start = unat P4_APSB_BLOCK * P4_BLOCK_SIZE
      in expect (apfs_volume_parse (slice content start P4_BLOCK_SIZE)) (\<lambda>block438.
           let live = with_omap_oid 999111 block438; snap = snapshot_pointing_at P4_APSB_BLOCK
           in expect (mount_snapshot (cursor content) live snap P4_BLOCK_SIZE) (\<lambda>mounted.
                vol_omap_oid mounted = 999111 \<and> vol_xid mounted = vol_xid block438
                \<and> vol_root_tree_oid mounted = vol_root_tree_oid block438)))"

definition mount_snapshot_rejects_non_apsb_block :: "bytes \<Rightarrow> bool" where
  "mount_snapshot_rejects_non_apsb_block content \<longleftrightarrow>
     (let start = unat P4_APSB_BLOCK * P4_BLOCK_SIZE
      in expect (apfs_volume_parse (slice content start P4_BLOCK_SIZE)) (\<lambda>live.
           let snap = snapshot_pointing_at 0
           in expect_err (mount_snapshot (cursor content) live snap P4_BLOCK_SIZE) (\<lambda>err.
                case err of UnexpectedObjectType _ _ _ \<Rightarrow> True | _ \<Rightarrow> False)))"

text \<open>
  On any image with a superblock at block 438: the first test amounts to the volume's name, the
  second always passes, and the third passes when block 0 is no file-system object.
\<close>

lemma mount_tests:
  assumes "apfs_volume_parse (slice content (438 * 4096) 4096) = Inr live" "439 * 4096 \<le> length content"
    and "length content < 2 ^ 64"
  shows "mount_snapshot_reads_sblock_as_volume content \<longleftrightarrow> vol_name live = str_bytes ''APFSP4''"
    and "mount_snapshot_grafts_live_omap_over_snapshot_zero content"
    and "ucast (le_u32 content 24 AND 0xffff) \<noteq> OBJECT_TYPE_FS \<Longrightarrow> mount_snapshot_rejects_non_apsb_block content"
proof -
  have rd: "read_block_sat (cursor content) 438 4096 = Inr (slice content (438 * 4096) 4096)"
      "read_block_sat (cursor content) 0 4096 = Inr (slice content 0 4096)"
    using assms(2,3) by (simp_all add: read_block_slice)
  show "mount_snapshot_reads_sblock_as_volume content \<longleftrightarrow> vol_name live = str_bytes ''APFSP4''"
    "mount_snapshot_grafts_live_omap_over_snapshot_zero content"
    using assms(1) rd(1) by (simp_all add: mount_snapshot_reads_sblock_as_volume_def
        mount_snapshot_grafts_live_omap_over_snapshot_zero_def snapshot_pointing_at_def mount_snapshot_def with_omap_oid_def
        layout_defs)
  have "le_u32 (slice content 0 4096) 24 = le_u32 content 24"
    using assms(2) by (simp add: le_u32_def arr_slice length_slice) (simp add: slice_def drop_take min_def)
  moreover assume "ucast (le_u32 content 24 AND 0xffff) \<noteq> OBJECT_TYPE_FS"
  ultimately show "mount_snapshot_rejects_non_apsb_block content"
    using assms(1,2) rd(2) by (simp add: mount_snapshot_rejects_non_apsb_block_def snapshot_pointing_at_def mount_snapshot_def
        apfs_volume_parse_def [of "slice content 0 4096"] obj_phys_parse_def obj_type_def apsb_bad_type_def layout_defs length_slice)
qed

subsection \<open>Any snapshots, written and read\<close>

text \<open>The records the tests store for a snapshot given by transaction, superblock, time and name.\<close>

definition metadata_record :: "u64 \<times> u64 \<times> u64 \<times> rust_string \<Rightarrow> bytes \<times> bytes" where
  "metadata_record = (\<lambda>(xid, sblock, create, name). (snap_jkey 1 xid, snap_meta_val sblock create name))"

definition name_record :: "u64 \<times> u64 \<times> u64 \<times> rust_string \<Rightarrow> bytes \<times> bytes" where
  "name_record = (\<lambda>(xid, sblock, create, name). (snap_name_key name, to_le 8 xid))"

definition written_snapshot :: "u64 \<times> u64 \<times> u64 \<times> rust_string \<Rightarrow> snapshot" where
  "written_snapshot = (\<lambda>(xid, sblock, create, name).
     \<lparr> ss_xid = xid, ss_name = name, ss_create_time = create, ss_change_time = 0, ss_sblock_oid = sblock,
       ss_extentref_tree_oid = 0, ss_inum = 0, ss_flags = 0 \<rparr>)"

definition snapshot_writable :: "u64 \<times> u64 \<times> u64 \<times> rust_string \<Rightarrow> bool" where
  "snapshot_writable = (\<lambda>(xid, sblock, create, name). take_bit 60 xid = xid \<and> snap_name_ok name)"

lemma snap_jkey_metadata:
  assumes "take_bit 60 xid = xid"
  shows "key_oid (snap_jkey 1 xid) = xid" "key_type (snap_jkey 1 xid) = Some SnapMetadata"
  using decode_jkey_enc [of xid SnapMetadata] assms
  by (simp_all add: snap_keys enc_jkey_def record_code_def OBJ_TYPE_SHIFT_def or.commute)

lemma snap_name_key_type: "key_type (snap_name_key name) = Some SnapName"
  by (simp add: record_eval)

lemma find_append_skip: "list_all (\<lambda>x. \<not> P x) xs \<Longrightarrow> find P (xs @ ys) = find P ys"
  by (induction xs) auto

lemma snaps_of_written:
  assumes "list_all snapshot_writable snaps"
  shows "snaps_of (Leaf p (map metadata_record snaps @ map name_record snaps)) = map written_snapshot snaps"
proof -
  have "filter (\<lambda>(k, v). key_type k = Some SnapMetadata) (map metadata_record snaps) = map metadata_record snaps"
    using assms by (induction snaps) (auto simp: metadata_record_def snapshot_writable_def snap_jkey_metadata)
  moreover have "filter (\<lambda>(k, v). key_type k = Some SnapMetadata) (map name_record snaps) = []"
    by (induction snaps) (auto simp: name_record_def snap_name_key_type)
  ultimately show ?thesis
    using assms by (auto simp: snaps_of_def metadata_record_def written_snapshot_def snapshot_writable_def list_all_iff
        snap_jkey_metadata parse_snap_meta_val)
qed

lemma snap_xid_named_written:
  assumes "list_all snapshot_writable snaps"
  shows "snap_xid_named (Leaf p (map metadata_record snaps @ map name_record snaps)) name
    = map_of (map (\<lambda>(xid, _, _, n). (n, xid)) snaps) name"
proof -
  let ?P = "\<lambda>(k, v). key_type k = Some SnapName \<and> decode_snap_name_key k = Some name"
  have "list_all (\<lambda>e. \<not> ?P e) (map metadata_record snaps)"
    using assms by (auto simp: list_all_iff metadata_record_def snapshot_writable_def snap_jkey_metadata)
  then have "find ?P (map metadata_record snaps @ map name_record snaps) = find ?P (map name_record snaps)"
    by (rule find_append_skip)
  moreover have "map_option (\<lambda>(k, v). le_u64 v 0) (find ?P (map name_record snaps))
      = map_of (map (\<lambda>(xid, _, _, n). (n, xid)) snaps) name"
    using assms by (induction snaps) (auto simp: name_record_def snapshot_writable_def snap_name_key_type
        decode_snap_name_key_written le_u64_to_le)
  ultimately show ?thesis by (simp add: snap_xid_named_def)
qed

text \<open>
  C19. Snapshots written into a volume image are read back: for any snapshots whose records fit into
  one node, the image built from the sealed node, an object map and a volume superblock parses, lists
  exactly the written snapshots in transaction order, and resolves every name to the transaction of
  the first snapshot that bears it, or to none.
\<close>

theorem snapshot_volume_round_trip:
  assumes "list_all snapshot_writable snaps" "records_fit (map metadata_record snaps @ map name_record snaps)"
  shows "\<exists>buf vol. single_leaf_volume (map metadata_record snaps @ map name_record snaps) = Some (buf, vol)
    \<and> list_snapshots (cursor buf) vol BS = Inr (sort_key ss_xid (map written_snapshot snaps))
    \<and> (\<forall>name. resolve_snapshot_xid (cursor buf) vol name BS
        = Inr (map_of (map (\<lambda>(xid, _, _, n). (n, xid)) snaps) name))"
proof -
  let ?r = "map metadata_record snaps @ map name_record snaps"
  obtain buf vol where v: "single_leaf_volume ?r = Some (buf, vol)" "snap_stored (cursor buf) vol BS (Leaf 50 ?r)"
    using single_leaf_stored [OF assms(2)] unfolding BS_def by blast
  then show ?thesis
    using assms(1) by (simp add: list_snapshots_stored [OF v(2)] resolve_snapshot_xid_stored [OF v(2)]
        snaps_of_written snap_xid_named_written)
qed

theorem snapshot_volume_round_trip_witness:
  "\<exists>buf vol. single_leaf_volume
       [(snap_jkey 1 9, snap_meta_val 0x300 2000 (str_bytes ''snapB'')),
        (snap_jkey 1 5, snap_meta_val 0x200 1000 (str_bytes ''snapA'')),
        (snap_name_key (str_bytes ''snapB''), to_le 8 (9 :: u64)),
        (snap_name_key (str_bytes ''snapA''), to_le 8 (5 :: u64))] = Some (buf, vol)
    \<and> map_sum id (map ss_xid) (list_snapshots (cursor buf) vol BS) = Inr [5, 9]
    \<and> resolve_snapshot_xid (cursor buf) vol (str_bytes ''snapA'') BS = Inr (Some 5)
    \<and> resolve_snapshot_xid (cursor buf) vol (str_bytes ''absent'') BS = Inr None"
proof -
  let ?s = "[(9, 0x300, 2000, str_bytes ''snapB''), (5, 0x200, 1000, str_bytes ''snapA'')] :: (u64 \<times> u64 \<times> u64 \<times> rust_string) list"
  have "list_all snapshot_writable ?s" by (simp add: snapshot_writable_def test_names)
  moreover have "records_fit (map metadata_record ?s @ map name_record ?s)"
    by (simp add: records_fit_def entries_fit_def metadata_record_def name_record_def record_lengths length_str_bytes)
  ultimately show ?thesis
    using snapshot_volume_round_trip [of ?s]
    by (auto simp: metadata_record_def name_record_def written_snapshot_def test_names_distinct
        test_names_distinct [symmetric])
qed

end
