(* ===== verification/Test_Dir.thy ===== *)
theory Test_Dir
  imports Dir Test_Snapshot
begin

text \<open>
  The test module of \<^verbatim>\<open>core/src/dir.rs\<close>. The comparison of the keyed with the full walk on the
  committed file-system tree is stated over an arbitrary image: it passes wherever the tree is
  stored in object-id order.
\<close>

subsection \<open>Names\<close>

text \<open>The header word \<^verbatim>\<open>jkey(9, 2)\<close> of a directory record below the root; the helper is that of \<open>Test_Snapshot\<close>.\<close>

definition decode_hashed_drec_name :: bool where
  "decode_hashed_drec_name \<longleftrightarrow>
     (let key = jkey 9 2 @ to_le 4 (5 :: u32) @ str_bytes ''abcd'' @ [0]
      in decode_drec_name key = Some (str_bytes ''abcd''))"

definition decode_unhashed_drec_name :: bool where
  "decode_unhashed_drec_name \<longleftrightarrow>
     (let key = jkey 9 2 @ to_le 2 (3 :: u16) @ str_bytes ''Xy'' @ [0]
      in decode_drec_name key = Some (str_bytes ''Xy''))"

definition decode_drec_name_rejects_overlong_length :: bool where
  "decode_drec_name_rejects_overlong_length \<longleftrightarrow>
     (let key = jkey 9 2 @ to_le 4 (0 :: u32) in decode_drec_name key = None)"

definition decode_drec_name_unhashed_length_past_key_is_none :: bool where
  "decode_drec_name_unhashed_length_past_key_is_none \<longleftrightarrow>
     (let key = jkey 9 2 @ to_le 2 (200 :: u16) @ str_bytes ''z'' in decode_drec_name key = None)"

definition parse_dir_entry_decodes_value :: bool where
  "parse_dir_entry_decodes_value \<longleftrightarrow>
     (let key = jkey 9 2 @ to_le 4 (5 :: u32) @ str_bytes ''abcd'' @ [0];
          val = to_le 8 (42 :: u64) @ to_le 8 (1234 :: u64) @ to_le 2 (7 :: u16)
      in case parse_dir_entry key val of
           None \<Rightarrow> False
         | Some e \<Rightarrow> de_name e = str_bytes ''abcd'' \<and> de_file_id e = 42 \<and> de_date_added e = 1234 \<and> de_flags e = 7)"

definition parse_dir_entry_rejects_unnamed_key :: bool where
  "parse_dir_entry_rejects_unnamed_key \<longleftrightarrow>
     (let key = jkey 9 2 @ to_le 4 (0 :: u32) in parse_dir_entry key (replicate 18 0) = None)"

definition child_pruning_selects_only_covering_subtrees :: bool where
  "child_pruning_selects_only_covering_subtrees \<longleftrightarrow>
     \<not> child_may_contain_oid 0 (Some 10) 15 \<and> child_may_contain_oid 10 (Some 20) 15
     \<and> \<not> child_may_contain_oid 20 None 15 \<and> child_may_contain_oid 5 (Some 10) 10
     \<and> child_may_contain_oid 10 (Some 20) 10 \<and> child_may_contain_oid 5 None 999
     \<and> \<not> child_may_contain_oid 0 (Some 5) 10"

lemma to_le_bytes:
  "to_le 2 w = [ucast w, ucast (drop_bit 8 w)]"
  "to_le 4 w = [ucast w, ucast (drop_bit 8 w), ucast (drop_bit 16 w), ucast (drop_bit 24 w)]"
  "to_le 8 w = [ucast w, ucast (drop_bit 8 w), ucast (drop_bit 16 w), ucast (drop_bit 24 w), ucast (drop_bit 32 w),
     ucast (drop_bit 40 w), ucast (drop_bit 48 w), ucast (drop_bit 56 w)]"
  by (simp_all add: eval_nat_numeral(2,3) del: drop_bit_Suc)

lemmas drec_eval = decode_drec_name_def decode_drec_unhashed_def J_DREC_LEN_MASK_def le_u32_def le_u16_def arr_in_range
  get_range_def jkey_def to_le_bytes str_bytes_def decode_cstr_def until_nul_def utf8_step_def Let_def

lemma drec_tests_hold:
  "decode_hashed_drec_name" "decode_unhashed_drec_name" "decode_drec_name_rejects_overlong_length"
  "decode_drec_name_unhashed_length_past_key_is_none" "parse_dir_entry_decodes_value"
  "parse_dir_entry_rejects_unnamed_key" "child_pruning_selects_only_covering_subtrees"
proof -
  show "decode_hashed_drec_name" by (simp add: decode_hashed_drec_name_def drec_eval)
  show "decode_unhashed_drec_name" by (simp add: decode_unhashed_drec_name_def drec_eval)
  show "decode_drec_name_rejects_overlong_length" by (simp add: decode_drec_name_rejects_overlong_length_def drec_eval)
  show "decode_drec_name_unhashed_length_past_key_is_none"
    by (simp add: decode_drec_name_unhashed_length_past_key_is_none_def drec_eval)
  have "decode_drec_name (jkey 9 2 @ to_le 4 (5 :: u32) @ str_bytes ''abcd'' @ [0]) = Some (str_bytes ''abcd'')"
    by (simp add: drec_eval)
  then show "parse_dir_entry_decodes_value"
    by (simp add: parse_dir_entry_decodes_value_def parse_dir_entry_def layout_defs le_u64_def le_u16_def arr_fields)
  show "parse_dir_entry_rejects_unnamed_key"
    by (simp add: parse_dir_entry_rejects_unnamed_key_def parse_dir_entry_def drec_eval)
  show "child_pruning_selects_only_covering_subtrees"
    by (simp add: child_pruning_selects_only_covering_subtrees_def child_may_contain_oid_def)
qed

subsection \<open>The keyed walk against the full walk\<close>

definition FSTREE_BLOCK_SIZE :: nat where [layout_defs]: "FSTREE_BLOCK_SIZE = 4096"
definition FSTREE_APSB_BLOCK :: nat where [layout_defs]: "FSTREE_APSB_BLOCK = 371"

text \<open>The committed image is the argument \<open>fstree\<close>; \<open>None\<close> is the panic of an \<^verbatim>\<open>expect\<close>.\<close>

definition fstree_volume :: "bytes \<Rightarrow> apfs_volume option" where
  "fstree_volume fstree =
     unwrapped (apfs_volume_parse (slice fstree (FSTREE_APSB_BLOCK * FSTREE_BLOCK_SIZE) FSTREE_BLOCK_SIZE))"

definition push_key_of :: "u64 \<Rightarrow> bytes \<Rightarrow> bytes \<Rightarrow> bytes list \<Rightarrow> bytes list" where
  "push_key_of oid k v out = (if fst (decode_jkey (le_u64 k 0)) = oid then out @ [k] else out)"

definition keys_for_oid_full :: "crypto \<Rightarrow> bytes \<Rightarrow> u64 \<Rightarrow> bytes list option" where
  "keys_for_oid_full cr fstree oid =
     (case fstree_volume fstree of
        None \<Rightarrow> None
      | Some vol \<Rightarrow> unwrapped (walk_fs_tree cr (cursor fstree) vol FSTREE_BLOCK_SIZE None (push_key_of oid) []))"

definition keys_for_oid_keyed :: "crypto \<Rightarrow> bytes \<Rightarrow> u64 \<Rightarrow> bytes list option" where
  "keys_for_oid_keyed cr fstree oid =
     (case fstree_volume fstree of
        None \<Rightarrow> None
      | Some vol \<Rightarrow>
          unwrapped (for_each_fs_record_for_oid cr (cursor fstree) vol FSTREE_BLOCK_SIZE oid (push_key_of oid) []))"

definition keyed_walk_matches_full_walk_on_real_fs_tree :: "crypto \<Rightarrow> bytes \<Rightarrow> bool" where
  "keyed_walk_matches_full_walk_on_real_fs_tree cr fstree \<longleftrightarrow>
     list_all (\<lambda>oid. keys_for_oid_keyed cr fstree oid \<noteq> None \<and> keys_for_oid_full cr fstree oid \<noteq> None
       \<and> keys_for_oid_keyed cr fstree oid = keys_for_oid_full cr fstree oid) [2, 18, 22]
     \<and> keys_for_oid_keyed cr fstree 999999 = Some []
     \<and> keys_for_oid_keyed cr fstree 999999 = keys_for_oid_full cr fstree 999999"

lemma fold_push_key: "fold (\<lambda>(k, v). push_key_of oid k v) es out = out @ map fst (filter (\<lambda>e. key_oid (fst e) = oid) es)"
  by (induction es arbitrary: out) (auto simp: push_key_of_def)

text \<open>
  On an image that stores a tree in object-id order, the two walks give the keys of the object's
  records for every object, so the test amounts to there being no object 999999.
\<close>

lemma keyed_walk_test:
  assumes "fstree_volume fstree = Some vol" "fs_stored cr (cursor fstree) vol 4096 t" "ordered f t" "oid_major f"
  shows "keys_for_oid_keyed cr fstree oid = Some (map fst (records_of t oid))"
    and "keys_for_oid_full cr fstree oid = Some (map fst (records_of t oid))"
    and "keyed_walk_matches_full_walk_on_real_fs_tree cr fstree \<longleftrightarrow> records_of t 999999 = []"
proof -
  have keyed: "keys_for_oid_keyed cr fstree oid = Some (map fst (records_of t oid))" for oid
    using assms(1) keyed_walk_records [OF assms(2-4), of oid "push_key_of oid" "[]"]
    by (simp add: keys_for_oid_keyed_def FSTREE_BLOCK_SIZE_def push_key_of_def [abs_def] unwrapped_def fold_push_key
        [unfolded push_key_of_def [abs_def]] records_of_def)
  have full: "keys_for_oid_full cr fstree oid = Some (map fst (records_of t oid))" for oid
    using assms(1) by (simp add: keys_for_oid_full_def FSTREE_BLOCK_SIZE_def walk_fs_tree_stored [OF assms(2)] fold_push_key
        records_of_def)
  show "keys_for_oid_keyed cr fstree oid = Some (map fst (records_of t oid))"
    "keys_for_oid_full cr fstree oid = Some (map fst (records_of t oid))" by (rule keyed full)+
  show "keyed_walk_matches_full_walk_on_real_fs_tree cr fstree \<longleftrightarrow> records_of t 999999 = []"
    by (simp add: keyed_walk_matches_full_walk_on_real_fs_tree_def keyed full)
qed

end
