(* ===== verification/Test_Vfs.thy ===== *)
theory Test_Vfs
  imports Vfs Fixture
begin

text \<open>
  The test module of \<^verbatim>\<open>core/src/vfs.rs\<close>. The tests on the committed image are stated over an arbitrary
  image, with what they amount to there; the printed forms of foreign identities and streams come
  from the interface crate and are arguments.
\<close>

subsection \<open>Conversions\<close>

definition dt_to_kind_covers_every_arm :: bool where
  "dt_to_kind_covers_every_arm \<longleftrightarrow>
     dt_to_kind DT_DIR = Dir_Node \<and> dt_to_kind DT_REG = File_Node \<and> dt_to_kind DT_LNK = Symlink_Node
     \<and> dt_to_kind 1 = Other_Node"

definition mode_to_kind_covers_every_arm :: bool where
  "mode_to_kind_covers_every_arm \<longleftrightarrow>
     mode_to_kind S_IFDIR = Dir_Node \<and> mode_to_kind S_IFREG = File_Node \<and> mode_to_kind S_IFLNK = Symlink_Node
     \<and> mode_to_kind 0xC000 = Other_Node"

text \<open>\<open>opaque\<close> is the printed form of \<^verbatim>\<open>FileId::Opaque(7)\<close>, \<open>named\<close> that of \<^verbatim>\<open>StreamId::Named(3)\<close>.\<close>

definition oid_of_rejects_a_non_apfs_file_id :: "rust_string \<Rightarrow> bool" where
  "oid_of_rejects_a_non_apfs_file_id opaque \<longleftrightarrow>
     expect_err (oid_of (ForeignId opaque)) (\<lambda>err.
       case err of
         VfsUnsupported layer scheme \<Rightarrow> layer = ''apfs file-id'' \<and> contains scheme (str_bytes ''Opaque'')
       | _ \<Rightarrow> False)
     \<and> expect (oid_of (ApfsOid 42 9)) (\<lambda>oid. oid = 42)"

definition require_default_stream_rejects_a_named_stream :: "rust_string \<Rightarrow> bool" where
  "require_default_stream_rejects_a_named_stream named \<longleftrightarrow>
     expect (require_default_stream DefaultStream) (\<lambda>_. True)
     \<and> expect_err (require_default_stream (ForeignStream named)) (\<lambda>err.
         case err of
           VfsUnsupported layer scheme \<Rightarrow> layer = ''apfs stream'' \<and> contains scheme (str_bytes ''Named'')
         | _ \<Rightarrow> False)"

definition map_err_keeps_io_distinct_from_decode :: "host \<Rightarrow> bool" where
  "map_err_keeps_io_distinct_from_decode h \<longleftrightarrow>
     (case map_err h (Io UnexpectedEof) of VfsIo op _ \<Rightarrow> op = ''apfs read'' | _ \<Rightarrow> False)
     \<and> (case map_err h (SnapshotNotFound 5) of
          VfsDecode layer _ detail _ \<Rightarrow> layer = ''apfs'' \<and> contains detail (str_bytes ''5'')
        | _ \<Rightarrow> False)"

definition poisoned_lock_is_a_named_bootstrap_failure :: bool where
  "poisoned_lock_is_a_named_bootstrap_failure \<longleftrightarrow>
     (case poisoned of VfsBootstrap stage _ \<Rightarrow> stage = ''apfs reader lock'' | _ \<Rightarrow> False)"

definition unallocated_runs_maps_free_blocks_to_byte_extents :: bool where
  "unallocated_runs_maps_free_blocks_to_byte_extents \<longleftrightarrow>
     (let runs = unallocated_runs [(3, 3), (8, 8)] 4096
      in length runs = 2 \<and> ri_image_offset (runs ! 0) = 3 * 4096 \<and> ri_len (runs ! 0) = 3 * 4096
         \<and> ri_alloc (runs ! 0) = Unallocated_Run \<and> ri_image_offset (runs ! 1) = 8 * 4096
         \<and> ri_len (runs ! 1) = 8 * 4096 \<and> ri_alloc (runs ! 1) = Unallocated_Run)"

definition unallocated_runs_empty_input_yields_no_extents :: bool where
  "unallocated_runs_empty_input_yields_no_extents \<longleftrightarrow> unallocated_runs [] 4096 = []"

lemma conversion_tests_hold:
  "dt_to_kind_covers_every_arm" "mode_to_kind_covers_every_arm"
  "oid_of_rejects_a_non_apfs_file_id opaque \<longleftrightarrow> contains opaque (str_bytes ''Opaque'')"
  "require_default_stream_rejects_a_named_stream named \<longleftrightarrow> contains named (str_bytes ''Named'')"
  "map_err_keeps_io_distinct_from_decode h" "poisoned_lock_is_a_named_bootstrap_failure"
  "unallocated_runs_maps_free_blocks_to_byte_extents" "unallocated_runs_empty_input_yields_no_extents"
proof -
  have "fmt_u64 5 = str_bytes ''5''" by (simp add: fmt_dec_def digits_small digit_byte_def str_bytes_def)
  then have "contains (display_error (h_io_text h) (SnapshotNotFound 5)) (str_bytes ''5'')"
    using contains_mid [of "str_bytes ''no snapshot with transaction id ''" "str_bytes ''5''"] by simp
  then show "map_err_keeps_io_distinct_from_decode h"
    by (simp add: map_err_keeps_io_distinct_from_decode_def map_err_def)
qed (simp_all add: dt_to_kind_covers_every_arm_def mode_to_kind_covers_every_arm_def
    oid_of_rejects_a_non_apfs_file_id_def require_default_stream_rejects_a_named_stream_def
    poisoned_lock_is_a_named_bootstrap_failure_def unallocated_runs_maps_free_blocks_to_byte_extents_def
    unallocated_runs_empty_input_yields_no_extents_def dt_to_kind_def mode_to_kind_def oid_of_def require_default_stream_def
    poisoned_def unallocated_runs_def saturating_mul_u64_def layout_defs)

subsection \<open>Mounting over the committed image\<close>

text \<open>The image is the argument \<open>content\<close>; \<open>None\<close> is the panic of \<^verbatim>\<open>expect\<close>.\<close>

definition live_xid :: "bytes \<Rightarrow> u64 option" where
  "live_xid content = map_option fs_root_xid (unwrapped (fs_open (cursor content)))"

definition p4_fixture_lists_zero_snapshots :: "bytes \<Rightarrow> bool" where
  "p4_fixture_lists_zero_snapshots content \<longleftrightarrow> expect (fs_snapshots (cursor content)) (\<lambda>snaps. snaps = [])"

definition open_snapshot_at_live_xid_reads_plain_txt :: "host \<Rightarrow> bytes \<Rightarrow> bool" where
  "open_snapshot_at_live_xid_reads_plain_txt h content \<longleftrightarrow>
     (case live_xid content of
        None \<Rightarrow> False
      | Some xid \<Rightarrow>
          expect (open_snapshot (cursor content) xid) (\<lambda>fs.
            case lookup h fs (root fs) (str_bytes ''plain.txt'') of
              (Inr (Some found), fs) \<Rightarrow>
                (case vfs_read_at h fs found DefaultStream 0 (replicate 64 0) of
                   (Inr (n, _), _) \<Rightarrow> n > 0 | _ \<Rightarrow> False)
            | _ \<Rightarrow> False))"

definition open_snapshot_unknown_xid_fails_loud :: "bytes \<Rightarrow> bool" where
  "open_snapshot_unknown_xid_fails_loud content \<longleftrightarrow>
     (case live_xid content of
        None \<Rightarrow> False
      | Some live \<Rightarrow>
          let bogus = live + 0xDEADBEEF
          in expect_err (open_snapshot (cursor content) bogus) (\<lambda>err.
               case err of SnapshotNotFound xid \<Rightarrow> xid = bogus | _ \<Rightarrow> False))"

definition unallocated_enumerates_free_space_over_p4_fixture :: "host \<Rightarrow> bytes \<Rightarrow> bool" where
  "unallocated_enumerates_free_space_over_p4_fixture h content \<longleftrightarrow>
     expect (fs_open (cursor content)) (\<lambda>fs.
       let bs = of_nat (fs_block_size fs)
       in expect (fst (unallocated h fs)) (\<lambda>runs.
            runs \<noteq> [] \<and> list_all (\<lambda>r. ri_alloc r = Unallocated_Run \<and> ri_image_offset r mod bs = 0 \<and> ri_len r mod bs = 0
              \<and> ri_len r > 0 \<and> ri_image_offset r < of_nat (length content)) runs))"

text \<open>Mounting at the live transaction gives the handle that opening gives.\<close>

lemma open_snapshot_live: "fs_open rd = Inr fs \<Longrightarrow> open_snapshot rd (fs_root_xid fs) = Inr fs"
  by (auto simp: fs_open_def open_snapshot_def Let_def split: sum.splits)

text \<open>
  On an image that opens: the listing test amounts to an empty snapshot-metadata tree, the mount
  test to reading the file through the live handle, and the unknown transaction is refused
  unless a snapshot bears it.
\<close>

lemma mount_image_tests:
  assumes "fs_open (cursor content) = Inr fs"
    and "snap_stored (cursor content) (fs_volume fs) (fs_block_size fs) t"
  shows "p4_fixture_lists_zero_snapshots content \<longleftrightarrow> snaps_of t = []"
    and "open_snapshot_at_live_xid_reads_plain_txt h content \<longleftrightarrow>
      (\<exists>found n buf. fst (lookup h fs (root fs) (str_bytes ''plain.txt'')) = Inr (Some found)
        \<and> fst (vfs_read_at h (snd (lookup h fs (root fs) (str_bytes ''plain.txt''))) found DefaultStream 0 (replicate 64 0))
            = Inr (n, buf) \<and> 0 < n)"
    and "fs_root_xid fs + 0xDEADBEEF \<notin> ss_xid ` set (snaps_of t) \<Longrightarrow> open_snapshot_unknown_xid_fails_loud content"
proof -
  obtain v bs sm where o: "open_first_volume (cursor content) = Inr (v, bs, sm)" "fs_volume fs = v" "fs_block_size fs = bs"
      "fs_root_xid fs = vol_xid v"
    using assms(1) by (auto simp: fs_open_def split: sum.splits)
  have ls: "list_snapshots (cursor content) v bs = Inr (sort_key ss_xid (snaps_of t))"
    using list_snapshots_stored [OF assms(2)] o by simp
  show "p4_fixture_lists_zero_snapshots content \<longleftrightarrow> snaps_of t = []"
    using o ls by (simp add: p4_fixture_lists_zero_snapshots_def fs_snapshots_def) (metis length_0_conv length_sort)
  have live: "live_xid content = Some (fs_root_xid fs)" using assms(1) by (simp add: live_xid_def unwrapped_def)
  show "open_snapshot_at_live_xid_reads_plain_txt h content \<longleftrightarrow>
      (\<exists>found n buf. fst (lookup h fs (root fs) (str_bytes ''plain.txt'')) = Inr (Some found)
        \<and> fst (vfs_read_at h (snd (lookup h fs (root fs) (str_bytes ''plain.txt''))) found DefaultStream 0 (replicate 64 0))
            = Inr (n, buf) \<and> 0 < n)"
  proof (cases "lookup h fs (root fs) (str_bytes ''plain.txt'')")
    case (Pair r fs')
    then show ?thesis
    proof (cases r)
      case (Inr found)
      with Pair live open_snapshot_live [OF assms(1)] show ?thesis
        by (cases found; cases "vfs_read_at h fs' (the found) DefaultStream 0 (replicate 64 0)")
          (auto simp: open_snapshot_at_live_xid_reads_plain_txt_def split: sum.splits)
    qed (use live open_snapshot_live [OF assms(1)] in \<open>simp add: open_snapshot_at_live_xid_reads_plain_txt_def\<close>)
  qed
  show "fs_root_xid fs + 0xDEADBEEF \<notin> ss_xid ` set (snaps_of t) \<Longrightarrow> open_snapshot_unknown_xid_fails_loud content"
  proof -
    assume "fs_root_xid fs + 0xDEADBEEF \<notin> ss_xid ` set (snaps_of t)"
    then have "find (\<lambda>s. ss_xid s = fs_root_xid fs + 0xDEADBEEF) (sort_key ss_xid (snaps_of t)) = None"
      by (simp add: find_None_iff image_iff) metis
    then show ?thesis
      using o ls live by (simp add: open_snapshot_unknown_xid_fails_loud_def open_snapshot_def)
  qed
qed

text \<open>
  The free-space test passes where the space manager lists some run and every run is non-empty and
  inside the image.
\<close>

lemma free_space_image_test:
  assumes fs: "fs_open (cursor content) = Inr fs" "fs_spaceman_paddr fs = Some sp" and len: "length content < 2 ^ 64"
    and runs: "free_block_runs (cursor content) sp (fs_block_size fs) = Inr runs" "runs \<noteq> []"
    and inside: "list_all (\<lambda>(s, l). 0 < l \<and> (s + l) * fs_block_size fs \<le> length content) runs"
    and bs: "0 < fs_block_size fs" "fs_block_size fs < 2 ^ 64"
  shows "unallocated_enumerates_free_space_over_p4_fixture h content"
proof -
  let ?bs = "fs_block_size fs"
  have fsp: "\<not> fs_poisoned fs" "fs_reader fs = cursor content"
    using fs(1) by (auto simp: fs_open_def split: sum.splits)
  have ubs: "unat (of_nat ?bs :: u64) = ?bs" using bs by (simp add: unat_of_nat_u64)
  have mul: "unat (saturating_mul_u64 (of_nat n) (of_nat ?bs)) = n * ?bs" if "n * ?bs < 2 ^ 64" for n
  proof -
    have "n * 1 \<le> n * ?bs" using bs(1) by (intro mult_le_mono) simp_all
    then have "unat (of_nat n :: u64) = n" using that by (intro unat_of_nat_u64) linarith
    then show ?thesis using that ubs by (simp add: saturating_mul_u64_exact)
  qed
  have run: "unat (saturating_mul_u64 (of_nat s) (of_nat ?bs)) = s * ?bs \<and> unat (saturating_mul_u64 (of_nat l) (of_nat ?bs)) = l * ?bs
      \<and> 0 < l * ?bs \<and> s * ?bs < length content" if "(s, l) \<in> set runs" for s l
  proof -
    have l: "0 < l" "s * ?bs + l * ?bs \<le> length content" using inside that by (auto simp: list_all_iff algebra_simps)
    then have "0 < l * ?bs" "s * ?bs < length content" using bs(1) by simp_all (metis add_lessD1 nat_0_less_mult_iff less_le_trans less_add_same_cancel1)
    then show ?thesis using l len mul by simp
  qed
  have lc: "unat (of_nat (length content) :: u64) = length content" using len by (simp add: unat_of_nat_u64)
  have "list_all (\<lambda>r. ri_alloc r = Unallocated_Run \<and> ri_image_offset r mod of_nat ?bs = 0 \<and> ri_len r mod of_nat ?bs = 0
      \<and> ri_len r > 0 \<and> ri_image_offset r < of_nat (length content))
      (unallocated_runs (map (\<lambda>(a, n). (of_nat a, of_nat n)) runs) (of_nat ?bs))"
    using run by (force simp: list_all_iff unallocated_runs_def word_less_nat_alt unat_mod ubs lc word_unat_eq_iff)
  then show ?thesis
    using fs fsp runs by (simp add: unallocated_enumerates_free_space_over_p4_fixture_def unallocated_def with_reader_def
        unallocated_runs_def)
qed

end
