(* ===== verification/Test_Forensic.thy ===== *)
theory Test_Forensic
  imports Auditor Fixture
begin

text \<open>
  The test modules of the crate \<^verbatim>\<open>forensic\<close>: the grading table and the notes of \<^verbatim>\<open>lib.rs\<close>, and the pure
  checks of the analyzers.
\<close>

subsection \<open>Grades and notes\<close>

definition severity_cases :: "(anomaly_kind \<times> severity) list" where
  "severity_cases =
     [(ObjectChecksumMismatch 1 2 3, High), (OmapInconsistent 1 2, High), (OmapOrphanMapping 1, Info),
      (CheckpointRingMalformed ''x'', High), (CheckpointSupersededState 1, Info), (SnapshotXidDisorder 1, Info),
      (SnapshotMissingMetadata (str_bytes ''s''), Medium), (SnapshotDivergence 1, Info),
      (SealedVolumeHashMismatch 1, High), (SealedVolumeBroken 1, High), (DeletedInodeRecoverable 1, Medium),
      (DeletedExtentCarveCandidate 1, Low), (ReaperPendingObject 1, Low), (CloneSharedExtent 1 2, Info),
      (CloneFlagWithoutSharing 1, Low), (EncryptionLocked, Info), (EncryptionState (str_bytes ''d''), Info),
      (EncryptionKeybagAnomaly 0x99 16, Medium), (TimestampZeroed 1, Info), (TimestampOrder 1, Info), (XidReuse 1 2, High),
      (OrphanInode 1, Low), (VolumeRoleMismatch (str_bytes ''r''), Info)]"

text \<open>The code of the trait is the inherent one, so their comparison in the test is not repeated.\<close>

definition severity_matches_design_table :: bool where
  "severity_matches_design_table \<longleftrightarrow>
     list_all (\<lambda>(k, want). take 5 (code k) = ''APFS-'' \<and> note_text k \<noteq> [] \<and> severity_of k = want) severity_cases"

definition note_carries_raw_offending_values :: bool where
  "note_carries_raw_offending_values \<longleftrightarrow>
     (let n = note_text (ObjectChecksumMismatch 4660 0xaa 0xbb)
      in contains n (str_bytes ''4660'') \<and> contains n (str_bytes ''aa'') \<and> contains n (str_bytes ''bb''))
     \<and> (let n = note_text (EncryptionKeybagAnomaly 0x7f 64)
        in contains n (str_bytes ''0x7f'') \<and> contains n (str_bytes ''64''))
     \<and> contains (note_text (SnapshotMissingMetadata (str_bytes ''APFSP5.snap1''))) (str_bytes ''APFSP5.snap1'')"

text \<open>\<^verbatim>\<open>to_lowercase\<close> of a text in ASCII.\<close>

definition to_lowercase :: "rust_string \<Rightarrow> rust_string" where
  "to_lowercase s = map (\<lambda>b. if 65 \<le> b \<and> b \<le> 90 then b + 32 else b) s"

definition notes_are_observations_not_verdicts :: bool where
  "notes_are_observations_not_verdicts \<longleftrightarrow>
     (let n = to_lowercase (note_text (SealedVolumeHashMismatch 5))
      in \<not> contains n (str_bytes ''proves'') \<and> \<not> contains n (str_bytes ''confirms'')
         \<and> \<not> contains n (str_bytes ''modified by''))"

text \<open>Every kind of anomaly is in the table, in the order of the type.\<close>

lemma severity_cases_complete: "map (\<lambda>(k, s). kind_index k) severity_cases = [0..<length codes]"
  by (simp add: severity_cases_def codes_def upt_conv_Cons)

lemma code_prefix: "take 5 (code k) = ''APFS-''"
  by (cases k) simp_all

lemma note_not_empty: "note_text k \<noteq> []"
  by (cases k) (simp_all add: str_bytes_def)

text \<open>A value in the middle of a note is contained in it.\<close>

lemma contains_append1: "contains ys needle \<Longrightarrow> contains (xs @ ys) needle"
  by (induction xs) simp_all

lemma contains_append2: "contains xs needle \<Longrightarrow> contains (xs @ ys) needle"
proof (induction xs)
  case Nil
  then show ?case by (cases ys) simp_all
next
  case (Cons x xs)
  show ?case
  proof (cases "take (length needle) (x # xs) = needle")
    case True
    then have "(x # xs) @ ys = needle @ drop (length needle) (x # xs) @ ys"
      by (metis append_take_drop_id append.assoc)
    then show ?thesis by (simp only: contains_prefix)
  next
    case False
    then show ?thesis using Cons by simp
  qed
qed

lemma contains_self: "contains s s"
  using contains_prefix [of s "[]"] by simp

lemma contains_Cons: "contains s needle \<Longrightarrow> contains (x # s) needle"
  by simp

lemmas contains_parts = contains_self contains_append1 contains_append2 contains_Cons

lemma decimal_values:
  "fmt_dec 4660 = str_bytes ''4660''" "fmt_dec 64 = str_bytes ''64''" "fmt_dec 42 = str_bytes ''42''"
  "fmt_dec 16 = str_bytes ''16''"
  by (simp_all add: fmt_dec_def digits_large digits_small digit_byte_def str_bytes_def)

lemma hex_values:
  "digits 16 0xaa = str_bytes ''aa''" "digits 16 0xbb = str_bytes ''bb''"
  "fmt_hex 4 0x7f = str_bytes ''0x7f''" "fmt_hex 4 0x55 = str_bytes ''0x55''"
  by (simp_all add: fmt_hex_def digits_large digits_small digit_byte_def str_bytes_def)

lemma note_values_tests_hold: "severity_matches_design_table" "note_carries_raw_offending_values"
proof -
  show "severity_matches_design_table"
    by (simp add: severity_matches_design_table_def severity_cases_def code_prefix note_not_empty)
  show "note_carries_raw_offending_values"
    unfolding note_carries_raw_offending_values_def Let_def note_text.simps
    by (simp add: decimal_values hex_values fmt_hex_def [of 18] contains_parts del: contains.simps)
qed

lemma verdict_test_holds: "notes_are_observations_not_verdicts"
proof -
  have "to_lowercase (note_text (SealedVolumeHashMismatch 5)) = note_text (SealedVolumeHashMismatch 5)"
    by (simp add: to_lowercase_def str_bytes_def fmt_dec_def digits_small digit_byte_def)
  then show ?thesis
    by (simp add: notes_are_observations_not_verdicts_def str_bytes_def fmt_dec_def digits_small digit_byte_def)
qed

subsection \<open>The analyzers\<close>

definition no_sharing_no_flags_is_clean :: bool where
  "no_sharing_no_flags_is_clean \<longleftrightarrow> clone_anomalies [] [] = []"

definition shared_extent_is_a_provenance_link :: bool where
  "shared_extent_is_a_provenance_link \<longleftrightarrow>
     (let v = clone_anomalies [(10, 20)] [] in length v = 1 \<and> code (v ! 0) = ''APFS-CLONE-SHARED-EXTENT'')"

definition clone_flag_without_sharing_is_inconsistency :: bool where
  "clone_flag_without_sharing_is_inconsistency \<longleftrightarrow>
     (let v = clone_anomalies [] [7] in length v = 1 \<and> code (v ! 0) = ''APFS-CLONE-FLAG-WITHOUT-SHARING'')"

definition unencrypted_clean_keybag_has_no_findings :: bool where
  "unencrypted_clean_keybag_has_no_findings \<longleftrightarrow> crypto_anomalies False (str_bytes ''encrypted=false'') [] = []"

definition encrypted_volume_is_locked_and_reported :: bool where
  "encrypted_volume_is_locked_and_reported \<longleftrightarrow>
     (let v = crypto_anomalies True (str_bytes ''encrypted=true, tags=[VolumeKey]'') []; c = map code v
      in ''APFS-ENCRYPTION-LOCKED'' \<in> set c \<and> ''APFS-ENCRYPTION-STATE'' \<in> set c)"

definition unknown_tag_yields_keybag_anomaly_with_value :: bool where
  "unknown_tag_yields_keybag_anomaly_with_value \<longleftrightarrow>
     (let v = crypto_anomalies True (str_bytes ''d'') [(0x55, 16)]
      in case find (\<lambda>a. code a = ''APFS-ENCRYPTION-KEYBAG-ANOMALY'') v of
           None \<Rightarrow> False
         | Some anomaly \<Rightarrow>
             let n = note_text anomaly in contains n (str_bytes ''0x55'') \<and> contains n (str_bytes ''16''))"

definition unique_oids_are_clean :: bool where
  "unique_oids_are_clean \<longleftrightarrow> duplicate_oid_anomalies [(1, 10), (2, 11), (3, 12)] 5 = []"

definition same_oid_two_blocks_is_xid_reuse :: bool where
  "same_oid_two_blocks_is_xid_reuse \<longleftrightarrow>
     (let v = duplicate_oid_anomalies [(1, 10), (2, 11), (1, 99)] 7
      in length v = 1 \<and> code (v ! 0) = ''APFS-XID-REUSE'')"

definition same_oid_same_block_is_not_flagged :: bool where
  "same_oid_same_block_is_not_flagged \<longleftrightarrow> duplicate_oid_anomalies [(1, 10), (1, 10)] 7 = []"

definition no_pending_objects_is_clean :: bool where
  "no_pending_objects_is_clean \<longleftrightarrow> reaper_anomalies [] = []"

definition pending_objects_become_residue_leads :: bool where
  "pending_objects_become_residue_leads \<longleftrightarrow>
     (let v = reaper_anomalies [500, 600]
      in length v = 2 \<and> list_all (\<lambda>a. code a = ''APFS-REAPER-PENDING-OBJECT'') v)"

definition intact_seal_has_no_findings :: bool where
  "intact_seal_has_no_findings \<longleftrightarrow> sealed_anomalies 0 = []"

definition broken_xid_is_flagged_with_value :: bool where
  "broken_xid_is_flagged_with_value \<longleftrightarrow>
     (let v = sealed_anomalies 42
      in length v = 1 \<and> code (v ! 0) = ''APFS-SEALED-VOLUME-BROKEN'' \<and> contains (note_text (v ! 0)) (str_bytes ''42''))"

definition ascending_xid_and_time_is_clean :: bool where
  "ascending_xid_and_time_is_clean \<longleftrightarrow> snapshot_xid_disorder [(1, 100), (2, 200), (3, 300)] = []"

definition later_xid_older_time_is_disorder :: bool where
  "later_xid_older_time_is_disorder \<longleftrightarrow>
     (let v = snapshot_xid_disorder [(1, 100), (2, 300), (3, 200)]
      in length v = 1 \<and> code (v ! 0) = ''APFS-SNAPSHOT-XID-DISORDER'')"

definition zero_create_times_are_not_disorder :: bool where
  "zero_create_times_are_not_disorder \<longleftrightarrow> snapshot_xid_disorder [(1, 0), (2, 0)] = []"

definition all_set_and_ordered_is_clean :: bool where
  "all_set_and_ordered_is_clean \<longleftrightarrow> timestamp_anomalies 7 100 200 300 400 = []"

definition zeroed_among_siblings_is_flagged :: bool where
  "zeroed_among_siblings_is_flagged \<longleftrightarrow> map code (timestamp_anomalies 7 0 200 300 400) = [''APFS-TIMESTAMP-ZEROED'']"

definition all_zero_is_not_flagged :: bool where
  "all_zero_is_not_flagged \<longleftrightarrow> timestamp_anomalies 7 0 0 0 0 = []"

definition change_before_create_is_order_lead :: bool where
  "change_before_create_is_order_lead \<longleftrightarrow>
     ''APFS-TIMESTAMP-ORDER'' \<in> set (map code (timestamp_anomalies 7 300 300 100 300))"

lemma analyzer_tests_hold:
  "no_sharing_no_flags_is_clean" "shared_extent_is_a_provenance_link" "clone_flag_without_sharing_is_inconsistency"
  "unencrypted_clean_keybag_has_no_findings" "encrypted_volume_is_locked_and_reported"
  "no_pending_objects_is_clean" "pending_objects_become_residue_leads" "intact_seal_has_no_findings"
  "ascending_xid_and_time_is_clean" "later_xid_older_time_is_disorder" "zero_create_times_are_not_disorder"
  "all_set_and_ordered_is_clean" "zeroed_among_siblings_is_flagged" "all_zero_is_not_flagged"
  "change_before_create_is_order_lead"
  by (simp_all add: no_sharing_no_flags_is_clean_def shared_extent_is_a_provenance_link_def
      clone_flag_without_sharing_is_inconsistency_def unencrypted_clean_keybag_has_no_findings_def
      encrypted_volume_is_locked_and_reported_def no_pending_objects_is_clean_def pending_objects_become_residue_leads_def
      intact_seal_has_no_findings_def ascending_xid_and_time_is_clean_def later_xid_older_time_is_disorder_def
      zero_create_times_are_not_disorder_def all_set_and_ordered_is_clean_def zeroed_among_siblings_is_flagged_def
      all_zero_is_not_flagged_def change_before_create_is_order_lead_def clone_anomalies_def crypto_anomalies_def
      reaper_anomalies_def sealed_anomalies_def snapshot_xid_disorder_def timestamp_anomalies_def)

lemma reuse_tests_hold:
  "unique_oids_are_clean" "same_oid_two_blocks_is_xid_reuse" "same_oid_same_block_is_not_flagged"
  by (simp_all add: unique_oids_are_clean_def same_oid_two_blocks_is_xid_reuse_def same_oid_same_block_is_not_flagged_def
      duplicate_oid_anomalies_def upt_conv_Cons)

lemma value_tests_hold: "unknown_tag_yields_keybag_anomaly_with_value" "broken_xid_is_flagged_with_value"
  by (simp_all add: unknown_tag_yields_keybag_anomaly_with_value_def broken_xid_is_flagged_with_value_def
      crypto_anomalies_def sealed_anomalies_def decimal_values hex_values contains_parts del: contains.simps)

end
