(* ===== verification/Spec2Isabelle.thy ===== *)
theory Spec2Isabelle
  imports Shared_Handle Sample_Panic Sample_Unlock Well_Typed Test_Image Test_Blocks Test_Dir Test_Vfs Test_Forensic
begin

text \<open>
  A verification development for \<^verbatim>\<open>apfs-forensic\<close>: a reader of APFS images (\<^verbatim>\<open>src/core/src\<close>) and
  an auditor over it (\<^verbatim>\<open>src/forensic/src\<close>).

  \<^bold>\<open>The program.\<close> A container image is opened by reading the bootstrap superblock, scanning the
  checkpoint ring for the newest verified superblock, and collecting its ephemeral mappings
  (\<^verbatim>\<open>container.rs\<close>, \<^verbatim>\<open>checkpoint.rs\<close>, \<^verbatim>\<open>lib.rs\<close>). Objects are verified with a Fletcher-64 checksum
  (\<^verbatim>\<open>object.rs\<close>) and addressed either by block or through an object map, a B-tree from (oid, xid) to
  blocks (\<^verbatim>\<open>btree.rs\<close>, \<^verbatim>\<open>omap.rs\<close>). A volume (\<^verbatim>\<open>volume.rs\<close>) has a file-system tree of typed records
  (\<^verbatim>\<open>fsrecord.rs\<close>) whose nodes are virtual; directories, inodes, extents and attributes are read
  from it (\<^verbatim>\<open>dir.rs\<close>, \<^verbatim>\<open>inode.rs\<close>, \<^verbatim>\<open>extent.rs\<close>, \<^verbatim>\<open>xattr.rs\<close>), file content is decompressed
  (\<^verbatim>\<open>compression.rs\<close>) and decrypted under a key unlocked from keybags (\<^verbatim>\<open>encryption.rs\<close>). Snapshots
  (\<^verbatim>\<open>snapshot.rs\<close>), free space (\<^verbatim>\<open>spaceman.rs\<close>), pending deletions (\<^verbatim>\<open>reaper.rs\<close>) and seals
  (\<^verbatim>\<open>sealed.rs\<close>) complete the reader; \<^verbatim>\<open>vfs.rs\<close> offers a volume as a shared file-system handle.
  The auditor turns what the reader sees into graded anomalies.

  \<^bold>\<open>Theories and sources.\<close>
  \<^item> \<open>Prelude\<close>: machine integers, errors (\<^verbatim>\<open>ApfsError\<close>), slices, the byte source with its contract
    (locale \<open>byte_source\<close>), shared list facts. \<open>Bytes\<close>: \<^verbatim>\<open>bytes.rs\<close>. \<open>Utf8\<close>: the standard library's
    lossy decoding and \<^verbatim>\<open>decode_cstr\<close>. \<open>Display\<close>: number formatting and the error messages.
  \<^item> \<open>Object\<close>: \<^verbatim>\<open>object.rs\<close>, with the algebra of the checksum and \<open>seal_block\<close>, which completes a
    block with its checksum.
  \<^item> \<open>Tree_Walk\<close>, \<open>Tree_Search\<close>: abstract trees and the contract (locale \<open>tree_walk\<close>) of the three
    descents of the reader. \<open>Btree\<close>: \<^verbatim>\<open>btree.rs\<close>, the physical instance. \<open>Node_Encoding\<close>: a writer of
    nodes and its round trip. \<open>Object_Map\<close>: \<^verbatim>\<open>omap.rs\<close>.
  \<^item> \<open>Container\<close> (\<^verbatim>\<open>container.rs\<close>, \<^verbatim>\<open>fusion.rs\<close>), \<open>Checkpoint\<close> (\<^verbatim>\<open>checkpoint.rs\<close>), \<open>Apfs_Container\<close>
    (\<^verbatim>\<open>lib.rs\<close>).
  \<^item> \<open>Fsrecord\<close>, \<open>Inodes\<close>, \<open>Volume\<close>, \<open>Encryption\<close>: \<^verbatim>\<open>fsrecord.rs\<close>, \<^verbatim>\<open>inode.rs\<close>, \<^verbatim>\<open>volume.rs\<close>,
    \<^verbatim>\<open>encryption.rs\<close>.
  \<^item> \<open>Dir\<close> (\<^verbatim>\<open>dir.rs\<close>, the virtual instance of the walk with pruning), \<open>Extent\<close>, \<open>Xattr\<close>,
    \<open>Compression\<close> (also \<^verbatim>\<open>read_data\<close> of \<^verbatim>\<open>extent.rs\<close>).
  \<^item> \<open>Spaceman\<close>, \<open>Reaper\<close>, \<open>Sealed\<close>, \<open>Snapshot\<close> (the third instance of the walk), \<open>Vfs\<close>.
  \<^item> \<open>Device\<close>, \<open>Device_Reads\<close>, \<open>Shared_Handle\<close>: the byte source with its position as a state monad,
    the reads behind a mounted handle with their \<^verbatim>\<open>seek\<close> and \<^verbatim>\<open>read_exact\<close> calls (\<^verbatim>\<open>btree.rs\<close>, \<^verbatim>\<open>omap.rs\<close>,
    \<^verbatim>\<open>dir.rs\<close>, \<^verbatim>\<open>extent.rs\<close>, \<^verbatim>\<open>xattr.rs\<close>, \<^verbatim>\<open>compression.rs\<close>, \<^verbatim>\<open>spaceman.rs\<close>) and the calls of \<^verbatim>\<open>vfs.rs\<close>
    on a handle whose lock owns such a device.
  \<^item> \<open>Anomaly\<close> and \<open>Auditor\<close>: the auditor's \<^verbatim>\<open>lib.rs\<close>, \<^verbatim>\<open>timestamps.rs\<close>, \<^verbatim>\<open>crypto.rs\<close>, \<^verbatim>\<open>snapshots.rs\<close>,
    \<^verbatim>\<open>integrity.rs\<close>, \<^verbatim>\<open>clones.rs\<close>, \<^verbatim>\<open>recovery.rs\<close>, \<^verbatim>\<open>sealed.rs\<close>.
  \<^item> \<open>Panic_Free\<close>: which operations cannot panic, composed up to the mounted handle and the audit.
    \<open>Fuzz_Targets\<close>: the harnesses of \<^verbatim>\<open>fuzz/fuzz_targets\<close>.
  \<^item> \<open>Keybag\<close>: what the readers of \<^verbatim>\<open>encryption.rs\<close> make of written keybags, up to the unlock round
    trip. \<open>Unlock_Check\<close>: the command-line tool \<^verbatim>\<open>core/examples/unlock_check.rs\<close>. \<open>Locked\<close>: volumes read
    without their key.
  \<^item> \<open>Well_Typed\<close>: the strings that come out of an image.
  \<^item> \<open>Fixture\<close>: buffers built by range stores, the way the unit tests build them, and assertions.
    \<open>Node_Stores\<close>: a node written entry by entry in place is the encoded node. The test modules:
    \<open>Test_Encryption\<close> and \<open>Test_Image\<close> (\<^verbatim>\<open>encryption.rs\<close>), \<open>Test_Spaceman\<close> (\<^verbatim>\<open>spaceman.rs\<close>), \<open>Test_Blocks\<close> (\<^verbatim>\<open>bytes.rs\<close>,
    \<^verbatim>\<open>fusion.rs\<close>, \<^verbatim>\<open>reaper.rs\<close>, \<^verbatim>\<open>sealed.rs\<close>), \<open>Test_Snapshot\<close> (\<^verbatim>\<open>snapshot.rs\<close>, with the volume images its
    tests build), \<open>Test_Dir\<close> (\<^verbatim>\<open>dir.rs\<close>), \<open>Test_Vfs\<close> (\<^verbatim>\<open>vfs.rs\<close>), \<open>Test_Forensic\<close> (the auditor).
  \<^item> \<open>Sample_Volume\<close>, \<open>Sample_Snapshot\<close>, \<open>Sample_Handle\<close>, \<open>Sample_Audit\<close>, \<open>Sample_Panic\<close>, \<open>Sample_Unlock\<close>:
    concrete images, built with the encoders and sealed symbolically, at which the theorems on stored
    images are applied.

  \<^bold>\<open>State and operations.\<close> A structure of the source is a record with the source's fields, an
  enumeration a datatype, an integer a word of its width; \<^verbatim>\<open>usize\<close> is a natural number. A reader
  (\<^verbatim>\<open>Read + Seek\<close>) is a function from offset and length to bytes or a fault. That every operation
  behind a handle seeks before it reads, so that this function is enough, is a theorem over the
  device with a position (definitions with the suffix \<^verbatim>\<open>_on\<close>), not an assumption; the opening of a
  container and the auditor are written over the function only. Operations return \<open>apfs_error + 'a\<close>; an arithmetic panic is the value
  \<open>Panic\<close>. A visitor closure is a fold function with its captured variables as the state. A call on
  a mounted handle returns the reply and the handle, whose lock a panic poisons.

  \<^bold>\<open>What is shown.\<close>
  \<^item> Walks: each descent succeeds exactly when the image stores a finite tree with distinct node
    identifiers and height at most 64, and then visits its entries in order, once. The keyed walk
    and the keyed lookups lose nothing against full scans of ordered trees.
  \<^item> Stored volumes: object-map resolution is the floor in transaction order; listing, lookup, path
    resolution, stream assembly and attributes implement their abstract counterparts; a mounted
    snapshot, given the key the volume held, reads the volume as it stood, whatever was written since.
  \<^item> Bootstrap: the live checkpoint is the newest verified superblock of the ring with the mappings
    of its transaction, and the open container carries it.
  \<^item> Parsers: round trips through the documented layouts, gates on magic, type, checksum and ranges,
    bounds on what a hostile field can cause.
  \<^item> Free space: the runs enumerated in one pass are exactly the blocks the single-block query calls
    free. Reaper: the chain is read exactly when it is finite and duplicate-free.
  \<^item> Key chain: a volume key comes out exactly when every link succeeds, from records of the volume's
    own UUID; an image that stores a chain unlocks to its key and to nothing else; the tool that reads
    ranges prints the verdict of the whole-image unlock and exits with its code; a volume whose root does not verify under the
    key it holds answers every read with that one error. Compression: whole output or an error.
  \<^item> Handle: windowed reads terminate with the content, the sizes of attributes and of uncompressed
    files are listed as reads deliver them, and calls that share a handle and the position of its
    device do not disturb each other. Audit: each reported anomaly stands for exactly one
    condition of the image, and its note determines it.
  \<^item> Panics: opening and auditing arbitrary bytes panics exactly when the descriptor area of the first
    superblock runs past the 64-bit address space, and no call on an opened handle panics.
  \<^item> Types: every name and link target taken out of an image is valid UTF-8 without a NUL byte.
  \<^item> Unit tests: a test is a proposition. Those over built buffers and built volume images hold; those
    over committed disk images are stated for an arbitrary image, with the conditions under which they
    hold. The images the snapshot tests build are covered for arbitrary snapshots: they are listed and
    named as written.
  \<^item> Some theorems exhibit behaviour the source or its documentation does not intend: an unchecked
    addition in the ring scan, a block address among virtual identifiers in the snapshot descent,
    volumes an audit passes over, snapshot anomalies that are documented and not reported, a snapshot
    mounted without the key of its volume, and stream listings of compressed files and of attributes
    past the first 65536.

  \<^bold>\<open>Bounds.\<close> The descents recurse on the distance to the source's own depth cap of 64 and the reap
  chain on its cap of 4096 lists, so no fuel is added; \<open>find_leaf_loop\<close> has the 64 iterations of the
  source. Loops over a buffer recurse on the bytes left. The client loop \<open>read_to_end\<close> is a partial
  function whose termination is a theorem.

  \<^bold>\<open>Parameters.\<close> AES-XTS, AES key unwrap and PBKDF2 (record \<open>crypto\<close>), the compression codecs and the
  decmpfs constants (record \<open>decmpfs_lib\<close>), SHA-256, the calendar conversion, the files of the host and
  the text of a host I/O error are arguments of the definitions that use them. The only facts assumed
  of them are that a cipher keeps the length of its input, that decryption, key unwrap and the codecs
  invert the encoders they are paired with, and that an opened file reads as its bytes.

  \<^bold>\<open>Not modelled.\<close> The \<^verbatim>\<open>forensic_vfs\<close> and report types appear only with the variants and fields the
  sources build or match, and constant answers of the adapter (\<^verbatim>\<open>kind\<close>, \<^verbatim>\<open>timestamp_zone\<close>) are left
  out; getters of a structure are the record's selectors. The integration tests assert values of disk
  images that are not in the sources; of the unit tests that do, what the assertions amount to on an
  arbitrary image is stated, not that a particular image passes. A panic inside a
  third-party crate (the XTS crate on an area with a short trailing fragment) has no counterpart.
  Capacity hints and the release-mode wrap-around of an overflowing
  addition have no counterpart: an overflow is a panic here.
\<close>

end
